(* ===== verification/Prelude.thy ===== *)
theory Prelude
  imports Main "HOL-Library.AList" "HOL-Library.Word" "HOL-Library.Multiset"
begin

text \<open>
  The shared base of the development: Go maps as association lists, Go's 64-bit \<open>int\<close> and
  \<open>time.Duration\<close> with their wrap-around and saturation, RFC3339 timestamps, and the
  generic lemmas on lists, maps and step relations that the component theories use.

  A Go \<open>map[K]V\<close> is an association list with distinct keys. The position of an entry stands
  for the place at which a \<open>range\<close> over the map meets it: Go leaves that order unspecified,
  and every theorem below quantifies over all lists, so over all orders.
\<close>

section \<open>Go maps\<close>

type_synonym ('k, 'v) gomap = "('k \<times> 'v) list"

named_theorems gomap_simps
named_theorems time_simps

abbreviation gm_wf :: "('k, 'v) gomap \<Rightarrow> bool" where
  "gm_wf m \<equiv> distinct (map fst m)"

abbreviation gm_has :: "('k, 'v) gomap \<Rightarrow> 'k \<Rightarrow> bool" where
  "gm_has m k \<equiv> map_of m k \<noteq> None"

lemma map_of_update [gomap_simps, simp]:
  "map_of (AList.update k v m) j = (if j = k then Some v else map_of m j)"
  by (simp add: update_conv')

lemma map_of_delete [gomap_simps, simp]:
  "map_of (AList.delete k m) j = (if j = k then None else map_of m j)"
  by (simp add: delete_conv')

lemma gm_wf_update [intro, simp]: "gm_wf m \<Longrightarrow> gm_wf (AList.update k v m)"
  by (rule distinct_update)

lemma gm_wf_delete [intro, simp]: "gm_wf m \<Longrightarrow> gm_wf (AList.delete k m)"
  by (rule distinct_delete)

lemma set_update_conv:
  "gm_wf m \<Longrightarrow> set (AList.update k v m) = insert (k, v) {e \<in> set m. fst e \<noteq> k}"
  by (induction m) (auto simp: image_iff)

lemma set_delete_conv: "set (AList.delete k m) = {e \<in> set m. fst e \<noteq> k}"
  by (auto simp: AList.delete_eq)

lemma gm_mem_iff: "gm_wf m \<Longrightarrow> (k, v) \<in> set m \<longleftrightarrow> map_of m k = Some v"
  by (auto dest: map_of_SomeD)

lemma keys_update: "fst ` set (AList.update k v m) = insert k (fst ` set m)"
  using dom_update [of k v m] by (simp add: dom_map_of_conv_image_fst)

lemma keys_delete: "fst ` set (AList.delete k m) = fst ` set m - {k}"
  by (auto simp: set_delete_conv)

lemma gm_has_iff: "gm_has m k \<longleftrightarrow> k \<in> fst ` set m"
  by (metis map_of_eq_None_iff)

lemma map_of_filter:
  "gm_wf m \<Longrightarrow>
   map_of (filter P m) k = (case map_of m k of None \<Rightarrow> None | Some v \<Rightarrow> if P (k, v) then Some v else None)"
  by (induction m) (auto split: option.splits simp: map_of_eq_None_iff)

lemma gm_wf_filter [simp]: "gm_wf m \<Longrightarrow> gm_wf (filter P m)"
  by (rule distinct_map_filter)

lemma gm_wf_map_val:
  "(\<And>e. e \<in> set m \<Longrightarrow> fst (f e) = fst e) \<Longrightarrow> map fst (map f m) = map fst m"
  by (induction m) auto

lemma map_of_map_snd: "map_of (map (\<lambda>(k, v). (k, f k v)) m) k = map_option (f k) (map_of m k)"
  by (induction m) auto

lemma map_view_update:
  "map_of m k = Some v \<Longrightarrow> f w = f v \<Longrightarrow>
   map (\<lambda>(k, v). (k, f v)) (AList.update k w m) = map (\<lambda>(k, v). (k, f v)) m"
  by (induction m) auto

lemma count_update:
  "gm_wf m \<Longrightarrow> map_of m k = Some v \<Longrightarrow>
   length (filter P (map snd (AList.update k w m))) + (if P v then 1 else 0) =
   length (filter P (map snd m)) + (if P w then 1 else 0)"
proof (induction m)
  case (Cons e m)
  obtain j u where e: "e = (j, u)" by (cases e)
  show ?case
  proof (cases "j = k")
    case True
    with Cons.prems e show ?thesis by simp
  next
    case False
    with Cons.prems e have "map_of m k = Some v" "gm_wf m" by simp_all
    with Cons.IH False e show ?thesis by simp
  qed
qed simp

section \<open>Machine integers and time\<close>

text \<open>
  Go's \<open>int\<close> (64 bits on every platform the program is built for) and \<open>time.Duration\<close> are
  two's complement and wrap; \<open>time.Time.Sub\<close> saturates. A point in time is a number of
  nanoseconds from the Unix epoch; the zero \<open>time.Time\<close> is midnight, 1 January of year 1.
\<close>

type_synonym instant = int
type_synonym duration = int

definition wrap64 :: "int \<Rightarrow> int" where
  "wrap64 x = (x + 2 ^ 63) mod 2 ^ 64 - 2 ^ 63"

lemma wrap64_id [time_simps]: "- (2 ^ 63) \<le> x \<Longrightarrow> x < 2 ^ 63 \<Longrightarrow> wrap64 x = x"
  by (simp add: wrap64_def)

lemma wrap64_range: "- (2 ^ 63) \<le> wrap64 x \<and> wrap64 x < 2 ^ 63"
  by (simp add: wrap64_def)

definition Second :: duration where "Second = 1000000000"

definition Minute :: duration where "Minute = 60 * Second"

definition Hour :: duration where "Hour = 60 * Minute"

definition zero_time :: instant where "zero_time = - 62135596800 * 1000000000"

definition time_Sub :: "instant \<Rightarrow> instant \<Rightarrow> duration" where
  "time_Sub t u = max (- (2 ^ 63)) (min (2 ^ 63 - 1) (t - u))"

definition seconds :: "int \<Rightarrow> duration" where
  "seconds n = wrap64 (n * Second)"

lemma seconds_small [time_simps]:
  "0 \<le> n \<Longrightarrow> n \<le> 9223372036 \<Longrightarrow> seconds n = n * Second"
  by (simp add: seconds_def Second_def wrap64_def)

lemma time_Sub_gt_iff [time_simps]:
  "- (2 ^ 63) \<le> d \<Longrightarrow> d < 2 ^ 63 - 1 \<Longrightarrow> d < time_Sub t u \<longleftrightarrow> d < t - u"
  by (auto simp: time_Sub_def)

lemma time_Sub_lt_iff [time_simps]:
  "- (2 ^ 63) < d \<Longrightarrow> d \<le> 2 ^ 63 - 1 \<Longrightarrow> time_Sub t u < d \<longleftrightarrow> t - u < d"
  by (auto simp: time_Sub_def)

text \<open>
  A timestamp field is a string that is either empty, or parsed by \<open>time.Parse(time.RFC3339, _)\<close>
  to an instant, or rejected by it; the code looks at nothing else of it. Formatting an instant
  keeps whole seconds.
\<close>

datatype stamp = NoStamp | Stamp instant | BadStamp string

definition format_rfc3339 :: "instant \<Rightarrow> stamp" where
  "format_rfc3339 t = Stamp (t div Second * Second)"

primrec parse_rfc3339 :: "stamp \<Rightarrow> instant option" where
  "parse_rfc3339 NoStamp = None"
| "parse_rfc3339 (Stamp t) = Some t"
| "parse_rfc3339 (BadStamp s) = None"

lemma format_rfc3339_neq [simp]: "format_rfc3339 t \<noteq> NoStamp"
  by (simp add: format_rfc3339_def)

lemma parse_format: "parse_rfc3339 (format_rfc3339 t) = Some (t div Second * Second)"
  by (simp add: format_rfc3339_def)

section \<open>Strings\<close>

text \<open>\<open>strings.SplitN(s, sep, 2)\<close> for a one-byte separator, and its n-fold form.\<close>

fun splitN :: "nat \<Rightarrow> char \<Rightarrow> string \<Rightarrow> string list" where
  "splitN 0 c s = []"
| "splitN (Suc 0) c s = [s]"
| "splitN (Suc (Suc n)) c s =
     (case dropWhile (\<lambda>x. x \<noteq> c) s of
        [] \<Rightarrow> [s]
      | _ # rest \<Rightarrow> takeWhile (\<lambda>x. x \<noteq> c) s # splitN (Suc n) c rest)"

lemma takeWhile_neq_append: "c \<notin> set a \<Longrightarrow> takeWhile (\<lambda>x. x \<noteq> c) (a @ c # b) = a"
  by (induction a) auto

lemma dropWhile_neq_append: "c \<notin> set a \<Longrightarrow> dropWhile (\<lambda>x. x \<noteq> c) (a @ c # b) = c # b"
  by (induction a) auto

lemma splitN_join2:
  "c \<notin> set a \<Longrightarrow> splitN 2 c (a @ c # b) = [a, b]"
  by (simp add: numeral_2_eq_2 dropWhile_neq_append takeWhile_neq_append)

section \<open>Steps and invariants\<close>

text \<open>A system of steps with an invariant: what every reachable state satisfies.\<close>

locale invariant_system =
  fixes start :: "'s \<Rightarrow> bool"
    and step :: "'s \<Rightarrow> 's \<Rightarrow> bool"
    and inv :: "'s \<Rightarrow> bool"
  assumes inv_start: "start s \<Longrightarrow> inv s"
    and inv_step: "inv s \<Longrightarrow> step s t \<Longrightarrow> inv t"
begin

lemma inv_steps: "step\<^sup>*\<^sup>* s t \<Longrightarrow> inv s \<Longrightarrow> inv t"
  by (induction rule: rtranclp_induct) (auto intro: inv_step)

lemma inv_reachable: "start s \<Longrightarrow> step\<^sup>*\<^sup>* s t \<Longrightarrow> inv t"
  by (blast intro: inv_steps inv_start)

end

section \<open>Lists\<close>

lemma find_Some_iff_first:
  "List.find P xs = Some x \<longleftrightarrow> (\<exists>ys zs. xs = ys @ x # zs \<and> P x \<and> (\<forall>y\<in>set ys. \<not> P y))"
proof (induction xs)
  case Nil
  then show ?case by simp
next
  case (Cons a xs)
  show ?case
  proof (cases "P a")
    case True
    then show ?thesis by (auto simp: Cons_eq_append_conv)
  next
    case False
    with Cons.IH show ?thesis
      by (auto simp: Cons_eq_append_conv) (metis append_Cons set_ConsD)
  qed
qed

lemma find_SomeD: "List.find P xs = Some x \<Longrightarrow> x \<in> set xs \<and> P x"
  by (auto simp: find_Some_iff_first)

lemma find_None_ball: "List.find P xs = None \<longleftrightarrow> (\<forall>x\<in>set xs. \<not> P x)"
  by (auto simp: find_None_iff)

end
