(* ===== verification/SafeMap.thy ===== *)
theory SafeMap
  imports Prelude
begin

text \<open>
  \<open>pkg/safemap\<close>: the generic map with its own lock that every table of the provider is. Each
  method takes the lock for its whole body, so one definition is one atomic step. The locale
  \<open>keyed_store\<close> states what clients of the map rely on; the interpretation \<open>sm\<close> discharges it
  for the methods below.
\<close>

section \<open>The methods\<close>

definition Map_New :: "('k, 'v) gomap" where
  "Map_New = []"

definition Map_Get :: "('k, 'v) gomap \<Rightarrow> 'k \<Rightarrow> 'v option" where
  "Map_Get m key = map_of m key"

definition Map_Set :: "('k, 'v) gomap \<Rightarrow> 'k \<Rightarrow> 'v \<Rightarrow> ('k, 'v) gomap" where
  "Map_Set m key val = AList.update key val m"

definition Map_Delete :: "('k, 'v) gomap \<Rightarrow> 'k \<Rightarrow> ('k, 'v) gomap" where
  "Map_Delete m key = AList.delete key m"

definition Map_Len :: "('k, 'v) gomap \<Rightarrow> nat" where
  "Map_Len m = length m"

definition Map_Has :: "('k, 'v) gomap \<Rightarrow> 'k \<Rightarrow> bool" where
  "Map_Has m key = (map_of m key \<noteq> None)"

text \<open>The copy loop of \<open>Snapshot\<close>: every entry is stored into a fresh map.\<close>

definition Map_Snapshot :: "('k, 'v) gomap \<Rightarrow> ('k, 'v) gomap" where
  "Map_Snapshot m = fold (\<lambda>(k, v) cp. AList.update k v cp) m []"

definition Map_Values :: "('k, 'v) gomap \<Rightarrow> 'v list" where
  "Map_Values m = fold (\<lambda>(k, v) vals. vals @ [v]) m []"

definition Map_Keys :: "('k, 'v) gomap \<Rightarrow> 'k list" where
  "Map_Keys m = fold (\<lambda>(k, v) keys. keys @ [k]) m []"

text \<open>\<open>Range\<close>: the callback may change what it captures, here the state \<open>s\<close>.\<close>

fun Map_Range :: "('k \<Rightarrow> 'v \<Rightarrow> 's \<Rightarrow> bool \<times> 's) \<Rightarrow> ('k, 'v) gomap \<Rightarrow> 's \<Rightarrow> 's" where
  "Map_Range fn [] s = s"
| "Map_Range fn ((k, v) # m) s =
     (let (go, s') = fn k v s in if \<not> go then s' else Map_Range fn m s')"

definition Map_SetIfAbsent :: "('k, 'v) gomap \<Rightarrow> 'k \<Rightarrow> 'v \<Rightarrow> bool \<times> ('k, 'v) gomap" where
  "Map_SetIfAbsent m key val =
     (if map_of m key \<noteq> None then (False, m) else (True, AList.update key val m))"

definition Map_GetAndDelete :: "('k, 'v) gomap \<Rightarrow> 'k \<Rightarrow> 'v option \<times> ('k, 'v) gomap" where
  "Map_GetAndDelete m key =
     (map_of m key, if map_of m key \<noteq> None then AList.delete key m else m)"

text \<open>\<open>m.m[key] += delta\<close> reads 0 where the key is absent, and Go's \<open>int\<close> wraps.\<close>

definition Increment :: "('k, int) gomap \<Rightarrow> 'k \<Rightarrow> int \<Rightarrow> int \<times> ('k, int) gomap" where
  "Increment m key delta =
     (let m' = AList.update key (wrap64 (case map_of m key of None \<Rightarrow> 0 + delta | Some v \<Rightarrow> v + delta)) m
      in (case map_of m' key of None \<Rightarrow> 0 | Some v \<Rightarrow> v, m'))"

lemmas Map_defs = Map_Get_def Map_Set_def Map_Delete_def Map_Has_def

section \<open>The copies a caller gets\<close>

lemma fold_update_eq:
  "gm_wf (cp @ m) \<Longrightarrow> fold (\<lambda>(k, v) c. AList.update k v c) m cp = cp @ m"
proof (induction m arbitrary: cp)
  case Nil
  then show ?case by simp
next
  case (Cons e m)
  obtain k v where e: "e = (k, v)" by (cases e)
  from Cons.prems e have "k \<notin> fst ` set cp" by auto
  then have "AList.update k v cp = cp @ [(k, v)]"
    by (induction cp) auto
  moreover have "fold (\<lambda>(k, v) c. AList.update k v c) m (cp @ [(k, v)]) = (cp @ [(k, v)]) @ m"
    by (rule Cons.IH) (use Cons.prems e in auto)
  ultimately show ?case using e by simp
qed

lemma Snapshot_eq [simp]: "gm_wf m \<Longrightarrow> Map_Snapshot m = m"
  using fold_update_eq [of "[]" m] by (simp add: Map_Snapshot_def)

lemma Values_acc: "fold (\<lambda>(k, v) vals. vals @ [v]) m acc = acc @ map snd m"
  by (induction m arbitrary: acc) auto

lemma Values_eq [simp]: "Map_Values m = map snd m"
  by (simp add: Map_Values_def Values_acc)

lemma Keys_acc: "fold (\<lambda>(k, v) keys. keys @ [k]) m acc = acc @ map fst m"
  by (induction m arbitrary: acc) auto

lemma Keys_eq [simp]: "Map_Keys m = map fst m"
  by (simp add: Map_Keys_def Keys_acc)

section \<open>The contract of a keyed store\<close>

locale keyed_store =
  fixes emp :: "'m"
    and look :: "'m \<Rightarrow> 'k \<Rightarrow> 'v option"
    and put :: "'m \<Rightarrow> 'k \<Rightarrow> 'v \<Rightarrow> 'm"
    and rem :: "'m \<Rightarrow> 'k \<Rightarrow> 'm"
    and ok :: "'m \<Rightarrow> bool"
  assumes look_emp: "look emp j = None"
    and look_put: "ok m \<Longrightarrow> look (put m k v) j = (if j = k then Some v else look m j)"
    and look_rem: "ok m \<Longrightarrow> look (rem m k) j = (if j = k then None else look m j)"
    and ok_emp: "ok emp"
    and ok_put: "ok m \<Longrightarrow> ok (put m k v)"
    and ok_rem: "ok m \<Longrightarrow> ok (rem m k)"
begin

lemma look_put_put: "ok m \<Longrightarrow> look (put (put m k v) k w) = look (put m k w)"
  by (rule ext) (simp add: look_put ok_put)

lemma look_put_rem: "ok m \<Longrightarrow> look m k = None \<Longrightarrow> look (rem (put m k v) k) = look m"
  by (rule ext) (simp add: look_put look_rem ok_put)

lemma look_put_swap:
  "ok m \<Longrightarrow> j \<noteq> k \<Longrightarrow> look (put (put m j v) k w) = look (put (put m k w) j v)"
  by (rule ext) (simp add: look_put ok_put)

text \<open>A test-and-set on an absent key has one winner: the second attempt sees the first.\<close>

lemma claim_once:
  assumes "ok m" and "look m k = None"
  shows "look (put m k v) k \<noteq> None \<and> look (rem (put m k v) k) k = None"
  using assms by (simp add: look_put look_rem ok_put)

end

interpretation sm: keyed_store Map_New Map_Get Map_Set Map_Delete gm_wf
  by unfold_locales (auto simp: Map_New_def Map_Get_def Map_Set_def Map_Delete_def)

section \<open>Properties\<close>

text \<open>\<open>SetIfAbsent\<close> stores exactly when the key was absent, and never changes another key.\<close>

lemma SetIfAbsent_spec:
  "Map_SetIfAbsent m k v =
     (map_of m k = None, if map_of m k = None then Map_Set m k v else m)"
  by (simp add: Map_SetIfAbsent_def Map_Set_def)

lemma Range_all:
  "(\<And>k v s. fst (fn k v s)) \<Longrightarrow> Map_Range fn m s = fold (\<lambda>(k, v) t. snd (fn k v t)) m s"
  by (induction m arbitrary: s) (auto simp: Let_def split_beta)

lemma Increment_value:
  "fst (Increment m k d) = wrap64 ((case map_of m k of None \<Rightarrow> 0 | Some v \<Rightarrow> v) + d)"
  by (auto simp: Increment_def Let_def split: option.splits)

lemma Increment_look:
  "Map_Get (snd (Increment m k d)) j =
     (if j = k then Some (fst (Increment m k d)) else Map_Get m j)"
  by (auto simp: Increment_def Let_def Map_Get_def split: option.splits)

end
