(* ===== verification/NetIP.thy ===== *)
theory NetIP
  imports Prelude
begin

text \<open>
  What the program uses of Go's package \<open>net\<close>: addresses, subnets, and their text forms.
  A \<open>net.IP\<close> is taken up to \<open>IP.Equal\<close>: the 4-byte form and the 16-byte v4-in-v6 form of an
  address are the one value \<open>IPv4 w\<close>, any other 16-byte address is \<open>IPv6 w\<close>; a nil \<open>net.IP\<close>
  is the \<open>None\<close> of an option type. All the calls of the program (\<open>Equal\<close>, \<open>To4\<close>, \<open>Contains\<close>,
  \<open>Mask.Size\<close>, \<open>String\<close>, \<open>ParseIP\<close>, \<open>ParseCIDR\<close>) respect that equivalence.
\<close>

unbundle bit_operations_syntax

section \<open>Addresses and subnets\<close>

datatype ip = IPv4 "32 word" | IPv6 "128 word"

record ipnet =
  net_IP :: ip
  net_ones :: nat
  net_bits :: nat

text \<open>The mask with \<open>h\<close> low host bits cleared, as \<open>CIDRMask\<close> makes it.\<close>

definition host_mask :: "nat \<Rightarrow> 'a::len word" where
  "host_mask h = NOT (mask h)"

definition Mask_Size :: "ipnet \<Rightarrow> nat \<times> nat" where
  "Mask_Size n = (net_ones n, net_bits n)"

definition host_bits :: "ipnet \<Rightarrow> nat" where
  "host_bits n = net_bits n - net_ones n"

definition Contains :: "ipnet \<Rightarrow> ip \<Rightarrow> bool" where
  "Contains n a =
     (case (net_IP n, a) of
        (IPv4 x, IPv4 y) \<Rightarrow> x AND host_mask (host_bits n) = y AND host_mask (host_bits n)
      | (IPv6 x, IPv6 y) \<Rightarrow> x AND host_mask (host_bits n) = y AND host_mask (host_bits n)
      | _ \<Rightarrow> False)"

text \<open>Subnets as \<open>ParseCIDR\<close> returns them: the address is masked, the prefix fits.\<close>

definition ipnet_wf :: "ipnet \<Rightarrow> bool" where
  "ipnet_wf n \<longleftrightarrow> net_ones n \<le> net_bits n \<and>
     (case net_IP n of
        IPv4 w \<Rightarrow> host_bits n \<le> 32 \<and> w AND mask (host_bits n) = 0
      | IPv6 w \<Rightarrow> host_bits n \<le> 128 \<and> w AND mask (host_bits n) = 0)"

section \<open>Decimal and hexadecimal digits\<close>

definition digit_val :: "char \<Rightarrow> nat option" where
  "digit_val c = (let n = of_char c in if 48 \<le> n \<and> n \<le> 57 then Some (n - 48) else None)"

definition hex_val :: "char \<Rightarrow> nat option" where
  "hex_val c = (let n = of_char c in
     if 48 \<le> n \<and> n \<le> 57 then Some (n - 48)
     else if 97 \<le> n \<and> n \<le> 102 then Some (n - 87)
     else if 65 \<le> n \<and> n \<le> 70 then Some (n - 55)
     else None)"

definition digit_char :: "nat \<Rightarrow> char" where
  "digit_char n = char_of (48 + n)"

definition hex_char :: "nat \<Rightarrow> char" where
  "hex_char n = (if n < 10 then char_of (48 + n) else char_of (87 + n))"

fun dec :: "nat \<Rightarrow> string" where
  "dec n = (if n < 10 then [digit_char n] else dec (n div 10) @ [digit_char (n mod 10)])"

fun hex :: "nat \<Rightarrow> string" where
  "hex n = (if n < 16 then [hex_char n] else hex (n div 16) @ [hex_char (n mod 16)])"

declare dec.simps [simp del] hex.simps [simp del]

lemma digit_val_char [simp]: "n < 10 \<Longrightarrow> digit_val (digit_char n) = Some n"
  by (simp add: digit_val_def digit_char_def Let_def)

lemma digit_val_dot [simp]: "digit_val (CHR ''.'') = None"
  by (simp add: digit_val_def)

section \<open>Parsing\<close>

text \<open>\<open>netip.parseIPv4Fields\<close>: the octet read so far, its number of digits, the octets before it.\<close>

fun parseIPv4Fields :: "nat \<Rightarrow> nat \<Rightarrow> nat list \<Rightarrow> string \<Rightarrow> nat list option" where
  "parseIPv4Fields val dl fs [] = (if length fs < 3 then None else Some (fs @ [val]))"
| "parseIPv4Fields val dl fs (c # s) =
     (case digit_val c of
        Some d \<Rightarrow>
          if dl = 1 \<and> val = 0 then None
          else if 255 < val * 10 + d then None
          else parseIPv4Fields (val * 10 + d) (Suc dl) fs s
      | None \<Rightarrow>
          if c = CHR ''.'' then
            (if dl = 0 \<or> s = [] then None
             else if length fs = 3 then None
             else parseIPv4Fields 0 0 (fs @ [val]) s)
          else None)"

definition be32 :: "nat list \<Rightarrow> 32 word" where
  "be32 bs = of_nat (foldl (\<lambda>a b. a * 256 + b) 0 bs)"

definition parseIPv4 :: "string \<Rightarrow> 32 word option" where
  "parseIPv4 s = map_option be32 (parseIPv4Fields 0 0 [] s)"

text \<open>The digits at the front of an IPv6 group: at most four, the rest of the string.\<close>

fun hex_group :: "nat \<Rightarrow> nat \<Rightarrow> string \<Rightarrow> (nat \<times> nat \<times> string) option" where
  "hex_group off acc [] = Some (off, acc, [])"
| "hex_group off acc (c # s) =
     (case hex_val c of
        None \<Rightarrow> Some (off, acc, c # s)
      | Some d \<Rightarrow> if 3 < off then None else hex_group (Suc off) (acc * 16 + d) s)"

text \<open>
  \<open>netip.parseIPv6\<close>, the loop over groups: 16-bit groups read so far (at most eight), the
  position of the ellipsis. The result is the groups, the ellipsis, and what is left of the text.
  The fuel is the number of groups that still fit.
\<close>

fun ipv6_groups :: "nat \<Rightarrow> nat list \<Rightarrow> nat option \<Rightarrow> string \<Rightarrow> (nat list \<times> nat option \<times> string) option" where
  "ipv6_groups 0 gs el s = Some (gs, el, s)"
| "ipv6_groups (Suc n) gs el s =
     (case hex_group 0 0 s of
        None \<Rightarrow> None
      | Some (off, acc, r) \<Rightarrow>
          if off = 0 then None
          else if r \<noteq> [] \<and> hd r = CHR ''.'' then
            (if el = None \<and> length gs \<noteq> 6 then None
             else if 6 < length gs then None
             else (case parseIPv4Fields 0 0 [] s of
                     None \<Rightarrow> None
                   | Some fs \<Rightarrow>
                       Some (gs @ [fs ! 0 * 256 + fs ! 1, fs ! 2 * 256 + fs ! 3], el, [])))
          else (case r of
                  [] \<Rightarrow> Some (gs @ [acc], el, [])
                | c # r' \<Rightarrow>
                    if c \<noteq> CHR '':'' then None
                    else (case r' of
                            [] \<Rightarrow> None
                          | d # r'' \<Rightarrow>
                              if d = CHR '':'' then
                                (if el \<noteq> None then None
                                 else if r'' = [] then Some (gs @ [acc], Some (length gs + 1), [])
                                 else ipv6_groups n (gs @ [acc]) (Some (length gs + 1)) r'')
                              else ipv6_groups n (gs @ [acc]) el r')))"

definition expand_groups :: "nat list \<Rightarrow> nat option \<Rightarrow> nat list option" where
  "expand_groups gs el =
     (if length gs < 8 then
        (case el of
           None \<Rightarrow> None
         | Some e \<Rightarrow> Some (take e gs @ replicate (8 - length gs) 0 @ drop e gs))
      else if el \<noteq> None then None else Some gs)"

definition be128 :: "nat list \<Rightarrow> 128 word" where
  "be128 gs = of_nat (foldl (\<lambda>a g. a * 65536 + g) 0 gs)"

definition parseIPv6_groups :: "string \<Rightarrow> nat list option" where
  "parseIPv6_groups s =
     (if take 2 s = ''::'' then
        (if drop 2 s = [] then Some (replicate 8 0)
         else (case ipv6_groups 8 [] (Some 0) (drop 2 s) of
                 Some (gs, el, []) \<Rightarrow> expand_groups gs el
               | _ \<Rightarrow> None))
      else (case ipv6_groups 8 [] None s of
              Some (gs, el, []) \<Rightarrow> expand_groups gs el
            | _ \<Rightarrow> None))"

text \<open>\<open>IP.To4\<close> on sixteen bytes: the v4-in-v6 prefix is the address it holds.\<close>

definition ip_of_groups :: "nat list \<Rightarrow> ip" where
  "ip_of_groups gs =
     (if take 6 gs = [0, 0, 0, 0, 0, 65535] then IPv4 (of_nat (gs ! 6 * 65536 + gs ! 7))
      else IPv6 (be128 gs))"

text \<open>\<open>netip.ParseAddr\<close> with the number of bits of the address it read (32 or 128).\<close>

definition ParseAddr :: "string \<Rightarrow> (ip \<times> nat) option" where
  "ParseAddr s =
     (case List.find (\<lambda>c. c = CHR ''.'' \<or> c = CHR '':'' \<or> c = CHR ''%'') s of
        None \<Rightarrow> None
      | Some c \<Rightarrow>
          if c = CHR ''.'' then map_option (\<lambda>w. (IPv4 w, 32)) (parseIPv4 s)
          else if c = CHR '':'' then map_option (\<lambda>gs. (ip_of_groups gs, 128)) (parseIPv6_groups s)
          else None)"

definition ParseIP :: "string \<Rightarrow> ip option" where
  "ParseIP s = map_option fst (ParseAddr s)"

definition dtoi :: "string \<Rightarrow> nat option" where
  "dtoi s =
     (if s = [] \<or> (\<exists>c\<in>set s. digit_val c = None) then None
      else Some (foldl (\<lambda>n c. n * 10 + (case digit_val c of None \<Rightarrow> 0 | Some d \<Rightarrow> d)) 0 s))"

definition mask_ip :: "nat \<Rightarrow> ip \<Rightarrow> ip" where
  "mask_ip h a = (case a of IPv4 w \<Rightarrow> IPv4 (w AND host_mask h) | IPv6 w \<Rightarrow> IPv6 (w AND host_mask h))"

text \<open>
  A v4-in-v6 address written with a prefix of fewer than 96 bits masks to an IPv6 network, the
  one case where masking leaves the 4-byte form.
\<close>

definition mask_addr :: "ip \<Rightarrow> nat \<Rightarrow> nat \<Rightarrow> ip" where
  "mask_addr a bits n =
     (case a of
        IPv4 w \<Rightarrow> if 32 < bits - n then mask_ip (bits - n) (IPv6 (ucast w + push_bit 32 65535))
                  else mask_ip (bits - n) a
      | IPv6 w \<Rightarrow> mask_ip (bits - n) a)"

definition ParseCIDR :: "string \<Rightarrow> (ip \<times> ipnet) option" where
  "ParseCIDR s =
     (case splitN 2 (CHR ''/'') s of
        [addr, m] \<Rightarrow>
          (case ParseAddr addr of
             None \<Rightarrow> None
           | Some (a, bits) \<Rightarrow>
               (case dtoi m of
                  None \<Rightarrow> None
                | Some n \<Rightarrow>
                    if bits < n then None
                    else Some (a, \<lparr>net_IP = mask_addr a bits n, net_ones = n, net_bits = bits\<rparr>)))
      | _ \<Rightarrow> None)"

section \<open>Printing\<close>

definition octets :: "32 word \<Rightarrow> nat list" where
  "octets w = (let n = unat w in
     [n div 16777216, n div 65536 mod 256, n div 256 mod 256, n mod 256])"

definition groups :: "128 word \<Rightarrow> nat list" where
  "groups w = map (\<lambda>i. unat w div 65536 ^ (7 - i) mod 65536) [0..<8]"

text \<open>The longest run of at least two zero groups, the first of the longest.\<close>

definition zero_run :: "nat list \<Rightarrow> nat \<Rightarrow> nat" where
  "zero_run gs i = length (takeWhile (\<lambda>g. g = 0) (drop i gs))"

definition longest_run :: "nat list \<Rightarrow> (nat \<times> nat) option" where
  "longest_run gs =
     fold (\<lambda>i best.
        let l = zero_run gs i in
        if 2 \<le> l \<and> (case best of None \<Rightarrow> True | Some (s, e) \<Rightarrow> e - s < l) then Some (i, i + l) else best)
       [0..<8] None"

definition colon_hex :: "nat list \<Rightarrow> string" where
  "colon_hex gs = concat (map (\<lambda>i. (if 0 < i then '':'' else []) @ hex (gs ! i)) [0..<length gs])"

definition string6 :: "nat list \<Rightarrow> string" where
  "string6 gs =
     (case longest_run gs of
        None \<Rightarrow> colon_hex gs
      | Some (s, e) \<Rightarrow> colon_hex (take s gs) @ ''::'' @ colon_hex (drop e gs))"

definition dotted :: "nat list \<Rightarrow> string" where
  "dotted bs = dec (bs ! 0) @ ''.'' @ dec (bs ! 1) @ ''.'' @ dec (bs ! 2) @ ''.'' @ dec (bs ! 3)"

definition IP_String :: "ip \<Rightarrow> string" where
  "IP_String a = (case a of IPv4 w \<Rightarrow> dotted (octets w) | IPv6 w \<Rightarrow> string6 (groups w))"

section \<open>Text round trips\<close>

lemma dec_1: "a < 10 \<Longrightarrow> dec a = [digit_char a]"
  by (simp add: dec.simps)

lemma dec_2: "10 \<le> a \<Longrightarrow> a < 100 \<Longrightarrow> dec a = [digit_char (a div 10), digit_char (a mod 10)]"
  by (simp add: dec.simps [of a] dec_1)

lemma dec_3:
  "100 \<le> a \<Longrightarrow> a < 1000 \<Longrightarrow>
   dec a = [digit_char (a div 100), digit_char (a div 10 mod 10), digit_char (a mod 10)]"
  by (simp add: dec.simps [of a] dec_2 div_mult2_eq [symmetric])

lemma parseIPv4Fields_dec:
  assumes "a < 256"
  shows "parseIPv4Fields 0 0 fs (dec a @ s) = parseIPv4Fields a (length (dec a)) fs s"
proof -
  consider "a < 10" | "10 \<le> a \<and> a < 100" | "100 \<le> a \<and> a < 1000"
    using assms by linarith
  then show ?thesis
  proof cases
    case 1
    then show ?thesis by (simp add: dec_1)
  next
    case 2
    then have d: "0 < a div 10" "a div 10 < 10" "(255 < a div 10) = False" "a div 10 * 10 + a mod 10 = a"
      by auto
    with 2 show ?thesis by (auto simp: dec_2)
  next
    case 3
    then have d: "0 < a div 100" "a div 100 < 10" "a div 10 mod 10 < 10" by auto
    have e: "(a div 100 * 10 + a div 10 mod 10) = a div 10"
      using div_mult2_eq [of a 10 10] div_mult_mod_eq [of "a div 10" 10] by simp
    have f: "a div 10 * 10 + a mod 10 = a" by simp
    have "\<not> 255 < a div 10" "\<not> 255 < a div 100" "\<not> 255 < a" using assms by auto
    with 3 d e f show ?thesis by (simp add: dec_3)
  qed
qed

lemma dec_nonempty [simp]: "dec a \<noteq> []"
  by (simp add: dec.simps [of a])

lemma parseIPv4Fields_dot:
  "a < 256 \<Longrightarrow> length fs < 3 \<Longrightarrow> s \<noteq> [] \<Longrightarrow>
   parseIPv4Fields 0 0 fs (dec a @ CHR ''.'' # s) = parseIPv4Fields 0 0 (fs @ [a]) s"
  by (simp add: parseIPv4Fields_dec)

lemma parseIPv4Fields_last:
  "a < 256 \<Longrightarrow> length fs = 3 \<Longrightarrow> parseIPv4Fields 0 0 fs (dec a) = Some (fs @ [a])"
  using parseIPv4Fields_dec [of a fs "[]"] by simp

lemma parseIPv4_dotted:
  "a < 256 \<Longrightarrow> b < 256 \<Longrightarrow> c < 256 \<Longrightarrow> d < 256 \<Longrightarrow>
   parseIPv4Fields 0 0 [] (dotted [a, b, c, d]) = Some [a, b, c, d]"
  by (simp add: dotted_def parseIPv4Fields_dot parseIPv4Fields_last)

lemma octets_bounds:
  "octets w = [a, b, c, d] \<Longrightarrow> a < 256 \<and> b < 256 \<and> c < 256 \<and> d < 256"
  using unsigned_less [where ?'a = nat, of w] by (auto simp: octets_def Let_def)

lemma be32_octets: "be32 (octets w) = w"
proof -
  have step: "m div (k * 256) * 256 + m div k mod 256 = m div k" for m k :: nat
    by (metis div_mult2_eq div_mult_mod_eq)
  have "foldl (\<lambda>a b. a * 256 + b) 0 (octets w) = unat w"
    using step [of "unat w" 65536] step [of "unat w" 256] step [of "unat w" 1]
    by (simp add: octets_def Let_def)
  then show ?thesis by (simp add: be32_def)
qed

lemma parseIPv4_IP_String: "parseIPv4 (dotted (octets w)) = Some w"
proof -
  obtain a b c d where o: "octets w = [a, b, c, d]"
    by (simp add: octets_def Let_def)
  show ?thesis
    using parseIPv4_dotted [of a b c d] octets_bounds [OF o] be32_octets [of w] o
    by (simp add: parseIPv4_def)
qed

lemma dec_digits: "c \<in> set (dec n) \<Longrightarrow> \<exists>d<10. c = digit_char d"
proof (induction n rule: dec.induct)
  case (1 n)
  have "\<exists>d<10. digit_char (n mod 10) = digit_char d"
    by (rule exI [of _ "n mod 10"]) simp
  with 1 show ?case
    by (cases "n < 10") (auto simp: dec.simps [of n])
qed

lemma digit_char_inj: "d < 10 \<Longrightarrow> of_char (digit_char d) = 48 + d"
  by (simp add: digit_char_def)

lemma dec_no_sep: "c \<in> set (dec n) \<Longrightarrow> 48 \<le> (of_char c :: nat) \<and> (of_char c :: nat) \<le> 57"
  by (auto dest!: dec_digits simp: digit_char_inj)

lemma dec_no_dot: "CHR ''.'' \<notin> set (dec n) \<and> CHR '':'' \<notin> set (dec n)
   \<and> CHR ''%'' \<notin> set (dec n) \<and> CHR ''/'' \<notin> set (dec n)"
  using dec_no_sep by fastforce

lemma find_dec_dot:
  "List.find (\<lambda>c. c = CHR ''.'' \<or> c = CHR '':'' \<or> c = CHR ''%'') (dec n @ CHR ''.'' # s) = Some (CHR ''.'')"
  unfolding find_Some_iff_first
  by (rule exI [of _ "dec n"], rule exI [of _ s]) (use dec_no_dot [of n] in auto)

lemma ParseAddr_IP_String: "ParseAddr (IP_String (IPv4 w)) = Some (IPv4 w, 32)"
  using parseIPv4_IP_String [of w] find_dec_dot
  by (simp add: ParseAddr_def IP_String_def dotted_def)

lemma ParseIP_IP_String_v4: "ParseIP (IP_String (IPv4 w)) = Some (IPv4 w)"
  by (simp add: ParseIP_def ParseAddr_IP_String)

lemma dec_value:
  "foldl (\<lambda>n c. n * 10 + (case digit_val c of None \<Rightarrow> 0 | Some d \<Rightarrow> d)) 0 (dec n) = n"
proof (induction n rule: dec.induct)
  case (1 n)
  then show ?case
    by (cases "n < 10") (simp_all add: dec.simps [of n])
qed

lemma dtoi_dec: "dtoi (dec n) = Some n"
proof -
  have "\<not> (\<exists>c\<in>set (dec n). digit_val c = None)"
    using dec_digits by fastforce
  then show ?thesis by (simp add: dtoi_def dec_value)
qed

lemma IP_String_v4_no_slash: "CHR ''/'' \<notin> set (IP_String (IPv4 w))"
  using dec_no_dot by (auto simp: IP_String_def dotted_def)

lemma ParseCIDR_IP_String:
  assumes "n \<le> 32"
  shows "ParseCIDR (IP_String (IPv4 w) @ ''/'' @ dec n) =
    Some (IPv4 w, \<lparr>net_IP = IPv4 (w AND host_mask (32 - n)), net_ones = n, net_bits = 32\<rparr>)"
  using assms splitN_join2 [OF IP_String_v4_no_slash, of w "dec n"]
  by (simp add: ParseCIDR_def ParseAddr_IP_String dtoi_dec mask_addr_def mask_ip_def)

section \<open>Membership\<close>

lemma Contains_v4_iff:
  "net_IP n = IPv4 x \<Longrightarrow>
   Contains n a \<longleftrightarrow> (\<exists>y. a = IPv4 y \<and> x AND host_mask (host_bits n) = y AND host_mask (host_bits n))"
  by (auto simp: Contains_def split: ip.splits)

text \<open>An address is in a masked subnet exactly when it is the base plus a host number.\<close>

lemma and_not_mask_eq_iff:
  fixes x y :: "'a::len word"
  assumes "x AND mask h = 0"
  shows "x AND NOT (mask h) = y AND NOT (mask h) \<longleftrightarrow> y = x OR (y AND mask h)"
proof
  assume eq: "x AND NOT (mask h) = y AND NOT (mask h)"
  show "y = x OR (y AND mask h)"
  proof (rule bit_word_eqI)
    fix n
    assume n: "n < LENGTH('a)"
    have "bit (x AND NOT (mask h)) n = bit (y AND NOT (mask h)) n" using eq by simp
    moreover have "bit (x AND mask h) n = False" using assms by simp
    ultimately show "bit y n = bit (x OR (y AND mask h)) n"
      using n by (auto simp: bit_simps)
  qed
next
  assume eq: "y = x OR (y AND mask h)"
  show "x AND NOT (mask h) = y AND NOT (mask h)"
  proof (rule bit_word_eqI)
    fix n
    assume n: "n < LENGTH('a)"
    have "bit y n = bit (x OR (y AND mask h)) n" using eq by simp
    then show "bit (x AND NOT (mask h)) n = bit (y AND NOT (mask h)) n"
      using n by (auto simp: bit_simps)
  qed
qed

lemma or_mask_eq_plus:
  fixes x y :: "'a::len word"
  assumes "x AND mask h = 0"
  shows "x OR (y AND mask h) = x + (y AND mask h)"
proof (rule disjunctive_add [symmetric])
  fix n
  have "bit (x AND mask h) n = False" using assms by simp
  then show "\<not> bit x n \<or> \<not> bit (y AND mask h) n" by (auto simp: bit_simps)
qed

lemma Contains_base_plus:
  assumes wf: "ipnet_wf n" and v4: "net_IP n = IPv4 base"
  shows "Contains n (IPv4 y) \<longleftrightarrow> y = base + (y AND mask (host_bits n))"
proof -
  from wf v4 have z: "base AND mask (host_bits n) = 0" by (simp add: ipnet_wf_def)
  show ?thesis
    using and_not_mask_eq_iff [OF z, of y] or_mask_eq_plus [OF z, of y]
    by (simp add: Contains_def v4 host_mask_def)
qed

lemma Contains_offset:
  assumes wf: "ipnet_wf n" and v4: "net_IP n = IPv4 base" and lt: "unat k < 2 ^ host_bits n"
  shows "Contains n (IPv4 (base + k))"
proof -
  from wf v4 have z: "base AND mask (host_bits n) = 0" by (simp add: ipnet_wf_def)
  have k: "k AND mask (host_bits n) = k"
    using lt by (metis take_bit_eq_mask take_bit_nat_eq_self_iff unsigned_take_bit_eq word_unat_eq_iff)
  have "base + k = base OR k"
    using or_mask_eq_plus [OF z, of k] by (simp add: k)
  then show ?thesis
    using and_not_mask_eq_iff [OF z, of "base + k"] k z
    by (simp add: Contains_def v4 host_mask_def bit.conj_disj_distrib2)
qed

end
