(* ===== verification/Ipam.thy ===== *)
theory Ipam
  imports NetIP
begin

text \<open>
  \<open>pkg/network/ipam\<close>: pools of IPv4 addresses, one per network, each with a rotating cursor
  (\<open>NextIP\<close>) over an allocation range of offsets from the network base. Offsets and addresses
  are \<open>uint32\<close>, so 32-bit words that wrap. Every method of \<open>Allocator\<close> holds its mutex for its
  whole body: one definition is one atomic step. A conversion of an address that is not IPv4
  indexes a nil slice and panics in the code; here it is the error \<open>PanicNotIPv4\<close>.
\<close>

section \<open>Pools and the allocator\<close>

record pool =
  pool_Subnet :: ipnet
  pool_Gateway :: ip
  pool_Allocated :: "(string, ip) gomap"
  pool_NextIP :: "32 word"
  pool_AllocStart :: "32 word"
  pool_AllocEnd :: "32 word"

record pool_opts =
  opt_AllocStart :: "ip option"
  opt_AllocEnd :: "ip option"

type_synonym allocator = "(string, pool) gomap"

datatype ipam_error =
    PoolNotFound string
  | NotInSubnet ip ipnet
  | IsGateway ip
  | AlreadyAllocated ip string
  | NoAvailableIPs ipnet "32 word" "32 word"
  | PanicNotIPv4

definition IPToUint32 :: "ip \<Rightarrow> 32 word option" where
  "IPToUint32 a = (case a of IPv4 w \<Rightarrow> Some w | IPv6 _ \<Rightarrow> None)"

definition Uint32ToIP :: "32 word \<Rightarrow> ip" where
  "Uint32ToIP n = IPv4 n"

definition NewAllocator :: allocator where
  "NewAllocator = []"

definition maxHosts :: "ipnet \<Rightarrow> 32 word" where
  "maxHosts subnet = (let (ones, bits) = Mask_Size subnet in push_bit (bits - ones) 1 - 2)"

text \<open>The offset a range option gives: the default when absent, a panic when it is not IPv4.\<close>

definition opt_offset :: "32 word \<Rightarrow> 32 word \<Rightarrow> ip option \<Rightarrow> 32 word option" where
  "opt_offset base dflt o_ip =
     (case o_ip of None \<Rightarrow> Some dflt | Some a \<Rightarrow> map_option (\<lambda>w. w - base) (IPToUint32 a))"

definition Allocator_AddPool ::
  "allocator \<Rightarrow> string \<Rightarrow> ipnet \<Rightarrow> ip \<Rightarrow> pool_opts list \<Rightarrow> ipam_error + allocator" where
  "Allocator_AddPool a name subnet gateway opts =
     (case IPToUint32 (net_IP subnet) of
        None \<Rightarrow> Inl PanicNotIPv4
      | Some baseIP \<Rightarrow>
          (let o_start = (case opts of [] \<Rightarrow> None | op # _ \<Rightarrow> opt_AllocStart op);
               o_end = (case opts of [] \<Rightarrow> None | op # _ \<Rightarrow> opt_AllocEnd op)
           in case (opt_offset baseIP 2 o_start, opt_offset baseIP (maxHosts subnet) o_end) of
                (Some start, Some end') \<Rightarrow>
                  Inr (AList.update name
                    \<lparr>pool_Subnet = subnet, pool_Gateway = gateway, pool_Allocated = [],
                     pool_NextIP = start, pool_AllocStart = start, pool_AllocEnd = end'\<rparr> a)
              | _ \<Rightarrow> Inl PanicNotIPv4))"

definition Allocator_RemovePool :: "allocator \<Rightarrow> string \<Rightarrow> allocator" where
  "Allocator_RemovePool a name = AList.delete name a"

section \<open>Allocation\<close>

text \<open>The cursor after one attempt.\<close>

definition advance :: "pool \<Rightarrow> 32 word" where
  "advance p = (let n = pool_NextIP p + 1 in if pool_AllocEnd p < n then pool_AllocStart p else n)"

definition taken :: "pool \<Rightarrow> ip \<Rightarrow> bool" where
  "taken p a = list_ex (\<lambda>(k, existing). existing = a) (pool_Allocated p)"

text \<open>The loop of \<open>allocateFromPool\<close>, \<open>n\<close> attempts left.\<close>

fun alloc_loop :: "32 word \<Rightarrow> nat \<Rightarrow> pool \<Rightarrow> string \<Rightarrow> ip option \<times> pool" where
  "alloc_loop baseIP 0 p key = (None, p)"
| "alloc_loop baseIP (Suc n) p key =
     (let candidateIP = Uint32ToIP (baseIP + pool_NextIP p);
          p' = p\<lparr>pool_NextIP := advance p\<rparr>
      in if \<not> taken p candidateIP \<and> candidateIP \<noteq> pool_Gateway p
         then (Some candidateIP, p'\<lparr>pool_Allocated := AList.update key candidateIP (pool_Allocated p')\<rparr>)
         else alloc_loop baseIP n p' key)"

definition rangeSize :: "pool \<Rightarrow> 32 word" where
  "rangeSize p = pool_AllocEnd p - pool_AllocStart p + 1"

definition allocateFromPool :: "pool \<Rightarrow> string \<Rightarrow> (ipam_error + ip) \<times> pool" where
  "allocateFromPool p key =
     (case IPToUint32 (net_IP (pool_Subnet p)) of
        None \<Rightarrow> (Inl PanicNotIPv4, p)
      | Some baseIP \<Rightarrow>
          (case alloc_loop baseIP (unat (rangeSize p)) p key of
             (Some a, p') \<Rightarrow> (Inr a, p')
           | (None, p') \<Rightarrow>
               (Inl (NoAvailableIPs (pool_Subnet p) (baseIP + pool_AllocStart p) (baseIP + pool_AllocEnd p)), p')))"

definition Allocator_Allocate :: "allocator \<Rightarrow> string \<Rightarrow> string \<Rightarrow> (ipam_error + ip) \<times> allocator" where
  "Allocator_Allocate a poolName key =
     (case map_of a poolName of
        None \<Rightarrow> (Inl (PoolNotFound poolName), a)
      | Some p \<Rightarrow> (let (r, p') = allocateFromPool p key in (r, AList.update poolName p' a)))"

definition Allocator_AllocateStatic ::
  "allocator \<Rightarrow> string \<Rightarrow> string \<Rightarrow> ip \<Rightarrow> ipam_error option \<times> allocator" where
  "Allocator_AllocateStatic a poolName key addr =
     (case map_of a poolName of
        None \<Rightarrow> (Some (PoolNotFound poolName), a)
      | Some p \<Rightarrow>
          if \<not> Contains (pool_Subnet p) addr then (Some (NotInSubnet addr (pool_Subnet p)), a)
          else if addr = pool_Gateway p then (Some (IsGateway addr), a)
          else (case List.find (\<lambda>(k, existing). existing = addr) (pool_Allocated p) of
                  Some (k, _) \<Rightarrow> if k = key then (None, a) else (Some (AlreadyAllocated addr k), a)
                | None \<Rightarrow>
                    (None, AList.update poolName
                       (p\<lparr>pool_Allocated := AList.update key addr (pool_Allocated p)\<rparr>) a)))"

section \<open>Release, record and queries\<close>

definition Allocator_Release :: "allocator \<Rightarrow> string \<Rightarrow> string \<Rightarrow> allocator" where
  "Allocator_Release a poolName key =
     (case map_of a poolName of
        None \<Rightarrow> a
      | Some p \<Rightarrow>
          AList.update poolName (p\<lparr>pool_Allocated := AList.delete key (pool_Allocated p)\<rparr>) a)"

definition Allocator_ReleaseFromAll :: "allocator \<Rightarrow> string \<Rightarrow> allocator" where
  "Allocator_ReleaseFromAll a key =
     map (\<lambda>(n, p). (n, p\<lparr>pool_Allocated := AList.delete key (pool_Allocated p)\<rparr>)) a"

definition Allocator_Record :: "allocator \<Rightarrow> string \<Rightarrow> string \<Rightarrow> ip \<Rightarrow> allocator" where
  "Allocator_Record a poolName key addr =
     (case map_of a poolName of
        None \<Rightarrow> a
      | Some p \<Rightarrow>
          AList.update poolName (p\<lparr>pool_Allocated := AList.update key addr (pool_Allocated p)\<rparr>) a)"

definition Allocator_Get :: "allocator \<Rightarrow> string \<Rightarrow> string \<Rightarrow> ip option" where
  "Allocator_Get a poolName key =
     (case map_of a poolName of None \<Rightarrow> None | Some p \<Rightarrow> map_of (pool_Allocated p) key)"

definition Allocator_PoolAllocations :: "allocator \<Rightarrow> string \<Rightarrow> (string, ip) gomap option" where
  "Allocator_PoolAllocations a poolName =
     (case map_of a poolName of
        None \<Rightarrow> None
      | Some p \<Rightarrow> Some (fold (\<lambda>(k, v) out. AList.update k v out) (pool_Allocated p) []))"

definition Allocator_AllAllocations :: "allocator \<Rightarrow> (string, string) gomap" where
  "Allocator_AllAllocations a =
     fold (\<lambda>(n, p) out. fold (\<lambda>(k, v) out. AList.update k (IP_String v) out) (pool_Allocated p) out) a []"

definition Allocator_PoolForIP :: "allocator \<Rightarrow> ip \<Rightarrow> string" where
  "Allocator_PoolForIP a addr =
     (case List.find (\<lambda>(n, p). Contains (pool_Subnet p) addr) a of
        Some (n, _) \<Rightarrow> n
      | None \<Rightarrow> '''')"

definition broadcast_of :: "ipnet \<Rightarrow> 32 word option" where
  "broadcast_of subnet =
     (let (ones, bits) = Mask_Size subnet
      in map_option (\<lambda>baseIP. baseIP OR (push_bit (bits - ones) 1 - 1)) (IPToUint32 (net_IP subnet)))"

definition MaxUsableIP :: "ipnet \<Rightarrow> ip option" where
  "MaxUsableIP subnet = map_option (\<lambda>b. Uint32ToIP (b - 1)) (broadcast_of subnet)"

definition DNSServerIP :: "ipnet \<Rightarrow> ip option" where
  "DNSServerIP subnet = map_option (\<lambda>b. Uint32ToIP (b - 3)) (broadcast_of subnet)"

section \<open>The cursor visits the whole range\<close>

fun cursor_seq :: "32 word \<Rightarrow> 32 word \<Rightarrow> nat \<Rightarrow> 32 word \<Rightarrow> 32 word list" where
  "cursor_seq s e 0 x = []"
| "cursor_seq s e (Suc n) x = x # cursor_seq s e n (if e < x + 1 then s else x + 1)"

definition range_ok :: "pool \<Rightarrow> bool" where
  "range_ok p \<longleftrightarrow> pool_AllocStart p \<le> pool_NextIP p \<and> pool_NextIP p \<le> pool_AllocEnd p \<and> pool_AllocEnd p \<noteq> - 1"

lemma unat_succ_le:
  fixes x e :: "32 word"
  assumes "x \<le> e" and "e \<noteq> - 1"
  shows "unat (x + 1) = Suc (unat x)"
proof -
  have "x \<noteq> - 1" using assms word_order.extremum_uniqueI by auto
  then have "1 + x \<noteq> 0" by (metis add.inverse_unique minus_equation_iff)
  then show ?thesis by (simp add: unatSuc add.commute)
qed

lemma step_lt:
  fixes x e :: "32 word"
  assumes "x \<le> e" and "e \<noteq> - 1"
  shows "e < x + 1 \<longleftrightarrow> x = e"
  using unat_succ_le [OF assms] assms(1)
  by (auto simp: word_less_nat_alt word_le_nat_alt word_unat_eq_iff)

lemma cursor_seq_run:
  assumes "y \<le> e" and "e \<noteq> - 1" and "unat y + n \<le> Suc (unat e)"
  shows "set (cursor_seq s e n y) = {z. unat y \<le> unat z \<and> unat z < unat y + n}"
  using assms
proof (induction n arbitrary: y)
  case 0
  then show ?case by simp
next
  case (Suc n)
  show ?case
  proof (cases "y = e")
    case True
    with Suc.prems have "n = 0" by simp
    with True show ?thesis by (auto simp: word_unat_eq_iff)
  next
    case False
    with Suc.prems have y1: "unat (y + 1) = Suc (unat y)" "\<not> e < y + 1"
      using unat_succ_le [of y e] step_lt [of y e] by auto
    with Suc.prems have "set (cursor_seq s e n (y + 1)) = {z. Suc (unat y) \<le> unat z \<and> unat z < Suc (unat y) + n}"
      using Suc.IH [of "y + 1"] by (simp add: not_less)
    then have "set (cursor_seq s e (Suc n) y) = insert y {z. Suc (unat y) \<le> unat z \<and> unat z < Suc (unat y) + n}"
      using y1 by simp
    also have "\<dots> = {z. unat y \<le> unat z \<and> unat z < unat y + Suc n}"
      by (auto dest: word_unat_eq_iff [THEN iffD2, OF sym] simp: Suc_le_eq nat_less_le)
    finally show ?thesis .
  qed
qed

lemma cursor_seq_wrap:
  assumes "y \<le> e" and "e \<noteq> - 1"
  shows "cursor_seq s e (Suc (unat e - unat y) + m) y =
         cursor_seq s e (Suc (unat e - unat y)) y @ cursor_seq s e m s"
  using assms
proof (induction "unat e - unat y" arbitrary: y)
  case 0
  then have "y = e" by (simp add: word_le_nat_alt word_unat_eq_iff)
  with 0 step_lt [of y e] show ?case by simp
next
  case (Suc d)
  then have "y \<noteq> e" by auto
  with Suc.prems have y1: "unat (y + 1) = Suc (unat y)" "\<not> e < y + 1"
    using unat_succ_le [of y e] step_lt [of y e] by auto
  with Suc have "cursor_seq s e (Suc (unat e - unat (y + 1)) + m) (y + 1) =
      cursor_seq s e (Suc (unat e - unat (y + 1))) (y + 1) @ cursor_seq s e m s"
    by (intro Suc.hyps(1)) (auto simp: not_less)
  moreover have "unat e - unat y = Suc (unat e - unat (y + 1))"
    using y1 Suc.hyps(2) by simp
  ultimately show ?case using y1 by simp
qed

lemma cursor_seq_covers:
  assumes "s \<le> x" and "x \<le> e" and "e \<noteq> - 1"
  shows "set (cursor_seq s e (unat (e - s + 1)) x) = {s..e}"
proof -
  have le: "unat s \<le> unat x" "unat x \<le> unat e" using assms by (auto simp: word_le_nat_alt)
  have es: "unat (e - s) = unat e - unat s" using assms by (simp add: unat_sub order.trans)
  have "unat (e - s + 1) = Suc (unat e - unat s)"
    using unat_succ_le [of "e - s" e] assms es
    by (metis diff_le_self order.trans word_le_nat_alt)
  also have "\<dots> = Suc (unat e - unat x) + (unat x - unat s)" using le by simp
  finally have n: "unat (e - s + 1) = Suc (unat e - unat x) + (unat x - unat s)" .
  have "set (cursor_seq s e (Suc (unat e - unat x)) x) = {z. unat x \<le> unat z \<and> unat z < unat x + Suc (unat e - unat x)}"
    by (rule cursor_seq_run) (use assms le in auto)
  moreover have "set (cursor_seq s e (unat x - unat s) s) = {z. unat s \<le> unat z \<and> unat z < unat s + (unat x - unat s)}"
    by (rule cursor_seq_run) (use assms le in \<open>auto intro: order.trans\<close>)
  moreover have "cursor_seq s e (unat (e - s + 1)) x =
      cursor_seq s e (Suc (unat e - unat x)) x @ cursor_seq s e (unat x - unat s) s"
    unfolding n by (rule cursor_seq_wrap [OF assms(2,3)])
  ultimately show ?thesis
    using le by (auto simp: word_le_nat_alt simp del: cursor_seq.simps)
qed

section \<open>One allocation\<close>

text \<open>The addresses a pool may hand out, and those it can hand out now.\<close>

definition usable :: "pool \<Rightarrow> ip set" where
  "usable p = {a. \<exists>base off. net_IP (pool_Subnet p) = IPv4 base \<and> a = IPv4 (base + off) \<and>
     pool_AllocStart p \<le> off \<and> off \<le> pool_AllocEnd p} - {pool_Gateway p}"

definition held_ips :: "pool \<Rightarrow> ip set" where
  "held_ips p = snd ` set (pool_Allocated p)"

lemma taken_iff: "taken p a \<longleftrightarrow> a \<in> held_ips p"
  by (auto simp: taken_def held_ips_def list_ex_iff image_iff split_beta)

definition same_params :: "pool \<Rightarrow> pool \<Rightarrow> bool" where
  "same_params p q \<longleftrightarrow> pool_Subnet q = pool_Subnet p \<and> pool_Gateway q = pool_Gateway p \<and>
     pool_AllocStart q = pool_AllocStart p \<and> pool_AllocEnd q = pool_AllocEnd p"

lemma advance_range: "range_ok p \<Longrightarrow> range_ok (p\<lparr>pool_NextIP := advance p\<rparr>)"
  unfolding range_ok_def advance_def Let_def
  using step_lt [of "pool_NextIP p" "pool_AllocEnd p"] unat_succ_le [of "pool_NextIP p" "pool_AllocEnd p"]
  by (auto simp: word_le_nat_alt not_less)

lemma alloc_loop_result:
  assumes "alloc_loop base n p key = (r, p')" and "range_ok p"
  shows "same_params p p' \<and> range_ok p' \<and>
    (let tried = (\<lambda>off. IPv4 (base + off)) ` set (cursor_seq (pool_AllocStart p) (pool_AllocEnd p) n (pool_NextIP p))
     in case r of
          None \<Rightarrow> tried \<subseteq> insert (pool_Gateway p) (held_ips p) \<and> pool_Allocated p' = pool_Allocated p
        | Some a \<Rightarrow> a \<in> tried - insert (pool_Gateway p) (held_ips p) \<and>
            pool_Allocated p' = AList.update key a (pool_Allocated p))"
  using assms
proof (induction n arbitrary: p)
  case 0
  then show ?case by (auto simp: same_params_def)
next
  case (Suc n)
  let ?c = "IPv4 (base + pool_NextIP p)" and ?q = "p\<lparr>pool_NextIP := advance p\<rparr>"
  note q = advance_range [OF Suc.prems(2)]
  show ?case
  proof (cases "taken p ?c \<or> ?c = pool_Gateway p")
    case False
    with Suc.prems q show ?thesis
      by (auto simp: Let_def Uint32ToIP_def same_params_def taken_iff range_ok_def)
  next
    case True
    with Suc.prems have loop: "alloc_loop base n ?q key = (r, p')"
      by (auto simp: Let_def Uint32ToIP_def)
    have same: "held_ips ?q = held_ips p" by (simp add: held_ips_def)
    from Suc.IH [OF loop q] True same show ?thesis
      by (auto simp: Let_def same_params_def taken_iff advance_def image_subset_iff split: option.splits)
  qed
qed

text \<open>
  The abstract specification of an allocation, free of cursor and loop: some address of the
  usable set that nobody holds is given to the key, or there is none and nothing changes.
\<close>

definition alloc_spec :: "ip set \<Rightarrow> (string \<rightharpoonup> ip) \<Rightarrow> string \<Rightarrow> ip option \<Rightarrow> (string \<rightharpoonup> ip) \<Rightarrow> bool" where
  "alloc_spec U A key r A' \<longleftrightarrow>
     (case r of
        Some a \<Rightarrow> a \<in> U - ran A \<and> A' = A(key \<mapsto> a)
      | None \<Rightarrow> U \<subseteq> ran A \<and> A' = A)"

definition abs_pool :: "pool \<Rightarrow> (string \<rightharpoonup> ip)" where
  "abs_pool p = map_of (pool_Allocated p)"

lemma held_ran: "gm_wf (pool_Allocated p) \<Longrightarrow> held_ips p = ran (abs_pool p)"
  by (simp add: held_ips_def abs_pool_def ran_distinct)

lemma allocateFromPool_loop:
  assumes "net_IP (pool_Subnet p) = IPv4 base" and "range_ok p"
  obtains r p' where "alloc_loop base (unat (rangeSize p)) p key = (r, p')"
    and "same_params p p'" and "range_ok p'"
    and "case r of
           None \<Rightarrow> usable p \<subseteq> held_ips p \<and> pool_Allocated p' = pool_Allocated p
         | Some a \<Rightarrow> a \<in> usable p - held_ips p \<and> pool_Allocated p' = AList.update key a (pool_Allocated p)"
proof -
  obtain r p' where loop: "alloc_loop base (unat (rangeSize p)) p key = (r, p')" by fastforce
  have cov: "set (cursor_seq (pool_AllocStart p) (pool_AllocEnd p) (unat (rangeSize p)) (pool_NextIP p)) =
      {pool_AllocStart p..pool_AllocEnd p}"
    using assms(2) unfolding range_ok_def rangeSize_def by (intro cursor_seq_covers) auto
  have us: "usable p = (\<lambda>off. IPv4 (base + off)) ` {pool_AllocStart p..pool_AllocEnd p} - {pool_Gateway p}"
    using assms(1) by (auto simp: usable_def)
  show thesis
    by (rule that [OF loop]) (use alloc_loop_result [OF loop assms(2)] in
        \<open>auto simp: cov us Let_def split: option.splits\<close>)
qed

lemma allocateFromPool_refines:
  assumes "net_IP (pool_Subnet p) = IPv4 base" and "range_ok p" and "gm_wf (pool_Allocated p)"
  obtains r p' where "allocateFromPool p key = (r, p')"
    and "alloc_spec (usable p) (abs_pool p) key (case r of Inl _ \<Rightarrow> None | Inr a \<Rightarrow> Some a) (abs_pool p')"
    and "same_params p p'" and "range_ok p'" and "gm_wf (pool_Allocated p')"
proof -
  obtain r p' where loop: "alloc_loop base (unat (rangeSize p)) p key = (r, p')"
    and sp: "same_params p p'" "range_ok p'"
    and res: "case r of
           None \<Rightarrow> usable p \<subseteq> held_ips p \<and> pool_Allocated p' = pool_Allocated p
         | Some a \<Rightarrow> a \<in> usable p - held_ips p \<and> pool_Allocated p' = AList.update key a (pool_Allocated p)"
    using allocateFromPool_loop [OF assms(1,2)] .
  let ?r = "case r of
       Some a \<Rightarrow> Inr a
     | None \<Rightarrow> Inl (NoAvailableIPs (pool_Subnet p) (base + pool_AllocStart p) (base + pool_AllocEnd p))"
  have "allocateFromPool p key = (?r, p')"
    using assms(1) loop by (auto simp: allocateFromPool_def IPToUint32_def split: option.splits)
  then show thesis
  proof (rule that)
    show "alloc_spec (usable p) (abs_pool p) key (case ?r of Inl _ \<Rightarrow> None | Inr a \<Rightarrow> Some a) (abs_pool p')"
      using res held_ran [OF assms(3)]
      by (auto simp: alloc_spec_def abs_pool_def split: option.splits)
    show "gm_wf (pool_Allocated p')"
      using res assms(3) by (auto split: option.splits)
  qed (fact sp)+
qed

section \<open>The invariant\<close>

definition pool_wf :: "pool \<Rightarrow> bool" where
  "pool_wf p \<longleftrightarrow>
     (\<exists>base. net_IP (pool_Subnet p) = IPv4 base) \<and> ipnet_wf (pool_Subnet p) \<and> range_ok p \<and>
     unat (pool_AllocEnd p) < 2 ^ host_bits (pool_Subnet p) \<and>
     gm_wf (pool_Allocated p) \<and> inj_on (abs_pool p) (dom (abs_pool p)) \<and>
     (\<forall>a\<in>ran (abs_pool p). Contains (pool_Subnet p) a \<and> a \<noteq> pool_Gateway p)"

definition allocator_wf :: "allocator \<Rightarrow> bool" where
  "allocator_wf a \<longleftrightarrow> gm_wf a \<and> (\<forall>n p. map_of a n = Some p \<longrightarrow> pool_wf p)"

lemma usable_in_subnet:
  assumes "pool_wf p" and "a \<in> usable p"
  shows "Contains (pool_Subnet p) a \<and> a \<noteq> pool_Gateway p"
proof -
  from assms(2) obtain base off where a: "net_IP (pool_Subnet p) = IPv4 base" "a = IPv4 (base + off)"
    "off \<le> pool_AllocEnd p" "a \<noteq> pool_Gateway p"
    by (auto simp: usable_def)
  have "unat off < 2 ^ host_bits (pool_Subnet p)"
    using assms(1) a(3) by (simp add: pool_wf_def word_le_nat_alt)
  with assms(1) a show ?thesis by (simp add: pool_wf_def Contains_offset)
qed

lemma inj_on_map_upd:
  "inj_on A (dom A) \<Longrightarrow> a \<notin> ran A \<Longrightarrow> inj_on (A(k \<mapsto> a)) (dom (A(k \<mapsto> a)))"
  by (force simp: inj_on_def ran_def dom_def split: if_splits)

lemma inj_on_map_del: "inj_on A (dom A) \<Longrightarrow> inj_on (A(k := None)) (dom (A(k := None)))"
  by (auto simp: inj_on_def dom_def split: if_splits)

lemma pool_wf_give:
  assumes "pool_wf p" and "same_params p q" and "range_ok q" and "gm_wf (pool_Allocated q)"
    and "abs_pool q = (abs_pool p)(k \<mapsto> a)" and "a \<notin> ran (abs_pool p)"
    and "Contains (pool_Subnet p) a" and "a \<noteq> pool_Gateway p"
  shows "pool_wf q"
proof -
  have "ran (abs_pool q) \<subseteq> insert a (ran (abs_pool p))"
    using assms(5) by (auto simp: ran_def split: if_splits)
  moreover have "inj_on (abs_pool q) (dom (abs_pool q))"
    unfolding assms(5) using assms(1,6) by (intro inj_on_map_upd) (auto simp: pool_wf_def)
  ultimately show ?thesis
    using assms by (auto simp: pool_wf_def same_params_def)
qed

lemma pool_wf_frame:
  assumes "pool_wf p" and "same_params p q" and "range_ok q" and "gm_wf (pool_Allocated q)"
    and "abs_pool q = abs_pool p \<or> abs_pool q = (abs_pool p)(k := None)"
  shows "pool_wf q"
proof -
  have "ran (abs_pool q) \<subseteq> ran (abs_pool p)"
    using assms(5) by (auto simp: ran_def split: if_splits)
  moreover have "inj_on (abs_pool q) (dom (abs_pool q))"
    using assms(5) inj_on_map_del [of "abs_pool p" k] assms(1) by (auto simp: pool_wf_def)
  ultimately show ?thesis
    using assms(1-4) by (auto simp: pool_wf_def same_params_def)
qed

lemma allocateFromPool_wf:
  assumes "pool_wf p" and "allocateFromPool p key = (r, p')"
  shows "pool_wf p' \<and> same_params p p' \<and>
    (case r of
       Inr a \<Rightarrow> a \<in> usable p \<and> a \<notin> ran (abs_pool p) \<and> abs_pool p' = (abs_pool p)(key \<mapsto> a)
     | Inl _ \<Rightarrow> usable p \<subseteq> ran (abs_pool p) \<and> abs_pool p' = abs_pool p)"
proof -
  obtain base where base: "net_IP (pool_Subnet p) = IPv4 base" and rg: "range_ok p" "gm_wf (pool_Allocated p)"
    using assms(1) by (auto simp: pool_wf_def)
  have spec: "alloc_spec (usable p) (abs_pool p) key (case r of Inl _ \<Rightarrow> None | Inr a \<Rightarrow> Some a) (abs_pool p')"
    and sp: "same_params p p'" "range_ok p'" "gm_wf (pool_Allocated p')"
    using allocateFromPool_refines [OF base rg, of key] assms(2) by fastforce+
  show ?thesis
  proof (cases r)
    case (Inl e)
    with spec have "abs_pool p' = abs_pool p" "usable p \<subseteq> ran (abs_pool p)" by (auto simp: alloc_spec_def)
    then show ?thesis using Inl sp pool_wf_frame [OF assms(1) sp] by auto
  next
    case (Inr a)
    with spec have u: "a \<in> usable p" "a \<notin> ran (abs_pool p)" "abs_pool p' = (abs_pool p)(key \<mapsto> a)"
      by (auto simp: alloc_spec_def)
    then show ?thesis
      using Inr sp pool_wf_give [OF assms(1) sp u(3,2)] usable_in_subnet [OF assms(1) u(1)] by simp
  qed
qed

section \<open>The allocator keeps the invariant\<close>

lemma Get_abs: "Allocator_Get a n k = (case map_of a n of None \<Rightarrow> None | Some p \<Rightarrow> abs_pool p k)"
  by (simp add: Allocator_Get_def abs_pool_def split: option.splits)

lemma allocator_wf_pool: "allocator_wf a \<Longrightarrow> map_of a n = Some p \<Longrightarrow> pool_wf p"
  by (simp add: allocator_wf_def)

lemma allocator_wf_set: "allocator_wf a \<Longrightarrow> pool_wf p \<Longrightarrow> allocator_wf (AList.update n p a)"
  by (auto simp: allocator_wf_def)

lemma Allocate_cases:
  assumes "allocator_wf a" and "Allocator_Allocate a n k = (r, a')"
  shows "allocator_wf a' \<and>
    (case r of
       Inr x \<Rightarrow> (\<exists>p. map_of a n = Some p \<and> x \<in> usable p) \<and> (\<forall>j. Allocator_Get a n j \<noteq> Some x) \<and>
         (\<forall>m j. Allocator_Get a' m j = (if m = n \<and> j = k then Some x else Allocator_Get a m j))
     | Inl _ \<Rightarrow> (\<forall>p x. map_of a n = Some p \<longrightarrow> x \<in> usable p \<longrightarrow> (\<exists>j. Allocator_Get a n j = Some x)) \<and>
         Allocator_Get a' = Allocator_Get a)"
proof (cases "map_of a n")
  case None
  with assms show ?thesis by (auto simp: Allocator_Allocate_def)
next
  case (Some p)
  obtain q where q: "allocateFromPool p k = (r, q)" "a' = AList.update n q a"
    using assms(2) Some by (auto simp: Allocator_Allocate_def split: prod.splits)
  note wf = allocateFromPool_wf [OF allocator_wf_pool [OF assms(1) Some] q(1)]
  have wfa: "allocator_wf a'" using wf assms(1) q(2) by (auto intro: allocator_wf_set)
  show ?thesis
  proof (cases r)
    case (Inl e)
    with wf have e: "usable p \<subseteq> ran (abs_pool p)" "abs_pool q = abs_pool p" by auto
    from e(1) have "\<exists>j. Allocator_Get a n j = Some x" if "x \<in> usable p" for x
      using that Some by (auto simp: Get_abs ran_def subset_iff)
    moreover have "Allocator_Get a' = Allocator_Get a"
      using e(2) Some by (intro ext) (simp add: Get_abs q(2))
    ultimately show ?thesis using Inl wfa Some by simp
  next
    case (Inr x)
    with wf Some q(2) wfa show ?thesis
      by (auto simp: Get_abs ran_def split: option.splits)
  qed
qed

lemma find_held:
  assumes "pool_wf p"
  shows "List.find (\<lambda>(k, existing). existing = x) (pool_Allocated p) =
    (if x \<in> ran (abs_pool p) then Some (THE k. abs_pool p k = Some x, x) else None)"
proof (cases "List.find (\<lambda>(k, existing). existing = x) (pool_Allocated p)")
  case None
  then have "x \<notin> ran (abs_pool p)"
    using assms by (auto simp: find_None_ball abs_pool_def pool_wf_def ran_def dest: map_of_SomeD)
  with None show ?thesis by simp
next
  case (Some e)
  then have e: "snd e = x" "e \<in> set (pool_Allocated p)"
    using find_SomeD [OF Some] by auto
  then have "(fst e, x) \<in> set (pool_Allocated p)" by auto
  then have k: "abs_pool p (fst e) = Some x"
    using assms by (simp add: abs_pool_def pool_wf_def)
  have "(THE k. abs_pool p k = Some x) = fst e"
  proof (rule the_equality)
    fix j
    assume "abs_pool p j = Some x"
    with k assms show "j = fst e" by (auto simp: pool_wf_def inj_on_def dom_def)
  qed (fact k)
  with e(1) k show ?thesis by (auto simp: Some ran_def prod_eq_iff)
qed

lemma static_pool:
  assumes "allocator_wf a" and "map_of a n = Some p"
  shows "Allocator_AllocateStatic a n k x =
    (if \<not> Contains (pool_Subnet p) x then (Some (NotInSubnet x (pool_Subnet p)), a)
     else if x = pool_Gateway p then (Some (IsGateway x), a)
     else if abs_pool p k = Some x then (None, a)
     else if x \<in> ran (abs_pool p) then (Some (AlreadyAllocated x (THE j. abs_pool p j = Some x)), a)
     else (None, AList.update n (p\<lparr>pool_Allocated := AList.update k x (pool_Allocated p)\<rparr>) a))"
proof -
  note wf = allocator_wf_pool [OF assms]
  have the: "(THE j. abs_pool p j = Some x) = k \<longleftrightarrow> abs_pool p k = Some x" if "x \<in> ran (abs_pool p)"
  proof -
    from that obtain i where i: "abs_pool p i = Some x" by (auto simp: ran_def)
    have "(THE j. abs_pool p j = Some x) = i"
      using i wf by (intro the_equality) (auto simp: pool_wf_def inj_on_def dom_def)
    then show ?thesis using i wf by (auto simp: pool_wf_def inj_on_def dom_def)
  qed
  have "abs_pool p k = Some x \<Longrightarrow> x \<in> ran (abs_pool p)" by (auto simp: ran_def)
  with the show ?thesis
    by (simp add: Allocator_AllocateStatic_def assms(2) find_held [OF wf])
qed

lemma Static_cases:
  assumes "allocator_wf a" and "Allocator_AllocateStatic a n k x = (r, a')"
  shows "allocator_wf a' \<and>
    (case r of
       None \<Rightarrow> (\<forall>m j. Allocator_Get a' m j = (if m = n \<and> j = k then Some x else Allocator_Get a m j)) \<and>
         (\<forall>j. Allocator_Get a n j = Some x \<longrightarrow> j = k)
     | Some _ \<Rightarrow> a' = a)"
proof (cases "map_of a n")
  case None
  with assms show ?thesis by (auto simp: Allocator_AllocateStatic_def)
next
  case (Some p)
  note wf = allocator_wf_pool [OF assms(1) Some]
  let ?q = "p\<lparr>pool_Allocated := AList.update k x (pool_Allocated p)\<rparr>"
  have give: "pool_wf ?q"
    if "x \<notin> ran (abs_pool p)" "Contains (pool_Subnet p) x" "x \<noteq> pool_Gateway p"
    by (rule pool_wf_give [OF wf _ _ _ _ that])
      (use wf in \<open>auto simp: same_params_def range_ok_def pool_wf_def abs_pool_def\<close>)
  have uniq: "abs_pool p j = Some x \<Longrightarrow> abs_pool p k = Some x \<Longrightarrow> j = k" for j
    using wf by (auto simp: pool_wf_def inj_on_def dom_def)
  have upd: "Allocator_Get (AList.update n ?q a) m j =
      (if m = n \<and> j = k then Some x else Allocator_Get a m j)" for m j
    using Some by (auto simp: Get_abs abs_pool_def)
  note eq = assms(2) [unfolded static_pool [OF assms(1) Some]]
  show ?thesis
  proof (cases r)
    case None
    show ?thesis
    proof (cases "abs_pool p k = Some x")
      case True
      with eq None have "a' = a" by (auto split: if_splits)
      moreover have "Allocator_Get a n k = Some x" using True Some by (simp add: Get_abs)
      moreover have "\<forall>j. Allocator_Get a n j = Some x \<longrightarrow> j = k"
        using uniq [OF _ True] Some by (simp add: Get_abs)
      ultimately show ?thesis using assms(1) unfolding None option.case by metis
    next
      case False
      with eq None have new: "x \<notin> ran (abs_pool p)" "Contains (pool_Subnet p) x" "x \<noteq> pool_Gateway p"
        and a': "a' = AList.update n ?q a"
        by (auto split: if_splits)
      have "\<forall>j. Allocator_Get a n j \<noteq> Some x" using new(1) Some by (auto simp: Get_abs ran_def)
      with None a' upd allocator_wf_set [OF assms(1) give [OF new]] show ?thesis by simp
    qed
  next
    case (Some e)
    with eq have "a' = a" by (auto split: if_splits)
    with Some assms(1) show ?thesis by simp
  qed
qed

lemma Release_wf: "allocator_wf a \<Longrightarrow> allocator_wf (Allocator_Release a n k)"
proof (cases "map_of a n")
  case (Some p)
  assume wf: "allocator_wf a"
  have "pool_wf (p\<lparr>pool_Allocated := AList.delete k (pool_Allocated p)\<rparr>)"
    by (rule pool_wf_frame [OF allocator_wf_pool [OF wf Some], where k = k])
      (use allocator_wf_pool [OF wf Some] in
        \<open>auto simp: same_params_def range_ok_def pool_wf_def abs_pool_def delete_conv'\<close>)
  with wf Some show ?thesis by (simp add: Allocator_Release_def allocator_wf_set)
qed (simp add: Allocator_Release_def)

lemma Release_held:
  "Allocator_Get (Allocator_Release a n k) m j = (if m = n \<and> j = k then None else Allocator_Get a m j)"
  by (auto simp: Allocator_Release_def Allocator_Get_def split: option.splits)

lemma ReleaseFromAll_held:
  "Allocator_Get (Allocator_ReleaseFromAll a k) m j = (if j = k then None else Allocator_Get a m j)"
  by (auto simp: Allocator_ReleaseFromAll_def Allocator_Get_def map_of_map_snd split: option.splits)

lemma ReleaseFromAll_wf:
  assumes "allocator_wf a"
  shows "allocator_wf (Allocator_ReleaseFromAll a k)"
proof -
  have "pool_wf (p\<lparr>pool_Allocated := AList.delete k (pool_Allocated p)\<rparr>)" if "pool_wf p" for p
    by (rule pool_wf_frame [OF that, where k = k])
      (use that in \<open>auto simp: same_params_def range_ok_def pool_wf_def abs_pool_def delete_conv'\<close>)
  moreover have "map fst (Allocator_ReleaseFromAll a k) = map fst a"
    unfolding Allocator_ReleaseFromAll_def by (rule gm_wf_map_val) auto
  moreover have "map_of (Allocator_ReleaseFromAll a k) n =
      map_option (\<lambda>p. p\<lparr>pool_Allocated := AList.delete k (pool_Allocated p)\<rparr>) (map_of a n)" for n
    by (simp add: Allocator_ReleaseFromAll_def map_of_map_snd)
  ultimately show ?thesis
    using assms unfolding allocator_wf_def by auto
qed

section \<open>Adding pools\<close>

text \<open>The range a configuration asks for lies in the subnet and is not empty.\<close>

definition pool_cfg_ok :: "ipnet \<Rightarrow> pool_opts list \<Rightarrow> bool" where
  "pool_cfg_ok subnet opts \<longleftrightarrow> ipnet_wf subnet \<and>
     (case Allocator_AddPool [] [] subnet (net_IP subnet) opts of
        Inl _ \<Rightarrow> False
      | Inr a \<Rightarrow> list_all (\<lambda>(n, p). pool_AllocStart p \<le> pool_AllocEnd p \<and> pool_AllocEnd p \<noteq> - 1 \<and>
          unat (pool_AllocEnd p) < 2 ^ host_bits subnet) a)"

lemma AddPool_pool:
  assumes "Allocator_AddPool a n subnet gw opts = Inr a'"
  obtains p where "a' = AList.update n p a" and "pool_Subnet p = subnet" and "pool_Gateway p = gw"
    and "pool_Allocated p = []" and "pool_NextIP p = pool_AllocStart p"
    and "\<exists>base. net_IP subnet = IPv4 base"
    and "Allocator_AddPool [] [] subnet (net_IP subnet) opts = Inr [([], p\<lparr>pool_Gateway := net_IP subnet\<rparr>)]"
  using assms
  by (auto simp: Allocator_AddPool_def IPToUint32_def Let_def split: option.splits ip.splits intro: that)

lemma AddPool_wf:
  assumes "allocator_wf a" and "pool_cfg_ok subnet opts" and "Allocator_AddPool a n subnet gw opts = Inr a'"
  shows "allocator_wf a'"
proof -
  obtain p where p: "a' = AList.update n p a" "pool_Subnet p = subnet"
    "pool_Allocated p = []" "pool_NextIP p = pool_AllocStart p" "\<exists>base. net_IP subnet = IPv4 base"
    "Allocator_AddPool [] [] subnet (net_IP subnet) opts = Inr [([], p\<lparr>pool_Gateway := net_IP subnet\<rparr>)]"
    using AddPool_pool [OF assms(3)] by metis
  have "pool_wf p"
    using p assms(2) by (auto simp: pool_wf_def pool_cfg_ok_def range_ok_def abs_pool_def)
  with assms(1) p(1) show ?thesis by (simp add: allocator_wf_set)
qed

lemma maxHosts_unat:
  assumes "2 \<le> host_bits n" and "host_bits n \<le> 32"
  shows "unat (maxHosts n) = 2 ^ host_bits n - 2"
proof -
  have "maxHosts n = push_bit (host_bits n) 1 - 2"
    by (simp add: maxHosts_def Mask_Size_def host_bits_def)
  also have "\<dots> = of_nat (2 ^ host_bits n - 2)"
    using assms by (simp add: push_bit_eq_mult of_nat_diff self_le_power)
  finally have "unat (maxHosts n) = (2 ^ host_bits n - 2) mod 2 ^ 32"
    by (simp add: unsigned_of_nat take_bit_nat_def)
  moreover have "(2::nat) ^ host_bits n \<le> 2 ^ 32" using assms(2) by (rule power_increasing) simp
  moreover have "(4::nat) \<le> 2 ^ host_bits n" using power_increasing [OF assms(1), of "2::nat"] by simp
  ultimately show ?thesis by simp
qed

lemma default_range_ok:
  assumes "ipnet_wf n" and "net_IP n = IPv4 base" and "2 \<le> host_bits n"
  shows "pool_cfg_ok n []"
proof -
  have h: "host_bits n \<le> 32" using assms by (simp add: ipnet_wf_def)
  have m: "unat (maxHosts n) = 2 ^ host_bits n - 2" by (rule maxHosts_unat [OF assms(3) h])
  have b: "(4::nat) \<le> 2 ^ host_bits n" "(2::nat) ^ host_bits n \<le> 2 ^ 32"
    using power_increasing [OF assms(3), of "2::nat"] power_increasing [OF h, of "2::nat"] by auto
  have "2 \<le> maxHosts n" using m b by (simp add: word_le_nat_alt)
  moreover have "maxHosts n \<noteq> - 1"
  proof
    assume "maxHosts n = - 1"
    then have "unat (maxHosts n) = 2 ^ 32 - 1" by (simp add: unsigned_minus_1_eq_mask mask_eq_exp_minus_1)
    with m b show False by simp
  qed
  moreover have "unat (maxHosts n) < 2 ^ host_bits n" using m b by simp
  ultimately show ?thesis
    using assms by (simp add: pool_cfg_ok_def Allocator_AddPool_def IPToUint32_def opt_offset_def)
qed

section \<open>Whatever was recorded\<close>

text \<open>
  The facts about the allocator that need only that its maps are maps: nothing is said of the addresses
  that \<open>Record\<close> put there or of the ranges the pools were given.
\<close>

text \<open>The search loop, on any pool at all: what it finds is free.\<close>

lemma alloc_loop_free:
  assumes "alloc_loop base n p key = (r, p')"
  shows "same_params p p' \<and> (range_ok p \<longrightarrow> range_ok p') \<and>
    (case r of
       None \<Rightarrow> pool_Allocated p' = pool_Allocated p
     | Some a \<Rightarrow> a \<notin> held_ips p \<and> a \<noteq> pool_Gateway p \<and> pool_Allocated p' = AList.update key a (pool_Allocated p) \<and>
         (range_ok p \<longrightarrow> (\<exists>off. a = IPv4 (base + off) \<and> off \<le> pool_AllocEnd p)))"
  using assms
proof (induction n arbitrary: p)
  case 0
  then show ?case by (auto simp: same_params_def)
next
  case (Suc n)
  let ?c = "IPv4 (base + pool_NextIP p)" and ?q = "p\<lparr>pool_NextIP := advance p\<rparr>"
  show ?case
  proof (cases "taken p ?c \<or> ?c = pool_Gateway p")
    case False
    with Suc.prems advance_range [of p] show ?thesis
      by (auto simp: Let_def Uint32ToIP_def same_params_def taken_iff range_ok_def)
  next
    case True
    with Suc.prems have loop: "alloc_loop base n ?q key = (r, p')"
      by (auto simp: Let_def Uint32ToIP_def)
    have same: "held_ips ?q = held_ips p" by (simp add: held_ips_def)
    from Suc.IH [OF loop] True same advance_range [of p] show ?thesis
      by (auto simp: same_params_def split: option.splits)
  qed
qed

definition ipam_maps :: "allocator \<Rightarrow> bool" where
  "ipam_maps a \<longleftrightarrow> gm_wf a \<and> (\<forall>n p. map_of a n = Some p \<longrightarrow> gm_wf (pool_Allocated p))"

definition pool_place :: "allocator \<Rightarrow> string \<Rightarrow> (ipnet \<times> ip) option" where
  "pool_place a n = map_option (\<lambda>p. (pool_Subnet p, pool_Gateway p)) (map_of a n)"

lemma ipam_maps_set: "ipam_maps a \<Longrightarrow> gm_wf (pool_Allocated p) \<Longrightarrow> ipam_maps (AList.update n p a)"
  by (auto simp: ipam_maps_def)

lemma pool_place_set:
  "map_of a n = Some p \<Longrightarrow> pool_Subnet q = pool_Subnet p \<Longrightarrow> pool_Gateway q = pool_Gateway p \<Longrightarrow>
   pool_place (AList.update n q a) = pool_place a"
  by (auto simp: pool_place_def)

lemma allocate_pool:
  assumes "allocateFromPool p k = (r, q)"
  shows "pool_Subnet q = pool_Subnet p \<and> pool_Gateway q = pool_Gateway p \<and>
    (case r of
       Inl _ \<Rightarrow> pool_Allocated q = pool_Allocated p
     | Inr x \<Rightarrow> x \<notin> held_ips p \<and> x \<noteq> pool_Gateway p \<and> pool_Allocated q = AList.update k x (pool_Allocated p))"
proof (cases "IPToUint32 (net_IP (pool_Subnet p))")
  case None
  with assms show ?thesis by (auto simp: allocateFromPool_def)
next
  case (Some base)
  obtain o' where loop: "alloc_loop base (unat (rangeSize p)) p k = (o', q)"
    using assms Some by (auto simp: allocateFromPool_def split: prod.splits option.splits)
  from alloc_loop_free [OF loop] assms Some loop show ?thesis
    by (auto simp: allocateFromPool_def same_params_def split: option.splits)
qed

lemma maps_allocate:
  assumes "ipam_maps a" and "Allocator_Allocate a n k = (r, a')"
  shows "ipam_maps a' \<and> pool_place a' = pool_place a \<and>
    (case r of
       Inr x \<Rightarrow> (\<forall>j. Allocator_Get a n j \<noteq> Some x) \<and> (\<forall>s g. pool_place a n = Some (s, g) \<longrightarrow> x \<noteq> g) \<and>
         (\<forall>m j. Allocator_Get a' m j = (if m = n \<and> j = k then Some x else Allocator_Get a m j))
     | Inl _ \<Rightarrow> Allocator_Get a' = Allocator_Get a)"
proof (cases "map_of a n")
  case None
  with assms show ?thesis by (auto simp: Allocator_Allocate_def)
next
  case (Some p)
  obtain q where q: "allocateFromPool p k = (r, q)" "a' = AList.update n q a"
    using assms(2) Some by (auto simp: Allocator_Allocate_def split: prod.splits)
  note pool = allocate_pool [OF q(1)]
  have gm: "gm_wf (pool_Allocated p)" using assms(1) Some by (auto simp: ipam_maps_def)
  then have "gm_wf (pool_Allocated q)" using pool by (cases r) auto
  then have "ipam_maps a'" unfolding q(2) by (rule ipam_maps_set [OF assms(1)])
  moreover have "pool_place a' = pool_place a" unfolding q(2) using pool by (intro pool_place_set [OF Some]) auto
  moreover have "Allocator_Get a' = Allocator_Get a" if "r = Inl e" for e
    using pool that Some by (intro ext) (simp add: q(2) Allocator_Get_def)
  moreover have "Allocator_Get a' m j = (if m = n \<and> j = k then Some x else Allocator_Get a m j)"
    "x \<noteq> pool_Gateway p" if "r = Inr x" for x m j
    using pool that Some by (auto simp: q(2) Allocator_Get_def)
  moreover have "Allocator_Get a n j \<noteq> Some x" if "r = Inr x" for x j
    using pool that Some by (force simp: Allocator_Get_def held_ips_def dest: map_of_SomeD)
  ultimately show ?thesis
    using Some by (cases r) (auto simp: pool_place_def)
qed

lemma maps_static:
  assumes "ipam_maps a" and "Allocator_AllocateStatic a n k x = (r, a')"
  shows "ipam_maps a' \<and> pool_place a' = pool_place a \<and>
    (case r of
       None \<Rightarrow> (\<forall>s g. pool_place a n = Some (s, g) \<longrightarrow> Contains s x \<and> x \<noteq> g) \<and>
         (Allocator_Get a n k = Some x \<or> (\<forall>j. Allocator_Get a n j \<noteq> Some x)) \<and>
         (\<forall>m j. Allocator_Get a' m j = (if m = n \<and> j = k then Some x else Allocator_Get a m j))
     | Some _ \<Rightarrow> a' = a)"
proof (cases "map_of a n")
  case None
  with assms show ?thesis by (auto simp: Allocator_AllocateStatic_def)
next
  case (Some p)
  have gm: "gm_wf (pool_Allocated p)" using assms(1) Some by (auto simp: ipam_maps_def)
  show ?thesis
  proof (cases r)
    case err: (Some e)
    with assms Some show ?thesis
      by (auto simp: Allocator_AllocateStatic_def split: if_splits option.splits prod.splits)
  next
    case None
    have c: "Contains (pool_Subnet p) x" "x \<noteq> pool_Gateway p"
      using assms(2) Some None by (auto simp: Allocator_AllocateStatic_def split: if_splits)
    then have place: "\<forall>s g. pool_place a n = Some (s, g) \<longrightarrow> Contains s x \<and> x \<noteq> g"
      using Some by (simp add: pool_place_def)
    show ?thesis
    proof (cases "List.find (\<lambda>(k, existing). existing = x) (pool_Allocated p)")
      case free: None
      let ?q = "p\<lparr>pool_Allocated := AList.update k x (pool_Allocated p)\<rparr>"
      have a': "a' = AList.update n ?q a"
        using assms(2) Some c free by (simp add: Allocator_AllocateStatic_def)
      have "Allocator_Get a n j \<noteq> Some x" for j
        using free Some by (auto simp: Allocator_Get_def find_None_ball dest: map_of_SomeD)
      moreover have "ipam_maps a'" unfolding a' using gm by (intro ipam_maps_set [OF assms(1)]) simp
      moreover have "pool_place a' = pool_place a" unfolding a' by (rule pool_place_set [OF Some]) auto
      moreover have "Allocator_Get a' m j = (if m = n \<and> j = k then Some x else Allocator_Get a m j)" for m j
        using Some by (auto simp: a' Allocator_Get_def)
      ultimately show ?thesis using None place by simp
    next
      case (Some e)
      have e: "e \<in> set (pool_Allocated p)" "snd e = x" using find_SomeD [OF Some] by auto
      have k: "fst e = k" "a' = a"
        using assms(2) \<open>map_of a n = Some p\<close> c Some None
        by (auto simp: Allocator_AllocateStatic_def split: if_splits prod.splits)
      have "e = (k, x)" using e(2) k(1) by (simp add: prod_eq_iff)
      then have "(k, x) \<in> set (pool_Allocated p)" using e(1) by simp
      then have "map_of (pool_Allocated p) k = Some x" using gm by simp
      then have "Allocator_Get a n k = Some x" using \<open>map_of a n = Some p\<close> by (simp add: Allocator_Get_def)
      with k(2) None place assms(1) show ?thesis by auto
    qed
  qed
qed

lemma maps_release: "ipam_maps a \<Longrightarrow> ipam_maps (Allocator_Release a n k) \<and> pool_place (Allocator_Release a n k) = pool_place a"
  by (cases "map_of a n") (auto simp: Allocator_Release_def ipam_maps_def pool_place_def)

lemma maps_release_all:
  assumes "ipam_maps a"
  shows "ipam_maps (Allocator_ReleaseFromAll a k) \<and> pool_place (Allocator_ReleaseFromAll a k) = pool_place a"
proof -
  have "map fst (Allocator_ReleaseFromAll a k) = map fst a"
    unfolding Allocator_ReleaseFromAll_def by (rule gm_wf_map_val) auto
  moreover have look: "map_of (Allocator_ReleaseFromAll a k) n =
      map_option (\<lambda>p. p\<lparr>pool_Allocated := AList.delete k (pool_Allocated p)\<rparr>) (map_of a n)" for n
    by (simp add: Allocator_ReleaseFromAll_def map_of_map_snd)
  ultimately show ?thesis
    using assms unfolding ipam_maps_def pool_place_def look by (auto simp: option.map_comp o_def)
qed

lemma maps_record: "ipam_maps a \<Longrightarrow> ipam_maps (Allocator_Record a n k x) \<and> pool_place (Allocator_Record a n k x) = pool_place a"
  by (cases "map_of a n") (auto simp: Allocator_Record_def ipam_maps_def pool_place_def)

lemma maps_remove: "ipam_maps a \<Longrightarrow> ipam_maps (Allocator_RemovePool a n)"
  by (auto simp: Allocator_RemovePool_def ipam_maps_def)

lemma maps_add: "ipam_maps a \<Longrightarrow> Allocator_AddPool a n subnet gw opts = Inr a' \<Longrightarrow> ipam_maps a'"
  by (erule AddPool_pool) (auto simp: ipam_maps_def)

text \<open>The only holder of an address that the pool could give may reserve it again.\<close>

lemma reserve_sole:
  assumes "ipam_maps a" and "Allocator_Get a n k = Some x" and "\<And>j. Allocator_Get a n j = Some x \<Longrightarrow> j = k"
    and "pool_place a n = Some (s, g)" and "Contains s x" and "x \<noteq> g"
  shows "Allocator_AllocateStatic a n k x = (None, a)"
proof -
  obtain p where p: "map_of a n = Some p" "pool_Subnet p = s" "pool_Gateway p = g"
    using assms(4) by (auto simp: pool_place_def)
  have gm: "gm_wf (pool_Allocated p)" using assms(1) p(1) by (auto simp: ipam_maps_def)
  have held: "Allocator_Get a n j = map_of (pool_Allocated p) j" for j
    by (simp only: Allocator_Get_def p(1) option.case)
  have only: "(j, x) \<in> set (pool_Allocated p) \<longleftrightarrow> j = k" for j
    using assms(2,3) unfolding held using gm_mem_iff [OF gm] by metis
  obtain e where e: "List.find (\<lambda>(k, existing). existing = x) (pool_Allocated p) = Some e"
    using only [of k] by (cases "List.find (\<lambda>(k, existing). existing = x) (pool_Allocated p)")
      (simp_all add: find_None_ball, blast)
  then have "e = (k, x)" using find_SomeD [OF e] only by (cases e) auto
  with e p assms(5,6) show ?thesis by (simp add: Allocator_AllocateStatic_def)
qed

section \<open>The contract the network manager relies on\<close>

text \<open>
  What the allocator promises whatever addresses were recorded in it, and what follows for a key that is
  the only holder of an address: no call for another key takes it away.
\<close>

locale address_table =
  fixes allocate :: "'a \<Rightarrow> string \<Rightarrow> string \<Rightarrow> ('e + ip) \<times> 'a"
    and reserve :: "'a \<Rightarrow> string \<Rightarrow> string \<Rightarrow> ip \<Rightarrow> 'e option \<times> 'a"
    and release :: "'a \<Rightarrow> string \<Rightarrow> string \<Rightarrow> 'a"
    and held :: "'a \<Rightarrow> string \<Rightarrow> string \<Rightarrow> ip option"
    and ok :: "'a \<Rightarrow> bool"
  assumes ok_allocate: "ok a \<Longrightarrow> ok (snd (allocate a n k))"
    and ok_reserve: "ok a \<Longrightarrow> ok (snd (reserve a n k x))"
    and ok_release: "ok a \<Longrightarrow> ok (release a n k)"
    and allocate_held: "ok a \<Longrightarrow> allocate a n k = (Inr x, a') \<Longrightarrow>
          held a' m j = (if m = n \<and> j = k then Some x else held a m j)"
    and allocate_fresh: "ok a \<Longrightarrow> allocate a n k = (Inr x, a') \<Longrightarrow> held a n j \<noteq> Some x"
    and allocate_err: "ok a \<Longrightarrow> allocate a n k = (Inl e, a') \<Longrightarrow> held a' = held a"
    and reserve_held: "ok a \<Longrightarrow> reserve a n k x = (None, a') \<Longrightarrow>
          held a' m j = (if m = n \<and> j = k then Some x else held a m j)"
    and reserve_old: "ok a \<Longrightarrow> reserve a n k x = (None, a') \<Longrightarrow> held a n j = Some x \<Longrightarrow> held a n k = Some x"
    and reserve_err: "ok a \<Longrightarrow> reserve a n k x = (Some e, a') \<Longrightarrow> held a' = held a"
    and release_held: "held (release a n k) m j = (if m = n \<and> j = k then None else held a m j)"
begin

definition sole :: "'a \<Rightarrow> string \<Rightarrow> string \<Rightarrow> ip \<Rightarrow> bool" where
  "sole a n k x \<longleftrightarrow> held a n k = Some x \<and> (\<forall>j. held a n j = Some x \<longrightarrow> j = k)"

lemma sole_allocate:
  assumes "ok a" and "sole a n k x" and "j \<noteq> k"
  shows "sole (snd (allocate a m j)) n k x"
proof (cases "allocate a m j")
  case (Pair r a')
  show ?thesis
  proof (cases r)
    case (Inl e)
    with Pair assms allocate_err show ?thesis by (simp add: sole_def)
  next
    case (Inr y)
    with Pair assms allocate_held [of a m j y a'] allocate_fresh [of a m j y a' k] show ?thesis
      by (auto simp: sole_def)
  qed
qed

lemma sole_reserve:
  assumes "ok a" and "sole a n k x" and "j \<noteq> k"
  shows "sole (snd (reserve a m j y)) n k x"
proof (cases "reserve a m j y")
  case (Pair r a')
  show ?thesis
  proof (cases r)
    case (Some e)
    with Pair assms reserve_err show ?thesis by (simp add: sole_def)
  next
    case None
    with Pair assms reserve_held [of a m j y a'] reserve_old [of a m j y a' k] show ?thesis
      by (auto simp: sole_def)
  qed
qed

lemma sole_release: "sole a n k x \<Longrightarrow> j \<noteq> k \<Longrightarrow> sole (release a m j) n k x"
  by (auto simp: sole_def release_held)

end

text \<open>What it promises on top when only good addresses were recorded.\<close>

locale address_book = address_table +
  assumes reserve_excl: "ok a \<Longrightarrow> reserve a n k x = (None, a') \<Longrightarrow> held a n j = Some x \<Longrightarrow> j = k"
    and reserve_back: "ok a \<Longrightarrow> held a n k = Some x \<Longrightarrow> fst (reserve (release a n k) n k x) = None"
    and reserve_same: "ok a \<Longrightarrow> held a n k = Some x \<Longrightarrow> reserve a n k x = (None, a)"
begin

definition exclusive :: "'a \<Rightarrow> bool" where
  "exclusive a \<longleftrightarrow> (\<forall>n j k x. held a n j = Some x \<longrightarrow> held a n k = Some x \<longrightarrow> j = k)"

lemma exclusive_allocate:
  assumes "ok a" and "exclusive a"
  shows "exclusive (snd (allocate a n k))"
proof (cases "allocate a n k")
  case (Pair r a')
  show ?thesis
  proof (cases r)
    case (Inl e)
    with Pair assms allocate_err show ?thesis by (simp add: exclusive_def)
  next
    case (Inr x)
    with Pair assms allocate_held [of a n k x a'] allocate_fresh [of a n k x a'] show ?thesis
      by (auto simp: exclusive_def)
  qed
qed

lemma exclusive_reserve:
  assumes "ok a" and "exclusive a"
  shows "exclusive (snd (reserve a n k x))"
proof (cases "reserve a n k x")
  case (Pair r a')
  show ?thesis
  proof (cases r)
    case (Some e)
    with Pair assms reserve_err show ?thesis by (simp add: exclusive_def)
  next
    case None
    with Pair assms reserve_held [of a n k x a'] reserve_excl [of a n k x a'] show ?thesis
      by (auto simp: exclusive_def)
  qed
qed

text \<open>Giving an address up and asking for it again restores the book.\<close>

lemma rebook:
  assumes "ok a" and "held a n k = Some x"
  shows "\<exists>a'. reserve (release a n k) n k x = (None, a') \<and> held a' = held a"
proof -
  obtain a' where r: "reserve (release a n k) n k x = (None, a')"
    using reserve_back [OF assms] by (metis prod.collapse)
  have "held a' m j = held a m j" for m j
    using reserve_held [OF ok_release [OF assms(1)] r] assms(2) by (simp add: release_held)
  then show ?thesis using r by blast
qed

end

lemma reserve_back_ipam:
  assumes "allocator_wf a" and "Allocator_Get a n k = Some x"
  shows "fst (Allocator_AllocateStatic (Allocator_Release a n k) n k x) = None"
proof -
  from assms(2) obtain p where p: "map_of a n = Some p" "abs_pool p k = Some x"
    by (auto simp: Get_abs split: option.splits)
  note wf = allocator_wf_pool [OF assms(1) p(1)]
  let ?q = "p\<lparr>pool_Allocated := AList.delete k (pool_Allocated p)\<rparr>"
  have q: "map_of (Allocator_Release a n k) n = Some ?q"
    using p(1) by (simp add: Allocator_Release_def)
  have "x \<in> ran (abs_pool p)" using p(2) by (auto simp: ran_def)
  then have c: "Contains (pool_Subnet p) x" "x \<noteq> pool_Gateway p" using wf by (auto simp: pool_wf_def)
  have "x \<notin> ran (abs_pool ?q)"
  proof
    assume "x \<in> ran (abs_pool ?q)"
    then obtain j where "j \<noteq> k" "abs_pool p j = Some x"
      by (auto simp: ran_def abs_pool_def split: if_splits)
    with p(2) wf show False by (auto simp: pool_wf_def inj_on_def dom_def)
  qed
  with c show ?thesis
    by (simp add: static_pool [OF Release_wf [OF assms(1)] q])
qed

lemma reserve_same_ipam:
  assumes "allocator_wf a" and "Allocator_Get a n k = Some x"
  shows "Allocator_AllocateStatic a n k x = (None, a)"
proof -
  from assms(2) obtain p where p: "map_of a n = Some p" "abs_pool p k = Some x"
    by (auto simp: Get_abs split: option.splits)
  have "x \<in> ran (abs_pool p)" using p(2) by (auto simp: ran_def)
  then have "Contains (pool_Subnet p) x" "x \<noteq> pool_Gateway p"
    using allocator_wf_pool [OF assms(1) p(1)] by (auto simp: pool_wf_def)
  with p(2) show ?thesis by (simp add: static_pool [OF assms(1) p(1)])
qed

interpretation table: address_table Allocator_Allocate Allocator_AllocateStatic Allocator_Release
  Allocator_Get ipam_maps
proof
  show "ipam_maps (snd (Allocator_Allocate a n k))" if "ipam_maps a" for a n k
    using maps_allocate [OF that, of n k] by (metis prod.collapse)
  show "ipam_maps (snd (Allocator_AllocateStatic a n k x))" if "ipam_maps a" for a n k x
    using maps_static [OF that, of n k x] by (metis prod.collapse)
  show "Allocator_Get a' m j = (if m = n \<and> j = k then Some x else Allocator_Get a m j)"
    if "ipam_maps a" "Allocator_Allocate a n k = (Inr x, a')" for a n k x a' m j
    using maps_allocate [OF that] by simp
  show "Allocator_Get a n j \<noteq> Some x"
    if "ipam_maps a" "Allocator_Allocate a n k = (Inr x, a')" for a n k x a' j
    using maps_allocate [OF that] by simp
  show "Allocator_Get a' = Allocator_Get a"
    if "ipam_maps a" "Allocator_Allocate a n k = (Inl e, a')" for a n k e a'
    using maps_allocate [OF that] by simp
  show "Allocator_Get a' m j = (if m = n \<and> j = k then Some x else Allocator_Get a m j)"
    if "ipam_maps a" "Allocator_AllocateStatic a n k x = (None, a')" for a n k x a' m j
    using maps_static [OF that] by simp
  show "Allocator_Get a n k = Some x"
    if "ipam_maps a" "Allocator_AllocateStatic a n k x = (None, a')" "Allocator_Get a n j = Some x"
    for a n k x a' j
    using maps_static [OF that(1,2)] that(3) by auto
  show "Allocator_Get a' = Allocator_Get a"
    if "ipam_maps a" "Allocator_AllocateStatic a n k x = (Some e, a')" for a n k x e a'
    using maps_static [OF that] by simp
qed (simp_all add: maps_release Release_held)

interpretation book: address_book Allocator_Allocate Allocator_AllocateStatic Allocator_Release
  Allocator_Get allocator_wf
proof
  show "allocator_wf (snd (Allocator_Allocate a n k))" if "allocator_wf a" for a n k
    using Allocate_cases [OF that, of n k] by (metis prod.collapse)
  show "allocator_wf (snd (Allocator_AllocateStatic a n k x))" if "allocator_wf a" for a n k x
    using Static_cases [OF that, of n k x] by (metis prod.collapse)
  show "Allocator_Get a' m j = (if m = n \<and> j = k then Some x else Allocator_Get a m j)"
    if "allocator_wf a" "Allocator_Allocate a n k = (Inr x, a')" for a n k x a' m j
    using Allocate_cases [OF that] by simp
  show "Allocator_Get a n j \<noteq> Some x"
    if "allocator_wf a" "Allocator_Allocate a n k = (Inr x, a')" for a n k x a' j
    using Allocate_cases [OF that] by simp
  show "Allocator_Get a' = Allocator_Get a"
    if "allocator_wf a" "Allocator_Allocate a n k = (Inl e, a')" for a n k e a'
    using Allocate_cases [OF that] by simp
  show "Allocator_Get a' m j = (if m = n \<and> j = k then Some x else Allocator_Get a m j)"
    if "allocator_wf a" "Allocator_AllocateStatic a n k x = (None, a')" for a n k x a' m j
    using Static_cases [OF that] by simp
  show "j = k"
    if "allocator_wf a" "Allocator_AllocateStatic a n k x = (None, a')" "Allocator_Get a n j = Some x"
    for a n k x a' j
    using Static_cases [OF that(1,2)] that(3) by simp
  show "Allocator_Get a n k = Some x"
    if "allocator_wf a" "Allocator_AllocateStatic a n k x = (None, a')" "Allocator_Get a n j = Some x"
    for a n k x a' j
    using Static_cases [OF that(1,2)] that(3) by auto
  show "Allocator_Get a' = Allocator_Get a"
    if "allocator_wf a" "Allocator_AllocateStatic a n k x = (Some e, a')" for a n k x e a'
    using Static_cases [OF that] by simp
qed (auto intro: Release_wf reserve_back_ipam reserve_same_ipam simp: Release_held)

section \<open>Keeping a well-formed allocator\<close>

text \<open>
  \<open>Record\<close>, which the code calls for addresses it read from the device, checks nothing: it keeps
  the invariant for an address of the subnet that is not the gateway and that no other key holds.
\<close>

lemma Record_wf:
  assumes "allocator_wf a" and "map_of a n = Some p" and "Contains (pool_Subnet p) x"
    and "x \<noteq> pool_Gateway p" and "\<And>j. j \<noteq> k \<Longrightarrow> map_of (pool_Allocated p) j \<noteq> Some x"
  shows "allocator_wf (Allocator_Record a n k x)"
proof -
  note wf = allocator_wf_pool [OF assms(1,2)]
  have q: "Allocator_Record a n k x =
      AList.update n (p\<lparr>pool_Allocated := AList.update k x (pool_Allocated p)\<rparr>) a"
    by (simp add: Allocator_Record_def assms(2))
  show ?thesis
  proof (cases "map_of (pool_Allocated p) k = Some x")
    case True
    have "pool_wf (p\<lparr>pool_Allocated := AList.update k x (pool_Allocated p)\<rparr>)"
      by (rule pool_wf_frame [OF wf])
        (use wf True in \<open>auto simp: same_params_def range_ok_def pool_wf_def abs_pool_def update_conv' fun_upd_idem\<close>)
    then show ?thesis by (simp add: q allocator_wf_set [OF assms(1)])
  next
    case False
    with assms(5) have "map_of (pool_Allocated p) j \<noteq> Some x" for j by (cases "j = k") auto
    then have "x \<notin> ran (abs_pool p)" by (simp add: ran_def abs_pool_def)
    then have "pool_wf (p\<lparr>pool_Allocated := AList.update k x (pool_Allocated p)\<rparr>)"
      by (intro pool_wf_give [OF wf, where k = k and a = x])
        (use wf assms(3,4) in \<open>auto simp: same_params_def range_ok_def pool_wf_def abs_pool_def update_conv'\<close>)
    then show ?thesis by (simp add: q allocator_wf_set [OF assms(1)])
  qed
qed

lemma RemovePool_wf: "allocator_wf a \<Longrightarrow> allocator_wf (Allocator_RemovePool a n)"
  by (auto simp: allocator_wf_def Allocator_RemovePool_def)

section \<open>Every history of the allocator\<close>

text \<open>
  The calls of the allocator, with any arguments whatever, and their effect on its state; a call
  that panics leaves the state as it was. A history lists the calls made so far, the last first.
\<close>

datatype ipam_call =
    CallAddPool string ipnet ip "pool_opts list"
  | CallRemovePool string
  | CallAllocate string string
  | CallAllocateStatic string string ip
  | CallRelease string string
  | CallReleaseFromAll string
  | CallRecord string string ip

primrec ipam_exec :: "ipam_call \<Rightarrow> allocator \<Rightarrow> allocator" where
  "ipam_exec (CallAddPool n subnet gw opts) a =
     (case Allocator_AddPool a n subnet gw opts of Inl _ \<Rightarrow> a | Inr a' \<Rightarrow> a')"
| "ipam_exec (CallRemovePool n) a = Allocator_RemovePool a n"
| "ipam_exec (CallAllocate n k) a = snd (Allocator_Allocate a n k)"
| "ipam_exec (CallAllocateStatic n k x) a = snd (Allocator_AllocateStatic a n k x)"
| "ipam_exec (CallRelease n k) a = Allocator_Release a n k"
| "ipam_exec (CallReleaseFromAll k) a = Allocator_ReleaseFromAll a k"
| "ipam_exec (CallRecord n k x) a = Allocator_Record a n k x"

inductive ipam_step :: "ipam_call list \<times> allocator \<Rightarrow> ipam_call list \<times> allocator \<Rightarrow> bool" where
  "ipam_step (h, a) (c # h, ipam_exec c a)"

text \<open>What a history explains: the pools that were ever configured with a bad range.\<close>

definition misconfigured :: "ipam_call list \<Rightarrow> string \<Rightarrow> bool" where
  "misconfigured h n \<longleftrightarrow> (\<exists>subnet gw opts. CallAddPool n subnet gw opts \<in> set h \<and> \<not> pool_cfg_ok subnet opts)"

definition pool_ranged :: "pool \<Rightarrow> bool" where
  "pool_ranged p \<longleftrightarrow> (\<exists>base. net_IP (pool_Subnet p) = IPv4 base) \<and> ipnet_wf (pool_Subnet p) \<and> range_ok p \<and>
     unat (pool_AllocEnd p) < 2 ^ host_bits (pool_Subnet p)"

definition entry_ok :: "ipam_call list \<Rightarrow> string \<Rightarrow> pool \<Rightarrow> string \<Rightarrow> ip \<Rightarrow> bool" where
  "entry_ok h n p k x \<longleftrightarrow> CallRecord n k x \<in> set h \<or>
     x \<noteq> pool_Gateway p \<and> (Contains (pool_Subnet p) x \<or> misconfigured h n) \<and>
     (\<forall>j. map_of (pool_Allocated p) j = Some x \<longrightarrow> j = k \<or> CallRecord n j x \<in> set h)"

definition pool_hist :: "ipam_call list \<Rightarrow> string \<Rightarrow> pool \<Rightarrow> bool" where
  "pool_hist h n p \<longleftrightarrow> gm_wf (pool_Allocated p) \<and> (pool_ranged p \<or> misconfigured h n) \<and>
     (\<forall>k x. map_of (pool_Allocated p) k = Some x \<longrightarrow> entry_ok h n p k x)"

fun ipam_hist :: "ipam_call list \<times> allocator \<Rightarrow> bool" where
  "ipam_hist (h, a) \<longleftrightarrow> (\<forall>n p. map_of a n = Some p \<longrightarrow> pool_hist h n p)"

lemma misconfigured_Cons: "misconfigured h n \<Longrightarrow> misconfigured (c # h) n"
  by (auto simp: misconfigured_def)

lemma entry_ok_Cons: "entry_ok h n p k x \<Longrightarrow> entry_ok (c # h) n p k x"
  by (auto simp: entry_ok_def dest: misconfigured_Cons)

lemma pool_hist_Cons: "pool_hist h n p \<Longrightarrow> pool_hist (c # h) n p"
  by (auto simp: pool_hist_def intro: entry_ok_Cons misconfigured_Cons)

lemma ipam_hist_set:
  assumes "ipam_hist (h, a)" and "pool_hist (c # h) n p"
  shows "ipam_hist (c # h, AList.update n p a)"
  using assms by (auto intro: pool_hist_Cons)

text \<open>Taking entries away keeps a pool's history; so does an entry that is new in the pool.\<close>

lemma pool_hist_sub:
  assumes "pool_hist h n p" and "same_params p q" and "pool_ranged p \<longrightarrow> range_ok q" and "gm_wf (pool_Allocated q)"
    and sub: "\<And>k x. map_of (pool_Allocated q) k = Some x \<Longrightarrow> map_of (pool_Allocated p) k = Some x"
  shows "pool_hist h n q"
proof -
  have "entry_ok h n q k x" if "map_of (pool_Allocated q) k = Some x" for k x
  proof -
    have "entry_ok h n p k x" using assms(1) sub [OF that] by (simp only: pool_hist_def)
    with assms(2) sub show ?thesis unfolding entry_ok_def same_params_def by metis
  qed
  moreover have "pool_ranged q \<or> misconfigured h n"
    using assms(1-3) by (auto simp: pool_hist_def pool_ranged_def same_params_def)
  ultimately show ?thesis using assms(4) unfolding pool_hist_def by blast
qed

lemma pool_hist_delete:
  assumes "pool_hist h n p"
  shows "pool_hist h n (p\<lparr>pool_Allocated := AList.delete k (pool_Allocated p)\<rparr>)"
proof (rule pool_hist_sub [OF assms])
  show "gm_wf (pool_Allocated (p\<lparr>pool_Allocated := AList.delete k (pool_Allocated p)\<rparr>))"
    using assms by (simp add: pool_hist_def)
qed (auto simp: same_params_def pool_ranged_def range_ok_def delete_conv' split: if_splits)

lemma pool_hist_record:
  assumes "pool_hist h n p"
  shows "pool_hist (CallRecord n k x # h) n (p\<lparr>pool_Allocated := AList.update k x (pool_Allocated p)\<rparr>)"
proof -
  let ?h = "CallRecord n k x # h" and ?q = "p\<lparr>pool_Allocated := AList.update k x (pool_Allocated p)\<rparr>"
  have "entry_ok ?h n ?q j y" if "map_of (pool_Allocated ?q) j = Some y" for j y
  proof (cases "j = k")
    case True
    with that show ?thesis by (simp add: entry_ok_def update_conv')
  next
    case False
    with that have "map_of (pool_Allocated p) j = Some y" by (simp add: update_conv')
    with assms have "entry_ok h n p j y" by (simp only: pool_hist_def)
    from entry_ok_Cons [OF this, of "CallRecord n k x"] show ?thesis
      unfolding entry_ok_def by (auto simp: update_conv' simp del: map_of_eq_Some_iff split: if_splits)
  qed
  moreover have "pool_ranged ?q \<or> misconfigured ?h n"
    using assms by (auto simp: pool_hist_def pool_ranged_def range_ok_def dest: misconfigured_Cons)
  moreover have "gm_wf (pool_Allocated ?q)" using assms by (simp add: pool_hist_def)
  ultimately show ?thesis unfolding pool_hist_def by blast
qed

lemma pool_hist_give:
  assumes "pool_hist h n p" and "same_params p q" and "pool_ranged p \<longrightarrow> range_ok q"
    and "pool_Allocated q = AList.update k x (pool_Allocated p)"
    and "x \<notin> held_ips p" and "x \<noteq> pool_Gateway p" and "Contains (pool_Subnet p) x \<or> misconfigured h n"
  shows "pool_hist h n q"
proof -
  have new: "map_of (pool_Allocated p) j \<noteq> Some x" for j
    using assms(5) by (force simp: held_ips_def dest: map_of_SomeD)
  have q: "map_of (pool_Allocated q) = (map_of (pool_Allocated p))(k \<mapsto> x)"
    by (simp add: assms(4) update_conv')
  have "entry_ok h n q j y" if "map_of (pool_Allocated q) j = Some y" for j y
  proof (cases "j = k")
    case True
    with that have "y = x" by (simp add: q)
    with True assms(2,6,7) new show ?thesis unfolding entry_ok_def same_params_def q by simp
  next
    case False
    with that have y: "map_of (pool_Allocated p) j = Some y" by (simp add: q)
    then have "entry_ok h n p j y" using assms(1) by (simp only: pool_hist_def)
    moreover have "y \<noteq> x" using y new by metis
    ultimately show ?thesis using assms(2) unfolding entry_ok_def same_params_def q by simp blast
  qed
  moreover have "pool_ranged q \<or> misconfigured h n"
    using assms(1-3) by (auto simp: pool_hist_def pool_ranged_def same_params_def)
  moreover have "gm_wf (pool_Allocated q)" using assms(1,4) by (simp add: pool_hist_def)
  ultimately show ?thesis unfolding pool_hist_def by blast
qed

lemma pool_hist_cursor:
  assumes "pool_hist h n p" and "same_params p q" and "pool_ranged p \<longrightarrow> range_ok q"
    and "pool_Allocated q = pool_Allocated p"
  shows "pool_hist h n q"
  by (rule pool_hist_sub [OF assms(1-3)]) (use assms(1,4) in \<open>auto simp: pool_hist_def\<close>)

lemma pool_hist_allocate:
  assumes "pool_hist h n p" and "allocateFromPool p k = (r, q)"
  shows "pool_hist h n q"
proof (cases "IPToUint32 (net_IP (pool_Subnet p))")
  case None
  with assms show ?thesis by (simp add: allocateFromPool_def)
next
  case (Some base)
  obtain o' where loop: "alloc_loop base (unat (rangeSize p)) p k = (o', q)"
    using assms(2) Some by (auto simp: allocateFromPool_def split: prod.splits option.splits)
  note free = alloc_loop_free [OF loop]
  have rg: "pool_ranged p \<longrightarrow> range_ok q" using free by (auto simp: pool_ranged_def)
  show ?thesis
  proof (cases o')
    case None
    with free rg show ?thesis by (intro pool_hist_cursor [OF assms(1)]) auto
  next
    case (Some x)
    have "Contains (pool_Subnet p) x" if ranged: "pool_ranged p"
    proof -
      have b: "net_IP (pool_Subnet p) = IPv4 base"
        using \<open>IPToUint32 _ = _\<close> by (auto simp: IPToUint32_def split: ip.splits)
      obtain off where off: "x = IPv4 (base + off)" "off \<le> pool_AllocEnd p"
        using free Some ranged by (auto simp: pool_ranged_def)
      then have "unat off < 2 ^ host_bits (pool_Subnet p)"
        using ranged by (simp add: pool_ranged_def word_le_nat_alt)
      with ranged b off(1) show ?thesis by (simp add: pool_ranged_def Contains_offset)
    qed
    with free rg Some show ?thesis
      by (intro pool_hist_give [OF assms(1), where k = k and x = x]) (use assms(1) in \<open>auto simp: pool_hist_def\<close>)
  qed
qed

lemma pool_hist_static:
  assumes "pool_hist h n p" and "Contains (pool_Subnet p) x" and "x \<noteq> pool_Gateway p"
    and "List.find (\<lambda>(k, existing). existing = x) (pool_Allocated p) = None"
  shows "pool_hist h n (p\<lparr>pool_Allocated := AList.update k x (pool_Allocated p)\<rparr>)"
  by (rule pool_hist_give [OF assms(1), where k = k and x = x])
    (use assms(2-4) in \<open>auto simp: same_params_def range_ok_def pool_ranged_def held_ips_def find_None_ball\<close>)

lemma ipam_call_hist:
  assumes "ipam_hist (h, a)"
  shows "ipam_hist (c # h, ipam_exec c a)"
proof -
  have pool: "pool_hist (c # h) n p" if "map_of a n = Some p" for n p
    using assms that by (simp add: pool_hist_Cons)
  then have same: "ipam_hist (c # h, a)" by simp
  show ?thesis
  proof (cases c)
    case (CallAddPool n subnet gw opts)
    show ?thesis
    proof (cases "Allocator_AddPool a n subnet gw opts")
      case (Inr a')
      obtain p where p: "a' = AList.update n p a" "pool_Subnet p = subnet"
        "pool_Allocated p = []" "pool_NextIP p = pool_AllocStart p" "\<exists>base. net_IP subnet = IPv4 base"
        "Allocator_AddPool [] [] subnet (net_IP subnet) opts = Inr [([], p\<lparr>pool_Gateway := net_IP subnet\<rparr>)]"
        using AddPool_pool [OF Inr] by metis
      have "pool_ranged p \<or> misconfigured (c # h) n"
      proof (cases "pool_cfg_ok subnet opts")
        case True
        then have "pool_ranged p" using p by (auto simp: pool_ranged_def pool_cfg_ok_def range_ok_def)
        then show ?thesis by simp
      next
        case False
        then show ?thesis using CallAddPool by (auto simp: misconfigured_def)
      qed
      then have "pool_hist (c # h) n p" using p(3) by (simp add: pool_hist_def)
      with p(1) Inr CallAddPool pool show ?thesis by simp
    qed (use same CallAddPool in simp)
  next
    case (CallRemovePool n)
    with pool show ?thesis by (simp add: Allocator_RemovePool_def delete_conv')
  next
    case (CallAllocate n k)
    show ?thesis
    proof (cases "map_of a n")
      case (Some p)
      obtain r q where q: "allocateFromPool p k = (r, q)" by fastforce
      have "pool_hist (c # h) n q" by (rule pool_hist_allocate [OF pool [OF Some] q])
      with q Some CallAllocate pool show ?thesis by (simp add: Allocator_Allocate_def)
    qed (use same CallAllocate in \<open>simp add: Allocator_Allocate_def\<close>)
  next
    case (CallAllocateStatic n k x)
    show ?thesis
    proof (cases "map_of a n")
      case (Some p)
      show ?thesis
      proof (cases "Contains (pool_Subnet p) x \<and> x \<noteq> pool_Gateway p \<and>
          List.find (\<lambda>(k, existing). existing = x) (pool_Allocated p) = None")
        case True
        then have "pool_hist (c # h) n (p\<lparr>pool_Allocated := AList.update k x (pool_Allocated p)\<rparr>)"
          by (intro pool_hist_static pool Some) auto
        with True Some CallAllocateStatic pool show ?thesis by (simp add: Allocator_AllocateStatic_def)
      next
        case False
        then have "snd (Allocator_AllocateStatic a n k x) = a"
          using Some by (auto simp: Allocator_AllocateStatic_def split: option.splits)
        with same CallAllocateStatic show ?thesis by simp
      qed
    qed (use same CallAllocateStatic in \<open>simp add: Allocator_AllocateStatic_def\<close>)
  next
    case (CallRelease n k)
    then show ?thesis
      using same pool by (auto simp: Allocator_Release_def intro: pool_hist_delete split: option.splits)
  next
    case (CallReleaseFromAll k)
    then show ?thesis
      using pool by (auto simp: Allocator_ReleaseFromAll_def map_of_map_snd intro: pool_hist_delete)
  next
    case (CallRecord n k x)
    have "pool_hist (c # h) n (p\<lparr>pool_Allocated := AList.update k x (pool_Allocated p)\<rparr>)" if "map_of a n = Some p" for p
      using assms that unfolding CallRecord by (intro pool_hist_record) simp
    then show ?thesis
      using same pool CallRecord by (auto simp: Allocator_Record_def split: option.splits)
  qed
qed

interpretation ipam_sys: invariant_system "\<lambda>s. s = ([], NewAllocator)" ipam_step ipam_hist
proof
  show "ipam_hist s" if "s = ([], NewAllocator)" for s
    using that by (simp add: NewAllocator_def)
  show "ipam_hist t" if "ipam_hist s" "ipam_step s t" for s t
    using that(2,1) by cases (simp only: ipam_call_hist)
qed

section \<open>Properties\<close>

text \<open>
  C1. An allocation implements its abstract specification: on a well-formed pool
  \<open>allocateFromPool\<close> returns some address of the configured range that is not the gateway and
  that no key holds, and records it under the key; it fails exactly when there is no such address,
  and then leaves every allocation as it was.
\<close>

theorem allocateFromPool_implements_spec:
  assumes "pool_wf p" and "allocateFromPool p key = (r, p')"
  shows "alloc_spec (usable p) (abs_pool p) key (case r of Inl _ \<Rightarrow> None | Inr a \<Rightarrow> Some a) (abs_pool p')
    \<and> pool_wf p'"
  using allocateFromPool_wf [OF assms] by (auto simp: alloc_spec_def split: sum.splits)

definition net24 :: ipnet where
  "net24 = \<lparr>net_IP = IPv4 3232286720, net_ones = 24, net_bits = 32\<rparr>"

definition pool24 :: pool where
  "pool24 = \<lparr>pool_Subnet = net24, pool_Gateway = IPv4 3232286721,
     pool_Allocated = [(''veth_a'', IPv4 3232286722)], pool_NextIP = 2,
     pool_AllocStart = 2, pool_AllocEnd = 3\<rparr>"

lemma net24_wf: "ipnet_wf net24"
  by (simp add: net24_def ipnet_wf_def host_bits_def mask_numeral)

lemma pool24_wf: "pool_wf pool24"
  using net24_wf
  by (auto simp: pool24_def pool_wf_def range_ok_def abs_pool_def net24_def host_bits_def inj_on_def
      Contains_def host_mask_def mask_numeral)

theorem allocateFromPool_implements_spec_witness:
  "pool_wf pool24 \<and>
   allocateFromPool pool24 ''veth_b'' = (Inr (IPv4 3232286723),
     pool24\<lparr>pool_Allocated := [(''veth_a'', IPv4 3232286722), (''veth_b'', IPv4 3232286723)]\<rparr>) \<and>
   alloc_spec (usable pool24) (abs_pool pool24) ''veth_b'' (Some (IPv4 3232286723))
     (abs_pool (pool24\<lparr>pool_Allocated := [(''veth_a'', IPv4 3232286722), (''veth_b'', IPv4 3232286723)]\<rparr>))"
proof -
  have run: "allocateFromPool pool24 ''veth_b'' = (Inr (IPv4 3232286723),
     pool24\<lparr>pool_Allocated := [(''veth_a'', IPv4 3232286722), (''veth_b'', IPv4 3232286723)]\<rparr>)"
    by code_simp
  show ?thesis
    using allocateFromPool_implements_spec [OF pool24_wf run] run pool24_wf by simp
qed


lemma cfg24: "pool_cfg_ok net24 []"
  by (rule default_range_ok [OF net24_wf]) (auto simp: net24_def host_bits_def)

definition calls24 :: "ipam_call list" where
  "calls24 = [CallAllocate ''gt'' ''veth_b'', CallAllocateStatic ''gt'' ''veth_a'' (IPv4 3232286730),
     CallAddPool ''gt'' net24 (IPv4 3232286721) []]"

definition hist24 :: allocator where
  "hist24 = foldr ipam_exec calls24 NewAllocator"

lemma hist24_reachable: "ipam_step\<^sup>*\<^sup>* ([], NewAllocator) (calls24, hist24)"
proof -
  have "ipam_step\<^sup>*\<^sup>* ([], NewAllocator) (cs, foldr ipam_exec cs NewAllocator)" for cs
  proof (induction cs)
    case (Cons c cs)
    have "ipam_step (cs, foldr ipam_exec cs NewAllocator) (c # cs, ipam_exec c (foldr ipam_exec cs NewAllocator))"
      by (rule ipam_step.intros)
    with Cons show ?case by (simp add: rtranclp.rtrancl_into_rtrancl)
  qed simp
  then show ?thesis by (simp add: hist24_def)
qed


text \<open>
  C3. A static reservation on a well-formed allocator succeeds exactly when the address lies in
  the pool's subnet, is not the gateway and is held by no other key; whichever order the map is
  ranged in, the answer is the same.
\<close>

theorem AllocateStatic_succeeds_iff:
  assumes "allocator_wf a" and "map_of a n = Some p"
  shows "fst (Allocator_AllocateStatic a n k x) = None \<longleftrightarrow>
    Contains (pool_Subnet p) x \<and> x \<noteq> pool_Gateway p \<and> (\<forall>j. Allocator_Get a n j = Some x \<longrightarrow> j = k)"
proof -
  have "\<exists>j. abs_pool p j = Some x \<and> j \<noteq> k" if "x \<in> ran (abs_pool p)" "abs_pool p k \<noteq> Some x"
    using that by (auto simp: ran_def)
  moreover have "j = k" if "abs_pool p j = Some x" "abs_pool p k = Some x" for j
    using that allocator_wf_pool [OF assms] by (auto simp: pool_wf_def inj_on_def dom_def)
  moreover have "x \<in> ran (abs_pool p)" if "abs_pool p j = Some x" for j using that by (auto simp: ran_def)
  ultimately show ?thesis
    unfolding static_pool [OF assms] using assms(2) by (auto simp: Get_abs)
qed

theorem AllocateStatic_succeeds_iff_witness:
  "allocator_wf [(''gt'', pool24)] \<and>
   fst (Allocator_AllocateStatic [(''gt'', pool24)] ''gt'' ''veth_b'' (IPv4 3232286722)) \<noteq> None \<and>
   fst (Allocator_AllocateStatic [(''gt'', pool24)] ''gt'' ''veth_a'' (IPv4 3232286722)) = None"
proof -
  have wf: "allocator_wf [(''gt'', pool24)]" using pool24_wf by (auto simp: allocator_wf_def split: if_splits)
  have m: "map_of [(''gt'', pool24)] ''gt'' = Some pool24" by simp
  have held: "Allocator_Get [(''gt'', pool24)] ''gt'' j = Some (IPv4 3232286722) \<longleftrightarrow> j = ''veth_a''" for j
    by (simp add: Allocator_Get_def pool24_def)
  have "Contains (pool_Subnet pool24) (IPv4 3232286722) \<and> IPv4 3232286722 \<noteq> pool_Gateway pool24"
    by (simp add: pool24_def net24_def Contains_def host_mask_def host_bits_def mask_numeral)
  then show ?thesis
    using AllocateStatic_succeeds_iff [OF wf m] held wf by simp
qed

text \<open>
  A pool added with the default range hands out host addresses only: for a subnet with at
  least two host bits, \<open>AddPool\<close> succeeds and an address that \<open>Allocate\<close> then returns lies in the
  subnet at an offset from 2 to \<open>2^h - 2\<close>, so it is neither the network nor the broadcast address.
\<close>

theorem default_pool_hands_out_hosts:
  assumes "allocator_wf a" and "ipnet_wf net" and "net_IP net = IPv4 base" and "2 \<le> host_bits net"
  shows "\<exists>a'. Allocator_AddPool a n net gw [] = Inr a' \<and>
    (\<forall>k x a''. Allocator_Allocate a' n k = (Inr x, a'') \<longrightarrow>
       (\<exists>off. x = IPv4 (base + off) \<and> 2 \<le> unat off \<and> unat off \<le> 2 ^ host_bits net - 2) \<and>
       Contains net x \<and> x \<noteq> gw)"
proof -
  obtain a' where a': "Allocator_AddPool a n net gw [] = Inr a'"
    using assms(3) by (simp add: Allocator_AddPool_def IPToUint32_def opt_offset_def)
  have wf: "allocator_wf a'" using assms(1) default_range_ok [OF assms(2-4)] a' by (rule AddPool_wf)
  obtain p where p: "map_of a' n = Some p" "pool_Subnet p = net" "pool_Gateway p = gw"
    "pool_AllocStart p = 2" "pool_AllocEnd p = maxHosts net"
    using a' assms(3) by (auto simp: Allocator_AddPool_def IPToUint32_def opt_offset_def)
  have h: "host_bits net \<le> 32" using assms(2,3) by (simp add: ipnet_wf_def)
  have "(\<exists>off. x = IPv4 (base + off) \<and> 2 \<le> unat off \<and> unat off \<le> 2 ^ host_bits net - 2) \<and>
      Contains net x \<and> x \<noteq> gw" if "Allocator_Allocate a' n k = (Inr x, a'')" for k x a''
  proof -
    have u: "x \<in> usable p" using Allocate_cases [OF wf that] p(1) by auto
    then have "\<exists>off. x = IPv4 (base + off) \<and> 2 \<le> unat off \<and> unat off \<le> 2 ^ host_bits net - 2"
      using p assms(3) maxHosts_unat [OF assms(4) h] by (auto simp: usable_def word_le_nat_alt)
    with usable_in_subnet [OF allocator_wf_pool [OF wf p(1)] u] p show ?thesis by simp
  qed
  with a' show ?thesis by blast
qed

theorem default_pool_hands_out_hosts_witness:
  "\<exists>a'. Allocator_AddPool NewAllocator ''gt'' net24 (IPv4 3232286721) [] = Inr a' \<and>
     (\<forall>k x a''. Allocator_Allocate a' ''gt'' k = (Inr x, a'') \<longrightarrow> Contains net24 x)"
proof -
  have w: "allocator_wf NewAllocator" by (simp add: allocator_wf_def NewAllocator_def)
  have b: "net_IP net24 = IPv4 3232286720" "2 \<le> host_bits net24" by (auto simp: net24_def host_bits_def)
  show ?thesis
    using default_pool_hands_out_hosts [OF w net24_wf b, of "''gt''" "IPv4 3232286721"] by blast
qed

text \<open>
  A subnet with fewer than two host bits (a /31 or /32) makes \<open>1<<(bits-ones) - 2\<close> zero or
  wrap around, and the first address the pool hands out is the base plus two, outside the subnet.
\<close>

theorem tiny_subnet_allocates_outside:
  assumes "ipnet_wf net" and "net_IP net = IPv4 base" and "host_bits net \<le> 1" and "gw \<noteq> IPv4 (base + 2)"
  shows "\<exists>a' a''. Allocator_AddPool a n net gw [] = Inr a' \<and>
    Allocator_Allocate a' n k = (Inr (IPv4 (base + 2)), a'') \<and> \<not> Contains net (IPv4 (base + 2))"
proof -
  let ?p = "\<lparr>pool_Subnet = net, pool_Gateway = gw, pool_Allocated = [], pool_NextIP = 2,
    pool_AllocStart = 2, pool_AllocEnd = maxHosts net\<rparr>"
  have h: "host_bits net = 0 \<or> host_bits net = 1" using assms(3) by auto
  have mh: "maxHosts net = (if host_bits net = 0 then - 1 else 0)"
    using h by (auto simp: maxHosts_def Mask_Size_def host_bits_def)
  have add: "Allocator_AddPool a n net gw [] = Inr (AList.update n ?p a)"
    using assms(2) by (simp add: Allocator_AddPool_def IPToUint32_def opt_offset_def)
  obtain m where m: "unat (rangeSize ?p) = Suc m"
    using mh by (cases "unat (rangeSize ?p)") (auto simp: rangeSize_def unat_eq_zero split: if_splits)
  have "allocateFromPool ?p k =
      (Inr (IPv4 (base + 2)), ?p\<lparr>pool_NextIP := advance ?p, pool_Allocated := [(k, IPv4 (base + 2))]\<rparr>)"
    using assms(2,4) m by (simp add: allocateFromPool_def IPToUint32_def Let_def Uint32ToIP_def taken_def)
  then have "\<exists>a''. Allocator_Allocate (AList.update n ?p a) n k = (Inr (IPv4 (base + 2)), a'')"
    by (simp add: Allocator_Allocate_def)
  moreover have "\<not> Contains net (IPv4 (base + 2))"
  proof
    assume "Contains net (IPv4 (base + 2))"
    then have "2 = (base + 2) AND mask (host_bits net)"
      using Contains_base_plus [OF assms(1,2), of "base + 2"] by (simp only: add_left_cancel)
    then have "bit (2 :: 32 word) 1 = bit ((base + 2) AND mask (host_bits net)) 1" by simp
    then show False using assms(3) by (simp add: bit_and_iff bit_mask_iff)
  qed
  ultimately show ?thesis using add by blast
qed

theorem tiny_subnet_allocates_outside_witness:
  "\<exists>a' a''. Allocator_AddPool NewAllocator ''p2p'' \<lparr>net_IP = IPv4 167772160, net_ones = 31, net_bits = 32\<rparr>
       (IPv4 167772161) [] = Inr a' \<and>
     Allocator_Allocate a' ''p2p'' ''veth_a'' = (Inr (IPv4 167772162), a'')"
  using tiny_subnet_allocates_outside
    [of "\<lparr>net_IP = IPv4 167772160, net_ones = 31, net_bits = 32\<rparr>" 167772160 "IPv4 167772161"
       NewAllocator "''p2p''" "''veth_a''"]
  by (auto simp: ipnet_wf_def host_bits_def)

lemma broadcast_eq:
  assumes "ipnet_wf net" and "net_IP net = IPv4 base"
  shows "broadcast_of net = Some (base + mask (host_bits net))"
proof -
  have z: "base AND mask (host_bits net) = 0" using assms by (simp add: ipnet_wf_def)
  have "push_bit (host_bits net) 1 - 1 = (mask (host_bits net) :: 32 word)"
    by (simp add: mask_eq_exp_minus_1 push_bit_eq_mult)
  then show ?thesis
    using or_mask_eq_plus [OF z, of "- 1"] assms(2)
    by (simp add: broadcast_of_def Mask_Size_def IPToUint32_def flip: host_bits_def)
qed

lemma unat_mask32:
  assumes "h \<le> 32"
  shows "unat (mask h :: 32 word) = 2 ^ h - 1"
proof -
  have "unat (take_bit h (- 1 :: 32 word)) = take_bit h (mask 32 :: nat)"
    unfolding unsigned_take_bit_eq unsigned_minus_1_eq_mask by simp
  also have "\<dots> = mask h" using assms by (simp only: take_bit_of_mask min.absorb1)
  finally show ?thesis by (simp only: take_bit_minus_one_eq_mask) (simp add: mask_eq_exp_minus_1)
qed

lemma below_broadcast:
  assumes "ipnet_wf net" and "net_IP net = IPv4 base" and "unat d < 2 ^ host_bits net"
  shows "Contains net (IPv4 (base + mask (host_bits net) - d))"
    and "unat (mask (host_bits net) - d) = 2 ^ host_bits net - 1 - unat d"
proof -
  have h: "host_bits net \<le> 32" using assms by (simp add: ipnet_wf_def)
  have "d \<le> mask (host_bits net)"
    using assms(3) unat_mask32 [OF h] by (simp add: word_le_nat_alt)
  then show u: "unat (mask (host_bits net) - d) = 2 ^ host_bits net - 1 - unat d"
    using unat_mask32 [OF h] by (simp add: unat_sub)
  have "unat (mask (host_bits net) - d) < 2 ^ host_bits net" unfolding u by simp
  then show "Contains net (IPv4 (base + mask (host_bits net) - d))"
    using Contains_offset [OF assms(1,2), of "mask (host_bits net) - d"]
    by (simp only: add_diff_eq)
qed

text \<open>
  On a subnet with \<open>h\<close> host bits, three or more, the highest usable address is the offset
  \<open>2^h - 2\<close> and the DNS server address the offset \<open>2^h - 4\<close>, two below it; both lie in the subnet
  and inside the default allocation range.
\<close>

theorem infra_addresses:
  assumes "ipnet_wf net" and "net_IP net = IPv4 base" and "3 \<le> host_bits net"
  shows "\<exists>u d. MaxUsableIP net = Some (IPv4 (base + u)) \<and> unat u = 2 ^ host_bits net - 2 \<and>
    DNSServerIP net = Some (IPv4 (base + d)) \<and> unat d = 2 ^ host_bits net - 4 \<and>
    2 \<le> d \<and> d < u \<and> u = maxHosts net \<and> Contains net (IPv4 (base + u)) \<and> Contains net (IPv4 (base + d))"
proof -
  let ?m = "mask (host_bits net) :: 32 word"
  have h: "host_bits net \<le> 32" using assms by (simp add: ipnet_wf_def)
  have p: "(8::nat) \<le> 2 ^ host_bits net" using power_increasing [OF assms(3), of "2::nat"] by simp
  have u: "unat (?m - 1) = 2 ^ host_bits net - 2" "Contains net (IPv4 (base + (?m - 1)))"
    using below_broadcast [OF assms(1,2), of 1] p by (auto simp: add_diff_eq)
  have d: "unat (?m - 3) = 2 ^ host_bits net - 4" "Contains net (IPv4 (base + (?m - 3)))"
    using below_broadcast [OF assms(1,2), of 3] p by (auto simp: add_diff_eq)
  have "maxHosts net = ?m - 1"
    using maxHosts_unat [of net] assms(3) h u(1) by (simp add: word_unat_eq_iff)
  moreover have "2 \<le> ?m - 3" "?m - 3 < ?m - 1" using u(1) d(1) p by (simp_all add: word_le_nat_alt word_less_nat_alt)
  ultimately show ?thesis
    using u d broadcast_eq [OF assms(1,2)]
    by (intro exI [of _ "?m - 1"] exI [of _ "?m - 3"])
      (simp add: MaxUsableIP_def DNSServerIP_def Uint32ToIP_def add_diff_eq)
qed

theorem infra_addresses_witness:
  "\<exists>u d. MaxUsableIP net24 = Some (IPv4 (3232286720 + u)) \<and> unat u = 254 \<and>
     DNSServerIP net24 = Some (IPv4 (3232286720 + d)) \<and> unat d = 252"
proof -
  have b: "net_IP net24 = IPv4 3232286720" "3 \<le> host_bits net24" "host_bits net24 = 8"
    by (auto simp: net24_def host_bits_def)
  show ?thesis using infra_addresses [OF net24_wf b(1,2)] b(3) by auto
qed

end
