(* ===== verification/GoText.thy ===== *)
theory GoText
  imports NetIP
begin

text \<open>
  What the program uses of Go's \<open>strings\<close> and \<open>strconv\<close> beyond \<open>SplitN\<close>: \<open>TrimSpace\<close>,
  \<open>Atoi\<close>, \<open>Itoa\<close>. A string is its list of bytes; \<open>TrimSpace\<close> is written for
  ASCII white space.
\<close>

definition is_space :: "char \<Rightarrow> bool" where
  "is_space c \<longleftrightarrow> of_char c \<in> {9, 10, 11, 12, 13, 32 :: nat}"

definition TrimSpace :: "string \<Rightarrow> string" where
  "TrimSpace s = rev (dropWhile is_space (rev (dropWhile is_space s)))"

text \<open>\<open>strconv.Atoi\<close>: an optional sign and decimal digits whose value fits 64 bits.\<close>

definition Atoi :: "string \<Rightarrow> int option" where
  "Atoi s =
     (let (neg, ds) = (case s of
            [] \<Rightarrow> (False, [])
          | c # r \<Rightarrow> if c = CHR ''-'' then (True, r) else if c = CHR ''+'' then (False, r) else (False, c # r))
      in case dtoi ds of
           None \<Rightarrow> None
         | Some n \<Rightarrow>
             if neg then (if int n \<le> 2 ^ 63 then Some (- int n) else None)
             else (if int n < 2 ^ 63 then Some (int n) else None))"

definition Itoa :: "int \<Rightarrow> string" where
  "Itoa i = (if i < 0 then CHR ''-'' # dec (nat (- i)) else dec (nat i))"

text \<open>\<open>strings.Split(s, "\n")\<close>\<close>

fun split_lines :: "string \<Rightarrow> string \<Rightarrow> string list" where
  "split_lines acc [] = [rev acc]"
| "split_lines acc (c # s) = (if c = CHR 0x0A then rev acc # split_lines [] s else split_lines (c # acc) s)"

lemma digit_val_space: "is_space c \<Longrightarrow> digit_val c = None"
  by (auto simp: is_space_def digit_val_def)

lemma digit_val_sign: "digit_val (CHR ''-'') = None" "digit_val (CHR ''+'') = None"
  by (auto simp: digit_val_def)

lemma dec_no_sign: "CHR ''-'' \<notin> set (dec n)"
  using dec_digits digit_val_sign(1) by fastforce

lemma TrimSpace_dec [simp]: "TrimSpace (dec n) = dec n"
proof -
  have d: "\<not> is_space c" if "c \<in> set (dec n)" for c
    using dec_digits that digit_val_space by fastforce
  have drop: "dropWhile is_space xs = xs" if "\<And>c. c \<in> set xs \<Longrightarrow> \<not> is_space c" for xs
    using that by (cases xs) auto
  have "dropWhile is_space (rev (dec n)) = rev (dec n)" using d by (intro drop) auto
  with drop [of "dec n"] d show ?thesis by (simp add: TrimSpace_def)
qed

lemma Atoi_dec: "int n < 2 ^ 63 \<Longrightarrow> Atoi (dec n) = Some (int n)"
proof -
  assume n: "int n < 2 ^ 63"
  have "\<exists>c r. dec n = c # r \<and> c \<noteq> CHR ''-'' \<and> c \<noteq> CHR ''+''"
  proof (cases "dec n")
    case Nil
    then show ?thesis using dtoi_dec [of n] by (simp add: dtoi_def)
  next
    case (Cons c r)
    then have "digit_val c \<noteq> None" using dec_digits [of c n] by fastforce
    with Cons digit_val_sign show ?thesis by auto
  qed
  then show ?thesis using n dtoi_dec [of n] by (auto simp: Atoi_def)
qed

lemma Atoi_Itoa: "- (2 ^ 63) \<le> i \<Longrightarrow> i < 2 ^ 63 \<Longrightarrow> Atoi (Itoa i) = Some i"
  by (auto simp: Itoa_def Atoi_dec) (simp add: Atoi_def dtoi_dec)

end
