(* ===== verification/NetManager.thy ===== *)
theory NetManager
  imports Ipam GoText
begin

text \<open>
  \<open>pkg/network\<close>: the network manager, which gives a container's interface (a veth) its address, its
  port on a bridge and its name in the DNS zone. Its state are the networks, the table of allocations,
  the address pools (\<open>Ipam\<close>) and the record of switches and ports that is saved to a file.

  The network driver, the DNS client and the file are reached through the record \<open>net_env\<close> of functions
  over a state \<open>'w\<close>, about which nothing is assumed: each call may answer anything at any time, an error
  (its text) included. Every method holds the manager's mutex, or is called while nothing else runs, so
  it is one atomic step; \<open>syncExistingAllocations\<close>, which asks the driver before it takes the lock, is one
  step too. A method on a nil pointer panics: here it is the error \<open>NilPointer\<close>. Logging is left out.
\<close>

section \<open>Configuration and persisted objects\<close>

record static_record =
  sr_Name :: string
  sr_IP :: string

record dns_config =
  dc_Endpoint :: string
  dc_Zone :: string
  dc_Server :: string
  dc_StaticRecords :: "static_record list"

text \<open>The fields of \<open>config.NetworkDef\<close> that the manager reads; the DHCP settings are not among them.\<close>

record network_def =
  nd_Name :: string
  nd_Bridge :: string
  nd_CIDR :: string
  nd_Gateway :: string
  nd_DNS :: dns_config
  nd_IPAMStart :: string
  nd_IPAMEnd :: string
  nd_ExternalDNS :: bool

text \<open>A switch and a port as saved; the fields the manager never sets (VLANs, labels) are left out.\<close>

record logical_switch =
  sw_Name :: string
  sw_Bridge :: string
  sw_CIDR :: string
  sw_Gateway :: string

record logical_port =
  lp_Name :: string
  lp_Switch :: string
  lp_Address :: string
  lp_Gateway :: string
  lp_Hostname :: string
  lp_NodeName :: string

record net_state =
  ns_Switches :: "(string, logical_switch) gomap"
  ns_Ports :: "(string, logical_port) gomap"

definition NewNetworkState :: net_state where
  "NewNetworkState = \<lparr>ns_Switches = [], ns_Ports = []\<rparr>"

section \<open>The driver, the DNS client and the file\<close>

text \<open>A comment of a port: the orphan stamp (\<open>OrphanStampPrefix\<close> and a time), or any other text.\<close>

datatype port_comment = PlainComment string | OrphanStamp stamp

definition OrphanedSince :: "port_comment \<Rightarrow> instant option" where
  "OrphanedSince comment =
     (case comment of PlainComment _ \<Rightarrow> None | OrphanStamp ts \<Rightarrow> parse_rfc3339 ts)"

record port_info =
  pi_Name :: string
  pi_Address :: string
  pi_Gateway :: string
  pi_Bridge :: string
  pi_OwnedByMkube :: bool
  pi_Comment :: port_comment

record dns_record =
  dr_ID :: string
  dr_Name :: string
  dr_Type :: string
  dr_Data :: string

record 'w net_env =
  CreatePort :: "string \<Rightarrow> string \<Rightarrow> string \<Rightarrow> 'w \<Rightarrow> string option \<times> 'w"
  DeletePort :: "string \<Rightarrow> 'w \<Rightarrow> string option \<times> 'w"
  AttachPort :: "string \<Rightarrow> string \<Rightarrow> 'w \<Rightarrow> string option \<times> 'w"
  ListPorts :: "'w \<Rightarrow> (string + port_info list) \<times> 'w"
  SetPortComment :: "string \<Rightarrow> port_comment \<Rightarrow> 'w \<Rightarrow> string option \<times> 'w"
  NodeName :: string
  EnsureZone :: "string \<Rightarrow> string \<Rightarrow> 'w \<Rightarrow> (string + string) \<times> 'w"
  ListRecords :: "string \<Rightarrow> string \<Rightarrow> 'w \<Rightarrow> (string + dns_record list) \<times> 'w"
  DeleteRecord :: "string \<Rightarrow> string \<Rightarrow> string \<Rightarrow> 'w \<Rightarrow> string option \<times> 'w"
  RegisterHost :: "string \<Rightarrow> string \<Rightarrow> string \<Rightarrow> string \<Rightarrow> int \<Rightarrow> 'w \<Rightarrow> string option \<times> 'w"
  DeregisterHost :: "string \<Rightarrow> string \<Rightarrow> string \<Rightarrow> 'w \<Rightarrow> string option \<times> 'w"
  DeregisterHostByIP :: "string \<Rightarrow> string \<Rightarrow> string \<Rightarrow> string \<Rightarrow> 'w \<Rightarrow> string option \<times> 'w"
  CleanStaleRecords :: "string \<Rightarrow> string \<Rightarrow> string \<Rightarrow> string \<Rightarrow> 'w \<Rightarrow> string option \<times> 'w"
  ReadState :: "string \<Rightarrow> 'w \<Rightarrow> (string + net_state) \<times> 'w"
  WriteState :: "string \<Rightarrow> net_state \<Rightarrow> 'w \<Rightarrow> string option \<times> 'w"

section \<open>The state store\<close>

text \<open>\<open>ReadState\<close> is reading and decoding the file; a missing map of the file is the empty map.\<close>

record state_store =
  ss_path :: string
  ss_data :: net_state

definition newStateStore :: "string \<Rightarrow> state_store" where
  "newStateStore path = \<lparr>ss_path = path, ss_data = NewNetworkState\<rparr>"

definition store_load :: "'w net_env \<Rightarrow> state_store \<Rightarrow> 'w \<Rightarrow> string option \<times> state_store \<times> 'w" where
  "store_load env s w =
     (if ss_path s = '''' then (None, s, w)
      else (case ReadState env (ss_path s) w of
              (Inl e, w) \<Rightarrow> (Some e, s, w)
            | (Inr state, w) \<Rightarrow> (None, s\<lparr>ss_data := state\<rparr>, w)))"

definition store_save :: "'w net_env \<Rightarrow> state_store \<Rightarrow> 'w \<Rightarrow> string option \<times> 'w" where
  "store_save env s w =
     (if ss_path s = '''' then (None, w) else WriteState env (ss_path s) (ss_data s) w)"

definition setSwitch :: "logical_switch \<Rightarrow> state_store \<Rightarrow> state_store" where
  "setSwitch sw s = s\<lparr>ss_data := (ss_data s)\<lparr>ns_Switches := AList.update (sw_Name sw) sw (ns_Switches (ss_data s))\<rparr>\<rparr>"

definition removeSwitch :: "string \<Rightarrow> state_store \<Rightarrow> state_store" where
  "removeSwitch name s = s\<lparr>ss_data := (ss_data s)\<lparr>ns_Switches := AList.delete name (ns_Switches (ss_data s))\<rparr>\<rparr>"

definition setPort :: "logical_port \<Rightarrow> state_store \<Rightarrow> state_store" where
  "setPort p s = s\<lparr>ss_data := (ss_data s)\<lparr>ns_Ports := AList.update (lp_Name p) p (ns_Ports (ss_data s))\<rparr>\<rparr>"

definition removePort :: "string \<Rightarrow> state_store \<Rightarrow> state_store" where
  "removePort name s = s\<lparr>ss_data := (ss_data s)\<lparr>ns_Ports := AList.delete name (ns_Ports (ss_data s))\<rparr>\<rparr>"

definition removePortsBySwitch :: "string \<Rightarrow> state_store \<Rightarrow> state_store" where
  "removePortsBySwitch switchName s =
     s\<lparr>ss_data := (ss_data s)\<lparr>ns_Ports := filter (\<lambda>(name, port). lp_Switch port \<noteq> switchName) (ns_Ports (ss_data s))\<rparr>\<rparr>"

section \<open>The manager\<close>

record network_state =
  n_def :: network_def
  n_subnet :: ipnet
  n_gateway :: ip
  n_zoneID :: string

record allocation =
  al_networkName :: string
  al_ip :: ip
  al_hostname :: string

text \<open>\<open>nm_dns\<close> says whether there is a DNS client.\<close>

record manager =
  nm_networks :: "(string, network_state) gomap"
  nm_netOrder :: "string list"
  nm_dns :: bool
  nm_ipam :: allocator
  nm_state :: state_store
  nm_allocs :: "(string, allocation) gomap"

datatype net_error =
    BadCIDR string string
  | InvalidGateway string string
  | InvalidIpamStart string string
  | InvalidIpamEnd string string
  | NetworkNotFound string
  | InvalidStaticIP string
  | IpamError ipam_error
  | ReusingFailed ip string ipam_error
  | CreatingVeth string string
  | AddingToBridge string string string
  | ListingPorts string string
  | DeletingVeth string string
  | DriverError string
  | DnsError string
  | NilPointer

text \<open>The default gateway: the network address with 1 in its last byte.\<close>

definition default_gateway :: "ipnet \<Rightarrow> ip" where
  "default_gateway subnet =
     (case net_IP subnet of
        IPv4 a \<Rightarrow> IPv4 ((a AND NOT 255) OR 1)
      | IPv6 a \<Rightarrow> IPv6 ((a AND NOT 255) OR 1))"

definition parse_network :: "network_def \<Rightarrow> net_error + ipnet \<times> ip" where
  "parse_network netDef =
     (case ParseCIDR (nd_CIDR netDef) of
        None \<Rightarrow> Inl (BadCIDR (nd_CIDR netDef) (nd_Name netDef))
      | Some (_, subnet) \<Rightarrow>
          if nd_Gateway netDef \<noteq> '''' then
            (case ParseIP (nd_Gateway netDef) of
               None \<Rightarrow> Inl (InvalidGateway (nd_Gateway netDef) (nd_Name netDef))
             | Some gateway \<Rightarrow> Inr (subnet, gateway))
          else Inr (subnet, default_gateway subnet))"

text \<open>The options of the pool: none, or one record with the ends that are configured.\<close>

definition pool_options :: "network_def \<Rightarrow> net_error + pool_opts list" where
  "pool_options netDef =
     (if nd_IPAMStart netDef = '''' \<and> nd_IPAMEnd netDef = '''' then Inr []
      else if nd_IPAMStart netDef \<noteq> '''' \<and> ParseIP (nd_IPAMStart netDef) = None
      then Inl (InvalidIpamStart (nd_IPAMStart netDef) (nd_Name netDef))
      else if nd_IPAMEnd netDef \<noteq> '''' \<and> ParseIP (nd_IPAMEnd netDef) = None
      then Inl (InvalidIpamEnd (nd_IPAMEnd netDef) (nd_Name netDef))
      else Inr [\<lparr>opt_AllocStart = (if nd_IPAMStart netDef = '''' then None else ParseIP (nd_IPAMStart netDef)),
                 opt_AllocEnd = (if nd_IPAMEnd netDef = '''' then None else ParseIP (nd_IPAMEnd netDef))\<rparr>])"

definition switch_of :: "network_def \<Rightarrow> ip \<Rightarrow> logical_switch" where
  "switch_of netDef gateway =
     \<lparr>sw_Name = nd_Name netDef, sw_Bridge = nd_Bridge netDef, sw_CIDR = nd_CIDR netDef,
      sw_Gateway = IP_String gateway\<rparr>"

text \<open>
  Adding one network, the body that \<open>NewManager\<close> and \<open>RegisterNetwork\<close> share. The network is entered in
  the tables before its allocation range is read, so an error there leaves it behind.
\<close>

definition add_network :: "manager \<Rightarrow> network_def \<Rightarrow> net_error option \<times> manager" where
  "add_network m netDef =
     (case parse_network netDef of
        Inl e \<Rightarrow> (Some e, m)
      | Inr (subnet, gateway) \<Rightarrow>
          (let ns = \<lparr>n_def = netDef, n_subnet = subnet, n_gateway = gateway, n_zoneID = ''''\<rparr>;
               m = m\<lparr>nm_networks := AList.update (nd_Name netDef) ns (nm_networks m),
                     nm_netOrder := nm_netOrder m @ [nd_Name netDef]\<rparr>
           in case pool_options netDef of
                Inl e \<Rightarrow> (Some e, m)
              | Inr poolOpts \<Rightarrow>
                  (case Allocator_AddPool (nm_ipam m) (nd_Name netDef) subnet gateway poolOpts of
                     Inl e \<Rightarrow> (Some (IpamError e), m)
                   | Inr a \<Rightarrow> (None, m\<lparr>nm_ipam := a, nm_state := setSwitch (switch_of netDef gateway) (nm_state m)\<rparr>))))"

fun add_networks :: "manager \<Rightarrow> network_def list \<Rightarrow> net_error + manager" where
  "add_networks m [] = Inr m"
| "add_networks m (d # ds) =
     (case add_network m d of (Some e, _) \<Rightarrow> Inl e | (None, m) \<Rightarrow> add_networks m ds)"

section \<open>Recovery from the device\<close>

definition extractHostname :: "string \<Rightarrow> string" where
  "extractHostname vethName =
     (let parts = splitN 4 (CHR ''_'') vethName
      in if 3 \<le> length parts then parts ! 2 else vethName)"

text \<open>The address of a port: with a mask, or without one.\<close>

definition port_ip :: "port_info \<Rightarrow> ip option" where
  "port_ip p =
     (if pi_Address p = '''' then None
      else (case ParseCIDR (pi_Address p) of
              Some (addr, _) \<Rightarrow> Some addr
            | None \<Rightarrow> ParseIP (pi_Address p)))"

definition sync_entry :: "manager \<Rightarrow> port_info \<Rightarrow> (string \<times> string \<times> ip) option" where
  "sync_entry m p =
     (case port_ip p of
        None \<Rightarrow> None
      | Some addr \<Rightarrow>
          (let poolName = Allocator_PoolForIP (nm_ipam m) addr
           in if poolName = '''' then None else Some (pi_Name p, poolName, addr)))"

definition record_entry :: "string \<times> string \<times> ip \<Rightarrow> manager \<Rightarrow> manager" where
  "record_entry = (\<lambda>(name, poolName, addr) m.
     m\<lparr>nm_ipam := Allocator_Record (nm_ipam m) poolName name addr,
       nm_allocs := AList.update name
         \<lparr>al_networkName = poolName, al_ip = addr, al_hostname = extractHostname name\<rparr> (nm_allocs m)\<rparr>)"

definition syncExistingAllocations ::
  "'w net_env \<Rightarrow> manager \<Rightarrow> 'w \<Rightarrow> net_error option \<times> manager \<times> 'w" where
  "syncExistingAllocations env m w =
     (case ListPorts env w of
        (Inl e, w) \<Rightarrow> (Some (DriverError e), m, w)
      | (Inr ports, w) \<Rightarrow> (None, fold record_entry (List.map_filter (sync_entry m) ports) m, w))"

definition ResyncAllocations :: "'w net_env \<Rightarrow> manager \<Rightarrow> 'w \<Rightarrow> net_error option \<times> manager \<times> 'w" where
  "ResyncAllocations env m w = syncExistingAllocations env m w"

definition empty_manager :: "bool \<Rightarrow> string \<Rightarrow> manager" where
  "empty_manager dnsClient statePath =
     \<lparr>nm_networks = [], nm_netOrder = [], nm_dns = dnsClient, nm_ipam = NewAllocator,
      nm_state = newStateStore statePath, nm_allocs = []\<rparr>"

definition NewManager ::
  "'w net_env \<Rightarrow> network_def list \<Rightarrow> bool \<Rightarrow> string \<Rightarrow> 'w \<Rightarrow> (net_error + manager) \<times> 'w" where
  "NewManager env networks dnsClient statePath w =
     (case add_networks (empty_manager dnsClient statePath) networks of
        Inl e \<Rightarrow> (Inl e, w)
      | Inr mgr \<Rightarrow>
          (let (_, ss, w) = store_load env (nm_state mgr) w;
               (_, mgr, w) = syncExistingAllocations env (mgr\<lparr>nm_state := ss\<rparr>) w
           in (Inr mgr, w)))"

section \<open>Interfaces\<close>

text \<open>The result of \<open>resolveNetwork\<close>: an error, or a pointer that may be nil.\<close>

definition resolveNetwork :: "manager \<Rightarrow> string \<Rightarrow> net_error + network_state option" where
  "resolveNetwork m name =
     (if name = '''' \<and> nm_netOrder m \<noteq> [] then Inr (map_of (nm_networks m) (hd (nm_netOrder m)))
      else (case map_of (nm_networks m) name of
              Some ns \<Rightarrow> Inr (Some ns)
            | None \<Rightarrow> Inl (NetworkNotFound name)))"

text \<open>
  The choice of the address: the static one, the one the veth had on this network, or a new one, after
  giving up the one it had on another network.
\<close>

definition choose_ip ::
  "manager \<Rightarrow> network_state \<Rightarrow> string \<Rightarrow> string \<Rightarrow> (net_error + ip) \<times> allocator" where
  "choose_ip m ns vethName staticIP =
     (let net = nd_Name (n_def ns); prev = map_of (nm_allocs m) vethName in
      if staticIP \<noteq> '''' then
        (case ParseIP staticIP of
           None \<Rightarrow> (Inl (InvalidStaticIP staticIP), nm_ipam m)
         | Some addr \<Rightarrow>
             (case Allocator_AllocateStatic (nm_ipam m) net vethName addr of
                (Some e, a) \<Rightarrow> (Inl (IpamError e), a)
              | (None, a) \<Rightarrow> (Inr addr, a)))
      else (case prev of
        Some al \<Rightarrow>
          if al_networkName al = net then
            (case Allocator_AllocateStatic (nm_ipam m) net vethName (al_ip al) of
               (Some e, a) \<Rightarrow> (Inl (ReusingFailed (al_ip al) vethName e), a)
             | (None, a) \<Rightarrow> (Inr (al_ip al), a))
          else
            (case Allocator_Allocate (Allocator_Release (nm_ipam m) (al_networkName al) vethName) net vethName of
               (Inl e, a) \<Rightarrow> (Inl (IpamError e), a)
             | (Inr addr, a) \<Rightarrow> (Inr addr, a))
      | None \<Rightarrow>
          (case Allocator_Allocate (nm_ipam m) net vethName of
             (Inl e, a) \<Rightarrow> (Inl (IpamError e), a)
           | (Inr addr, a) \<Rightarrow> (Inr addr, a))))"

definition cidr_text :: "ip \<Rightarrow> ipnet \<Rightarrow> string" where
  "cidr_text addr subnet = IP_String addr @ ''/'' @ dec (fst (Mask_Size subnet))"

text \<open>
  \<open>place_port\<close> is the part of \<open>AllocateInterface\<close> that makes the port with the driver and undoes the
  allocation when it fails; \<open>record_port\<close> the part that writes the tables, the file and the DNS record.
\<close>

definition place_port ::
  "'w net_env \<Rightarrow> manager \<Rightarrow> network_state \<Rightarrow> string \<Rightarrow> ip \<Rightarrow> 'w \<Rightarrow> net_error option \<times> manager \<times> 'w" where
  "place_port env m ns vethName addr w =
     (let net = nd_Name (n_def ns); bridge = nd_Bridge (n_def ns) in
      case CreatePort env vethName (cidr_text addr (n_subnet ns)) (IP_String (n_gateway ns)) w of
        (Some e, w) \<Rightarrow>
          (Some (CreatingVeth vethName e), m\<lparr>nm_ipam := Allocator_Release (nm_ipam m) net vethName\<rparr>, w)
      | (None, w) \<Rightarrow>
          (case AttachPort env bridge vethName w of
             (Some e, w) \<Rightarrow>
               (let (_, w) = DeletePort env vethName w
                in (Some (AddingToBridge vethName bridge e),
                    m\<lparr>nm_ipam := Allocator_Release (nm_ipam m) net vethName\<rparr>, w))
           | (None, w) \<Rightarrow> (None, m, w)))"

definition record_port ::
  "'w net_env \<Rightarrow> manager \<Rightarrow> network_state \<Rightarrow> string \<Rightarrow> string \<Rightarrow> ip \<Rightarrow> 'w \<Rightarrow> manager \<times> 'w" where
  "record_port env m ns vethName hostname addr w =
     (let net = nd_Name (n_def ns);
          m = m\<lparr>nm_allocs := AList.update vethName
                   \<lparr>al_networkName = net, al_ip = addr, al_hostname = hostname\<rparr> (nm_allocs m),
                nm_state := setPort
                   \<lparr>lp_Name = vethName, lp_Switch = net, lp_Address = cidr_text addr (n_subnet ns),
                    lp_Gateway = IP_String (n_gateway ns), lp_Hostname = hostname,
                    lp_NodeName = NodeName env\<rparr> (nm_state m)\<rparr>;
          (_, w) = store_save env (nm_state m) w;
          (_, w) = (if nm_dns m \<and> n_zoneID ns \<noteq> '''' \<and> hostname \<noteq> ''''
                    then RegisterHost env (dc_Endpoint (nd_DNS (n_def ns))) (n_zoneID ns) hostname (IP_String addr) 60 w
                    else (None, w))
      in (m, w))"

definition AllocateInterface ::
  "'w net_env \<Rightarrow> manager \<Rightarrow> string \<Rightarrow> string \<Rightarrow> string \<Rightarrow> string \<Rightarrow> 'w \<Rightarrow>
   (net_error + string \<times> string \<times> string) \<times> manager \<times> 'w" where
  "AllocateInterface env m vethName hostname networkName staticIP w =
     (case resolveNetwork m networkName of
        Inl e \<Rightarrow> (Inl e, m, w)
      | Inr None \<Rightarrow> (Inl NilPointer, m, w)
      | Inr (Some ns) \<Rightarrow>
          (case choose_ip m ns vethName staticIP of
             (Inl e, a) \<Rightarrow> (Inl e, m\<lparr>nm_ipam := a\<rparr>, w)
           | (Inr addr, a) \<Rightarrow>
               (case place_port env (m\<lparr>nm_ipam := a\<rparr>) ns vethName addr w of
                  (Some e, m, w) \<Rightarrow> (Inl e, m, w)
                | (None, m, w) \<Rightarrow>
                    (let (m, w) = record_port env m ns vethName hostname addr w
                     in (Inr (cidr_text addr (n_subnet ns), IP_String (n_gateway ns),
                              dc_Server (nd_DNS (n_def ns))), m, w)))))"

text \<open>Deregistering the name of a veth, as releasing and destroying do first.\<close>

definition deregister :: "'w net_env \<Rightarrow> manager \<Rightarrow> string \<Rightarrow> 'w \<Rightarrow> 'w" where
  "deregister env m vethName w =
     (case map_of (nm_allocs m) vethName of
        None \<Rightarrow> w
      | Some al \<Rightarrow>
          if nm_dns m \<and> al_hostname al \<noteq> '''' then
            (case map_of (nm_networks m) (al_networkName al) of
               None \<Rightarrow> w
             | Some ns \<Rightarrow>
                 if n_zoneID ns \<noteq> ''''
                 then snd (DeregisterHost env (dc_Endpoint (nd_DNS (n_def ns))) (n_zoneID ns) (al_hostname al) w)
                 else w)
          else w)"

text \<open>Forgetting a veth: its address, its entry, its port in the saved state.\<close>

definition forget :: "'w net_env \<Rightarrow> manager \<Rightarrow> string \<Rightarrow> 'w \<Rightarrow> manager \<times> 'w" where
  "forget env m vethName w =
     (let m = (case map_of (nm_allocs m) vethName of
                 Some al \<Rightarrow> m\<lparr>nm_ipam := Allocator_Release (nm_ipam m) (al_networkName al) vethName,
                               nm_allocs := AList.delete vethName (nm_allocs m)\<rparr>
               | None \<Rightarrow> m\<lparr>nm_ipam := Allocator_ReleaseFromAll (nm_ipam m) vethName\<rparr>);
          m = m\<lparr>nm_state := removePort vethName (nm_state m)\<rparr>
      in (m, snd (store_save env (nm_state m) w)))"

definition StampOrphan :: "'w net_env \<Rightarrow> string \<Rightarrow> instant \<Rightarrow> 'w \<Rightarrow> string option \<times> 'w" where
  "StampOrphan env vethName now w = SetPortComment env vethName (OrphanStamp (format_rfc3339 now)) w"

definition ReleaseInterface ::
  "'w net_env \<Rightarrow> manager \<Rightarrow> string \<Rightarrow> instant \<Rightarrow> 'w \<Rightarrow> net_error option \<times> manager \<times> 'w" where
  "ReleaseInterface env m vethName now w =
     (case ListPorts env (deregister env m vethName w) of
        (Inl e, w) \<Rightarrow> (Some (ListingPorts vethName e), m, w)
      | (Inr ports, w) \<Rightarrow>
          if \<not> list_ex (\<lambda>p. pi_Name p = vethName) ports
          then (let (m, w) = forget env m vethName w in (None, m, w))
          else (let (_, w) = SetPortComment env vethName (OrphanStamp (format_rfc3339 now)) w
                in (None, m, w)))"

definition DestroyInterface ::
  "'w net_env \<Rightarrow> manager \<Rightarrow> string \<Rightarrow> 'w \<Rightarrow> net_error option \<times> manager \<times> 'w" where
  "DestroyInterface env m vethName w =
     (case DeletePort env vethName (deregister env m vethName w) of
        (Some e, w) \<Rightarrow> (Some (DeletingVeth vethName e), m, w)
      | (None, w) \<Rightarrow> (let (m, w) = forget env m vethName w in (None, m, w)))"

section \<open>Networks\<close>

definition RegisterNetwork :: "manager \<Rightarrow> network_def \<Rightarrow> net_error option \<times> manager" where
  "RegisterNetwork m netDef =
     (if gm_has (nm_networks m) (nd_Name netDef) then (None, m) else add_network m netDef)"

definition UpdateNetwork :: "manager \<Rightarrow> network_def \<Rightarrow> manager" where
  "UpdateNetwork m netDef =
     (case map_of (nm_networks m) (nd_Name netDef) of
        None \<Rightarrow> m
      | Some ns \<Rightarrow>
          (let old = n_def ns;
               gw = (if nd_Gateway netDef \<noteq> nd_Gateway old \<and> nd_Gateway netDef \<noteq> ''''
                     then (case ParseIP (nd_Gateway netDef) of Some gw \<Rightarrow> gw | None \<Rightarrow> n_gateway ns)
                     else n_gateway ns)
           in m\<lparr>nm_networks := AList.update (nd_Name netDef) (ns\<lparr>n_def := netDef, n_gateway := gw\<rparr>) (nm_networks m),
                nm_state := setSwitch (switch_of netDef gw) (nm_state m)\<rparr>))"

definition UnregisterNetwork :: "manager \<Rightarrow> string \<Rightarrow> manager" where
  "UnregisterNetwork m name =
     (if \<not> gm_has (nm_networks m) name then m
      else m\<lparr>nm_networks := AList.delete name (nm_networks m),
             nm_ipam := Allocator_RemovePool (nm_ipam m) name,
             nm_netOrder := remove1 name (nm_netOrder m),
             nm_state := removeSwitch name (removePortsBySwitch name (nm_state m)),
             nm_allocs := filter (\<lambda>(k, al). al_networkName al \<noteq> name) (nm_allocs m)\<rparr>)"

section \<open>Queries\<close>

definition GetPortInfo :: "manager \<Rightarrow> string \<Rightarrow> (string \<times> string) option" where
  "GetPortInfo m vethName =
     map_option (\<lambda>al. (IP_String (al_ip al), al_networkName al)) (map_of (nm_allocs m) vethName)"

definition GetAllocations :: "manager \<Rightarrow> (string, string) gomap" where
  "GetAllocations m = Allocator_AllAllocations (nm_ipam m)"

definition Networks :: "manager \<Rightarrow> string list" where
  "Networks m = nm_netOrder m"

definition NetworkDef :: "manager \<Rightarrow> string \<Rightarrow> network_def option" where
  "NetworkDef m name = map_option n_def (map_of (nm_networks m) name)"

definition NetworkZoneID :: "manager \<Rightarrow> string \<Rightarrow> string \<times> bool" where
  "NetworkZoneID m name =
     (case map_of (nm_networks m) name of
        None \<Rightarrow> ('''', False)
      | Some ns \<Rightarrow> (n_zoneID ns, n_zoneID ns \<noteq> ''''))"

definition ListActualPorts :: "'w net_env \<Rightarrow> 'w \<Rightarrow> (string + port_info list) \<times> 'w" where
  "ListActualPorts env w = ListPorts env w"

section \<open>DNS\<close>

text \<open>The three methods that act on a record of a network's zone differ in the call they make.\<close>

definition dns_call ::
  "manager \<Rightarrow> string \<Rightarrow> (string \<Rightarrow> string \<Rightarrow> 'w \<Rightarrow> string option \<times> 'w) \<Rightarrow> 'w \<Rightarrow> net_error option \<times> 'w" where
  "dns_call m networkName call w =
     (case resolveNetwork m networkName of
        Inl e \<Rightarrow> (Some e, w)
      | Inr o_ns \<Rightarrow>
          if \<not> nm_dns m then (None, w)
          else (case o_ns of
                  None \<Rightarrow> (Some NilPointer, w)
                | Some ns \<Rightarrow>
                    if n_zoneID ns = '''' then (None, w)
                    else (let (r, w) = call (dc_Endpoint (nd_DNS (n_def ns))) (n_zoneID ns) w
                          in (map_option DnsError r, w))))"

definition RegisterDNS :: "'w net_env \<Rightarrow> manager \<Rightarrow> string \<Rightarrow> string \<Rightarrow> string \<Rightarrow> 'w \<Rightarrow> net_error option \<times> 'w" where
  "RegisterDNS env m networkName hostname addr w =
     dns_call m networkName (\<lambda>ep zone. RegisterHost env ep zone hostname addr 60) w"

definition CleanStaleDNS :: "'w net_env \<Rightarrow> manager \<Rightarrow> string \<Rightarrow> string \<Rightarrow> string \<Rightarrow> 'w \<Rightarrow> net_error option \<times> 'w" where
  "CleanStaleDNS env m networkName hostname currentIP w =
     dns_call m networkName (\<lambda>ep zone. CleanStaleRecords env ep zone hostname currentIP) w"

definition DeregisterDNS :: "'w net_env \<Rightarrow> manager \<Rightarrow> string \<Rightarrow> string \<Rightarrow> string \<Rightarrow> 'w \<Rightarrow> net_error option \<times> 'w" where
  "DeregisterDNS env m networkName hostname addr w =
     dns_call m networkName (\<lambda>ep zone. DeregisterHostByIP env ep zone hostname addr) w"

text \<open>
  \<open>InitDNSZones\<close>, one network: \<open>existing\<close> maps \<open>name:ip\<close> to the first record of a kind; later ones are
  duplicates and deleted.
\<close>

definition scan_record ::
  "'w net_env \<Rightarrow> string \<Rightarrow> string \<Rightarrow> dns_record \<Rightarrow> (string, string) gomap \<times> 'w \<Rightarrow> (string, string) gomap \<times> 'w" where
  "scan_record env endpoint zoneID r = (\<lambda>(existing, w).
     (let key = dr_Name r @ '':'' @ dr_Data r in
      if dr_Type r \<noteq> ''A'' then (existing, w)
      else if gm_has existing key then (existing, snd (DeleteRecord env endpoint zoneID (dr_ID r) w))
      else (AList.update key (dr_ID r) existing, w)))"

definition ensure_record ::
  "'w net_env \<Rightarrow> string \<Rightarrow> string \<Rightarrow> (string, string) gomap \<Rightarrow> string \<times> string \<Rightarrow> 'w \<Rightarrow> 'w" where
  "ensure_record env endpoint zoneID existing = (\<lambda>(name, addr) w.
     (if gm_has existing (name @ '':'' @ addr) then w
      else snd (RegisterHost env endpoint zoneID name addr 300 w)))"

definition init_zone :: "'w net_env \<Rightarrow> network_state \<Rightarrow> 'w \<Rightarrow> network_state \<times> 'w" where
  "init_zone env ns w =
     (let d = n_def ns; endpoint = dc_Endpoint (nd_DNS d) in
      if endpoint = '''' \<or> dc_Zone (nd_DNS d) = '''' \<or> nd_ExternalDNS d then (ns, w)
      else (case EnsureZone env endpoint (dc_Zone (nd_DNS d)) w of
              (Inl e, w) \<Rightarrow> (ns, w)
            | (Inr zoneID, w) \<Rightarrow>
                (let (records, w) = ListRecords env endpoint zoneID w;
                     (existing, w) = (case records of
                        Inl _ \<Rightarrow> ([], w)
                      | Inr rs \<Rightarrow> fold (scan_record env endpoint zoneID) rs ([], w));
                     w = fold (ensure_record env endpoint zoneID existing)
                           (map (\<lambda>r. (sr_Name r, sr_IP r)) (dc_StaticRecords (nd_DNS d))) w;
                     w = fold (\<lambda>(name, addr). if addr = '''' then id else ensure_record env endpoint zoneID existing (name, addr))
                           [(''rose1'', nd_Gateway d), (''dns'', dc_Server (nd_DNS d))] w
                 in (ns\<lparr>n_zoneID := zoneID\<rparr>, w))))"

text \<open>The loop over \<open>netOrder\<close>; \<open>None\<close> is the panic on a name that is no longer in the table.\<close>

fun init_zones :: "'w net_env \<Rightarrow> string list \<Rightarrow> manager \<Rightarrow> 'w \<Rightarrow> (manager \<times> 'w) option" where
  "init_zones env [] m w = Some (m, w)"
| "init_zones env (name # names) m w =
     (case map_of (nm_networks m) name of
        None \<Rightarrow> None
      | Some ns \<Rightarrow>
          (let (ns, w) = init_zone env ns w
           in init_zones env names (m\<lparr>nm_networks := AList.update name ns (nm_networks m)\<rparr>) w))"

definition InitDNSZones :: "'w net_env \<Rightarrow> manager \<Rightarrow> 'w \<Rightarrow> (manager \<times> 'w) option" where
  "InitDNSZones env m w = (if \<not> nm_dns m then Some (m, w) else init_zones env (nm_netOrder m) m w)"

section \<open>The reconciler\<close>

definition reconcile_port ::
  "'w net_env \<Rightarrow> manager \<Rightarrow> port_info list \<Rightarrow> string \<times> logical_port \<Rightarrow> 'w \<Rightarrow> 'w" where
  "reconcile_port env m actualPorts = (\<lambda>(name, desired) w.
     (if list_ex (\<lambda>p. pi_Name p = name) actualPorts then w
      else (case CreatePort env name (lp_Address desired) (lp_Gateway desired) w of
              (Some e, w) \<Rightarrow> w
            | (None, w) \<Rightarrow>
                (case map_of (nm_networks m) (lp_Switch desired) of
                   None \<Rightarrow> w
                 | Some ns \<Rightarrow> snd (AttachPort env (nd_Bridge (n_def ns)) name w)))))"

definition reconcile :: "'w net_env \<Rightarrow> manager \<Rightarrow> 'w \<Rightarrow> 'w" where
  "reconcile env m w =
     (case ListPorts env w of
        (Inl e, w) \<Rightarrow> w
      | (Inr actualPorts, w) \<Rightarrow>
          fold (reconcile_port env m actualPorts) (ns_Ports (ss_data (nm_state m))) w)"

section \<open>The HTTP endpoints\<close>

datatype 'a http_reply = HttpError string nat | HttpOK 'a

record switch_summary =
  ws_Name :: string
  ws_Bridge :: string
  ws_CIDR :: string
  ws_Gateway :: string

record port_summary =
  wp_Name :: string
  wp_IP :: string
  wp_Hostname :: string

datatype network_reply =
    SwitchList "switch_summary list"
  | PortList "port_summary list"
  | SwitchDetail switch_summary string int
  | AllocationDump "(string, string) gomap"

definition summary_of :: "network_state \<Rightarrow> switch_summary" where
  "summary_of ns = \<lparr>ws_Name = nd_Name (n_def ns), ws_Bridge = nd_Bridge (n_def ns),
     ws_CIDR = nd_CIDR (n_def ns), ws_Gateway = IP_String (n_gateway ns)\<rparr>"

text \<open>\<open>None\<close> is the panic on a name of \<open>netOrder\<close> without a network.\<close>

definition handleNetworks :: "manager \<Rightarrow> string \<Rightarrow> network_reply http_reply option" where
  "handleNetworks m meth =
     (if meth \<noteq> ''GET'' then Some (HttpError ''method not allowed'' 405)
      else map_option (\<lambda>nss. HttpOK (SwitchList (map summary_of nss)))
        (those (map (map_of (nm_networks m)) (nm_netOrder m))))"

definition handleNetworkDetail :: "manager \<Rightarrow> string \<Rightarrow> string \<Rightarrow> network_reply http_reply" where
  "handleNetworkDetail m meth urlPath =
     (if meth \<noteq> ''GET'' then HttpError ''method not allowed'' 405
      else
        (let prefix = ''/api/v1/networks/'';
             path = (if take (length prefix) urlPath = prefix then drop (length prefix) urlPath else urlPath);
             parts = splitN 2 (CHR ''/'') path;
             name = parts ! 0;
             mine = filter (\<lambda>(veth, al). al_networkName al = name) (nm_allocs m)
         in case map_of (nm_networks m) name of
              None \<Rightarrow> HttpError ''network not found'' 404
            | Some ns \<Rightarrow>
                if length parts = 2 \<and> parts ! 1 = ''ports''
                then HttpOK (PortList (map (\<lambda>(veth, al). \<lparr>wp_Name = veth, wp_IP = IP_String (al_ip al),
                       wp_Hostname = al_hostname al\<rparr>) mine))
                else HttpOK (SwitchDetail (summary_of ns) (dc_Zone (nd_DNS (n_def ns))) (int (length mine)))))"

definition handleAllocations :: "manager \<Rightarrow> string \<Rightarrow> network_reply http_reply" where
  "handleAllocations m meth =
     (if meth \<noteq> ''GET'' then HttpError ''method not allowed'' 405
      else HttpOK (AllocationDump (GetAllocations m)))"

end
