(* ===== verification/NetSticky.thy ===== *)
theory NetSticky
  imports NetManager
begin

text \<open>
  The network manager's tables against its address pools: an invariant of every history, that an
  interface keeps its address while it lives, and what breaks when an interface moves to a fixed address
  on another network.
\<close>

section \<open>The invariant\<close>

text \<open>
  The list of names and the table of networks agree, a pool belongs to a network, and an allocation is on
  a known network, whose pool holds its address for it or holds nothing for it.
\<close>

definition net_inv :: "manager \<Rightarrow> bool" where
  "net_inv m \<longleftrightarrow>
     ipam_maps (nm_ipam m) \<and> gm_wf (nm_networks m) \<and> gm_wf (nm_allocs m) \<and>
     distinct (nm_netOrder m) \<and> set (nm_netOrder m) = dom (map_of (nm_networks m)) \<and>
     (\<forall>n ns. map_of (nm_networks m) n = Some ns \<longrightarrow> nd_Name (n_def ns) = n) \<and>
     dom (map_of (nm_ipam m)) \<subseteq> dom (map_of (nm_networks m)) \<and>
     (\<forall>v al. map_of (nm_allocs m) v = Some al \<longrightarrow>
        al_networkName al \<in> dom (map_of (nm_networks m)) \<and>
        Allocator_Get (nm_ipam m) (al_networkName al) v \<in> {None, Some (al_ip al)})"

lemma net_invD:
  assumes "net_inv m"
  shows "ipam_maps (nm_ipam m)" and "gm_wf (nm_networks m)" and "gm_wf (nm_allocs m)"
    and "distinct (nm_netOrder m)" and "set (nm_netOrder m) = dom (map_of (nm_networks m))"
    and "map_of (nm_networks m) n = Some ns \<Longrightarrow> nd_Name (n_def ns) = n"
    and "dom (map_of (nm_ipam m)) \<subseteq> dom (map_of (nm_networks m))"
    and "map_of (nm_allocs m) v = Some al \<Longrightarrow> al_networkName al \<in> dom (map_of (nm_networks m))"
    and "map_of (nm_allocs m) v = Some al \<Longrightarrow>
      Allocator_Get (nm_ipam m) (al_networkName al) v \<in> {None, Some (al_ip al)}"
  using assms unfolding net_inv_def by blast+

lemma place_dom: "pool_place a = pool_place b \<Longrightarrow> dom (map_of a) = dom (map_of b)"
proof -
  have "dom (pool_place c) = dom (map_of c)" for c by (auto simp: pool_place_def)
  then show "pool_place a = pool_place b \<Longrightarrow> dom (map_of a) = dom (map_of b)" by metis
qed

text \<open>A change that concerns one veth only.\<close>

definition only_veth :: "string \<Rightarrow> manager \<Rightarrow> manager \<Rightarrow> bool" where
  "only_veth v m m' \<longleftrightarrow>
     nm_networks m' = nm_networks m \<and> nm_netOrder m' = nm_netOrder m \<and> ipam_maps (nm_ipam m') \<and>
     pool_place (nm_ipam m') = pool_place (nm_ipam m) \<and> gm_wf (nm_allocs m') \<and>
     (\<forall>n j. j \<noteq> v \<longrightarrow> Allocator_Get (nm_ipam m') n j = Allocator_Get (nm_ipam m) n j) \<and>
     (\<forall>j. j \<noteq> v \<longrightarrow> map_of (nm_allocs m') j = map_of (nm_allocs m) j)"

lemma only_vethD:
  assumes "only_veth v m m'"
  shows "nm_networks m' = nm_networks m" and "nm_netOrder m' = nm_netOrder m" and "ipam_maps (nm_ipam m')"
    and "pool_place (nm_ipam m') = pool_place (nm_ipam m)" and "gm_wf (nm_allocs m')"
    and "j \<noteq> v \<Longrightarrow> Allocator_Get (nm_ipam m') n j = Allocator_Get (nm_ipam m) n j"
    and "j \<noteq> v \<Longrightarrow> map_of (nm_allocs m') j = map_of (nm_allocs m) j"
  using assms unfolding only_veth_def by blast+

lemma only_veth_inv:
  assumes "net_inv m" and "only_veth v m m'"
    and "\<And>al. map_of (nm_allocs m') v = Some al \<Longrightarrow> al_networkName al \<in> dom (map_of (nm_networks m)) \<and>
      Allocator_Get (nm_ipam m') (al_networkName al) v \<in> {None, Some (al_ip al)}"
  shows "net_inv m'"
proof -
  have "al_networkName al \<in> dom (map_of (nm_networks m)) \<and>
      Allocator_Get (nm_ipam m') (al_networkName al) j \<in> {None, Some (al_ip al)}"
    if "map_of (nm_allocs m') j = Some al" for j al
  proof (cases "j = v")
    case True
    show ?thesis unfolding True by (rule assms(3)) (rule that [unfolded True])
  next
    case False
    have old: "map_of (nm_allocs m) j = Some al" using that unfolding only_vethD(7) [OF assms(2) False] .
    show ?thesis
      unfolding only_vethD(6) [OF assms(2) False]
      using net_invD(8) [OF assms(1) old] net_invD(9) [OF assms(1) old] by (rule conjI)
  qed
  then show ?thesis
    unfolding net_inv_def only_vethD(1,2) [OF assms(2)] place_dom [OF only_vethD(4) [OF assms(2)]]
    using net_invD(2,4,5,6,7) [OF assms(1)] only_vethD(3,5) [OF assms(2)] by blast
qed

section \<open>Addresses\<close>

text \<open>
  What choosing, placing and releasing may do to the pools: nothing for other veths, and for the veth
  itself its addresses elsewhere stay or go.
\<close>

definition keeps_or_drops :: "string \<Rightarrow> string set \<Rightarrow> allocator \<Rightarrow> allocator \<Rightarrow> bool" where
  "keeps_or_drops v N a a' \<longleftrightarrow>
     ipam_maps a' \<and> pool_place a' = pool_place a \<and>
     (\<forall>n j. j \<noteq> v \<longrightarrow> Allocator_Get a' n j = Allocator_Get a n j) \<and>
     (\<forall>n\<in>N. Allocator_Get a' n v \<in> {None, Allocator_Get a n v})"

lemma keeps_release:
  assumes "ipam_maps a" and "keeps_or_drops v (- {n}) a0 a"
  shows "keeps_or_drops v UNIV a0 (Allocator_Release a n v)"
  using assms maps_release [OF assms(1), of n v]
  by (auto simp: keeps_or_drops_def Release_held)

lemma keeps_static:
  assumes "ipam_maps a" and "Allocator_AllocateStatic a n v x = (r, a')"
  shows "case r of None \<Rightarrow> keeps_or_drops v (- {n}) a a' \<and> Allocator_Get a' n v = Some x
                 | Some _ \<Rightarrow> keeps_or_drops v UNIV a a'"
  using maps_static [OF assms] assms
  by (auto simp: keeps_or_drops_def split: option.splits)

lemma keeps_allocate:
  assumes "ipam_maps a" and "Allocator_Allocate a n v = (r, a')"
  shows "case r of Inr x \<Rightarrow> keeps_or_drops v (- {n}) a a' \<and> Allocator_Get a' n v = Some x
                 | Inl _ \<Rightarrow> keeps_or_drops v UNIV a a'"
  using maps_allocate [OF assms] assms
  by (auto simp: keeps_or_drops_def split: sum.splits)

lemma keeps_or_drops_trans:
  "keeps_or_drops v UNIV a b \<Longrightarrow> keeps_or_drops v N b c \<Longrightarrow> keeps_or_drops v N a c"
  unfolding keeps_or_drops_def by (auto split: if_splits) force+

lemma keeps_release_maps: "ipam_maps a \<Longrightarrow> keeps_or_drops v UNIV a (Allocator_Release a n v)"
  by (auto simp: keeps_or_drops_def maps_release Release_held)

text \<open>Which call of the allocator chose the address.\<close>

lemma choose_ip_cases:
  assumes "choose_ip m ns v staticIP = (r, a)"
  obtains (invalid) "isl r" and "a = nm_ipam m"
  | (static) x e where "Allocator_AllocateStatic (nm_ipam m) (nd_Name (n_def ns)) v x = (e, a)"
      and "case e of None \<Rightarrow> r = Inr x | Some _ \<Rightarrow> isl r"
  | (dynamic) b s where "b = nm_ipam m \<or> (\<exists>k. b = Allocator_Release (nm_ipam m) k v)"
      and "Allocator_Allocate b (nd_Name (n_def ns)) v = (s, a)" and "case s of Inl _ \<Rightarrow> isl r | Inr x \<Rightarrow> r = Inr x"
proof (cases "staticIP = []")
  case False
  show thesis
  proof (cases "ParseIP staticIP")
    case None
    with False assms show thesis by (intro invalid) (auto simp: choose_ip_def Let_def)
  next
    case (Some x)
    obtain e b where "Allocator_AllocateStatic (nm_ipam m) (nd_Name (n_def ns)) v x = (e, b)" by fastforce
    with False Some assms show thesis
      by (intro static [of x e]) (auto simp: choose_ip_def Let_def split: option.splits)
  qed
next
  case True
  show thesis
  proof (cases "map_of (nm_allocs m) v")
    case None
    obtain s b where "Allocator_Allocate (nm_ipam m) (nd_Name (n_def ns)) v = (s, b)" by fastforce
    with None True assms show thesis
      by (intro dynamic [of "nm_ipam m" s]) (auto simp: choose_ip_def Let_def split: sum.splits)
  next
    case (Some al)
    show thesis
    proof (cases "al_networkName al = nd_Name (n_def ns)")
      case same_net: True
      obtain e b where "Allocator_AllocateStatic (nm_ipam m) (nd_Name (n_def ns)) v (al_ip al) = (e, b)" by fastforce
      with Some same_net True assms show thesis
        by (intro static [of "al_ip al" e]) (auto simp: choose_ip_def Let_def split: option.splits)
    next
      case False
      obtain s b where "Allocator_Allocate (Allocator_Release (nm_ipam m) (al_networkName al) v) (nd_Name (n_def ns)) v = (s, b)"
        by fastforce
      with Some False True assms show thesis
        by (intro dynamic [of "Allocator_Release (nm_ipam m) (al_networkName al) v" s])
          (auto simp: choose_ip_def Let_def split: sum.splits)
    qed
  qed
qed

lemma choose_ip_keeps:
  assumes "ipam_maps (nm_ipam m)" and "choose_ip m ns v staticIP = (r, a)"
  shows "case r of
      Inr x \<Rightarrow> keeps_or_drops v (- {nd_Name (n_def ns)}) (nm_ipam m) a \<and> Allocator_Get a (nd_Name (n_def ns)) v = Some x
    | Inl _ \<Rightarrow> keeps_or_drops v UNIV (nm_ipam m) a"
  using assms(2)
proof (cases rule: choose_ip_cases)
  case invalid
  with assms(1) show ?thesis by (auto simp: keeps_or_drops_def isl_def)
next
  case (static x e)
  from keeps_static [OF assms(1) static(1)] static(2) show ?thesis
    by (auto simp: isl_def split: option.splits)
next
  case (dynamic b s)
  have "keeps_or_drops v UNIV (nm_ipam m) (nm_ipam m)" using assms(1) by (simp add: keeps_or_drops_def)
  then have b: "keeps_or_drops v UNIV (nm_ipam m) b" and wf: "ipam_maps b"
    using dynamic(1) assms(1) keeps_release_maps [OF assms(1)] maps_release [OF assms(1)] by auto
  from keeps_allocate [OF wf dynamic(2)] dynamic(3) show ?thesis
    by (auto simp: isl_def split: sum.splits intro: keeps_or_drops_trans [OF b])
qed

section \<open>Interfaces\<close>

lemma place_port_keeps:
  assumes "place_port env m ns v x w = (e, m', w')"
  shows "m' = (if e = None then m else m\<lparr>nm_ipam := Allocator_Release (nm_ipam m) (nd_Name (n_def ns)) v\<rparr>)"
  using assms by (auto simp: place_port_def Let_def split: prod.splits option.splits)

lemma record_port_tables:
  assumes "record_port env m ns v h x w = (m', w')"
  shows "nm_networks m' = nm_networks m" and "nm_netOrder m' = nm_netOrder m" and "nm_ipam m' = nm_ipam m"
    and "nm_allocs m' = AList.update v
      \<lparr>al_networkName = nd_Name (n_def ns), al_ip = x, al_hostname = h\<rparr> (nm_allocs m)"
  using assms by (auto simp: record_port_def Let_def split: prod.splits)

lemma only_vethI:
  assumes "keeps_or_drops v N (nm_ipam m) a"
    and "nm_networks m' = nm_networks m" and "nm_netOrder m' = nm_netOrder m" and "nm_ipam m' = a"
    and "gm_wf (nm_allocs m')" and "\<And>j. j \<noteq> v \<Longrightarrow> map_of (nm_allocs m') j = map_of (nm_allocs m) j"
  shows "only_veth v m m'"
  using assms unfolding only_veth_def keeps_or_drops_def by simp

lemma AllocateInterface_result:
  assumes "net_inv m" and "AllocateInterface env m v h n st w = (r, m', w')"
  shows "only_veth v m m' \<and>
    (case r of
       Inl e \<Rightarrow> nm_allocs m' = nm_allocs m \<and> keeps_or_drops v UNIV (nm_ipam m) (nm_ipam m')
     | Inr (cidr, gw, dns) \<Rightarrow> \<exists>ns x. resolveNetwork m n = Inr (Some ns) \<and> cidr = cidr_text x (n_subnet ns) \<and>
         gw = IP_String (n_gateway ns) \<and> Allocator_Get (nm_ipam m') (nd_Name (n_def ns)) v = Some x \<and>
         map_of (nm_allocs m') v = Some \<lparr>al_networkName = nd_Name (n_def ns), al_ip = x, al_hostname = h\<rparr>)"
proof -
  note wf = net_invD(1,3) [OF assms(1)]
  have stay: ?thesis if "r = Inl e" "m' = m\<lparr>nm_ipam := a\<rparr>" "keeps_or_drops v UNIV (nm_ipam m) a" for e a
    using that wf(2) by (auto intro: only_vethI)
  have same: "keeps_or_drops v UNIV (nm_ipam m) (nm_ipam m)"
    using wf(1) by (simp add: keeps_or_drops_def)
  have unchanged: "m = m\<lparr>nm_ipam := nm_ipam m\<rparr>" by simp
  show ?thesis
  proof (cases "resolveNetwork m n")
    case (Inl e)
    with assms(2) show ?thesis by (intro stay [OF _ _ same, of e]) (auto simp: AllocateInterface_def)
  next
    case (Inr o_ns)
    show ?thesis
    proof (cases o_ns)
      case None
      with Inr assms(2) show ?thesis
        by (intro stay [OF _ _ same, of NilPointer]) (auto simp: AllocateInterface_def)
    next
      case (Some ns)
      obtain c a where c: "choose_ip m ns v st = (c, a)" by fastforce
      note keeps = choose_ip_keeps [OF wf(1) c]
      show ?thesis
      proof (cases c)
        case (Inl e)
        with Inr Some c assms(2) keeps show ?thesis
          by (intro stay [where e = e and a = a]) (auto simp: AllocateInterface_def)
      next
        case x: (Inr x)
        have held: "keeps_or_drops v (- {nd_Name (n_def ns)}) (nm_ipam m) a"
          "Allocator_Get a (nd_Name (n_def ns)) v = Some x"
          using keeps x by auto
        obtain e m1 w1 where pp: "place_port env (m\<lparr>nm_ipam := a\<rparr>) ns v x w = (e, m1, w1)"
          by (metis prod_cases3)
        note m1 = place_port_keeps [OF pp]
        have wfa: "ipam_maps a" using held(1) by (simp add: keeps_or_drops_def)
        show ?thesis
        proof (cases e)
          case err: (Some e')
          with Inr Some c x pp assms(2) m1 show ?thesis
            by (intro stay [OF _ _ keeps_release [OF wfa held(1)], of e'])
              (auto simp: AllocateInterface_def)
        next
          case None
          obtain m2 w2 where rp: "record_port env m1 ns v h x w1 = (m2, w2)" by fastforce
          note t = record_port_tables [OF rp]
          have res: "r = Inr (cidr_text x (n_subnet ns), IP_String (n_gateway ns), dc_Server (nd_DNS (n_def ns)))"
            and m': "m' = m2"
            using None Inr Some c x pp rp assms(2) by (auto simp: AllocateInterface_def)
          have "only_veth v m m'"
            by (rule only_vethI [OF held(1)]) (use t m1 None m' wf(2) in auto)
          then show ?thesis
            using res m' t m1 None Inr Some held(2) by auto
        qed
      qed
    qed
  qed
qed

lemma resolve_known:
  assumes "net_inv m" and "resolveNetwork m n = Inr (Some ns)"
  shows "nd_Name (n_def ns) \<in> dom (map_of (nm_networks m))"
proof -
  from assms(2) obtain k where "map_of (nm_networks m) k = Some ns"
    by (auto simp: resolveNetwork_def split: if_splits option.splits)
  with net_invD(6) [OF assms(1)] show ?thesis by (metis domI)
qed

lemma AllocateInterface_inv:
  assumes "net_inv m" and "AllocateInterface env m v h n st w = (r, m', w')"
  shows "net_inv m'"
proof (rule only_veth_inv [OF assms(1)])
  note res = AllocateInterface_result [OF assms]
  show "only_veth v m m'" using res ..
  fix al
  assume al: "map_of (nm_allocs m') v = Some al"
  show "al_networkName al \<in> dom (map_of (nm_networks m)) \<and>
      Allocator_Get (nm_ipam m') (al_networkName al) v \<in> {None, Some (al_ip al)}"
  proof (cases r)
    case (Inl e)
    with res have eq: "nm_allocs m' = nm_allocs m" "keeps_or_drops v UNIV (nm_ipam m) (nm_ipam m')" by auto
    have old: "map_of (nm_allocs m) v = Some al" using al unfolding eq(1) .
    have "Allocator_Get (nm_ipam m') (al_networkName al) v
        \<in> {None, Allocator_Get (nm_ipam m) (al_networkName al) v}"
      using eq(2) by (simp add: keeps_or_drops_def)
    with net_invD(8,9) [OF assms(1) old] show ?thesis by auto
  next
    case (Inr t)
    obtain cidr gw dns where "t = (cidr, gw, dns)" by (cases t)
    with res Inr obtain ns x where ns: "resolveNetwork m n = Inr (Some ns)"
      "Allocator_Get (nm_ipam m') (nd_Name (n_def ns)) v = Some x"
      and al': "map_of (nm_allocs m') v = Some \<lparr>al_networkName = nd_Name (n_def ns), al_ip = x, al_hostname = h\<rparr>"
      by auto
    have "al = \<lparr>al_networkName = nd_Name (n_def ns), al_ip = x, al_hostname = h\<rparr>"
      using al unfolding al' by simp
    with ns resolve_known [OF assms(1) ns(1)] show ?thesis by simp
  qed
qed

lemma forget_result:
  assumes "net_inv m" and "forget env m v w = (m', w')"
  shows "only_veth v m m' \<and> map_of (nm_allocs m') v = None"
proof (cases "map_of (nm_allocs m) v")
  case (Some al)
  have "only_veth v m m'"
    by (rule only_vethI [OF keeps_release_maps [OF net_invD(1) [OF assms(1)], of v "al_networkName al"]])
      (use Some assms(2) net_invD(3) [OF assms(1)] in \<open>auto simp: forget_def Let_def\<close>)
  moreover have "map_of (nm_allocs m') v = None"
    using Some assms(2) by (auto simp: forget_def Let_def simp del: map_of_eq_None_iff)
  ultimately show ?thesis ..
next
  case None
  have "keeps_or_drops v UNIV (nm_ipam m) (Allocator_ReleaseFromAll (nm_ipam m) v)"
    using net_invD(1) [OF assms(1)]
    by (simp add: keeps_or_drops_def maps_release_all ReleaseFromAll_held)
  then have "only_veth v m m'"
    by (rule only_vethI)
      (use None assms(2) net_invD(3) [OF assms(1)] in \<open>auto simp: forget_def Let_def simp del: map_of_eq_None_iff\<close>)
  moreover have "nm_allocs m' = nm_allocs m"
    using None assms(2) by (auto simp: forget_def Let_def simp del: map_of_eq_None_iff)
  ultimately show ?thesis using None by simp
qed

lemma forget_inv: "net_inv m \<Longrightarrow> forget env m v w = (m', w') \<Longrightarrow> net_inv m'"
  using forget_result [of m env v w m' w'] by (intro only_veth_inv [of m v m']) auto

section \<open>Networks\<close>

text \<open>
  The tables after a network was added: with its pool, or, when the allocation range could not be used,
  without one.
\<close>

lemma add_network_cases:
  assumes "add_network m d = (e, m')"
  obtains (rejected) "m' = m" and "e \<noteq> None"
  | (added) ns a where "nm_networks m' = AList.update (nd_Name d) ns (nm_networks m)" and "n_def ns = d"
      and "nm_netOrder m' = nm_netOrder m @ [nd_Name d]" and "nm_allocs m' = nm_allocs m" and "nm_ipam m' = a"
      and "a = nm_ipam m \<or> (\<exists>opts. pool_options d = Inr opts \<and>
        Allocator_AddPool (nm_ipam m) (nd_Name d) (n_subnet ns) (n_gateway ns) opts = Inr a)"
      and "parse_network d = Inr (n_subnet ns, n_gateway ns)"
proof (cases "parse_network d")
  case (Inl e')
  with assms show thesis by (intro rejected) (auto simp: add_network_def)
next
  case (Inr sg)
  obtain subnet gw where sg: "sg = (subnet, gw)" by (cases sg)
  let ?ns = "\<lparr>n_def = d, n_subnet = subnet, n_gateway = gw, n_zoneID = ''''\<rparr>"
  show thesis
    by (rule added [of ?ns "nm_ipam m'"])
      (use Inr sg assms in \<open>auto simp: add_network_def Let_def split: sum.splits\<close>)
qed

lemma AddPool_get:
  assumes "Allocator_AddPool a n subnet gw opts = Inr a'"
  shows "Allocator_Get a' k v = (if k = n then None else Allocator_Get a k v)"
    and "dom (map_of a') = insert n (dom (map_of a))"
proof -
  obtain p where p: "a' = AList.update n p a" "pool_Allocated p = []"
    using AddPool_pool [OF assms] by metis
  then show "Allocator_Get a' k v = (if k = n then None else Allocator_Get a k v)"
    by (simp add: Allocator_Get_def)
  show "dom (map_of a') = insert n (dom (map_of a))" by (simp add: p(1) update_conv')
qed

lemma AddPool_place:
  assumes "Allocator_AddPool a n subnet gw opts = Inr a'" and "k \<noteq> n"
  shows "pool_place a' k = pool_place a k"
proof -
  obtain p where "a' = AList.update n p a" using AddPool_pool [OF assms(1)] by metis
  with assms(2) show ?thesis by (simp add: pool_place_def)
qed

lemma add_network_inv:
  assumes "net_inv m" and "add_network m d = (e, m')" and "map_of (nm_networks m) (nd_Name d) = None"
  shows "net_inv m'"
  using assms(2)
proof (cases rule: add_network_cases)
  case rejected
  with assms(1) show ?thesis by simp
next
  case (added ns a)
  note inv = net_invD [OF assms(1)]
  let ?n = "nd_Name d"
  have pool: "ipam_maps a \<and> dom (map_of a) \<subseteq> insert ?n (dom (map_of (nm_ipam m))) \<and>
      (\<forall>k v. k \<noteq> ?n \<longrightarrow> Allocator_Get a k v = Allocator_Get (nm_ipam m) k v)"
    using added(6)
  proof
    assume "a = nm_ipam m"
    then show ?thesis using inv(1) by auto
  next
    assume "\<exists>opts. pool_options d = Inr opts \<and>
      Allocator_AddPool (nm_ipam m) ?n (n_subnet ns) (n_gateway ns) opts = Inr a"
    then obtain opts where o: "pool_options d = Inr opts"
      "Allocator_AddPool (nm_ipam m) ?n (n_subnet ns) (n_gateway ns) opts = Inr a" by blast
    show ?thesis
      using maps_add [OF inv(1) o(2)] AddPool_get [OF o(2)] by simp
  qed
  have fresh: "?n \<notin> dom (map_of (nm_networks m))" using assms(3) by (simp add: domIff)
  have doms: "dom (map_of (nm_networks m')) = insert ?n (dom (map_of (nm_networks m)))"
    by (simp add: added(1) update_conv')
  have allocs: "al_networkName al \<in> dom (map_of (nm_networks m')) \<and>
      Allocator_Get (nm_ipam m') (al_networkName al) v \<in> {None, Some (al_ip al)}"
    if "map_of (nm_allocs m') v = Some al" for v al
  proof -
    have old: "map_of (nm_allocs m) v = Some al" using that unfolding added(4) .
    have "al_networkName al \<noteq> ?n" using inv(8) [OF old] fresh by metis
    with inv(8,9) [OF old] pool doms show ?thesis by (simp add: added(5))
  qed
  have names: "nd_Name (n_def k) = j" if "map_of (nm_networks m') j = Some k" for j k
  proof (cases "j = ?n")
    case True
    with that added(2) show ?thesis unfolding added(1) map_of_update by simp
  next
    case False
    then have "map_of (nm_networks m) j = Some k" using that unfolding added(1) map_of_update by simp
    then show ?thesis by (rule inv(6))
  qed
  have "dom (map_of (nm_ipam m')) \<subseteq> dom (map_of (nm_networks m'))"
    using pool inv(7) unfolding doms added(5) by blast
  moreover have "set (nm_netOrder m') = dom (map_of (nm_networks m'))" "distinct (nm_netOrder m')"
    using inv(4,5) fresh unfolding doms added(3) by auto
  moreover have "ipam_maps (nm_ipam m')" "gm_wf (nm_networks m')" "gm_wf (nm_allocs m')"
    using pool inv(2,3) by (simp_all add: added(1,4,5))
  ultimately show ?thesis
    using allocs names unfolding net_inv_def by blast
qed

lemma RegisterNetwork_inv:
  assumes "net_inv m"
  shows "net_inv (snd (RegisterNetwork m d))"
proof (cases "gm_has (nm_networks m) (nd_Name d)")
  case True
  with assms show ?thesis by (simp add: RegisterNetwork_def del: map_of_eq_None_iff)
next
  case False
  obtain e m' where a: "add_network m d = (e, m')" by fastforce
  from False have none: "map_of (nm_networks m) (nd_Name d) = None" by blast
  from add_network_inv [OF assms a none] a none show ?thesis
    by (simp add: RegisterNetwork_def del: map_of_eq_None_iff)
qed

lemma UpdateNetwork_tables:
  "nm_ipam (UpdateNetwork m d) = nm_ipam m" "nm_allocs (UpdateNetwork m d) = nm_allocs m"
  "nm_netOrder (UpdateNetwork m d) = nm_netOrder m"
  by (simp_all add: UpdateNetwork_def Let_def split: option.splits)

lemma UpdateNetwork_look:
  "map_of (nm_networks (UpdateNetwork m d)) n = Some ns' \<Longrightarrow>
   \<exists>ns. map_of (nm_networks m) n = Some ns \<and> n_subnet ns' = n_subnet ns \<and> n_zoneID ns' = n_zoneID ns \<and>
     n_def ns' = (if n = nd_Name d then d else n_def ns)"
  by (cases "map_of (nm_networks m) (nd_Name d)")
    (auto simp: UpdateNetwork_def Let_def split: if_splits simp del: map_of_eq_None_iff map_of_eq_Some_iff)

lemma UpdateNetwork_dom: "dom (map_of (nm_networks (UpdateNetwork m d))) = dom (map_of (nm_networks m))"
  by (cases "map_of (nm_networks m) (nd_Name d)")
    (auto simp: UpdateNetwork_def Let_def split: if_splits simp del: map_of_eq_None_iff map_of_eq_Some_iff)

lemma UpdateNetwork_inv:
  assumes "net_inv m"
  shows "net_inv (UpdateNetwork m d)"
proof -
  note inv = net_invD [OF assms]
  have "nd_Name (n_def ns') = n" if "map_of (nm_networks (UpdateNetwork m d)) n = Some ns'" for n ns'
    using UpdateNetwork_look [OF that] inv(6) by (cases "n = nd_Name d") auto
  moreover have "gm_wf (nm_networks (UpdateNetwork m d))"
    using inv(2) by (auto simp: UpdateNetwork_def Let_def split: option.splits)
  ultimately show ?thesis
    unfolding net_inv_def UpdateNetwork_tables UpdateNetwork_dom
    using inv(1,3,4,5,7,8,9) by blast
qed

lemma RemovePool_get: "k \<noteq> n \<Longrightarrow> Allocator_Get (Allocator_RemovePool a n) k v = Allocator_Get a k v"
  by (simp add: Allocator_RemovePool_def Allocator_Get_def)

lemma RemovePool_place: "k \<noteq> n \<Longrightarrow> pool_place (Allocator_RemovePool a n) k = pool_place a k"
  by (simp add: Allocator_RemovePool_def pool_place_def)

lemma UnregisterNetwork_inv:
  assumes "net_inv m"
  shows "net_inv (UnregisterNetwork m n)"
proof (cases "gm_has (nm_networks m) n")
  case False
  with assms show ?thesis by (simp add: UnregisterNetwork_def del: map_of_eq_None_iff)
next
  case True
  note inv = net_invD [OF assms]
  let ?m = "UnregisterNetwork m n"
  have eq: "nm_networks ?m = AList.delete n (nm_networks m)" "nm_ipam ?m = Allocator_RemovePool (nm_ipam m) n"
    "nm_netOrder ?m = remove1 n (nm_netOrder m)"
    "nm_allocs ?m = filter (\<lambda>(k, al). al_networkName al \<noteq> n) (nm_allocs m)"
    using True by (simp_all add: UnregisterNetwork_def del: map_of_eq_None_iff)
  have doms: "dom (map_of (nm_networks ?m)) = dom (map_of (nm_networks m)) - {n}"
    "dom (map_of (nm_ipam ?m)) = dom (map_of (nm_ipam m)) - {n}"
    by (simp_all add: eq Allocator_RemovePool_def delete_conv')
  have allocs: "al_networkName al \<in> dom (map_of (nm_networks ?m)) \<and>
      Allocator_Get (nm_ipam ?m) (al_networkName al) v \<in> {None, Some (al_ip al)}"
    if "map_of (nm_allocs ?m) v = Some al" for v al
  proof -
    have "(v, al) \<in> set (nm_allocs ?m)" using that by (rule map_of_SomeD)
    then have "(v, al) \<in> set (nm_allocs m)" and ne: "al_networkName al \<noteq> n" by (auto simp: eq)
    then have old: "map_of (nm_allocs m) v = Some al" using gm_mem_iff [OF inv(3)] by blast
    from inv(8,9) [OF old] ne show ?thesis unfolding doms eq(2) RemovePool_get [OF ne] by blast
  qed
  have "ipam_maps (nm_ipam ?m)"
    using inv(1) unfolding eq(2) by (rule maps_remove)
  moreover have "gm_wf (nm_networks ?m)" "gm_wf (nm_allocs ?m)"
    using inv(2,3) by (simp_all add: eq(1,4))
  moreover have "distinct (nm_netOrder ?m)" "set (nm_netOrder ?m) = dom (map_of (nm_networks ?m))"
    using inv(4,5) unfolding doms eq(3) by (simp_all add: set_remove1_eq)
  moreover have "nd_Name (n_def ns) = k" if "map_of (nm_networks ?m) k = Some ns" for k ns
    by (rule inv(6)) (use that in \<open>simp add: eq(1) split: if_splits\<close>)
  moreover have "dom (map_of (nm_ipam ?m)) \<subseteq> dom (map_of (nm_networks ?m))"
    using inv(7) unfolding doms by blast
  ultimately show ?thesis
    using allocs unfolding net_inv_def by blast
qed

section \<open>Recovery\<close>

text \<open>
  A recovery records whatever it reads from the device, unchecked, as long as some pool's subnet contains
  the address.
\<close>

lemma sync_entry_pool:
  assumes "sync_entry m p = Some (v, n, x)"
  shows "n \<in> dom (map_of (nm_ipam m))"
proof -
  obtain q where "List.find (\<lambda>(n, p). Contains (pool_Subnet p) x) (nm_ipam m) = Some (n, q)"
    using assms by (auto simp: sync_entry_def Let_def Allocator_PoolForIP_def split: option.splits if_splits)
  from find_SomeD [OF this] have "(n, q) \<in> set (nm_ipam m)" by simp
  then have "n \<in> fst ` set (nm_ipam m)" by (rule image_eqI [rotated]) simp
  then show ?thesis by (simp only: dom_map_of_conv_image_fst)
qed

lemma Record_get:
  assumes "map_of a n \<noteq> None"
  shows "Allocator_Get (Allocator_Record a n v x) k j = (if k = n \<and> j = v then Some x else Allocator_Get a k j)"
    and "dom (map_of (Allocator_Record a n v x)) = dom (map_of a)"
proof -
  obtain p where p: "map_of a n = Some p" using assms by blast
  have r: "Allocator_Record a n v x = AList.update n (p\<lparr>pool_Allocated := AList.update v x (pool_Allocated p)\<rparr>) a"
    unfolding Allocator_Record_def p by simp
  show "Allocator_Get (Allocator_Record a n v x) k j = (if k = n \<and> j = v then Some x else Allocator_Get a k j)"
    unfolding r Allocator_Get_def map_of_update using p by (cases "k = n") auto
  show "dom (map_of (Allocator_Record a n v x)) = dom (map_of a)"
    unfolding r update_conv' using domI [of "map_of a" n, OF p] by auto
qed

lemma record_entry_result:
  assumes "net_inv m" and "n \<in> dom (map_of (nm_ipam m))"
  shows "only_veth v m (record_entry (v, n, x) m)" and "net_inv (record_entry (v, n, x) m)"
proof -
  let ?m = "record_entry (v, n, x) m"
  have known: "map_of (nm_ipam m) n \<noteq> None" using assms(2) unfolding domIff .
  note get = Record_get [OF known, of v x]
  have eq: "nm_ipam ?m = Allocator_Record (nm_ipam m) n v x"
    "nm_allocs ?m = AList.update v \<lparr>al_networkName = n, al_ip = x, al_hostname = extractHostname v\<rparr> (nm_allocs m)"
    "nm_networks ?m = nm_networks m" "nm_netOrder ?m = nm_netOrder m"
    by (simp_all add: record_entry_def)
  have "keeps_or_drops v (- {n}) (nm_ipam m) (nm_ipam ?m)"
    unfolding keeps_or_drops_def eq(1) get using maps_record [OF net_invD(1) [OF assms(1)]] by simp
  then show o: "only_veth v m ?m"
    by (rule only_vethI) (use eq net_invD(3) [OF assms(1)] in auto)
  show "net_inv ?m"
  proof (rule only_veth_inv [OF assms(1) o])
    fix al
    assume "map_of (nm_allocs ?m) v = Some al"
    then have "al = \<lparr>al_networkName = n, al_ip = x, al_hostname = extractHostname v\<rparr>"
      unfolding eq(2) map_of_update by simp
    moreover have "n \<in> dom (map_of (nm_networks m))"
      using net_invD(7) [OF assms(1)] assms(2) by blast
    ultimately show "al_networkName al \<in> dom (map_of (nm_networks m)) \<and>
        Allocator_Get (nm_ipam ?m) (al_networkName al) v \<in> {None, Some (al_ip al)}"
      by (simp add: eq(1) get(1))
  qed
qed

lemma sync_inv:
  assumes "net_inv m" and "\<And>v n x. (v, n, x) \<in> set es \<Longrightarrow> n \<in> dom (map_of (nm_ipam m))"
  shows "net_inv (fold record_entry es m)"
  using assms
proof (induction es arbitrary: m)
  case (Cons e es)
  obtain v n x where e: "e = (v, n, x)" by (cases e)
  have n: "n \<in> dom (map_of (nm_ipam m))" by (rule Cons.prems(2) [of v n x]) (simp add: e)
  note rec = record_entry_result [OF Cons.prems(1) n, of v x]
  have "dom (map_of (nm_ipam (record_entry (v, n, x) m))) = dom (map_of (nm_ipam m))"
    by (rule place_dom [OF only_vethD(4) [OF rec(1)]])
  then have "net_inv (fold record_entry es (record_entry e m))"
    unfolding e using rec(2) Cons.prems(2) by (intro Cons.IH) (metis list.set_intros(2))+
  then show ?case by simp
qed simp

lemma dom_update: "dom (map_of (AList.update k x m)) = insert k (dom (map_of m))"
  by (auto split: if_splits)

lemma init_zones_ConsE:
  assumes "init_zones env (name # names) m w = Some (m', w')"
  obtains ns z w1 where "map_of (nm_networks m) name = Some ns" and "init_zone env ns w = (z, w1)"
    and "init_zones env names (m\<lparr>nm_networks := AList.update name z (nm_networks m)\<rparr>) w1 = Some (m', w')"
  using assms
  by (auto split: option.splits prod.splits simp del: map_of_eq_None_iff map_of_eq_Some_iff)

lemma init_zone_def_same:
  "init_zone env ns w = (z, w1) \<Longrightarrow> n_def z = n_def ns \<and> n_subnet z = n_subnet ns"
  by (auto simp: init_zone_def Let_def split: if_splits prod.splits sum.splits)

lemma init_zones_tables:
  assumes "init_zones env names m w = Some (m', w')"
  shows "nm_ipam m' = nm_ipam m \<and> nm_allocs m' = nm_allocs m \<and> nm_netOrder m' = nm_netOrder m \<and>
    (gm_wf (nm_networks m) \<longrightarrow> gm_wf (nm_networks m')) \<and>
    dom (map_of (nm_networks m')) = dom (map_of (nm_networks m))"
  using assms
proof (induction names arbitrary: m w)
  case (Cons name names)
  from Cons.prems obtain ns z w1 where ns: "map_of (nm_networks m) name = Some ns"
    and rec: "init_zones env names (m\<lparr>nm_networks := AList.update name z (nm_networks m)\<rparr>) w1 = Some (m', w')"
    by (rule init_zones_ConsE)
  have "insert name (dom (map_of (nm_networks m))) = dom (map_of (nm_networks m))"
    using domI [of "map_of (nm_networks m)", OF ns] by blast
  with Cons.IH [OF rec] show ?case by (simp add: dom_update del: map_of_update)
qed simp

lemma init_zones_look:
  assumes "init_zones env names m w = Some (m', w')" and "map_of (nm_networks m') n = Some ns'"
  shows "\<exists>ns. map_of (nm_networks m) n = Some ns \<and> n_def ns' = n_def ns \<and> n_subnet ns' = n_subnet ns"
  using assms(1)
proof (induction names arbitrary: m w)
  case Nil
  with assms(2) show ?case by simp
next
  case (Cons name names)
  from Cons.prems obtain ns z w1 where ns: "map_of (nm_networks m) name = Some ns"
    and z: "init_zone env ns w = (z, w1)"
    and rec: "init_zones env names (m\<lparr>nm_networks := AList.update name z (nm_networks m)\<rparr>) w1 = Some (m', w')"
    by (rule init_zones_ConsE)
  from Cons.IH [OF rec] init_zone_def_same [OF z] ns show ?case
    by (cases "n = name") (auto simp del: map_of_eq_None_iff map_of_eq_Some_iff)
qed

lemma init_zones_total:
  "set names \<subseteq> dom (map_of (nm_networks m)) \<Longrightarrow> init_zones env names m w \<noteq> None"
proof (induction names arbitrary: m w)
  case (Cons name names)
  then obtain ns where ns: "map_of (nm_networks m) name = Some ns" by auto
  obtain z w1 where z: "init_zone env ns w = (z, w1)" by fastforce
  have "init_zones env names (m\<lparr>nm_networks := AList.update name z (nm_networks m)\<rparr>) w1 \<noteq> None"
    by (rule Cons.IH) (use Cons.prems in \<open>auto simp: update_conv'\<close>)
  then show ?case by (simp add: ns z del: map_of_eq_None_iff map_of_eq_Some_iff)
qed simp

lemma InitDNSZones_inv:
  assumes "net_inv m" and "InitDNSZones env m w = Some (m', w')"
  shows "net_inv m'"
proof (cases "nm_dns m")
  case False
  with assms show ?thesis by (simp add: InitDNSZones_def)
next
  case True
  then have z: "init_zones env (nm_netOrder m) m w = Some (m', w')"
    using assms(2) by (simp add: InitDNSZones_def)
  note eq = init_zones_tables [OF z] and inv = net_invD [OF assms(1)]
  have "nd_Name (n_def ns') = n" if "map_of (nm_networks m') n = Some ns'" for n ns'
    using init_zones_look [OF z that] inv(6) by auto
  then show ?thesis
    unfolding net_inv_def using eq inv(1,2,3,4,5,7,8,9) by simp
qed

section \<open>Histories\<close>

text \<open>
  One constructor per method that changes the manager or the device, and \<open>External_op\<close> for changes of the
  device and the DNS server from outside.
\<close>

datatype 'w net_op =
    Allocate_op string string string string
  | Release_op string instant
  | Destroy_op string
  | Register_op network_def
  | Update_op network_def
  | Unregister_op string
  | Resync_op
  | InitDNS_op
  | Reconcile_op
  | External_op "'w \<Rightarrow> 'w"

fun net_exec :: "'w net_env \<Rightarrow> 'w net_op \<Rightarrow> manager \<times> 'w \<Rightarrow> manager \<times> 'w" where
  "net_exec env (Allocate_op v h n st) (m, w) = snd (AllocateInterface env m v h n st w)"
| "net_exec env (Release_op v now) (m, w) = snd (ReleaseInterface env m v now w)"
| "net_exec env (Destroy_op v) (m, w) = snd (DestroyInterface env m v w)"
| "net_exec env (Register_op d) (m, w) = (snd (RegisterNetwork m d), w)"
| "net_exec env (Update_op d) (m, w) = (UpdateNetwork m d, w)"
| "net_exec env (Unregister_op n) (m, w) = (UnregisterNetwork m n, w)"
| "net_exec env Resync_op (m, w) = snd (ResyncAllocations env m w)"
| "net_exec env InitDNS_op (m, w) = (case InitDNSZones env m w of None \<Rightarrow> (m, w) | Some s \<Rightarrow> s)"
| "net_exec env Reconcile_op (m, w) = (m, reconcile env m w)"
| "net_exec env (External_op f) (m, w) = (m, f w)"

inductive net_step :: "'w net_env \<Rightarrow> manager \<times> 'w \<Rightarrow> manager \<times> 'w \<Rightarrow> bool" for env where
  exec: "net_step env s (net_exec env op s)"

text \<open>How the manager starts: on networks with distinct names.\<close>

definition started :: "'w net_env \<Rightarrow> manager \<times> 'w \<Rightarrow> bool" where
  "started env s \<longleftrightarrow> (\<exists>ds dns path w. distinct (map nd_Name ds) \<and>
     NewManager env ds dns path w = (Inr (fst s), snd s))"

lemma sync_entries_pools:
  "(v, n, x) \<in> set (List.map_filter (sync_entry m) ports) \<Longrightarrow> n \<in> dom (map_of (nm_ipam m))"
  unfolding map_filter_def using sync_entry_pool by fastforce

lemma Resync_inv:
  assumes "net_inv m"
  shows "net_inv (fst (net_exec env Resync_op (m, w)))"
proof (cases "ListPorts env w")
  case (Pair r w')
  show ?thesis
  proof (cases r)
    case (Inl e)
    with Pair assms show ?thesis by (simp add: ResyncAllocations_def syncExistingAllocations_def)
  next
    case (Inr ports)
    with Pair sync_inv [OF assms sync_entries_pools] show ?thesis
      by (simp add: ResyncAllocations_def syncExistingAllocations_def)
  qed
qed

lemma Release_cases:
  assumes "net_inv m" and "ReleaseInterface env m v now w = (e, m', w')"
  shows "m' = m \<or> (\<exists>w0. forget env m v w0 = (m', w') \<and>
    (\<exists>ports. fst (ListPorts env (deregister env m v w)) = Inr ports \<and> \<not> list_ex (\<lambda>p. pi_Name p = v) ports))"
  using assms(2)
  by (auto simp: ReleaseInterface_def split: prod.splits sum.splits if_splits)

lemma Destroy_cases:
  assumes "DestroyInterface env m v w = (e, m', w')"
  shows "if e = None then \<exists>w0. forget env m v w0 = (m', w') else m' = m"
  using assms by (auto simp: DestroyInterface_def split: prod.splits option.splits)

lemma net_exec_inv:
  assumes inv: "net_inv m"
  shows "net_inv (fst (net_exec env op (m, w)))"
proof (cases op)
  case (Allocate_op v h n st)
  then show ?thesis using AllocateInterface_inv [OF inv]
    by (cases "AllocateInterface env m v h n st w") auto
next
  case (Release_op v now)
  then show ?thesis using Release_cases [OF inv] forget_inv [OF inv] inv
    by (cases "ReleaseInterface env m v now w") fastforce
next
  case (Destroy_op v)
  then show ?thesis using Destroy_cases [of env m v w] forget_inv [OF inv] inv
    by (cases "DestroyInterface env m v w") (fastforce split: if_splits)
next
  case (Register_op d)
  then show ?thesis using RegisterNetwork_inv [OF inv] by simp
next
  case (Update_op d)
  then show ?thesis using UpdateNetwork_inv [OF inv] by simp
next
  case (Unregister_op n)
  then show ?thesis using UnregisterNetwork_inv [OF inv] by simp
next
  case Resync_op
  show ?thesis unfolding Resync_op by (rule Resync_inv [OF inv])
next
  case InitDNS_op
  then show ?thesis using InitDNSZones_inv [OF inv] inv
    by (cases "InitDNSZones env m w") auto
qed (use inv in auto)

lemma add_network_names:
  "add_network m d = (None, m') \<Longrightarrow> dom (map_of (nm_networks m')) = insert (nd_Name d) (dom (map_of (nm_networks m)))"
  by (erule add_network_cases) (simp_all add: dom_update del: map_of_update)

lemma add_networks_inv:
  assumes "add_networks m ds = Inr m'" and "net_inv m"
    and "distinct (map nd_Name ds)" and "set (map nd_Name ds) \<inter> dom (map_of (nm_networks m)) = {}"
  shows "net_inv m'"
  using assms
proof (induction ds arbitrary: m)
  case (Cons d ds)
  from Cons.prems(1) obtain m1 where m1: "add_network m d = (None, m1)" "add_networks m1 ds = Inr m'"
    by (auto split: prod.splits option.splits)
  have "map_of (nm_networks m) (nd_Name d) = None" using Cons.prems(4) by (simp add: domIff)
  then have "net_inv m1" by (rule add_network_inv [OF Cons.prems(2) m1(1)])
  then show ?case
    by (rule Cons.IH [OF m1(2)]) (use Cons.prems add_network_names [OF m1(1)] in auto)
qed simp

lemma started_inv:
  assumes "started env s"
  shows "net_inv (fst s)"
proof -
  from assms obtain ds dns path w where names: "distinct (map nd_Name ds)"
    and new: "NewManager env ds dns path w = (Inr (fst s), snd s)"
    by (auto simp: started_def)
  from new obtain m where m: "add_networks (empty_manager dns path) ds = Inr m"
    by (auto simp: NewManager_def split: sum.splits)
  have "net_inv (empty_manager dns path)"
    by (simp add: net_inv_def empty_manager_def NewAllocator_def ipam_maps_def)
  moreover have "set (map nd_Name ds) \<inter> dom (map_of (nm_networks (empty_manager dns path))) = {}"
    by (simp add: empty_manager_def)
  ultimately have inv: "net_inv m" by (rule add_networks_inv [OF m _ names])
  obtain e ss w1 where l: "store_load env (nm_state m) w = (e, ss, w1)" by (metis prod_cases3)
  have "net_inv (m\<lparr>nm_state := ss\<rparr>)" using inv by (simp add: net_inv_def)
  then have "net_inv (fst (net_exec env Resync_op (m\<lparr>nm_state := ss\<rparr>, w1)))" by (rule Resync_inv)
  moreover have "fst s = fst (net_exec env Resync_op (m\<lparr>nm_state := ss\<rparr>, w1))"
    using new m l by (auto simp: NewManager_def ResyncAllocations_def Let_def split: prod.splits)
  ultimately show ?thesis by simp
qed

interpretation net_sys: invariant_system "started env" "net_step env" "\<lambda>s. net_inv (fst s)"
  for env :: "'w net_env"
proof
  show "net_inv (fst s)" if "started env s" for s :: "manager \<times> 'w"
    by (rule started_inv [OF that])
  show "net_inv (fst t)" if "net_inv (fst s)" "net_step env s t" for s t :: "manager \<times> 'w"
    using that(2,1) by (cases s) (auto elim!: net_step.cases intro: net_exec_inv)
qed

section \<open>A veth keeps its address\<close>

text \<open>
  What a veth has: it is the only one that the pool of its network holds its address for, the pool could
  give the address (it lies in the subnet and is not the gateway), and the table of allocations agrees.
\<close>

definition holds :: "manager \<Rightarrow> string \<Rightarrow> string \<Rightarrow> ip \<Rightarrow> ipnet \<Rightarrow> bool" where
  "holds m v n x sub \<longleftrightarrow> net_inv m \<and> table.sole (nm_ipam m) n v x \<and>
     (\<exists>s g. pool_place (nm_ipam m) n = Some (s, g) \<and> Contains s x \<and> x \<noteq> g) \<and>
     (\<exists>h. map_of (nm_allocs m) v = Some \<lparr>al_networkName = n, al_ip = x, al_hostname = h\<rparr>) \<and>
     (\<exists>ns. map_of (nm_networks m) n = Some ns \<and> n_subnet ns = sub)"

text \<open>
  The operations that leave the address of a veth alone: allocations, releases and removals of other veths, a
  soft release of the veth while the device still has its port or cannot be asked, any change of other
  networks, an update of its own, and a recovery in which the device shows the veth's port, if at all, at its
  address, and no other port at that address. A recovery that does not meet this condition may give the
  address away: the code records what it reads.
\<close>

fun harmless :: "'w net_env \<Rightarrow> string \<Rightarrow> string \<Rightarrow> 'w net_op \<Rightarrow> manager \<times> 'w \<Rightarrow> bool" where
  "harmless env v n (Allocate_op j _ _ _) s \<longleftrightarrow> j \<noteq> v"
| "harmless env v n (Release_op j _) (m, w) \<longleftrightarrow>
     (j = v \<longrightarrow> (case fst (ListPorts env (deregister env m v w)) of
                  Inl _ \<Rightarrow> True
                | Inr ports \<Rightarrow> list_ex (\<lambda>p. pi_Name p = v) ports))"
| "harmless env v n (Destroy_op j) s \<longleftrightarrow> j \<noteq> v"
| "harmless env v n (Unregister_op k) s \<longleftrightarrow> k \<noteq> n"
| "harmless env v n Resync_op (m, w) \<longleftrightarrow>
     (case fst (ListPorts env w) of
        Inl _ \<Rightarrow> True
      | Inr ports \<Rightarrow>
          list_all (\<lambda>(j, k, y). j = v \<longleftrightarrow> k = n \<and> map_option al_ip (map_of (nm_allocs m) v) = Some y)
            (List.map_filter (sync_entry m) ports))"
| "harmless env v n _ s \<longleftrightarrow> True"

fun quiet :: "'w net_env \<Rightarrow> string \<Rightarrow> string \<Rightarrow> 'w net_op list \<Rightarrow> manager \<times> 'w \<Rightarrow> bool" where
  "quiet env v n [] s \<longleftrightarrow> True"
| "quiet env v n (op # ops) s \<longleftrightarrow>
     harmless env v n op s \<and> quiet env v n ops (net_exec env op s)"

lemma holds_tables:
  assumes "holds m v n x sub" and "net_inv m'"
    and "table.sole (nm_ipam m) n v x \<Longrightarrow> table.sole (nm_ipam m') n v x"
    and "pool_place (nm_ipam m') n = pool_place (nm_ipam m) n"
    and "map_of (nm_allocs m') v = map_of (nm_allocs m) v"
    and "\<And>ns. map_of (nm_networks m) n = Some ns \<Longrightarrow>
      \<exists>ns'. map_of (nm_networks m') n = Some ns' \<and> n_subnet ns' = n_subnet ns"
  shows "holds m' v n x sub"
  using assms unfolding holds_def by metis

text \<open>A change of one other veth that does not give it the address.\<close>

lemma holds_only_veth:
  assumes "holds m v n x sub" and "only_veth j m m'" and "j \<noteq> v" and "net_inv m'"
    and "Allocator_Get (nm_ipam m') n j \<noteq> Some x"
  shows "holds m' v n x sub"
proof (rule holds_tables [OF assms(1,4)])
  show "pool_place (nm_ipam m') n = pool_place (nm_ipam m) n" using only_vethD(4) [OF assms(2)] by simp
  show "map_of (nm_allocs m') v = map_of (nm_allocs m) v" using only_vethD(7) [OF assms(2)] assms(3) by metis
  show "table.sole (nm_ipam m') n v x" if "table.sole (nm_ipam m) n v x"
    unfolding table.sole_def
  proof (intro conjI allI impI)
    show "Allocator_Get (nm_ipam m') n v = Some x"
      using that only_vethD(6) [OF assms(2), of v] assms(3) by (auto simp: table.sole_def)
    fix i
    assume i: "Allocator_Get (nm_ipam m') n i = Some x"
    with assms(5) have "i \<noteq> j" by auto
    with i that only_vethD(6) [OF assms(2)] show "i = v" by (auto simp: table.sole_def)
  qed
qed (use only_vethD(1) [OF assms(2)] in simp)

text \<open>Choosing an address for another veth never chooses the one the veth has.\<close>

lemma sole_other: "table.sole a n v x \<Longrightarrow> j \<noteq> v \<Longrightarrow> Allocator_Get a n j \<noteq> Some x"
  by (auto simp: table.sole_def)

lemma choose_ip_sole:
  assumes "ipam_maps (nm_ipam m)" and "table.sole (nm_ipam m) n v x" and "j \<noteq> v"
    and "choose_ip m ns j st = (r, a)"
  shows "table.sole a n v x"
  using assms(4)
proof (cases rule: choose_ip_cases)
  case invalid
  with assms(2) show ?thesis by simp
next
  case (static y e)
  with table.sole_reserve [OF assms(1-3), of "nd_Name (n_def ns)" y] show ?thesis by simp
next
  case (dynamic b s)
  have "table.sole b n v x" and "ipam_maps b"
    using dynamic(1) assms(1,2) table.sole_release [OF assms(2,3)] maps_release [OF assms(1)] by auto
  with table.sole_allocate [OF _ _ assms(3), of b n x "nd_Name (n_def ns)"] dynamic(2) show ?thesis by simp
qed

lemma allocate_other:
  assumes "net_inv m" and "AllocateInterface env m j h k st w = (r, m', w')"
    and "table.sole (nm_ipam m) n v x" and "j \<noteq> v"
  shows "table.sole (nm_ipam m') n v x"
proof (cases "resolveNetwork m k")
  case (Inl e)
  with assms(2,3) show ?thesis by (auto simp: AllocateInterface_def)
next
  case (Inr o_ns)
  show ?thesis
  proof (cases o_ns)
    case None
    with Inr assms(2,3) show ?thesis by (auto simp: AllocateInterface_def)
  next
    case (Some ns)
    obtain c a where c: "choose_ip m ns j st = (c, a)" by fastforce
    note a = choose_ip_sole [OF net_invD(1) [OF assms(1)] assms(3,4) c]
    show ?thesis
    proof (cases c)
      case (Inl e)
      with Inr Some c assms(2) a show ?thesis by (auto simp: AllocateInterface_def)
    next
      case y: (Inr y)
      obtain e m1 w1 where pp: "place_port env (m\<lparr>nm_ipam := a\<rparr>) ns j y w = (e, m1, w1)"
        by (metis prod_cases3)
      have m1: "table.sole (nm_ipam m1) n v x"
        using place_port_keeps [OF pp] a table.sole_release [OF a assms(4)] by simp
      show ?thesis
      proof (cases e)
        case (Some e')
        with Inr \<open>o_ns = Some ns\<close> c y pp assms(2) m1 show ?thesis by (auto simp: AllocateInterface_def)
      next
        case None
        obtain m2 w2 where rp: "record_port env m1 ns j h y w1 = (m2, w2)" by fastforce
        with None Inr Some c y pp assms(2) m1 record_port_tables(3) [OF rp] show ?thesis
          by (auto simp: AllocateInterface_def)
      qed
    qed
  qed
qed

lemma forget_drops:
  assumes "forget env m j w = (m', w')"
  shows "Allocator_Get (nm_ipam m') n j \<in> {None, Allocator_Get (nm_ipam m) n j}"
  using assms by (auto simp: forget_def Let_def Release_held ReleaseFromAll_held split: option.splits)

lemma holds_forget:
  assumes "holds m v n x sub" and "forget env m j w = (m', w')" and "j \<noteq> v"
  shows "holds m' v n x sub"
proof -
  have inv: "net_inv m" and sole: "table.sole (nm_ipam m) n v x" using assms(1) by (simp_all add: holds_def)
  have "Allocator_Get (nm_ipam m') n j \<noteq> Some x"
    using forget_drops [OF assms(2), of n] sole_other [OF sole assms(3)] by auto
  then show ?thesis
    using holds_only_veth [OF assms(1) _ assms(3) forget_inv [OF inv assms(2)]] forget_result [OF inv assms(2)]
    by blast
qed

lemma holds_register:
  assumes "holds m v n x sub"
  shows "holds (snd (RegisterNetwork m d)) v n x sub"
proof (cases "gm_has (nm_networks m) (nd_Name d)")
  case True
  with assms show ?thesis by (simp add: RegisterNetwork_def del: map_of_eq_None_iff)
next
  case False
  have inv: "net_inv m" using assms by (simp add: holds_def)
  obtain e m' where a: "add_network m d = (e, m')" by fastforce
  have m': "snd (RegisterNetwork m d) = m'" using a False by (simp add: RegisterNetwork_def del: map_of_eq_None_iff)
  have ne: "n \<noteq> nd_Name d" using assms False unfolding holds_def by auto
  from a show ?thesis
  proof (cases rule: add_network_cases)
    case rejected
    with assms m' show ?thesis by simp
  next
    case (added ns a)
    have get: "Allocator_Get (nm_ipam m') n j = Allocator_Get (nm_ipam m) n j" for j
      using added(5,6) ne AddPool_get(1) by (metis (no_types))
    have "pool_place (nm_ipam m') n = pool_place (nm_ipam m) n"
      using added(5,6) AddPool_place [OF _ ne] by metis
    moreover have "map_of (nm_networks m') n = map_of (nm_networks m) n"
      unfolding added(1) map_of_update using ne by simp
    ultimately show ?thesis
      unfolding m' using added(4) RegisterNetwork_inv [OF inv, of d] m' get
      by (intro holds_tables [OF assms]) (auto simp: table.sole_def)
  qed
qed

lemma holds_update:
  assumes "holds m v n x sub"
  shows "holds (UpdateNetwork m d) v n x sub"
proof (rule holds_tables [OF assms UpdateNetwork_inv])
  show "net_inv m" using assms by (simp add: holds_def)
  fix ns
  assume ns: "map_of (nm_networks m) n = Some ns"
  then have "n \<in> dom (map_of (nm_networks (UpdateNetwork m d)))" unfolding UpdateNetwork_dom by (rule domI)
  then obtain ns' where ns': "map_of (nm_networks (UpdateNetwork m d)) n = Some ns'" by blast
  with UpdateNetwork_look [OF ns'] ns show
    "\<exists>ns'. map_of (nm_networks (UpdateNetwork m d)) n = Some ns' \<and> n_subnet ns' = n_subnet ns"
    by (metis option.inject)
qed (simp_all add: UpdateNetwork_tables)

lemma holds_unregister:
  assumes "holds m v n x sub" and "k \<noteq> n"
  shows "holds (UnregisterNetwork m k) v n x sub"
proof (cases "gm_has (nm_networks m) k")
  case False
  with assms(1) show ?thesis by (simp add: UnregisterNetwork_def del: map_of_eq_None_iff)
next
  case True
  have inv: "net_inv m" using assms(1) by (simp add: holds_def)
  obtain h where al: "map_of (nm_allocs m) v = Some \<lparr>al_networkName = n, al_ip = x, al_hostname = h\<rparr>"
    using assms(1) by (auto simp: holds_def simp del: map_of_eq_Some_iff)
  have "map_of (filter (\<lambda>(j, al). al_networkName al \<noteq> k) (nm_allocs m)) v = map_of (nm_allocs m) v"
    using map_of_filter [OF net_invD(3) [OF inv], of "\<lambda>(j, al). al_networkName al \<noteq> k" v] al assms(2) by simp
  with True assms(2) UnregisterNetwork_inv [OF inv, of k] show ?thesis
    by (intro holds_tables [OF assms(1)])
      (simp_all add: UnregisterNetwork_def RemovePool_get RemovePool_place table.sole_def
        del: map_of_eq_None_iff map_of_eq_Some_iff)
qed

lemma holds_sync:
  assumes "holds m v n x sub" and "\<And>j k y. (j, k, y) \<in> set es \<Longrightarrow> k \<in> dom (map_of (nm_ipam m))"
    and "\<And>j k y. (j, k, y) \<in> set es \<Longrightarrow> j = v \<longleftrightarrow> k = n \<and> y = x"
  shows "holds (fold record_entry es m) v n x sub"
  using assms
proof (induction es arbitrary: m)
  case (Cons e es)
  obtain j k y where e: "e = (j, k, y)" by (cases e)
  have inv: "net_inv m" and sole: "table.sole (nm_ipam m) n v x" using Cons.prems(1) by (simp_all add: holds_def)
  have k: "k \<in> dom (map_of (nm_ipam m))" by (rule Cons.prems(2) [of j k y]) (simp add: e)
  have iff: "j = v \<longleftrightarrow> k = n \<and> y = x" by (rule Cons.prems(3)) (simp add: e)
  note r = record_entry_result [OF inv k, of j y]
  have known: "map_of (nm_ipam m) k \<noteq> None" using k unfolding domIff .
  have get: "Allocator_Get (nm_ipam (record_entry (j, k, y) m)) a b =
      (if a = k \<and> b = j then Some y else Allocator_Get (nm_ipam m) a b)" for a b
    using Record_get(1) [OF known] by (simp add: record_entry_def)
  have "holds (record_entry (j, k, y) m) v n x sub"
  proof (cases "j = v")
    case True
    with iff have "k = n" "y = x" by auto
    moreover have "table.sole (nm_ipam (record_entry (v, n, x) m)) n v x"
      using sole get True \<open>k = n\<close> \<open>y = x\<close> by (auto simp: table.sole_def)
    ultimately show ?thesis
      using True r(2) only_vethD(4) [OF r(1)] Cons.prems(1)
      by (auto simp: holds_def record_entry_def simp del: map_of_eq_None_iff map_of_eq_Some_iff)
  next
    case False
    then have "Allocator_Get (nm_ipam (record_entry (j, k, y) m)) n j \<noteq> Some x"
      using iff sole_other [OF sole False] by (auto simp: get)
    then show ?thesis by (rule holds_only_veth [OF Cons.prems(1) r(1) False r(2)])
  qed
  moreover have "dom (map_of (nm_ipam (record_entry (j, k, y) m))) = dom (map_of (nm_ipam m))"
    by (rule place_dom [OF only_vethD(4) [OF r(1)]])
  ultimately show ?case
    unfolding fold_simps o_apply e
    by (intro Cons.IH) (use Cons.prems(2,3) e in \<open>metis list.set_intros(2)\<close>)+
qed simp

lemma holds_init_dns:
  assumes "holds m v n x sub" and "InitDNSZones env m w = Some (m', w')"
  shows "holds m' v n x sub"
proof (cases "nm_dns m")
  case False
  with assms show ?thesis by (simp add: InitDNSZones_def)
next
  case True
  have inv: "net_inv m" using assms(1) by (simp add: holds_def)
  have z: "init_zones env (nm_netOrder m) m w = Some (m', w')"
    using True assms(2) by (simp add: InitDNSZones_def)
  note eq = init_zones_tables [OF z]
  show ?thesis
  proof (rule holds_tables [OF assms(1) InitDNSZones_inv [OF inv assms(2)]])
    fix ns
    assume ns: "map_of (nm_networks m) n = Some ns"
    then have "n \<in> dom (map_of (nm_networks m'))" using eq by (metis domI)
    then obtain ns' where ns': "map_of (nm_networks m') n = Some ns'" by blast
    with init_zones_look [OF z ns'] ns show
      "\<exists>ns'. map_of (nm_networks m') n = Some ns' \<and> n_subnet ns' = n_subnet ns"
      by (metis option.inject)
  qed (use eq in simp_all)
qed

lemma holds_resync:
  assumes "holds m v n x sub" and "harmless env v n Resync_op (m, w)"
  shows "holds (fst (net_exec env Resync_op (m, w))) v n x sub"
proof (cases "ListPorts env w")
  case (Pair r w')
  show ?thesis
  proof (cases r)
    case (Inl e)
    with Pair assms(1) show ?thesis by (simp add: ResyncAllocations_def syncExistingAllocations_def)
  next
    case (Inr ports)
    let ?es = "List.map_filter (sync_entry m) ports"
    have x: "map_option al_ip (map_of (nm_allocs m) v) = Some x"
      using assms(1) by (auto simp: holds_def simp del: map_of_eq_Some_iff)
    have "j = v \<longleftrightarrow> k = n \<and> y = x" if "(j, k, y) \<in> set ?es" for j k y
    proof -
      have "list_all (\<lambda>(j, k, y). j = v \<longleftrightarrow> k = n \<and> Some x = Some y) ?es"
        using assms(2) Pair Inr unfolding x [symmetric] by simp
      with that show ?thesis by (auto simp: list_all_iff)
    qed
    then have "holds (fold record_entry ?es m) v n x sub"
      using sync_entries_pools [of _ _ _ m ports] by (intro holds_sync [OF assms(1)]) blast+
    then show ?thesis
      using Pair Inr
      by (simp add: ResyncAllocations_def syncExistingAllocations_def)
  qed
qed

lemma net_exec_holds:
  assumes "holds m v n x sub" and "harmless env v n op (m, w)"
  shows "holds (fst (net_exec env op (m, w))) v n x sub"
proof -
  have inv: "net_inv m" and sole: "table.sole (nm_ipam m) n v x" using assms(1) by (simp_all add: holds_def)
  show ?thesis
  proof (cases op)
    case (Allocate_op j h k st)
    obtain r m' w' where a: "AllocateInterface env m j h k st w = (r, m', w')" by (metis prod_cases3)
    have j: "j \<noteq> v" using Allocate_op assms(2) by simp
    have "only_veth j m m'" using AllocateInterface_result [OF inv a] ..
    from holds_only_veth [OF assms(1) this j AllocateInterface_inv [OF inv a]
        sole_other [OF allocate_other [OF inv a sole j] j]]
    show ?thesis using Allocate_op a by simp
  next
    case (Release_op j now)
    obtain e m' w' where r: "ReleaseInterface env m j now w = (e, m', w')" by (metis prod_cases3)
    show ?thesis
    proof (cases "m' = m")
      case True
      with Release_op r assms(1) show ?thesis by simp
    next
      case False
      with Release_cases [OF inv r] obtain w0 ports where f: "forget env m j w0 = (m', w')"
        and p: "fst (ListPorts env (deregister env m j w)) = Inr ports" "\<not> list_ex (\<lambda>p. pi_Name p = j) ports"
        by blast
      have "j \<noteq> v" using assms(2) Release_op p by auto
      with holds_forget [OF assms(1) f] Release_op r show ?thesis by simp
    qed
  next
    case (Destroy_op j)
    obtain e m' w' where d: "DestroyInterface env m j w = (e, m', w')" by (metis prod_cases3)
    have "j \<noteq> v" using assms(2) Destroy_op by simp
    with Destroy_cases [OF d] holds_forget [OF assms(1)] assms(1) Destroy_op d show ?thesis
      by (cases "e = None") auto
  next
    case (Register_op d)
    with holds_register [OF assms(1)] show ?thesis by simp
  next
    case (Update_op d)
    with holds_update [OF assms(1)] show ?thesis by simp
  next
    case (Unregister_op k)
    with holds_unregister [OF assms(1)] assms(2) show ?thesis by simp
  next
    case Resync_op
    show ?thesis unfolding Resync_op
      by (rule holds_resync [OF assms(1)]) (use assms(2) Resync_op in simp_all)
  next
    case InitDNS_op
    with holds_init_dns [OF assms(1)] assms(1) show ?thesis
      by (cases "InitDNSZones env m w") auto
  qed (use assms(1) in auto)
qed

lemma quiet_holds:
  "holds (fst s) v n x sub \<Longrightarrow> quiet env v n ops s \<Longrightarrow> holds (fst (fold (net_exec env) ops s)) v n x sub"
proof (induction ops arbitrary: s)
  case (Cons op ops)
  then have "holds (fst (net_exec env op s)) v n x sub"
    using net_exec_holds [of "fst s" v n x sub env op "snd s"] by simp
  then show ?case using Cons by simp
qed simp

text \<open>The driver accepts the veth: making and attaching its port succeed.\<close>

definition accepts :: "'w net_env \<Rightarrow> string \<Rightarrow> bool" where
  "accepts env v \<longleftrightarrow> (\<forall>a g w. fst (CreatePort env v a g w) = None) \<and> (\<forall>b w. fst (AttachPort env b v w) = None)"

lemma accepts_place:
  assumes "accepts env v"
  shows "\<exists>w'. place_port env m ns v x w = (None, m, w')"
proof -
  obtain w1 where c: "CreatePort env v (cidr_text x (n_subnet ns)) (IP_String (n_gateway ns)) w = (None, w1)"
    using assms unfolding accepts_def by (metis prod.collapse)
  obtain w2 where "AttachPort env (nd_Bridge (n_def ns)) v w1 = (None, w2)"
    using assms unfolding accepts_def by (metis prod.collapse)
  with c show ?thesis by (simp add: place_port_def)
qed

lemma allocate_succeeds:
  assumes "resolveNetwork m n = Inr (Some ns)" and "choose_ip m ns v st = (Inr x, a)" and "accepts env v"
  shows "\<exists>m' w'. AllocateInterface env m v h n st w =
    (Inr (cidr_text x (n_subnet ns), IP_String (n_gateway ns), dc_Server (nd_DNS (n_def ns))), m', w')"
proof -
  obtain w1 where "place_port env (m\<lparr>nm_ipam := a\<rparr>) ns v x w = (None, m\<lparr>nm_ipam := a\<rparr>, w1)"
    using accepts_place [OF assms(3)] by blast
  with assms(1,2) show ?thesis by (simp add: AllocateInterface_def split: prod.splits)
qed

lemma reuse:
  assumes "holds m v n x sub" and "accepts env v" and "n \<noteq> []"
  shows "\<exists>gw dns m' w'. AllocateInterface env m v h n [] w = (Inr (cidr_text x sub, gw, dns), m', w')"
proof -
  have inv: "net_inv m" using assms(1) by (simp add: holds_def)
  obtain h0 ns s g where al: "map_of (nm_allocs m) v = Some \<lparr>al_networkName = n, al_ip = x, al_hostname = h0\<rparr>"
    and ns: "map_of (nm_networks m) n = Some ns" "n_subnet ns = sub"
    and sole: "table.sole (nm_ipam m) n v x"
    and place: "pool_place (nm_ipam m) n = Some (s, g)" "Contains s x" "x \<noteq> g"
    using assms(1) unfolding holds_def by blast
  have name: "nd_Name (n_def ns) = n" using net_invD(6) [OF inv ns(1)] .
  have "resolveNetwork m n = Inr (Some ns)"
    unfolding resolveNetwork_def ns(1) using assms(3) by simp
  moreover have "Allocator_AllocateStatic (nm_ipam m) n v x = (None, nm_ipam m)"
    using sole by (intro reserve_sole [OF net_invD(1) [OF inv] _ _ place]) (auto simp: table.sole_def)
  then have "choose_ip m ns v [] = (Inr x, nm_ipam m)"
    unfolding choose_ip_def Let_def al name by simp
  ultimately show ?thesis
    using allocate_succeeds [OF _ _ assms(2), of m n ns "[]" x] ns(2) by blast
qed

text \<open>An address that was chosen is not the gateway of the pool.\<close>

lemma choose_ip_gateway:
  assumes "ipam_maps (nm_ipam m)" and "choose_ip m ns v st = (Inr x, a)"
    and "pool_place a (nd_Name (n_def ns)) = Some (s, g)"
  shows "x \<noteq> g"
  using assms(2)
proof (cases rule: choose_ip_cases)
  case (static y e)
  with maps_static [OF assms(1) static(1)] assms(3) show ?thesis by (auto split: option.splits)
next
  case (dynamic b t)
  have "ipam_maps b" using dynamic(1) assms(1) maps_release [OF assms(1)] by auto
  from maps_allocate [OF this dynamic(2)] dynamic(3) assms(3) show ?thesis by (auto split: sum.splits)
qed simp

lemma allocated_pools:
  assumes "AllocateInterface env m v h n st w = (Inr r, m', w')"
  obtains ns x where "resolveNetwork m n = Inr (Some ns)" and "choose_ip m ns v st = (Inr x, nm_ipam m')"
    and "map_of (nm_allocs m') v = Some \<lparr>al_networkName = nd_Name (n_def ns), al_ip = x, al_hostname = h\<rparr>"
proof -
  from assms obtain ns where ns: "resolveNetwork m n = Inr (Some ns)"
    by (auto simp: AllocateInterface_def split: sum.splits option.splits)
  from assms ns obtain x a where c: "choose_ip m ns v st = (Inr x, a)"
    by (auto simp: AllocateInterface_def split: sum.splits prod.splits)
  obtain e m1 w1 where p: "place_port env (m\<lparr>nm_ipam := a\<rparr>) ns v x w = (e, m1, w1)" by (metis prod_cases3)
  with assms ns c have e: "e = None" by (auto simp: AllocateInterface_def split: option.splits prod.splits)
  with place_port_keeps [OF p] have m1: "m1 = m\<lparr>nm_ipam := a\<rparr>" by simp
  obtain m2 w2 where r: "record_port env m1 ns v h x w1 = (m2, w2)" by fastforce
  have "m' = m2" using assms ns c p e r by (auto simp: AllocateInterface_def)
  with record_port_tables(3,4) [OF r] m1 ns c show thesis by (intro that [of ns x]) auto
qed

lemma allocated_holds:
  assumes "net_inv m" and "AllocateInterface env m v h n st w = (Inr (cidr, gw, dns), m', w')" and "n \<noteq> []"
    and "map_of (nm_allocs m') v = Some al" and "map_of (nm_ipam m') n = Some p"
    and "Contains (pool_Subnet p) (al_ip al)"
    and only: "\<And>j. Allocator_Get (nm_ipam m') n j = Some (al_ip al) \<Longrightarrow> j = v"
  obtains sub where "holds m' v n (al_ip al) sub" and "cidr = cidr_text (al_ip al) sub"
proof -
  from AllocateInterface_result [OF assms(1,2)] obtain ns x where o: "only_veth v m m'"
    and ns: "resolveNetwork m n = Inr (Some ns)" "cidr = cidr_text x (n_subnet ns)"
    "Allocator_Get (nm_ipam m') (nd_Name (n_def ns)) v = Some x"
    "map_of (nm_allocs m') v = Some \<lparr>al_networkName = nd_Name (n_def ns), al_ip = x, al_hostname = h\<rparr>"
    by auto
  have x: "al_ip al = x" using ns(4) assms(4) by (metis allocation.select_convs(2) option.inject)
  have look: "map_of (nm_networks m) n = Some ns"
    using ns(1) assms(3)
    by (auto simp: resolveNetwork_def split: option.splits simp del: map_of_eq_None_iff map_of_eq_Some_iff)
  have name: "nd_Name (n_def ns) = n" using net_invD(6) [OF assms(1) look] .
  have place: "pool_place (nm_ipam m') n = Some (pool_Subnet p, pool_Gateway p)"
    unfolding pool_place_def assms(5) by simp
  have "x \<noteq> pool_Gateway p"
  proof -
    obtain ns' y where c: "resolveNetwork m n = Inr (Some ns')" "choose_ip m ns' v st = (Inr y, nm_ipam m')"
      and al: "map_of (nm_allocs m') v = Some \<lparr>al_networkName = nd_Name (n_def ns'), al_ip = y, al_hostname = h\<rparr>"
      using assms(2) by (rule allocated_pools)
    have "ns' = ns" using c(1) ns(1) by simp
    moreover have "y = x" using al ns(4) by (metis allocation.select_convs(2) option.inject)
    ultimately show ?thesis
      using choose_ip_gateway [OF net_invD(1) [OF assms(1)] c(2), of "pool_Subnet p" "pool_Gateway p"] place name by simp
  qed
  moreover have "table.sole (nm_ipam m') n v x"
    unfolding table.sole_def using ns(3) [unfolded name] only [unfolded x] by blast
  ultimately have "holds m' v n x (n_subnet ns)"
    unfolding holds_def
    using ns(4) look AllocateInterface_inv [OF assms(1,2)] only_vethD(1) [OF o] place assms(6) x name by metis
  then show thesis using ns(2) x by (auto intro: that)
qed

section \<open>Properties\<close>

text \<open>A driver that does as it is told, with the ports of the device as its state.\<close>

definition ex_env :: "port_info list net_env" where
  "ex_env = \<lparr>
     CreatePort = (\<lambda>n a g w. (None, w @ [\<lparr>pi_Name = n, pi_Address = a, pi_Gateway = g, pi_Bridge = '''',
       pi_OwnedByMkube = True, pi_Comment = PlainComment ''mkube''\<rparr>])),
     DeletePort = (\<lambda>n w. (None, filter (\<lambda>p. pi_Name p \<noteq> n) w)),
     AttachPort = (\<lambda>b n w. (None, w)),
     ListPorts = (\<lambda>w. (Inr w, w)),
     SetPortComment = (\<lambda>n c w. (None, w)),
     NodeName = ''node1'',
     EnsureZone = (\<lambda>ep z w. (Inr ''zone1'', w)),
     ListRecords = (\<lambda>ep z w. (Inr [], w)),
     DeleteRecord = (\<lambda>ep z i w. (None, w)),
     RegisterHost = (\<lambda>ep z h a t w. (None, w)),
     DeregisterHost = (\<lambda>ep z h w. (None, w)),
     DeregisterHostByIP = (\<lambda>ep z h a w. (None, w)),
     CleanStaleRecords = (\<lambda>ep z h a w. (None, w)),
     ReadState = (\<lambda>p w. (Inl ''no file'', w)),
     WriteState = (\<lambda>p d w. (None, w))\<rparr>"

definition ex_sub :: "32 word \<Rightarrow> ipnet" where
  "ex_sub base = \<lparr>net_IP = IPv4 base, net_ones = 24, net_bits = 32\<rparr>"

definition ex_net :: "string \<Rightarrow> 32 word \<Rightarrow> network_def" where
  "ex_net name base = \<lparr>nd_Name = name, nd_Bridge = ''br-'' @ name,
     nd_CIDR = cidr_text (IPv4 base) (ex_sub base), nd_Gateway = IP_String (IPv4 (base + 1)),
     nd_DNS = \<lparr>dc_Endpoint = '''', dc_Zone = '''', dc_Server = '''', dc_StaticRecords = []\<rparr>,
     nd_IPAMStart = IP_String (IPv4 (base + 2)), nd_IPAMEnd = IP_String (IPv4 (base + 3)),
     nd_ExternalDNS = False\<rparr>"

text \<open>192.168.200.0/24 and 192.168.10.0/24, two addresses each.\<close>

definition ex_defs :: "network_def list" where
  "ex_defs = [ex_net ''gt'' 3232286720, ex_net ''g10'' 3232238080]"

definition ex_state :: "string \<Rightarrow> 32 word \<Rightarrow> network_state" where
  "ex_state name base = \<lparr>n_def = ex_net name base, n_subnet = ex_sub base, n_gateway = IPv4 (base + 1), n_zoneID = ''''\<rparr>"

definition ex_pool :: "32 word \<Rightarrow> (string, ip) gomap \<Rightarrow> 32 word \<Rightarrow> pool" where
  "ex_pool base held nxt = \<lparr>pool_Subnet = ex_sub base, pool_Gateway = IPv4 (base + 1), pool_Allocated = held,
     pool_NextIP = nxt, pool_AllocStart = 2, pool_AllocEnd = 3\<rparr>"

definition ex_start :: manager where
  "ex_start = \<lparr>nm_networks = [(''gt'', ex_state ''gt'' 3232286720), (''g10'', ex_state ''g10'' 3232238080)],
     nm_netOrder = [''gt'', ''g10''], nm_dns = False,
     nm_ipam = [(''gt'', ex_pool 3232286720 [] 2), (''g10'', ex_pool 3232238080 [] 2)],
     nm_state = \<lparr>ss_path = '''', ss_data = \<lparr>ns_Switches =
       [(''gt'', switch_of (ex_net ''gt'' 3232286720) (IPv4 3232286721)),
        (''g10'', switch_of (ex_net ''g10'' 3232238080) (IPv4 3232238081))], ns_Ports = []\<rparr>\<rparr>,
     nm_allocs = []\<rparr>"

lemma IP_String_nonempty [simp]: "IP_String (IPv4 a) \<noteq> ''''"
  by (auto simp: IP_String_def dotted_def)

lemma ex_parse:
  assumes "base AND host_mask 8 = base"
  shows "parse_network (ex_net name base) = Inr (ex_sub base, IPv4 (base + 1))"
    and "pool_options (ex_net name base) =
      Inr [\<lparr>opt_AllocStart = Some (IPv4 (base + 2)), opt_AllocEnd = Some (IPv4 (base + 3))\<rparr>]"
  using ParseCIDR_IP_String [of 24 base] assms
  by (simp_all add: parse_network_def pool_options_def ex_net_def cidr_text_def ex_sub_def Mask_Size_def
      ParseIP_IP_String_v4)

lemma ex_add_pool:
  assumes "base AND host_mask 8 = base"
  shows "Allocator_AddPool a name (ex_sub base) gw
      [\<lparr>opt_AllocStart = Some (IPv4 (base + 2)), opt_AllocEnd = Some (IPv4 (base + 3))\<rparr>] =
    Inr (AList.update name (ex_pool base [] 2\<lparr>pool_Gateway := gw\<rparr>) a)"
  by (simp add: Allocator_AddPool_def ex_sub_def IPToUint32_def opt_offset_def ex_pool_def)

lemma ex_masks: "(3232286720 :: 32 word) AND host_mask 8 = 3232286720" "(3232238080 :: 32 word) AND host_mask 8 = 3232238080"
  "(3232286720 :: 32 word) AND mask 8 = 0" "(3232238080 :: 32 word) AND mask 8 = 0"
  by (simp_all add: host_mask_def mask_numeral)

lemma ex_add: "add_networks (empty_manager False []) ex_defs = Inr ex_start"
  using ex_parse [OF ex_masks(1), of "''gt''"] ex_parse [OF ex_masks(2), of "''g10''"]
    ex_add_pool [OF ex_masks(1), of _ "''gt''"] ex_add_pool [OF ex_masks(2), of _ "''g10''"]
  by (simp add: ex_defs_def add_network_def empty_manager_def NewAllocator_def ex_start_def
      ex_state_def newStateStore_def NewNetworkState_def setSwitch_def switch_of_def ex_pool_def ex_net_def)

lemma ex_env_simps [simp]:
  "ListPorts ex_env w = (Inr w, w)" "AttachPort ex_env b n w = (None, w)" "SetPortComment ex_env n c w = (None, w)"
  "fst (CreatePort ex_env n a g w) = None" "DeletePort ex_env n w = (None, filter (\<lambda>p. pi_Name p \<noteq> n) w)"
  by (simp_all add: ex_env_def)

lemma ex_load: "store_load ex_env (nm_state ex_start) w = (None, nm_state ex_start, w)"
  by (simp add: store_load_def ex_start_def)

lemma ex_new: "NewManager ex_env ex_defs False [] [] = (Inr ex_start, [])"
  by (simp add: NewManager_def ex_add ex_load syncExistingAllocations_def map_filter_def)

lemma ex_names: "distinct (map nd_Name ex_defs)"
  by (simp add: ex_defs_def ex_net_def)

definition ex_m1 :: manager where
  "ex_m1 = ex_start\<lparr>
     nm_ipam := [(''gt'', ex_pool 3232286720 [(''veth_a'', IPv4 3232286722)] 3), (''g10'', ex_pool 3232238080 [] 2)],
     nm_allocs := [(''veth_a'', \<lparr>al_networkName = ''gt'', al_ip = IPv4 3232286722, al_hostname = ''web''\<rparr>)],
     nm_state := setPort \<lparr>lp_Name = ''veth_a'', lp_Switch = ''gt'', lp_Address = cidr_text (IPv4 3232286722) (ex_sub 3232286720),
        lp_Gateway = IP_String (IPv4 3232286721), lp_Hostname = ''web'', lp_NodeName = ''node1''\<rparr> (nm_state ex_start)\<rparr>"

definition ex_w1 :: "port_info list" where
  "ex_w1 = [\<lparr>pi_Name = ''veth_a'', pi_Address = cidr_text (IPv4 3232286722) (ex_sub 3232286720),
     pi_Gateway = IP_String (IPv4 3232286721), pi_Bridge = '''', pi_OwnedByMkube = True,
     pi_Comment = PlainComment ''mkube''\<rparr>]"

lemma ex_from_pool:
  "allocateFromPool (ex_pool 3232286720 [] 2) ''veth_a'' =
     (Inr (IPv4 3232286722), ex_pool 3232286720 [(''veth_a'', IPv4 3232286722)] 3)"
  by code_simp

lemma ex_choose:
  "choose_ip ex_start (ex_state ''gt'' 3232286720) ''veth_a'' [] = (Inr (IPv4 3232286722), nm_ipam ex_m1)"
  by (simp add: choose_ip_def ex_start_def ex_state_def ex_net_def Allocator_Allocate_def ex_from_pool ex_m1_def)

lemma record_port_plain:
  assumes "ss_path (nm_state m) = []" and "\<not> nm_dns m"
  shows "record_port env m ns v h x w =
    (m\<lparr>nm_allocs := AList.update v \<lparr>al_networkName = nd_Name (n_def ns), al_ip = x, al_hostname = h\<rparr> (nm_allocs m),
       nm_state := setPort \<lparr>lp_Name = v, lp_Switch = nd_Name (n_def ns), lp_Address = cidr_text x (n_subnet ns),
          lp_Gateway = IP_String (n_gateway ns), lp_Hostname = h, lp_NodeName = NodeName env\<rparr> (nm_state m)\<rparr>, w)"
  using assms by (simp add: record_port_def store_save_def setPort_def Let_def)

lemma ex_alloc:
  "AllocateInterface ex_env ex_start ''veth_a'' ''web'' ''gt'' [] [] =
     (Inr (cidr_text (IPv4 3232286722) (ex_sub 3232286720), IP_String (IPv4 3232286721), []), ex_m1, ex_w1)"
proof -
  have "resolveNetwork ex_start ''gt'' = Inr (Some (ex_state ''gt'' 3232286720))"
    by (simp add: resolveNetwork_def ex_start_def)
  moreover have "place_port ex_env (ex_start\<lparr>nm_ipam := nm_ipam ex_m1\<rparr>) (ex_state ''gt'' 3232286720) ''veth_a'' (IPv4 3232286722) [] =
      (None, ex_start\<lparr>nm_ipam := nm_ipam ex_m1\<rparr>, ex_w1)"
    by (simp add: place_port_def ex_env_def ex_w1_def ex_state_def)
  moreover have "record_port ex_env (ex_start\<lparr>nm_ipam := nm_ipam ex_m1\<rparr>) (ex_state ''gt'' 3232286720) ''veth_a'' ''web''
      (IPv4 3232286722) ex_w1 = (ex_m1, ex_w1)"
    by (subst record_port_plain) (simp_all add: ex_start_def ex_state_def ex_m1_def ex_net_def ex_env_def)
  ultimately show ?thesis
    unfolding AllocateInterface_def by (simp add: ex_choose) (simp add: ex_state_def ex_net_def)
qed



lemma ex_step: "(net_step ex_env)\<^sup>*\<^sup>* (ex_start, []) (ex_m1, ex_w1)"
proof -
  have "net_step ex_env (ex_start, []) (net_exec ex_env (Allocate_op ''veth_a'' ''web'' ''gt'' []) (ex_start, []))"
    by (rule net_step.exec)
  then show ?thesis by (auto simp: ex_alloc)
qed



text \<open>The recovery of the witness finds the veth's own port at its address.\<close>

definition ex_ops :: "port_info list net_op list" where
  "ex_ops = [Release_op ''veth_a'' 0, Resync_op, Allocate_op ''veth_b'' ''db'' ''gt'' [], Unregister_op ''g10'', Reconcile_op]"

lemma ex_port_ip: "ParseCIDR (cidr_text (IPv4 3232286722) (ex_sub 3232286720)) = Some (IPv4 3232286722, ex_sub 3232286720)"
  using ParseCIDR_IP_String [of 24 3232286722] by (simp add: cidr_text_def Mask_Size_def ex_sub_def host_mask_def mask_numeral)

lemma ex_deregister: "deregister ex_env ex_m1 ''veth_a'' w = w"
  by (simp add: deregister_def ex_m1_def ex_start_def)

lemma ex_released: "ReleaseInterface ex_env ex_m1 ''veth_a'' t ex_w1 = (None, ex_m1, ex_w1)"
  by (simp add: ReleaseInterface_def ex_deregister) (simp add: ex_w1_def)

lemma ex_sync: "List.map_filter (sync_entry ex_m1) ex_w1 = [(''veth_a'', ''gt'', IPv4 3232286722)]"
proof -
  have "Allocator_PoolForIP (nm_ipam ex_m1) (IPv4 3232286722) = ''gt''"
    by (simp add: Allocator_PoolForIP_def ex_m1_def ex_pool_def ex_sub_def Contains_def host_mask_def host_bits_def
        mask_numeral)
  moreover have "port_ip (ex_w1 ! 0) = Some (IPv4 3232286722)"
    by (simp add: port_ip_def ex_w1_def ex_port_ip) (simp add: cidr_text_def)
  ultimately have "sync_entry ex_m1 (ex_w1 ! 0) = Some (''veth_a'', ''gt'', IPv4 3232286722)"
    by (simp add: sync_entry_def) (simp add: ex_w1_def)
  then have "List.map_filter (sync_entry ex_m1) [ex_w1 ! 0] = [(''veth_a'', ''gt'', IPv4 3232286722)]"
    by (simp only: map_filter_simps option.case)
  moreover have "[ex_w1 ! 0] = ex_w1" by (simp add: ex_w1_def)
  ultimately show ?thesis by simp
qed


text \<open>
  A recovery does not check what it records: one that reads two ports with the same address leaves both
  holding it, and the veth that had it cannot be placed again.
\<close>

lemma recovery_can_double_book:
  assumes "net_inv m" and "k \<in> dom (map_of (nm_ipam m))"
  shows "Allocator_Get (nm_ipam (record_entry (j, k, x) (record_entry (v, k, x) m))) k v = Some x \<and>
    Allocator_Get (nm_ipam (record_entry (j, k, x) (record_entry (v, k, x) m))) k j = Some x"
proof -
  let ?m = "record_entry (v, k, x) m"
  note r = record_entry_result [OF assms, of v x]
  have "k \<in> dom (map_of (nm_ipam ?m))" using assms(2) place_dom [OF only_vethD(4) [OF r(1)]] by simp
  then have "map_of (nm_ipam m) k \<noteq> None" "map_of (nm_ipam ?m) k \<noteq> None" using assms(2) unfolding domIff by auto
  from Record_get(1) [OF this(1)] Record_get(1) [OF this(2)] show ?thesis by (simp add: record_entry_def)
qed

lemma choose_static:
  assumes "ipam_maps (nm_ipam m)" and "choose_ip m ns v st = (Inr x, a)" and "st \<noteq> []"
    and "k \<noteq> nd_Name (n_def ns)"
  shows "Allocator_Get a k v = Allocator_Get (nm_ipam m) k v"
proof -
  have "Allocator_AllocateStatic (nm_ipam m) (nd_Name (n_def ns)) v x = (None, a)"
    using assms(2,3) by (auto simp: choose_ip_def Let_def split: option.splits prod.splits)
  from maps_static [OF assms(1) this] assms(4) show ?thesis by simp
qed

lemma held_elsewhere:
  assumes "ipam_maps a" and "Allocator_Get a k v = Some x" and "Allocator_Get a k j \<noteq> Some x"
  shows "fst (Allocator_AllocateStatic a k j x) \<noteq> None"
proof
  assume "fst (Allocator_AllocateStatic a k j x) = None"
  then obtain a' where "Allocator_AllocateStatic a k j x = (None, a')" by (metis prod.collapse)
  from table.reserve_old [OF assms(1) this assms(2)] assms(3) show False by simp
qed

text \<open>
  A veth that moves to a fixed address on another network loses its old address for good: the pool of
  the old network keeps it under the veth's name, destroying the veth frees the new address only, and no
  other veth can reserve the old one.
\<close>

theorem static_move_leaks_address:
  assumes "net_inv m"
    and "Allocator_Get (nm_ipam m) k v = Some x" and "\<forall>j. Allocator_Get (nm_ipam m) k j = Some x \<longrightarrow> j = v" and "st \<noteq> []"
    and "resolveNetwork m n = Inr (Some ns)" and "nd_Name (n_def ns) \<noteq> k"
    and "AllocateInterface env m v h n st w = (Inr r, m1, w1)"
    and "DestroyInterface env m1 v w2 = (None, m2, w3)"
  shows "map_of (nm_allocs m2) v = None \<and> Allocator_Get (nm_ipam m2) k v = Some x \<and>
    (\<forall>j. j \<noteq> v \<longrightarrow> fst (Allocator_AllocateStatic (nm_ipam m2) k j x) \<noteq> None)"
proof -
  obtain ns' y where r: "resolveNetwork m n = Inr (Some ns')" "choose_ip m ns' v st = (Inr y, nm_ipam m1)"
    and al: "map_of (nm_allocs m1) v = Some \<lparr>al_networkName = nd_Name (n_def ns'), al_ip = y, al_hostname = h\<rparr>"
    using assms(7) by (rule allocated_pools)
  have "ns' = ns" using r(1) assms(5) by simp
  then have get1: "Allocator_Get (nm_ipam m1) k v = Some x"
    using choose_static [OF net_invD(1) [OF assms(1)] r(2) assms(4)] assms(2,6) by simp
  have inv1: "net_inv m1" by (rule AllocateInterface_inv [OF assms(1,7)])
  obtain w4 where f: "forget env m1 v w4 = (m2, w3)" using Destroy_cases [OF assms(8)] by auto
  have "nm_ipam m2 = Allocator_Release (nm_ipam m1) (nd_Name (n_def ns')) v"
    using f unfolding forget_def al Let_def by auto
  with get1 \<open>ns' = ns\<close> assms(6) have get2: "Allocator_Get (nm_ipam m2) k v = Some x" by (simp add: Release_held)
  have maps2: "ipam_maps (nm_ipam m2)" using net_invD(1) [OF forget_inv [OF inv1 f]] .
  have "Allocator_Get (nm_ipam m2) k j \<noteq> Some x" if "j \<noteq> v" for j
  proof -
    have "only_veth v m m1" using AllocateInterface_result [OF assms(1,7)] ..
    moreover have "only_veth v m1 m2" using forget_result [OF inv1 f] ..
    ultimately have "Allocator_Get (nm_ipam m2) k j = Allocator_Get (nm_ipam m) k j"
      using only_vethD(6) that by metis
    with assms(3) that show ?thesis by auto
  qed
  then show ?thesis
    using forget_result [OF inv1 f] get2 held_elsewhere [OF maps2 get2] by blast
qed

theorem static_move_leaks_address_witness:
  "\<exists>r m1 w1 m2 w3. AllocateInterface ex_env ex_m1 ''veth_a'' ''web'' ''g10'' (IP_String (IPv4 3232238083)) ex_w1 = (Inr r, m1, w1) \<and>
     DestroyInterface ex_env m1 ''veth_a'' w1 = (None, m2, w3) \<and> map_of (nm_allocs m2) ''veth_a'' = None \<and>
     Allocator_Get (nm_ipam m2) ''gt'' ''veth_a'' = Some (IPv4 3232286722) \<and>
     fst (Allocator_AllocateStatic (nm_ipam m2) ''gt'' ''veth_b'' (IPv4 3232286722)) \<noteq> None"
proof -
  have "started ex_env (ex_start, [])" using ex_names ex_new unfolding started_def by fastforce
  then have inv: "net_inv ex_m1" using net_sys.inv_reachable [OF _ ex_step] by simp
  have only: "\<forall>j. Allocator_Get (nm_ipam ex_m1) ''gt'' j = Some (IPv4 3232286722) \<longrightarrow> j = ''veth_a''"
    by (simp add: Allocator_Get_def ex_m1_def ex_pool_def split: if_splits)
  have held: "Allocator_Get (nm_ipam ex_m1) ''gt'' ''veth_a'' = Some (IPv4 3232286722)"
    by (simp add: Allocator_Get_def ex_m1_def ex_pool_def)
  let ?st = "IP_String (IPv4 3232238083)" and ?ns = "ex_state ''g10'' 3232238080"
  have res: "resolveNetwork ex_m1 ''g10'' = Inr (Some ?ns)"
    by (simp add: resolveNetwork_def ex_m1_def ex_start_def)
  have "fst (choose_ip ex_m1 ?ns ''veth_a'' ?st) = Inr (IPv4 3232238083)"
    by (simp add: choose_ip_def ParseIP_IP_String_v4 ex_m1_def ex_state_def ex_net_def ex_pool_def ex_sub_def
        Allocator_AllocateStatic_def Contains_def host_mask_def host_bits_def mask_numeral Let_def)
  then obtain a where c: "choose_ip ex_m1 ?ns ''veth_a'' ?st = (Inr (IPv4 3232238083), a)" by (metis prod.collapse)
  have "accepts ex_env ''veth_a''" by (simp add: accepts_def)
  from allocate_succeeds [OF res c this] obtain r m1 w1 where
    alloc: "AllocateInterface ex_env ex_m1 ''veth_a'' ''web'' ''g10'' ?st ex_w1 = (Inr r, m1, w1)" by blast
  have "fst (DestroyInterface ex_env m1 ''veth_a'' w1) = None"
    by (simp add: DestroyInterface_def split: prod.splits)
  then obtain m2 w3 where destroy: "DestroyInterface ex_env m1 ''veth_a'' w1 = (None, m2, w3)"
    by (metis prod.collapse)
  have ne: "nd_Name (n_def ?ns) \<noteq> ''gt''" by (simp add: ex_state_def ex_net_def)
  note leak = static_move_leaks_address [OF inv held only IP_String_nonempty res ne alloc destroy]
  have "fst (Allocator_AllocateStatic (nm_ipam m2) ''gt'' ''veth_b'' (IPv4 3232286722)) \<noteq> None"
    by (rule leak [THEN conjunct2, THEN conjunct2, rule_format]) simp
  with leak alloc destroy show ?thesis
    by (intro exI [of _ r] exI [of _ m1] exI [of _ w1] exI [of _ m2] exI [of _ w3] conjI)
      (simp_all del: map_of_eq_None_iff)
qed

text \<open>
  When the driver refuses the port of a veth that comes back, its address is released but remembered; once
  another veth has it, the veth cannot be allocated on its network any more, whatever the driver does.
\<close>

lemma remembered_address_taken:
  assumes "net_inv m" and "map_of (nm_networks m) n = Some ns" and "n \<noteq> []"
    and "map_of (nm_allocs m) v = Some al" and "al_networkName al = n"
    and "Allocator_Get (nm_ipam m) n j = Some (al_ip al)" and "Allocator_Get (nm_ipam m) n v = None"
  shows "\<exists>e. AllocateInterface env m v h n [] w = (Inl (ReusingFailed (al_ip al) v e), m, w)"
proof -
  have name: "nd_Name (n_def ns) = n" by (rule net_invD(6) [OF assms(1,2)])
  have res: "resolveNetwork m n = Inr (Some ns)" unfolding resolveNetwork_def assms(2) using assms(3) by simp
  obtain e a where s: "Allocator_AllocateStatic (nm_ipam m) n v (al_ip al) = (Some e, a)"
    using held_elsewhere [OF net_invD(1) [OF assms(1)] assms(6), of v] assms(7)
    by (cases "Allocator_AllocateStatic (nm_ipam m) n v (al_ip al)") auto
  then have "a = nm_ipam m" using maps_static [OF net_invD(1) [OF assms(1)] s] by simp
  with s have "choose_ip m ns v [] = (Inl (ReusingFailed (al_ip al) v e), nm_ipam m)"
    unfolding choose_ip_def Let_def assms(4) name using assms(5) by simp
  then show ?thesis by (simp add: AllocateInterface_def res)
qed

text \<open>
  Changing the gateway of a network leaves its pool with the old one, so that the address of the new gateway
  can be given to a veth.
\<close>

lemma new_gateway_can_be_allocated:
  assumes "net_inv m" and "map_of (nm_networks m) (nd_Name d) = Some ns" and "map_of (nm_ipam m) (nd_Name d) = Some p"
    and "nd_Gateway d \<noteq> nd_Gateway (n_def ns)" and "nd_Gateway d \<noteq> []" and "ParseIP (nd_Gateway d) = Some g"
    and "Contains (pool_Subnet p) g" and "g \<noteq> pool_Gateway p" and "\<And>j. Allocator_Get (nm_ipam m) (nd_Name d) j \<noteq> Some g"
  shows "map_option n_gateway (map_of (nm_networks (UpdateNetwork m d)) (nd_Name d)) = Some g \<and>
    fst (Allocator_AllocateStatic (nm_ipam (UpdateNetwork m d)) (nd_Name d) v g) = None"
proof
  show "map_option n_gateway (map_of (nm_networks (UpdateNetwork m d)) (nd_Name d)) = Some g"
    unfolding UpdateNetwork_def assms(2) using assms(4-6) by simp
  have gm: "gm_wf (pool_Allocated p)" using net_invD(1) [OF assms(1)] assms(3) by (auto simp: ipam_maps_def)
  have "map_of (pool_Allocated p) j \<noteq> Some g" for j
    using assms(9) [of j] unfolding Allocator_Get_def assms(3) option.case .
  then have "List.find (\<lambda>(k, existing). existing = g) (pool_Allocated p) = None"
    unfolding find_None_ball using gm_mem_iff [OF gm] by blast
  then show "fst (Allocator_AllocateStatic (nm_ipam (UpdateNetwork m d)) (nd_Name d) v g) = None"
    unfolding UpdateNetwork_tables Allocator_AllocateStatic_def assms(3) using assms(7,8) by simp
qed

text \<open>
  A network whose allocation range cannot be read is registered all the same, without a pool: nothing can
  be allocated on it, and registering it again with a correct range changes nothing.
\<close>

lemma bad_range_blocks_network:
  assumes "net_inv m" and "map_of (nm_networks m) (nd_Name d) = None"
    and "parse_network d = Inr sg" and "pool_options d = Inl e"
  shows "\<exists>m'. RegisterNetwork m d = (Some e, m') \<and> map_of (nm_ipam m') (nd_Name d) = None \<and>
    (\<forall>d'. nd_Name d' = nd_Name d \<longrightarrow> RegisterNetwork m' d' = (None, m'))"
proof -
  obtain subnet gw where "sg = (subnet, gw)" by (cases sg)
  then obtain m' where m': "add_network m d = (Some e, m')" "nm_ipam m' = nm_ipam m"
    "map_of (nm_networks m') (nd_Name d) \<noteq> None"
    using assms(3,4) by (simp add: add_network_def Let_def)
  have "map_of (nm_ipam m) (nd_Name d) = None" using net_invD(7) [OF assms(1)] assms(2) by (metis domIff subsetD)
  with m' assms(2) show ?thesis
    by (simp add: RegisterNetwork_def del: map_of_eq_None_iff)
qed

text \<open>A state file replaces the switches of the configured networks.\<close>

lemma load_drops_switches:
  assumes "add_networks (empty_manager dns path) ds = Inr m" and "path \<noteq> []"
    and "ReadState env path w = (Inr st, w1)" and "NewManager env ds dns path w = (Inr m', w')"
  shows "ns_Switches (ss_data (nm_state m')) = ns_Switches st"
proof -
  have path: "ss_path (nm_state m) = path"
  proof -
    have "ss_path (nm_state (snd (add_network k d))) = ss_path (nm_state k)" for k d
      by (auto simp: add_network_def Let_def setSwitch_def split: sum.splits prod.splits)
    then have "add_networks k ds = Inr m \<Longrightarrow> ss_path (nm_state m) = ss_path (nm_state k)" for k ds
      by (induction ds arbitrary: k) (auto split: prod.splits option.splits, metis snd_conv)
    from this [OF assms(1)] show ?thesis by (simp add: empty_manager_def newStateStore_def)
  qed
  have keep: "nm_state (fold record_entry es k) = nm_state k" for es k
    by (induction es arbitrary: k) (auto simp: record_entry_def split: prod.splits)
  show ?thesis
    using assms path keep
    by (auto simp: NewManager_def store_load_def syncExistingAllocations_def Let_def split: prod.splits sum.splits)
qed

end
