(* ===== verification/Cluster.thy ===== *)
theory Cluster
  imports SafeMap "HOL-Library.List_Lexorder" "HOL-Library.Char_ord"
begin

text \<open>
  \<open>pkg/cluster\<close>: nodes that keep the same objects. A write to a bucket of the local store is pushed to every
  peer through a bounded channel, one sender goroutine per peer; a peer that comes up is resynchronised in
  full. What a node keeps is the record \<open>node\<close>; the store (\<open>pkg/store\<close>, key-value buckets of NATS) is a map
  of buckets that answers while \<open>kv_up\<close> holds and fails otherwise.

  A stored value is JSON text as \<open>json.Marshal\<close> writes it, or bytes that are not JSON, which is what an
  encrypted secret is. \<open>json.RawMessage\<close> passes the first through unchanged and makes the encoder fail on
  the second. A request that reaches its peer is one step of both nodes; whether it does is an argument.
\<close>

section \<open>Store\<close>

datatype blob = Json string | Opaque "8 word list"

type_synonym bucket = "(string, blob) gomap"

primrec is_json :: "blob \<Rightarrow> bool" where
  "is_json (Json s) = True"
| "is_json (Opaque b) = False"

definition bucketNames :: "string list" where
  "bucketNames = [''PODS'', ''CONFIGMAPS'', ''SECRETS'', ''NAMESPACES'', ''NODE_STATUS'', ''BAREMETALHOSTS'',
     ''DEPLOYMENTS'', ''PVCS'', ''NETWORKS'', ''REGISTRIES'', ''ISCSICDROMS'', ''ISCSIDISKS'', ''BOOTCONFIGS'',
     ''HOSTRESERVATIONS'', ''JOBRUNNERS'', ''JOBS'', ''JOBLOGS'', ''STORAGEPOOLS'']"

definition syncedBuckets :: "string list" where
  "syncedBuckets = [''PODS'', ''CONFIGMAPS'', ''SECRETS'', ''NAMESPACES'', ''BAREMETALHOSTS'', ''DEPLOYMENTS'',
     ''PVCS'', ''NETWORKS'', ''REGISTRIES'', ''ISCSICDROMS'', ''BOOTCONFIGS'']"

definition isSyncedBucket :: "string \<Rightarrow> bool" where
  "isSyncedBucket name = list_ex (\<lambda>b. b = name) syncedBuckets"

record peer_config =
  pc_Name :: string
  pc_Address :: string

record sync_event =
  ev_NodeName :: string
  ev_Bucket :: string
  ev_Key :: string
  ev_Operation :: string
  ev_Value :: "blob option"
  ev_Timestamp :: int

text \<open>
  A node: its name and peers, its store (a missing bucket is an empty one), the channels of the sender
  goroutines (\<open>SyncManager\<close>), the health of its peers (\<open>Manager\<close>) and the peers it is resynchronising with.
\<close>

record node =
  nodeName :: string
  arch :: string
  peers :: "peer_config list"
  failoverTimeout :: int
  buckets :: "(string, bucket) gomap"
  kv_up :: bool
  peerChans :: "(string, sync_event list) gomap"
  peerUp :: "(string, bool) gomap"
  lastSeen :: "(string, instant) gomap"
  peerResyncing :: "(string, bool) gomap"

definition bucket_of :: "node \<Rightarrow> string \<Rightarrow> bucket" where
  "bucket_of nd name = (case map_of (buckets nd) name of Some b \<Rightarrow> b | None \<Rightarrow> [])"

definition BucketByName :: "string \<Rightarrow> bool" where
  "BucketByName name = list_ex (\<lambda>b. b = name) bucketNames"

definition Bucket_Get :: "node \<Rightarrow> string \<Rightarrow> string \<Rightarrow> blob option" where
  "Bucket_Get nd b key = (if kv_up nd then map_of (bucket_of nd b) key else None)"

definition PutFromPeer :: "node \<Rightarrow> string \<Rightarrow> string \<Rightarrow> blob \<Rightarrow> bool \<times> node" where
  "PutFromPeer nd b key v =
     (if kv_up nd then (True, nd\<lparr>buckets := AList.update b (AList.update key v (bucket_of nd b)) (buckets nd)\<rparr>)
      else (False, nd))"

definition DeleteFromPeer :: "node \<Rightarrow> string \<Rightarrow> string \<Rightarrow> bool \<times> node" where
  "DeleteFromPeer nd b key =
     (if kv_up nd then (True, nd\<lparr>buckets := AList.update b (AList.delete key (bucket_of nd b)) (buckets nd)\<rparr>)
      else (False, nd))"

definition Bucket_Keys :: "node \<Rightarrow> string \<Rightarrow> string list option" where
  "Bucket_Keys nd b = (if kv_up nd then Some (map fst (bucket_of nd b)) else None)"

section \<open>Pushing local writes\<close>

definition chan_cap :: nat where "chan_cap = 64"

definition NewSyncManager :: "node \<Rightarrow> node" where
  "NewSyncManager nd = nd\<lparr>peerChans := fold (\<lambda>peer. AList.update (pc_Name peer) []) (peers nd) []\<rparr>"

text \<open>The \<open>select\<close> of \<open>OnLocalWrite\<close>: a full channel drops the event.\<close>

definition offer :: "sync_event \<Rightarrow> peer_config \<Rightarrow> (string, sync_event list) gomap \<Rightarrow> (string, sync_event list) gomap" where
  "offer evt peer chans =
     (case map_of chans (pc_Name peer) of
        None \<Rightarrow> chans
      | Some ch \<Rightarrow> if length ch < chan_cap then AList.update (pc_Name peer) (ch @ [evt]) chans else chans)"

definition OnLocalWrite :: "node \<Rightarrow> int \<Rightarrow> string \<Rightarrow> string \<Rightarrow> string \<Rightarrow> blob option \<Rightarrow> node" where
  "OnLocalWrite nd now b key op v =
     (if \<not> isSyncedBucket b then nd
      else (let evt = \<lparr>ev_NodeName = nodeName nd, ev_Bucket = b, ev_Key = key, ev_Operation = op,
                       ev_Value = (if op = ''put'' then v else None), ev_Timestamp = now\<rparr>
            in nd\<lparr>peerChans := fold (offer evt) (peers nd) (peerChans nd)\<rparr>))"

text \<open>A local write: the store first, then the hook that \<open>Start\<close> installed.\<close>

definition Bucket_Put :: "node \<Rightarrow> int \<Rightarrow> string \<Rightarrow> string \<Rightarrow> blob \<Rightarrow> bool \<times> node" where
  "Bucket_Put nd now b key v =
     (case PutFromPeer nd b key v of
        (False, nd) \<Rightarrow> (False, nd)
      | (True, nd) \<Rightarrow> (True, OnLocalWrite nd now b key ''put'' (Some v)))"

definition Bucket_Delete :: "node \<Rightarrow> int \<Rightarrow> string \<Rightarrow> string \<Rightarrow> bool \<times> node" where
  "Bucket_Delete nd now b key =
     (case DeleteFromPeer nd b key of
        (False, nd) \<Rightarrow> (False, nd)
      | (True, nd) \<Rightarrow> (True, OnLocalWrite nd now b key ''delete'' None))"

datatype sync_reply = StatusOK | BadRequest string | InternalError string

text \<open>A put without a value stores the empty text.\<close>

definition HandleSyncEvent :: "node \<Rightarrow> sync_event \<Rightarrow> sync_reply \<times> node" where
  "HandleSyncEvent nd evt =
     (if ev_NodeName evt = nodeName nd then (StatusOK, nd)
      else if \<not> BucketByName (ev_Bucket evt) then (BadRequest (''unknown bucket: '' @ ev_Bucket evt), nd)
      else if ev_Operation evt = ''put'' then
        (case PutFromPeer nd (ev_Bucket evt) (ev_Key evt)
                (case ev_Value evt of Some v \<Rightarrow> v | None \<Rightarrow> Opaque []) of
           (False, nd) \<Rightarrow> (InternalError ''sync put failed'', nd)
         | (True, nd) \<Rightarrow> (StatusOK, nd))
      else if ev_Operation evt = ''delete''
      then (StatusOK, snd (DeleteFromPeer nd (ev_Bucket evt) (ev_Key evt)))
      else (BadRequest (''unknown operation: '' @ ev_Operation evt), nd))"

text \<open>
  One turn of \<open>peerSendLoop\<close>: the sender takes an event from its channel and posts it (\<open>pushToPeer\<close>); an
  event that cannot be encoded, or whose request fails, is lost.
\<close>

definition pushToPeer :: "bool \<Rightarrow> sync_event \<Rightarrow> node \<Rightarrow> node" where
  "pushToPeer reached evt receiver =
     (case ev_Value evt of
        Some (Opaque b) \<Rightarrow> receiver
      | _ \<Rightarrow> if reached then snd (HandleSyncEvent receiver evt) else receiver)"

definition peerSendLoop_turn :: "bool \<Rightarrow> node \<Rightarrow> node \<Rightarrow> node \<times> node" where
  "peerSendLoop_turn reached sender receiver =
     (case map_of (peerChans sender) (nodeName receiver) of
        Some (evt # ch) \<Rightarrow>
          (sender\<lparr>peerChans := AList.update (nodeName receiver) ch (peerChans sender)\<rparr>, pushToPeer reached evt receiver)
      | _ \<Rightarrow> (sender, receiver))"

section \<open>Full resynchronisation\<close>

record sync_entry =
  se_Value :: blob
  se_Timestamp :: int

record full_payload =
  fp_NodeName :: string
  fp_Buckets :: "(string, (string, sync_entry) gomap) gomap"

definition payload_entries :: "node \<Rightarrow> int \<Rightarrow> string \<Rightarrow> (string, sync_entry) gomap" where
  "payload_entries nd now b =
     (case Bucket_Keys nd b of
        None \<Rightarrow> []
      | Some keys \<Rightarrow>
          fold (\<lambda>key entries.
            case Bucket_Get nd b key of
              None \<Rightarrow> entries
            | Some v \<Rightarrow> AList.update key \<lparr>se_Value = v, se_Timestamp = now\<rparr> entries) keys [])"

definition buildFullSyncPayload :: "node \<Rightarrow> int \<Rightarrow> full_payload" where
  "buildFullSyncPayload nd now =
     \<lparr>fp_NodeName = nodeName nd,
      fp_Buckets = fold (\<lambda>b bs.
        (let entries = payload_entries nd now b
         in if BucketByName b \<and> entries \<noteq> [] then AList.update b entries bs else bs)) syncedBuckets []\<rparr>"

text \<open>Encoding a payload fails as a whole when one of its values is not JSON.\<close>

definition encode_payload :: "full_payload \<Rightarrow> full_payload option" where
  "encode_payload p =
     (if list_all (\<lambda>(b, entries). list_all (\<lambda>(key, e). is_json (se_Value e)) entries) (fp_Buckets p)
      then Some p else None)"

text \<open>The body of the reply: \<open>None\<close> is the empty body of a failed encoding, sent with status 200.\<close>

definition HandleFullSyncExport :: "node \<Rightarrow> int \<Rightarrow> full_payload option" where
  "HandleFullSyncExport nd now = encode_payload (buildFullSyncPayload nd now)"

definition import_entry :: "string \<Rightarrow> string \<times> sync_entry \<Rightarrow> node \<times> nat \<Rightarrow> node \<times> nat" where
  "import_entry b = (\<lambda>(key, entry) (nd, imported).
     (case PutFromPeer nd b key (se_Value entry) of
        (False, nd) \<Rightarrow> (nd, imported)
      | (True, nd) \<Rightarrow> (nd, Suc imported)))"

definition HandleFullSyncImport :: "node \<Rightarrow> full_payload \<Rightarrow> node \<times> nat" where
  "HandleFullSyncImport nd payload =
     fold (\<lambda>(b, entries) s. if BucketByName b then fold (import_entry b) entries s else s)
       (fp_Buckets payload) (nd, 0)"

text \<open>Importing the peer's state on the side that asked for it: only keys it cannot read.\<close>

definition merge_entry :: "string \<Rightarrow> string \<times> sync_entry \<Rightarrow> node \<times> nat \<Rightarrow> node \<times> nat" where
  "merge_entry b = (\<lambda>(key, entry) (nd, imported).
     (if Bucket_Get nd b key = None then import_entry b (key, entry) (nd, imported) else (nd, imported)))"

definition merge_payload :: "full_payload \<Rightarrow> node \<Rightarrow> node \<times> nat" where
  "merge_payload payload nd =
     fold (\<lambda>(b, entries) s. if BucketByName b then fold (merge_entry b) entries s else s)
       (fp_Buckets payload) (nd, 0)"

text \<open>
  \<open>FullResyncWithPeer\<close>: ask for the peer's state, merge it, push the own state back. \<open>got\<close> and \<open>pushed\<close> say
  whether the two requests reach the peer.
\<close>

definition FullResyncWithPeer :: "bool \<Rightarrow> bool \<Rightarrow> int \<Rightarrow> node \<Rightarrow> node \<Rightarrow> node \<times> node" where
  "FullResyncWithPeer got pushed now local peer =
     (if \<not> got then (local, peer)
      else (case HandleFullSyncExport peer now of
              None \<Rightarrow> (local, peer)
            | Some peerPayload \<Rightarrow>
                (let (local, imported) = merge_payload peerPayload local
                 in case encode_payload (buildFullSyncPayload local now) of
                      None \<Rightarrow> (local, peer)
                    | Some localPayload \<Rightarrow>
                        if pushed then (local, fst (HandleFullSyncImport peer localPayload)) else (local, peer))))"

section \<open>Health of the peers\<close>

definition New :: "string \<Rightarrow> peer_config list \<Rightarrow> int \<Rightarrow> (string, bucket) gomap \<Rightarrow> string \<Rightarrow> node" where
  "New name ps timeout store architecture =
     \<lparr>nodeName = name, arch = architecture, peers = ps, failoverTimeout = timeout, buckets = store, kv_up = True,
      peerChans = [], peerUp = [], lastSeen = [], peerResyncing = []\<rparr>"

definition IsPeerHealthy :: "node \<Rightarrow> string \<Rightarrow> bool" where
  "IsPeerHealthy nd name = (map_of (peerUp nd) name = Some True)"

definition HealthyNodes :: "node \<Rightarrow> string list" where
  "HealthyNodes nd = nodeName nd # sort
     (filter (IsPeerHealthy nd) (map pc_Name (peers nd)))"

definition FailoverTimeout :: "node \<Rightarrow> int" where
  "FailoverTimeout nd = (if 0 < failoverTimeout nd then failoverTimeout nd else 300)"

text \<open>
  One peer in a round of \<open>peerMonitorLoop\<close>, given what \<open>checkPeer\<close> answered; the flag says whether a
  resynchronisation starts. It ends with \<open>resync_done\<close>.
\<close>

definition monitor_peer :: "node \<Rightarrow> string \<Rightarrow> bool \<Rightarrow> instant \<Rightarrow> bool \<times> node" where
  "monitor_peer nd name healthy now =
     (let wasUp = IsPeerHealthy nd name;
          nd = nd\<lparr>peerUp := AList.update name healthy (peerUp nd),
                  lastSeen := (if healthy then AList.update name now (lastSeen nd) else lastSeen nd)\<rparr>
      in if \<not> wasUp \<and> healthy then
           (if map_of (peerResyncing nd) name = Some True then (False, nd)
            else (True, nd\<lparr>peerResyncing := AList.update name True (peerResyncing nd)\<rparr>))
         else (False, nd))"

definition resync_done :: "node \<Rightarrow> string \<Rightarrow> node" where
  "resync_done nd name = nd\<lparr>peerResyncing := AList.update name False (peerResyncing nd)\<rparr>"

definition AllNodes :: "node \<Rightarrow> string list" where
  "AllNodes nd = nodeName nd # map pc_Name (peers nd)"

definition PeerLastSeen :: "node \<Rightarrow> string \<Rightarrow> instant option" where
  "PeerLastSeen nd name = map_of (lastSeen nd) name"

definition PeerDownDuration :: "node \<Rightarrow> string \<Rightarrow> instant \<Rightarrow> duration" where
  "PeerDownDuration nd name now =
     (if IsPeerHealthy nd name then 0
      else (case map_of (lastSeen nd) name of Some t \<Rightarrow> time_Sub now t | None \<Rightarrow> 0))"

fun SetPeerAddress_loop :: "string \<Rightarrow> string \<Rightarrow> peer_config list \<Rightarrow> peer_config list" where
  "SetPeerAddress_loop name address [] = []"
| "SetPeerAddress_loop name address (p # ps) =
     (if pc_Name p = name then p\<lparr>pc_Address := address\<rparr> # ps else p # SetPeerAddress_loop name address ps)"

definition SetPeerAddress :: "node \<Rightarrow> string \<Rightarrow> string \<Rightarrow> node" where
  "SetPeerAddress nd name address = nd\<lparr>peers := SetPeerAddress_loop name address (peers nd)\<rparr>"

section \<open>What a node reads\<close>

definition look :: "node \<Rightarrow> string \<Rightarrow> string \<Rightarrow> blob option" where
  "look nd b key = map_of (bucket_of nd b) key"

lemma look_Put:
  "kv_up nd \<Longrightarrow> look (snd (PutFromPeer nd b key v)) c k = (if c = b \<and> k = key then Some v else look nd c k)"
  by (simp add: look_def PutFromPeer_def bucket_of_def)

lemma look_Delete:
  "kv_up nd \<Longrightarrow> look (snd (DeleteFromPeer nd b key)) c k = (if c = b \<and> k = key then None else look nd c k)"
  by (simp add: look_def DeleteFromPeer_def bucket_of_def)

lemma look_hook [simp]: "look (OnLocalWrite nd now b key op v) = look nd"
  by (intro ext) (simp add: look_def bucket_of_def OnLocalWrite_def Let_def)

lemma synced_known: "b \<in> set syncedBuckets \<Longrightarrow> BucketByName b"
  by (auto simp: syncedBuckets_def BucketByName_def bucketNames_def)

lemma isSynced_iff: "isSyncedBucket b \<longleftrightarrow> b \<in> set syncedBuckets"
  by (auto simp: isSyncedBucket_def list_ex_iff)

section \<open>Walking through a payload\<close>

text \<open>The value a payload has for a key.\<close>

definition payload_value :: "full_payload \<Rightarrow> string \<Rightarrow> string \<Rightarrow> blob option" where
  "payload_value p b k =
     Option.bind (map_of (fp_Buckets p) b) (\<lambda>es. map_option se_Value (map_of es k))"

definition payload_wf :: "full_payload \<Rightarrow> bool" where
  "payload_wf p \<longleftrightarrow> gm_wf (fp_Buckets p) \<and>
     (\<forall>(b, es)\<in>set (fp_Buckets p). gm_wf es \<and> BucketByName b)"

text \<open>
  Both sides of a resynchronisation walk through a payload and differ in what they do with one entry: the
  one overwrites, the other keeps what it has.
\<close>

locale payload_walk =
  fixes entry_step :: "string \<Rightarrow> string \<times> sync_entry \<Rightarrow> node \<times> nat \<Rightarrow> node \<times> nat"
    and combine :: "blob option \<Rightarrow> blob \<Rightarrow> blob"
  assumes step_up: "kv_up nd \<Longrightarrow> kv_up (fst (entry_step b ent (nd, i)))"
    and step_rest: "fst (entry_step b ent (nd, i)) = nd\<lparr>buckets := buckets (fst (entry_step b ent (nd, i)))\<rparr>"
    and step_look: "kv_up nd \<Longrightarrow> look (fst (entry_step b (key, e) (nd, i))) c k =
      (if c = b \<and> k = key then Some (combine (look nd b key) (se_Value e)) else look nd c k)"
begin

definition walk_bucket :: "string \<times> (string, sync_entry) gomap \<Rightarrow> node \<times> nat \<Rightarrow> node \<times> nat" where
  "walk_bucket = (\<lambda>(b, entries) s. if BucketByName b then fold (entry_step b) entries s else s)"

lemma entries_rest:
  "fst (fold (entry_step b) es s) = (fst s)\<lparr>buckets := buckets (fst (fold (entry_step b) es s))\<rparr>"
proof (induction es arbitrary: s)
  case (Cons e es)
  obtain nd i where s: "s = (nd, i)" by (cases s)
  have "fst (fold (entry_step b) es (entry_step b e s)) =
      (fst (entry_step b e s))\<lparr>buckets := buckets (fst (fold (entry_step b) es (entry_step b e s)))\<rparr>"
    by (rule Cons.IH)
  also have "\<dots> = nd\<lparr>buckets := buckets (fst (fold (entry_step b) es (entry_step b e s)))\<rparr>"
    unfolding s by (subst step_rest) simp
  finally show ?case by (simp add: s)
qed (simp add: split_beta)

lemma entries_look:
  assumes "kv_up (fst s)" and "gm_wf es"
  shows "kv_up (fst (fold (entry_step b) es s)) \<and>
    look (fst (fold (entry_step b) es s)) c k =
      (if c = b then (case map_of es k of
           None \<Rightarrow> look (fst s) b k
         | Some e \<Rightarrow> Some (combine (look (fst s) b k) (se_Value e)))
       else look (fst s) c k)"
  using assms
proof (induction es arbitrary: s)
  case (Cons x es)
  obtain key e where x: "x = (key, e)" by (cases x)
  obtain nd i where s: "s = (nd, i)" by (cases s)
  have up: "kv_up nd" using Cons.prems(1) s by simp
  have new: "key \<notin> fst ` set es" using Cons.prems(2) x by simp
  have none: "map_of es key = None" using new by (simp add: map_of_eq_None_iff)
  have "kv_up (fst (entry_step b x s))" using step_up [OF up] s by simp
  note ih = Cons.IH [OF this]
  have wf: "gm_wf es" using Cons.prems(2) by simp
  show ?case
    using ih [OF wf] none by (simp add: x s step_look [OF up] split: option.splits)
qed (simp add: split_beta)

lemma walk_look:
  assumes "kv_up (fst s)" and "gm_wf bs" and "\<forall>(b, es)\<in>set bs. gm_wf es \<and> BucketByName b"
  shows "kv_up (fst (fold walk_bucket bs s)) \<and>
    look (fst (fold walk_bucket bs s)) c k =
      (case Option.bind (map_of bs c) (\<lambda>es. map_option se_Value (map_of es k)) of
         None \<Rightarrow> look (fst s) c k
       | Some v \<Rightarrow> Some (combine (look (fst s) c k) v))"
  using assms
proof (induction bs arbitrary: s)
  case (Cons x bs)
  obtain b es where x: "x = (b, es)" by (cases x)
  have wf: "gm_wf es" "BucketByName b" using Cons.prems(3) x by auto
  have wb: "walk_bucket x s = fold (entry_step b) es s" using wf x by (simp add: walk_bucket_def)
  note e = entries_look [OF Cons.prems(1) wf(1), of b]
  have none: "map_of bs b = None" using Cons.prems(2) x by (simp add: map_of_eq_None_iff)
  have "kv_up (fst (walk_bucket x s))" using e wb by simp
  from Cons.IH [OF this] Cons.prems(2,3)
  have ih: "kv_up (fst (fold walk_bucket bs (walk_bucket x s)))"
    "look (fst (fold walk_bucket bs (walk_bucket x s))) c k =
      (case Option.bind (map_of bs c) (\<lambda>es. map_option se_Value (map_of es k)) of
         None \<Rightarrow> look (fst (walk_bucket x s)) c k
       | Some v \<Rightarrow> Some (combine (look (fst (walk_bucket x s)) c k) v))"
    by auto
  show ?case
  proof (cases "c = b")
    case True
    with ih none e [of b k] show ?thesis by (simp add: x wb [unfolded x] split: option.splits)
  next
    case False
    with ih e [of c k] show ?thesis by (simp add: x wb [unfolded x] cong: option.case_cong)
  qed
qed simp

lemma walk_rest: "fst (fold walk_bucket bs s) = (fst s)\<lparr>buckets := buckets (fst (fold walk_bucket bs s))\<rparr>"
proof (induction bs arbitrary: s)
  case (Cons x bs)
  obtain b es where x: "x = (b, es)" by (cases x)
  have "fst (walk_bucket x s) = (fst s)\<lparr>buckets := buckets (fst (walk_bucket x s))\<rparr>"
    using entries_rest [of b es s] by (simp add: walk_bucket_def x)
  then obtain B where B: "fst (walk_bucket x s) = (fst s)\<lparr>buckets := B\<rparr>" by blast
  have "fst (fold walk_bucket bs (walk_bucket x s)) =
      (fst (walk_bucket x s))\<lparr>buckets := buckets (fst (fold walk_bucket bs (walk_bucket x s)))\<rparr>"
    by (rule Cons.IH)
  also have "\<dots> = (fst s)\<lparr>buckets := buckets (fst (fold walk_bucket bs (walk_bucket x s)))\<rparr>"
    unfolding B by simp
  finally show ?case by simp
qed simp

end

interpretation imp: payload_walk import_entry "\<lambda>_ v. v"
  by unfold_locales
    (auto simp: import_entry_def PutFromPeer_def look_def bucket_of_def split: prod.splits if_splits)

interpretation mrg: payload_walk merge_entry "\<lambda>old v. case old of Some u \<Rightarrow> u | None \<Rightarrow> v"
proof
  show "kv_up (fst (merge_entry b e (nd, i)))" if "kv_up nd" for nd b e i
    using that by (cases e) (auto simp: merge_entry_def import_entry_def PutFromPeer_def)
  show "fst (merge_entry b e (nd, i)) = nd\<lparr>buckets := buckets (fst (merge_entry b e (nd, i)))\<rparr>" for nd b e i
    by (cases e) (auto simp: merge_entry_def import_entry_def PutFromPeer_def)
  show "look (fst (merge_entry b (key, e) (nd, i))) c k =
      (if c = b \<and> k = key then Some (case look nd b key of Some u \<Rightarrow> u | None \<Rightarrow> se_Value e) else look nd c k)"
    if "kv_up nd" for nd b key e i c k
    using that imp.step_look [OF that, of b key e i]
    by (cases "look nd b key") (auto simp: merge_entry_def Bucket_Get_def look_def)
qed

lemma import_walk: "HandleFullSyncImport nd p = fold imp.walk_bucket (fp_Buckets p) (nd, 0)"
  by (simp add: HandleFullSyncImport_def imp.walk_bucket_def)

lemma merge_walk: "merge_payload p nd = fold mrg.walk_bucket (fp_Buckets p) (nd, 0)"
  by (simp add: merge_payload_def mrg.walk_bucket_def)

lemma import_look:
  assumes "kv_up nd" and "payload_wf p"
  shows "look (fst (HandleFullSyncImport nd p)) b k =
    (case payload_value p b k of None \<Rightarrow> look nd b k | Some v \<Rightarrow> Some v)"
  using imp.walk_look [of "(nd, 0)" "fp_Buckets p" b k] assms
  by (simp add: import_walk payload_wf_def payload_value_def cong: option.case_cong)

lemma merge_look:
  assumes "kv_up nd" and "payload_wf p"
  shows "look (fst (merge_payload p nd)) b k =
    (case look nd b k of Some v \<Rightarrow> Some v | None \<Rightarrow> payload_value p b k)"
  using mrg.walk_look [of "(nd, 0)" "fp_Buckets p" b k] assms
  by (auto simp: merge_walk payload_wf_def payload_value_def split: option.splits)

lemma merge_up: "kv_up nd \<Longrightarrow> kv_up (fst (merge_payload p nd))"
  using mrg.walk_rest [of "fp_Buckets p" "(nd, 0)"]
  by (metis (no_types, lifting) fst_conv merge_walk node.select_convs(6) node.surjective node.update_convs(5))

section \<open>The payload of a node\<close>

lemma entries_fold:
  fixes f :: "string \<Rightarrow> blob option"
  shows "map_of (fold (\<lambda>key es. case f key of None \<Rightarrow> es
      | Some v \<Rightarrow> AList.update key \<lparr>se_Value = v, se_Timestamp = now\<rparr> es) keys es) k =
    (if k \<in> set keys \<and> f k \<noteq> None then map_option (\<lambda>v. \<lparr>se_Value = v, se_Timestamp = now\<rparr>) (f k) else map_of es k)"
  by (induction keys arbitrary: es) (auto split: option.splits simp del: map_of_eq_None_iff map_of_eq_Some_iff)

lemma entries_fold_wf:
  "gm_wf es \<Longrightarrow> gm_wf (fold (\<lambda>key es. case f key of None \<Rightarrow> es
      | Some v \<Rightarrow> AList.update key (g key v) es) keys es)"
  by (induction keys arbitrary: es) (auto split: option.splits)

lemma payload_entries_look:
  assumes "kv_up nd"
  shows "map_of (payload_entries nd now b) k = map_option (\<lambda>v. \<lparr>se_Value = v, se_Timestamp = now\<rparr>) (look nd b k)"
proof -
  have "k \<in> set (map fst (bucket_of nd b)) \<longleftrightarrow> look nd b k \<noteq> None"
    by (simp add: look_def map_of_eq_None_iff)
  then show ?thesis
    using assms unfolding payload_entries_def Bucket_Keys_def Bucket_Get_def look_def
    by (simp add: entries_fold del: set_map map_of_eq_None_iff map_of_eq_Some_iff)
qed

lemma payload_entries_wf: "gm_wf (payload_entries nd now b)"
  by (simp add: payload_entries_def entries_fold_wf split: option.splits)

lemma fold_buckets_look:
  assumes "gm_wf bs"
  shows "map_of (fold (\<lambda>b bs. if P b then AList.update b (f b) bs else bs) names bs) c =
      (if c \<in> set names \<and> P c then Some (f c) else map_of bs c) \<and>
    gm_wf (fold (\<lambda>b bs. if P b then AList.update b (f b) bs else bs) names bs)"
  using assms
  by (induction names arbitrary: bs) (auto simp del: map_of_eq_None_iff map_of_eq_Some_iff)

lemma payload_buckets:
  "map_of (fp_Buckets (buildFullSyncPayload nd now)) b =
     (if b \<in> set syncedBuckets \<and> payload_entries nd now b \<noteq> [] then Some (payload_entries nd now b) else None)"
  "gm_wf (fp_Buckets (buildFullSyncPayload nd now))"
  using fold_buckets_look [of "[]" "\<lambda>b. BucketByName b \<and> payload_entries nd now b \<noteq> []" "payload_entries nd now" syncedBuckets b]
    synced_known [of b]
  by (auto simp: buildFullSyncPayload_def Let_def simp del: map_of_eq_None_iff map_of_eq_Some_iff)

lemma payload_is_wf: "payload_wf (buildFullSyncPayload nd now)"
proof -
  have "gm_wf es \<and> BucketByName b" if "(b, es) \<in> set (fp_Buckets (buildFullSyncPayload nd now))" for b es
  proof -
    have "map_of (fp_Buckets (buildFullSyncPayload nd now)) b = Some es"
      using that gm_mem_iff [OF payload_buckets(2)] by blast
    then have "b \<in> set syncedBuckets" "es = payload_entries nd now b"
      unfolding payload_buckets(1) by (auto split: if_splits)
    then show ?thesis using payload_entries_wf synced_known by simp
  qed
  then show ?thesis using payload_buckets(2) by (auto simp: payload_wf_def)
qed

lemma payload_of_node:
  assumes "kv_up nd"
  shows "payload_value (buildFullSyncPayload nd now) b k = (if b \<in> set syncedBuckets then look nd b k else None)"
proof -
  have "look nd b k = None" if "payload_entries nd now b = []"
    using payload_entries_look [OF assms, of now b k] that by (cases "look nd b k") auto
  then show ?thesis
    unfolding payload_value_def payload_buckets(1)
    by (auto simp: payload_entries_look [OF assms] option.map_comp comp_def option.map_ident)
qed

text \<open>A payload can be encoded exactly when every value of the synchronised buckets is JSON.\<close>

definition all_json :: "node \<Rightarrow> bool" where
  "all_json nd \<longleftrightarrow> (\<forall>b\<in>set syncedBuckets. \<forall>k v. look nd b k = Some v \<longrightarrow> is_json v)"

lemma encode_iff:
  assumes "kv_up nd"
  shows "encode_payload (buildFullSyncPayload nd now) = (if all_json nd then Some (buildFullSyncPayload nd now) else None)"
proof -
  let ?p = "buildFullSyncPayload nd now"
  have mem: "(b, es) \<in> set (fp_Buckets ?p) \<longleftrightarrow>
      b \<in> set syncedBuckets \<and> payload_entries nd now b \<noteq> [] \<and> es = payload_entries nd now b" for b es
    unfolding gm_mem_iff [OF payload_buckets(2)] payload_buckets(1) by auto
  have ent: "(k, e) \<in> set (payload_entries nd now b) \<longleftrightarrow>
      (\<exists>v. look nd b k = Some v \<and> e = \<lparr>se_Value = v, se_Timestamp = now\<rparr>)" for k e b
    unfolding gm_mem_iff [OF payload_entries_wf] payload_entries_look [OF assms] by auto
  have "list_all (\<lambda>(b, entries). list_all (\<lambda>(key, e). is_json (se_Value e)) entries) (fp_Buckets ?p) \<longleftrightarrow> all_json nd"
    unfolding list_all_iff
  proof (intro iffI ballI)
    assume *: "\<forall>x\<in>set (fp_Buckets ?p). case x of (b, es) \<Rightarrow> \<forall>x\<in>set es. case x of (k, e) \<Rightarrow> is_json (se_Value e)"
    show "all_json nd"
      unfolding all_json_def
    proof (intro ballI allI impI)
      fix b k v
      assume b: "b \<in> set syncedBuckets" and v: "look nd b k = Some v"
      have e: "(k, \<lparr>se_Value = v, se_Timestamp = now\<rparr>) \<in> set (payload_entries nd now b)" using ent v by blast
      then have "(b, payload_entries nd now b) \<in> set (fp_Buckets ?p)" using mem b by auto
      with * e show "is_json v" by fastforce
    qed
  next
    fix x
    assume "all_json nd" and "x \<in> set (fp_Buckets ?p)"
    then show "case x of (b, es) \<Rightarrow> \<forall>x\<in>set es. case x of (k, e) \<Rightarrow> is_json (se_Value e)"
      using mem ent by (fastforce simp: all_json_def)
  qed
  then show ?thesis by (simp add: encode_payload_def)
qed

section \<open>Properties\<close>

text \<open>Two nodes that are each other's only peer.\<close>

definition ex_node :: "string \<Rightarrow> string \<Rightarrow> (string, bucket) gomap \<Rightarrow> node" where
  "ex_node name peer bs = NewSyncManager (New name [\<lparr>pc_Name = peer, pc_Address = ''http://'' @ peer\<rparr>] 0 bs ''arm64'')"

lemma all_json_ex: "all_json (ex_node name peer [(''PODS'', [(k, Json v), (l, Json w)])])"
  by (auto simp: all_json_def look_def bucket_of_def ex_node_def New_def NewSyncManager_def split: if_splits)



lemma opaque_not_json: "look nd b k = Some (Opaque bytes) \<Longrightarrow> b \<in> set syncedBuckets \<Longrightarrow> \<not> all_json nd"
  by (metis all_json_def is_json.simps(2))

text \<open>
  One value that is not JSON, as every encrypted secret is, disables the resynchronisation: when the
  peer has one, nothing is exchanged; when the asking node has one, nothing reaches the peer.
\<close>

theorem opaque_value_blocks_resync:
  assumes "kv_up local" and "kv_up peer" and "b \<in> set syncedBuckets"
  shows "(look peer b k = Some (Opaque bytes) \<longrightarrow> FullResyncWithPeer got pushed now local peer = (local, peer)) \<and>
    (look local b k = Some (Opaque bytes) \<longrightarrow> snd (FullResyncWithPeer got pushed now local peer) = peer)"
proof (intro conjI impI)
  assume "look peer b k = Some (Opaque bytes)"
  then have "\<not> all_json peer" using assms(3) by (rule opaque_not_json)
  then show "FullResyncWithPeer got pushed now local peer = (local, peer)"
    by (simp add: FullResyncWithPeer_def HandleFullSyncExport_def encode_iff [OF assms(2)])
next
  assume l: "look local b k = Some (Opaque bytes)"
  have "\<not> all_json (fst (merge_payload p local))" if "payload_wf p" for p
    using merge_look [OF assms(1) that, of b k] l by (intro opaque_not_json [OF _ assms(3)]) simp
  then have "encode_payload (buildFullSyncPayload (fst (merge_payload (buildFullSyncPayload peer now) local)) now) = None"
    using payload_is_wf encode_iff [OF merge_up [OF assms(1)]] by simp
  then show "snd (FullResyncWithPeer got pushed now local peer) = peer"
    by (auto simp: FullResyncWithPeer_def HandleFullSyncExport_def encode_iff [OF assms(2)] split: prod.splits)
qed

theorem opaque_value_blocks_resync_witness:
  "FullResyncWithPeer True True 7
     (ex_node ''rose1'' ''pvex'' [(''PODS'', [(''x'', Json ''1'')])])
     (ex_node ''pvex'' ''rose1'' [(''SECRETS'', [(''token'', Opaque [0x8F, 0x02])])]) =
   (ex_node ''rose1'' ''pvex'' [(''PODS'', [(''x'', Json ''1'')])],
    ex_node ''pvex'' ''rose1'' [(''SECRETS'', [(''token'', Opaque [0x8F, 0x02])])])"
proof -
  let ?l = "ex_node ''rose1'' ''pvex'' [(''PODS'', [(''x'', Json ''1'')])]"
  let ?p = "ex_node ''pvex'' ''rose1'' [(''SECRETS'', [(''token'', Opaque [0x8F, 0x02])])]"
  have up: "kv_up ?l" "kv_up ?p" by (simp_all add: ex_node_def New_def NewSyncManager_def)
  have s: "''SECRETS'' \<in> set syncedBuckets" by (simp add: syncedBuckets_def)
  have "look ?p ''SECRETS'' ''token'' = Some (Opaque [0x8F, 0x02])"
    by (simp add: look_def bucket_of_def ex_node_def New_def NewSyncManager_def)
  with opaque_value_blocks_resync [OF up s, of "''token''" "[0x8F, 0x02]" True True 7] show ?thesis by blast
qed

text \<open>
  Delivering an event: the receiver stores the value or drops the key, whatever it had.
\<close>

lemma deliver_put:
  assumes "map_of (peerChans s) (nodeName r) = Some [evt]" and "ev_NodeName evt \<noteq> nodeName r"
    and "BucketByName (ev_Bucket evt)" and "ev_Operation evt = ''put''" and "ev_Value evt = Some (Json v)" and "kv_up r"
  shows "peerSendLoop_turn True s r =
    (s\<lparr>peerChans := AList.update (nodeName r) [] (peerChans s)\<rparr>, snd (PutFromPeer r (ev_Bucket evt) (ev_Key evt) (Json v)))"
  using assms
  by (simp add: peerSendLoop_turn_def pushToPeer_def HandleSyncEvent_def PutFromPeer_def
      del: map_of_eq_None_iff map_of_eq_Some_iff)

text \<open>The two nodes of the next property: each is the other's only peer and has nothing to send.\<close>

definition linked :: "node \<Rightarrow> node \<Rightarrow> bool" where
  "linked s r \<longleftrightarrow> kv_up s \<and> nodeName s \<noteq> nodeName r \<and> map pc_Name (peers s) = [nodeName r] \<and>
     map_of (peerChans s) (nodeName r) = Some []"

lemma put_queues:
  assumes "linked s r" and "b \<in> set syncedBuckets"
  shows "map_of (peerChans (snd (Bucket_Put s t b k v))) (nodeName r) =
      Some [\<lparr>ev_NodeName = nodeName s, ev_Bucket = b, ev_Key = k, ev_Operation = ''put'', ev_Value = Some v, ev_Timestamp = t\<rparr>]"
    and "kv_up (snd (Bucket_Put s t b k v))" and "nodeName (snd (Bucket_Put s t b k v)) = nodeName s"
    and "look (snd (Bucket_Put s t b k v)) c j = (if c = b \<and> j = k then Some v else look s c j)"
proof -
  obtain p where p: "peers s = [p]" "pc_Name p = nodeName r" using assms(1) by (auto simp: linked_def map_eq_Cons_conv)
  have up: "kv_up s" and ch: "map_of (peerChans s) (nodeName r) = Some []" using assms(1) by (simp_all add: linked_def)
  have put: "snd (Bucket_Put s t b k v) = OnLocalWrite (snd (PutFromPeer s b k v)) t b k ''put'' (Some v)"
    using up by (simp add: Bucket_Put_def PutFromPeer_def)
  show "kv_up (snd (Bucket_Put s t b k v))" "nodeName (snd (Bucket_Put s t b k v)) = nodeName s"
    using up by (simp_all add: put OnLocalWrite_def PutFromPeer_def Let_def)
  show "look (snd (Bucket_Put s t b k v)) c j = (if c = b \<and> j = k then Some v else look s c j)"
    by (simp add: put look_Put [OF up])
  show "map_of (peerChans (snd (Bucket_Put s t b k v))) (nodeName r) =
      Some [\<lparr>ev_NodeName = nodeName s, ev_Bucket = b, ev_Key = k, ev_Operation = ''put'', ev_Value = Some v, ev_Timestamp = t\<rparr>]"
    using up ch p assms(2)
    by (simp add: put OnLocalWrite_def PutFromPeer_def Let_def offer_def chan_cap_def isSynced_iff
        del: map_of_eq_None_iff map_of_eq_Some_iff)
qed

text \<open>
  Concurrent writes do not converge, and the time stamps play no role: when two nodes write different
  values to the same key before either event is delivered, delivering both leaves each node with the
  other's value and nothing more to send.
\<close>

theorem crossing_writes_swap:
  assumes "linked a b" and "linked b a" and "B \<in> set syncedBuckets"
    and "a1 = snd (Bucket_Put a t1 B k (Json u))" and "b1 = snd (Bucket_Put b t2 B k (Json v))"
    and "peerSendLoop_turn True a1 b1 = (a2, b2)" and "peerSendLoop_turn True b2 a2 = (b3, a3)"
  shows "look a3 B k = Some (Json v) \<and> look b3 B k = Some (Json u) \<and>
    map_of (peerChans a3) (nodeName b3) = Some [] \<and> map_of (peerChans b3) (nodeName a3) = Some []"
proof -
  note qa = put_queues [OF assms(1,3), of t1 k "Json u", folded assms(4)]
  note qb = put_queues [OF assms(2,3), of t2 k "Json v", folded assms(5)]
  have ne: "nodeName a \<noteq> nodeName b" using assms(1) by (simp add: linked_def)
  have B: "BucketByName B" by (rule synced_known [OF assms(3)])
  have "peerSendLoop_turn True a1 b1 =
      (a1\<lparr>peerChans := AList.update (nodeName b) [] (peerChans a1)\<rparr>, snd (PutFromPeer b1 B k (Json u)))"
    using deliver_put [of a1 b1] qa(1) qb(2,3) ne B by simp
  then have a2: "a2 = a1\<lparr>peerChans := AList.update (nodeName b) [] (peerChans a1)\<rparr>"
    and b2: "b2 = snd (PutFromPeer b1 B k (Json u))"
    using assms(6) by simp_all
  have b2': "nodeName b2 = nodeName b" "peerChans b2 = peerChans b1" "look b2 B k = Some (Json u)"
    using qb(2,3) look_Put [OF qb(2)] by (simp_all add: b2) (simp_all add: PutFromPeer_def)
  have a2': "nodeName a2 = nodeName a" "kv_up a2" "map_of (peerChans a2) (nodeName b) = Some []"
    using qa(2,3) by (simp_all add: a2)
  have "peerSendLoop_turn True b2 a2 =
      (b2\<lparr>peerChans := AList.update (nodeName a) [] (peerChans b2)\<rparr>, snd (PutFromPeer a2 B k (Json v)))"
    using deliver_put [of b2 a2] qb(1) a2' b2' ne B by simp
  then have b3: "b3 = b2\<lparr>peerChans := AList.update (nodeName a) [] (peerChans b2)\<rparr>"
    and a3: "a3 = snd (PutFromPeer a2 B k (Json v))"
    using assms(7) by simp_all
  have "look b3 B k = look b2 B k" by (simp add: b3 look_def bucket_of_def)
  moreover have "nodeName a3 = nodeName a" "peerChans a3 = peerChans a2"
    using a2' by (simp_all add: a3 PutFromPeer_def)
  ultimately show ?thesis
    using b2' a2' look_Put [OF a2'(2)] by (simp add: b3) (simp add: a3)
qed

theorem crossing_writes_swap_witness:
  "\<exists>a2 b2 b3 a3. peerSendLoop_turn True (snd (Bucket_Put (ex_node ''rose1'' ''pvex'' []) 1 ''PODS'' ''x'' (Json ''1'')))
       (snd (Bucket_Put (ex_node ''pvex'' ''rose1'' []) 2 ''PODS'' ''x'' (Json ''2''))) = (a2, b2) \<and>
     peerSendLoop_turn True b2 a2 = (b3, a3) \<and>
     look a3 ''PODS'' ''x'' = Some (Json ''2'') \<and> look b3 ''PODS'' ''x'' = Some (Json ''1'')"
proof -
  let ?a = "ex_node ''rose1'' ''pvex'' []" and ?b = "ex_node ''pvex'' ''rose1'' []"
  have l: "linked ?a ?b" "linked ?b ?a"
    by (simp_all add: linked_def ex_node_def New_def NewSyncManager_def)
  have s: "''PODS'' \<in> set syncedBuckets" by (simp add: syncedBuckets_def)
  obtain a2 b2 where r: "peerSendLoop_turn True (snd (Bucket_Put ?a 1 ''PODS'' ''x'' (Json ''1'')))
      (snd (Bucket_Put ?b 2 ''PODS'' ''x'' (Json ''2''))) = (a2, b2)" by fastforce
  obtain b3 a3 where r2: "peerSendLoop_turn True b2 a2 = (b3, a3)" by fastforce
  from crossing_writes_swap [OF l s refl refl r r2] r r2 show ?thesis by blast
qed

text \<open>A key deleted while the peer could not be reached comes back with the next resynchronisation.\<close>

lemma deleted_key_returns:
  assumes "kv_up local" and "kv_up peer" and "all_json local" and "all_json peer"
    and "b \<in> set syncedBuckets" and "look peer b k = Some v"
  shows "look (fst (FullResyncWithPeer True True now (snd (Bucket_Delete local t b k)) peer)) b k = Some v"
proof -
  let ?l = "snd (Bucket_Delete local t b k)"
  have del: "?l = OnLocalWrite (snd (DeleteFromPeer local b k)) t b k ''delete'' None"
    using assms(1) by (simp add: Bucket_Delete_def DeleteFromPeer_def)
  have l: "look ?l c j = (if c = b \<and> j = k then None else look local c j)" for c j
    by (simp add: del look_Delete [OF assms(1)])
  have up: "kv_up ?l" using assms(1) by (simp add: del OnLocalWrite_def DeleteFromPeer_def Let_def)
  have "look (fst (merge_payload (buildFullSyncPayload peer now) ?l)) b k = Some v"
    using merge_look [OF up payload_is_wf, of peer now b k] l assms(5,6) unfolding payload_of_node [OF assms(2)] by simp
  then show ?thesis
    by (auto simp: FullResyncWithPeer_def HandleFullSyncExport_def encode_iff [OF assms(2)] assms(4)
        split: prod.splits option.splits)
qed

text \<open>The channels of the senders stay within their capacity.\<close>

lemma offer_bounded:
  assumes "\<And>p ch. map_of chans p = Some ch \<Longrightarrow> length ch \<le> chan_cap" and "map_of (offer evt peer chans) p = Some ch"
  shows "length ch \<le> chan_cap"
  using assms by (auto simp: offer_def split: option.splits if_splits simp del: map_of_eq_None_iff map_of_eq_Some_iff)

end
