(* ===== verification/JobLogs.thy ===== *)
theory JobLogs
  imports SafeMap
begin

text \<open>
  \<open>pkg/provider/job_logs.go\<close>, the log store: a bounded buffer of lines per job and the channels of
  the clients that follow it. A channel is a number; its buffer (1000 places) and whether it is
  closed are kept in a map, because several slices can hold the same channel. Methods that hold
  the store's lock for their whole body are one definition; \<open>notifySubscribers\<close>, which drops the
  lock before it sends, is two, and a send on a closed channel, which panics, is \<open>None\<close>.
\<close>

section \<open>The store\<close>

definition jobLogMaxLines :: nat where "jobLogMaxLines = 10000"

definition log_chan_cap :: nat where "log_chan_cap = 1000"

record log_chan =
  ch_buf :: "string list"
  ch_closed :: bool

record job_log_store =
  ls_buffers :: "(string, string list) gomap"
  ls_subscribers :: "(string, nat list) gomap"
  ls_chans :: "(nat, log_chan) gomap"
  ls_next :: nat

definition newJobLogStore :: job_log_store where
  "newJobLogStore = \<lparr>ls_buffers = [], ls_subscribers = [], ls_chans = [], ls_next = 0\<rparr>"

definition subs_of :: "job_log_store \<Rightarrow> string \<Rightarrow> nat list" where
  "subs_of s key = (case map_of (ls_subscribers s) key of Some cs \<Rightarrow> cs | None \<Rightarrow> [])"

definition getOrCreate :: "job_log_store \<Rightarrow> string \<Rightarrow> string list \<times> job_log_store" where
  "getOrCreate s key =
     (case map_of (ls_buffers s) key of
        Some buf \<Rightarrow> (buf, s)
      | None \<Rightarrow> ([], s\<lparr>ls_buffers := AList.update key [] (ls_buffers s)\<rparr>))"

definition logs_get :: "job_log_store \<Rightarrow> string \<Rightarrow> string list option" where
  "logs_get s key = map_of (ls_buffers s) key"

definition logs_delete :: "job_log_store \<Rightarrow> string \<Rightarrow> job_log_store" where
  "logs_delete s key = s\<lparr>ls_buffers := AList.delete key (ls_buffers s)\<rparr>"

text \<open>The ring buffer: append, then keep the last \<open>jobLogMaxLines\<close>.\<close>

definition buf_append :: "string list \<Rightarrow> string list \<Rightarrow> string list" where
  "buf_append buf lines =
     (let ls = buf @ lines
      in if length ls > jobLogMaxLines then drop (length ls - jobLogMaxLines) ls else ls)"

definition append_lines :: "job_log_store \<Rightarrow> string \<Rightarrow> string list \<Rightarrow> job_log_store" where
  "append_lines s key lines =
     (let (buf, s) = getOrCreate s key
      in s\<lparr>ls_buffers := AList.update key (buf_append buf lines) (ls_buffers s)\<rparr>)"

section \<open>Followers\<close>

definition logs_subscribe :: "job_log_store \<Rightarrow> string \<Rightarrow> string list \<times> nat \<times> job_log_store" where
  "logs_subscribe s key =
     (let ch = ls_next s;
          backlog = (case map_of (ls_buffers s) key of Some buf \<Rightarrow> buf | None \<Rightarrow> [])
      in (backlog, ch,
          s\<lparr>ls_next := Suc ch, ls_chans := AList.update ch \<lparr>ch_buf = [], ch_closed = False\<rparr> (ls_chans s),
            ls_subscribers := AList.update key (subs_of s key @ [ch]) (ls_subscribers s)\<rparr>))"

definition logs_unsubscribe :: "job_log_store \<Rightarrow> string \<Rightarrow> nat \<Rightarrow> job_log_store" where
  "logs_unsubscribe s key ch =
     (let subs = subs_of s key;
          s = (if ch \<in> set subs
               then s\<lparr>ls_subscribers := AList.update key (remove1 ch subs) (ls_subscribers s)\<rparr> else s)
      in if subs_of s key = [] then s\<lparr>ls_subscribers := AList.delete key (ls_subscribers s)\<rparr> else s)"

text \<open>A non-blocking send: dropped when the buffer is full, a panic when the channel is closed.\<close>

definition chan_send :: "job_log_store \<Rightarrow> nat \<Rightarrow> string \<Rightarrow> job_log_store option" where
  "chan_send s ch line =
     (case map_of (ls_chans s) ch of
        None \<Rightarrow> Some s
      | Some c \<Rightarrow>
          if ch_closed c then None
          else if length (ch_buf c) < log_chan_cap
          then Some (s\<lparr>ls_chans := AList.update ch (c\<lparr>ch_buf := ch_buf c @ [line]\<rparr>) (ls_chans s)\<rparr>)
          else Some s)"

fun send_all :: "job_log_store \<Rightarrow> (nat \<times> string) list \<Rightarrow> job_log_store option" where
  "send_all s [] = Some s"
| "send_all s ((ch, line) # es) = (case chan_send s ch line of None \<Rightarrow> None | Some s \<Rightarrow> send_all s es)"

text \<open>\<open>notifySubscribers\<close>: read the slice under the lock, then send every line to every channel.\<close>

definition notify_read :: "job_log_store \<Rightarrow> string \<Rightarrow> nat list" where
  "notify_read s key = subs_of s key"

definition notify_send :: "job_log_store \<Rightarrow> nat list \<Rightarrow> string list \<Rightarrow> job_log_store option" where
  "notify_send s subs lines = send_all s (concat (map (\<lambda>ch. map (Pair ch) lines) subs))"

definition notifySubscribers :: "job_log_store \<Rightarrow> string \<Rightarrow> string list \<Rightarrow> job_log_store option" where
  "notifySubscribers s key lines = notify_send s (notify_read s key) lines"

definition close_chan :: "nat \<Rightarrow> job_log_store \<Rightarrow> job_log_store" where
  "close_chan ch s =
     (case map_of (ls_chans s) ch of
        None \<Rightarrow> s | Some c \<Rightarrow> s\<lparr>ls_chans := AList.update ch (c\<lparr>ch_closed := True\<rparr>) (ls_chans s)\<rparr>)"

definition deleteSubscribers :: "job_log_store \<Rightarrow> string \<Rightarrow> job_log_store" where
  "deleteSubscribers s key =
     (let subs = subs_of s key
      in fold close_chan subs (s\<lparr>ls_subscribers := AList.delete key (ls_subscribers s)\<rparr>))"

text \<open>A follower receives: the next line of its channel, if there is one.\<close>

definition chan_recv :: "job_log_store \<Rightarrow> nat \<Rightarrow> string option \<times> job_log_store" where
  "chan_recv s ch =
     (case map_of (ls_chans s) ch of
        Some c \<Rightarrow>
          (case ch_buf c of
             [] \<Rightarrow> (None, s)
           | l # ls \<Rightarrow> (Some l, s\<lparr>ls_chans := AList.update ch (c\<lparr>ch_buf := ls\<rparr>) (ls_chans s)\<rparr>))
      | None \<Rightarrow> (None, s))"

definition deleteJobLogs_store :: "job_log_store \<Rightarrow> string \<Rightarrow> job_log_store" where
  "deleteJobLogs_store s key = logs_delete (deleteSubscribers s key) key"

section \<open>The buffer is the tail of what was appended\<close>

lemma buf_append_suffix:
  assumes "buf = drop (length all - jobLogMaxLines) all"
  shows "buf_append buf lines = drop (length (all @ lines) - jobLogMaxLines) (all @ lines)"
proof -
  have "length buf = min (length all) jobLogMaxLines" using assms by simp
  then show ?thesis
    unfolding buf_append_def Let_def assms
    by (cases "length all \<le> jobLogMaxLines"; cases "length (all @ lines) \<le> jobLogMaxLines")
      (auto simp: drop_append add.commute)
qed

lemma append_lines_buffer:
  "logs_get (append_lines s key lines) k =
     (if k = key then Some (buf_append (case logs_get s key of Some b \<Rightarrow> b | None \<Rightarrow> []) lines) else logs_get s k)"
  by (auto simp: append_lines_def getOrCreate_def logs_get_def Let_def split: option.splits)

lemma append_chunks:
  assumes "logs_get s key = Some (drop (length all - jobLogMaxLines) all)"
  shows "logs_get (fold (\<lambda>ls s. append_lines s key ls) chunks s) key =
      Some (drop (length (all @ concat chunks) - jobLogMaxLines) (all @ concat chunks))"
  using assms
proof (induction chunks arbitrary: s all)
  case (Cons c cs)
  have "logs_get (append_lines s key c) key = Some (drop (length (all @ c) - jobLogMaxLines) (all @ c))"
    using Cons.prems buf_append_suffix [OF refl] by (simp add: append_lines_buffer)
  from Cons.IH [OF this] show ?case by simp
qed simp

section \<open>Channels and their owners\<close>

text \<open>
  Between calls of the methods: a subscribed channel is open, belongs to one key and appears once,
  and every buffer is within the capacity of its channel.
\<close>

definition logs_wf :: "job_log_store \<Rightarrow> bool" where
  "logs_wf s \<longleftrightarrow> gm_wf (ls_subscribers s) \<and>
     (\<forall>key ch. ch \<in> set (subs_of s key) \<longrightarrow> ch < ls_next s \<and> (\<exists>c. map_of (ls_chans s) ch = Some c \<and> \<not> ch_closed c)) \<and>
     (\<forall>key. distinct (subs_of s key)) \<and>
     (\<forall>j k. j \<noteq> k \<longrightarrow> set (subs_of s j) \<inter> set (subs_of s k) = {}) \<and>
     (\<forall>ch c. map_of (ls_chans s) ch = Some c \<longrightarrow> length (ch_buf c) \<le> log_chan_cap)"

lemma logs_wf_open:
  "logs_wf s \<Longrightarrow> ch \<in> set (subs_of s key) \<Longrightarrow> ch < ls_next s \<and> (\<exists>c. map_of (ls_chans s) ch = Some c \<and> \<not> ch_closed c)"
  unfolding logs_wf_def by blast

lemma logs_wf_cap: "logs_wf s \<Longrightarrow> map_of (ls_chans s) ch = Some c \<Longrightarrow> length (ch_buf c) \<le> log_chan_cap"
  unfolding logs_wf_def by blast

lemma new_wf: "logs_wf newJobLogStore"
  by (simp add: logs_wf_def newJobLogStore_def subs_of_def)

lemma chan_send_open:
  assumes "map_of (ls_chans s) ch = Some c" and "\<not> ch_closed c"
  shows "\<exists>s'. chan_send s ch line = Some s' \<and> ls_subscribers s' = ls_subscribers s \<and>
    ls_next s' = ls_next s \<and> ls_buffers s' = ls_buffers s \<and>
    (\<forall>d. map_option ch_closed (map_of (ls_chans s') d) = map_option ch_closed (map_of (ls_chans s) d)) \<and>
    (\<forall>d e. map_of (ls_chans s') d = Some e \<longrightarrow>
      length (ch_buf e) \<le> log_chan_cap \<or> map_of (ls_chans s) d = Some e)"
  using assms by (cases "length (ch_buf c) < log_chan_cap") (auto simp: chan_send_def split: if_splits)

lemma chan_send_wf:
  assumes "logs_wf s" and "ch \<in> set (subs_of s key)"
  shows "\<exists>s'. chan_send s ch line = Some s' \<and> logs_wf s' \<and> subs_of s' = subs_of s \<and> ls_buffers s' = ls_buffers s"
proof -
  obtain c where c: "map_of (ls_chans s) ch = Some c" "\<not> ch_closed c"
    using assms unfolding logs_wf_def by blast
  obtain s' where s': "chan_send s ch line = Some s'" "ls_subscribers s' = ls_subscribers s" "ls_next s' = ls_next s"
    "ls_buffers s' = ls_buffers s"
    "\<And>d. map_option ch_closed (map_of (ls_chans s') d) = map_option ch_closed (map_of (ls_chans s) d)"
    "\<And>d e. map_of (ls_chans s') d = Some e \<Longrightarrow> length (ch_buf e) \<le> log_chan_cap \<or> map_of (ls_chans s) d = Some e"
    using chan_send_open [OF c] by blast
  have subs: "subs_of s' = subs_of s" using s'(2) by (simp add: subs_of_def fun_eq_iff)
  have "\<exists>e. map_of (ls_chans s') d = Some e \<and> \<not> ch_closed e"
    if "\<exists>e. map_of (ls_chans s) d = Some e \<and> \<not> ch_closed e" for d
    using that s'(5) [of d] by (cases "map_of (ls_chans s') d") auto
  then have "logs_wf s'"
    using assms(1) s'(2,3,6) unfolding logs_wf_def subs by metis
  then show ?thesis using s'(1,4) subs by blast
qed

lemma send_all_wf:
  assumes "logs_wf s" and "\<forall>(ch, l)\<in>set es. ch \<in> set (subs_of s key)"
  shows "\<exists>s'. send_all s es = Some s' \<and> logs_wf s' \<and> subs_of s' = subs_of s \<and> ls_buffers s' = ls_buffers s"
  using assms
proof (induction es arbitrary: s)
  case (Cons e es)
  obtain ch l where e: "e = (ch, l)" by (cases e)
  obtain s1 where s1: "chan_send s ch l = Some s1" "logs_wf s1" "subs_of s1 = subs_of s" "ls_buffers s1 = ls_buffers s"
    using chan_send_wf [OF Cons.prems(1), of ch key l] Cons.prems(2) e by auto
  have "\<forall>(ch, l)\<in>set es. ch \<in> set (subs_of s1 key)" using Cons.prems(2) s1(3) by simp
  from Cons.IH [OF s1(2) this] s1 e show ?case by simp
qed simp

lemma subscribe_wf:
  assumes "logs_wf s" and "logs_subscribe s key = (backlog, ch, s')"
  shows "logs_wf s'"
proof -
  have s': "s' = s\<lparr>ls_next := Suc (ls_next s), ls_chans := AList.update (ls_next s) \<lparr>ch_buf = [], ch_closed = False\<rparr> (ls_chans s),
            ls_subscribers := AList.update key (subs_of s key @ [ls_next s]) (ls_subscribers s)\<rparr>"
    using assms(2) by (auto simp: logs_subscribe_def Let_def)
  have subs: "subs_of s' k = (if k = key then subs_of s key @ [ls_next s] else subs_of s k)" for k
    unfolding s' by (simp add: subs_of_def)
  have old: "c < ls_next s" if "c \<in> set (subs_of s k)" for c k using assms(1) that by (auto simp: logs_wf_def)
  have chans: "map_of (ls_chans s') c = (if c = ls_next s then Some \<lparr>ch_buf = [], ch_closed = False\<rparr> else map_of (ls_chans s) c)" for c
    unfolding s' by simp
  have new: "ls_next s' = Suc (ls_next s)" "gm_wf (ls_subscribers s')"
    using assms(1) unfolding s' by (auto simp: logs_wf_def)
  have "c < ls_next s' \<and> (\<exists>e. map_of (ls_chans s') c = Some e \<and> \<not> ch_closed e)" if "c \<in> set (subs_of s' k)" for k c
    using that logs_wf_open [OF assms(1), of c k] old [of c key] unfolding subs chans new
    by (auto split: if_splits)
  moreover have "distinct (subs_of s' k)" for k
    using assms(1) old unfolding subs by (auto simp: logs_wf_def)
  moreover have "set (subs_of s' j) \<inter> set (subs_of s' k) = {}" if "j \<noteq> k" for j k
  proof -
    have "set (subs_of s j) \<inter> set (subs_of s k) = {}" using assms(1) that by (simp add: logs_wf_def)
    then show ?thesis using that old [of "ls_next s" j] old [of "ls_next s" k] unfolding subs by auto
  qed
  moreover have "length (ch_buf e) \<le> log_chan_cap" if "map_of (ls_chans s') c = Some e" for c e
    using that assms(1) unfolding chans by (auto simp: logs_wf_def split: if_splits)
  ultimately show ?thesis using new unfolding logs_wf_def by blast
qed

lemma close_chan_frame:
  "ls_subscribers (close_chan c s) = ls_subscribers s" "ls_next (close_chan c s) = ls_next s"
  "ls_buffers (close_chan c s) = ls_buffers s"
  "map_of (ls_chans (close_chan c s)) ch =
     map_option (\<lambda>e. if ch = c then e\<lparr>ch_closed := True\<rparr> else e) (map_of (ls_chans s) ch)"
  by (simp_all add: close_chan_def split: option.splits) (auto simp: map_option_case split: option.splits)

lemma fold_close_frame:
  "ls_subscribers (fold close_chan cs s) = ls_subscribers s \<and> ls_next (fold close_chan cs s) = ls_next s \<and>
   ls_buffers (fold close_chan cs s) = ls_buffers s \<and>
   map_of (ls_chans (fold close_chan cs s)) ch =
     map_option (\<lambda>c. if ch \<in> set cs then c\<lparr>ch_closed := True\<rparr> else c) (map_of (ls_chans s) ch)"
proof (induction cs arbitrary: s)
  case (Cons c cs)
  show ?case using Cons.IH [of "close_chan c s"]
    by (cases "map_of (ls_chans s) ch") (simp_all add: close_chan_frame)
qed (simp add: option.map_ident)

lemma deleteSubscribers_wf:
  assumes "logs_wf s"
  shows "logs_wf (deleteSubscribers s key)" and "subs_of (deleteSubscribers s key) key = []"
proof -
  let ?t = "s\<lparr>ls_subscribers := AList.delete key (ls_subscribers s)\<rparr>"
  let ?s = "deleteSubscribers s key"
  note F = fold_close_frame [of "subs_of s key" ?t]
  have s': "?s = fold close_chan (subs_of s key) ?t" by (simp add: deleteSubscribers_def Let_def)
  have subs: "subs_of ?s k = (if k = key then [] else subs_of s k)" for k
    using F unfolding s' by (simp add: subs_of_def)
  have chans: "map_of (ls_chans ?s) ch =
     map_option (\<lambda>c. if ch \<in> set (subs_of s key) then c\<lparr>ch_closed := True\<rparr> else c) (map_of (ls_chans s) ch)" for ch
    using fold_close_frame [of "subs_of s key" ?t ch] unfolding s' by simp
  have other: "ch \<notin> set (subs_of s key)" if "ch \<in> set (subs_of s k)" "k \<noteq> key" for ch k
    using assms that unfolding logs_wf_def by blast
  have "ch < ls_next ?s \<and> (\<exists>e. map_of (ls_chans ?s) ch = Some e \<and> \<not> ch_closed e)" if "ch \<in> set (subs_of ?s k)" for k ch
  proof -
    have k: "k \<noteq> key" "ch \<in> set (subs_of s k)" using that unfolding subs by (auto split: if_splits)
    then obtain e where "map_of (ls_chans s) ch = Some e" "\<not> ch_closed e" "ch < ls_next s"
      using logs_wf_open [OF assms] by blast
    then show ?thesis using other [OF k(2,1)] F unfolding chans s' by simp
  qed
  moreover have "length (ch_buf e) \<le> log_chan_cap" if "map_of (ls_chans ?s) c = Some e" for c e
    using that assms unfolding chans by (auto simp: logs_wf_def)
  moreover have "distinct (subs_of ?s k)" "j \<noteq> k \<Longrightarrow> set (subs_of ?s j) \<inter> set (subs_of ?s k) = {}" for j k
    using assms unfolding subs by (auto simp: logs_wf_def)
  moreover have "gm_wf (ls_subscribers ?s)" using assms F unfolding s' by (auto simp: logs_wf_def)
  ultimately show "logs_wf ?s" unfolding logs_wf_def by blast
  show "subs_of ?s key = []" by (simp add: subs)
qed

section \<open>Properties\<close>

text \<open>
  A job's log buffer always holds the last 10000 lines of everything appended since it was
  created, in order: nothing else is ever dropped or reordered, and no other job's buffer changes.
\<close>

theorem log_buffer_is_tail:
  "logs_get (fold (\<lambda>ls s. append_lines s key ls) chunks newJobLogStore) key =
     (if chunks = [] then None
      else Some (drop (length (concat chunks) - jobLogMaxLines) (concat chunks))) \<and>
   (k \<noteq> key \<longrightarrow> logs_get (fold (\<lambda>ls s. append_lines s key ls) chunks s) k = logs_get s k)"
proof
  show "logs_get (fold (\<lambda>ls s. append_lines s key ls) chunks newJobLogStore) key =
     (if chunks = [] then None else Some (drop (length (concat chunks) - jobLogMaxLines) (concat chunks)))"
  proof (cases chunks)
    case Nil
    then show ?thesis by (simp add: logs_get_def newJobLogStore_def)
  next
    case (Cons c cs)
    have n: "logs_get newJobLogStore key = None" by (simp add: logs_get_def newJobLogStore_def)
    have "logs_get (append_lines newJobLogStore key c) key = Some (drop (length c - jobLogMaxLines) c)"
      unfolding append_lines_buffer n by (simp add: buf_append_def Let_def)
    from append_chunks [OF this, of cs] Cons show ?thesis by simp
  qed
  show "k \<noteq> key \<longrightarrow> logs_get (fold (\<lambda>ls s. append_lines s key ls) chunks s) k = logs_get s k"
    by (induction chunks arbitrary: s) (auto simp: append_lines_buffer)
qed

theorem log_buffer_is_tail_witness:
  "logs_get (fold (\<lambda>ls s. append_lines s ''ns/a'' ls) [[''x''], [''y'', ''z'']] newJobLogStore) ''ns/a'' =
     Some [''x'', ''y'', ''z''] \<and>
   logs_get (fold (\<lambda>ls s. append_lines s ''ns/a'' ls) [[''x''], [''y'', ''z'']] newJobLogStore) ''ns/b'' = None"
  using log_buffer_is_tail [of "''ns/a''" "[[''x''], [''y'', ''z'']]" "''ns/b''" newJobLogStore]
  by (simp add: jobLogMaxLines_def logs_get_def newJobLogStore_def)

text \<open>The calls of the store, one at a time.\<close>

inductive logs_step :: "job_log_store \<Rightarrow> job_log_store \<Rightarrow> bool" where
  subscribe: "logs_subscribe s key = (backlog, ch, s') \<Longrightarrow> logs_step s s'"
| unsubscribe: "logs_step s (logs_unsubscribe s key ch)"
| append_: "logs_step s (append_lines s key lines)"
| notify: "notifySubscribers s key lines = Some s' \<Longrightarrow> logs_step s s'"
| delete: "logs_step s (deleteJobLogs_store s key)"
| receive: "logs_step s (snd (chan_recv s ch))"

lemma logs_wf_cong:
  assumes "logs_wf s" and "ls_next t = ls_next s"
    and "\<And>k. set (subs_of t k) \<subseteq> set (subs_of s k)" and "\<And>k. distinct (subs_of t k)" and "gm_wf (ls_subscribers t)"
    and "\<And>d. map_option ch_closed (map_of (ls_chans t) d) = map_option ch_closed (map_of (ls_chans s) d)"
    and "\<And>d e. map_of (ls_chans t) d = Some e \<Longrightarrow> length (ch_buf e) \<le> log_chan_cap"
  shows "logs_wf t"
proof -
  have "d < ls_next t \<and> (\<exists>e. map_of (ls_chans t) d = Some e \<and> \<not> ch_closed e)" if "d \<in> set (subs_of t k)" for d k
  proof -
    have "d \<in> set (subs_of s k)" using assms(3) that by blast
    then obtain e where "map_of (ls_chans s) d = Some e" "\<not> ch_closed e" "d < ls_next s"
      using assms(1) unfolding logs_wf_def by blast
    then show ?thesis using assms(2) assms(6) [of d] by (cases "map_of (ls_chans t) d") auto
  qed
  moreover have "set (subs_of t j) \<inter> set (subs_of t k) = {}" if "j \<noteq> k" for j k
    using assms(1) assms(3) [of j] assms(3) [of k] that unfolding logs_wf_def by blast
  ultimately show ?thesis using assms(4,5,7) unfolding logs_wf_def by blast
qed

lemma logs_wf_same:
  assumes "logs_wf s" and "ls_next t = ls_next s" and "ls_chans t = ls_chans s" and "ls_subscribers t = ls_subscribers s"
  shows "logs_wf t"
proof -
  have "subs_of t = subs_of s" using assms(4) by (simp add: subs_of_def fun_eq_iff)
  with assms show ?thesis unfolding logs_wf_def by simp
qed

lemma unsubscribe_subs:
  "subs_of (logs_unsubscribe s key ch) k = (if k = key then remove1 ch (subs_of s key) else subs_of s k)"
  by (auto simp: logs_unsubscribe_def subs_of_def Let_def remove1_idem split: option.splits if_splits)

lemma logs_step_wf: "logs_step s t \<Longrightarrow> logs_wf s \<Longrightarrow> logs_wf t"
proof (induction rule: logs_step.induct)
  case (unsubscribe s key ch)
  have frame: "ls_next (logs_unsubscribe s key ch) = ls_next s" "ls_chans (logs_unsubscribe s key ch) = ls_chans s"
    "gm_wf (ls_subscribers s) \<Longrightarrow> gm_wf (ls_subscribers (logs_unsubscribe s key ch))"
    by (auto simp: logs_unsubscribe_def Let_def)
  have "set (subs_of (logs_unsubscribe s key ch) k) \<subseteq> set (subs_of s k)" "distinct (subs_of (logs_unsubscribe s key ch) k)" for k
    using unsubscribe set_remove1_subset [of ch "subs_of s key"] unfolding unsubscribe_subs by (auto simp: logs_wf_def)
  with unsubscribe frame show ?case
    by (intro logs_wf_cong [OF unsubscribe]) (auto simp: logs_wf_def simp del: map_of_eq_Some_iff)
next
  case (append_ s key lines)
  have "ls_next (append_lines s key lines) = ls_next s" "ls_chans (append_lines s key lines) = ls_chans s"
    "ls_subscribers (append_lines s key lines) = ls_subscribers s"
    by (auto simp: append_lines_def getOrCreate_def Let_def split: option.splits)
  with append_ show ?case by (intro logs_wf_same [OF append_]) simp_all
next
  case (notify s key lines s')
  have "\<forall>(ch, l)\<in>set (concat (map (\<lambda>ch. map (Pair ch) lines) (subs_of s key))). ch \<in> set (subs_of s key)" by auto
  from send_all_wf [OF notify(2) this] notify(1) show ?case
    by (auto simp: notifySubscribers_def notify_send_def notify_read_def)
next
  case (delete s key)
  have "logs_wf (deleteSubscribers s key)" using delete by (rule deleteSubscribers_wf)
  then show ?case by (rule logs_wf_same) (simp_all add: deleteJobLogs_store_def logs_delete_def)
next
  case (receive s ch)
  have "map_option ch_closed (map_of (ls_chans (snd (chan_recv s ch))) d) = map_option ch_closed (map_of (ls_chans s) d)" for d
    by (auto simp: chan_recv_def split: option.splits list.splits)
  moreover have "length (ch_buf e) \<le> log_chan_cap" if "map_of (ls_chans (snd (chan_recv s ch))) d = Some e" for d e
  proof -
    from that have "\<exists>e'. map_of (ls_chans s) d = Some e' \<and> length (ch_buf e) \<le> length (ch_buf e')"
      by (auto simp: chan_recv_def split: option.splits list.splits if_splits)
    then show ?thesis using logs_wf_cap [OF receive] by (meson order_trans)
  qed
  moreover have "subs_of (snd (chan_recv s ch)) = subs_of s" "ls_next (snd (chan_recv s ch)) = ls_next s"
    "ls_subscribers (snd (chan_recv s ch)) = ls_subscribers s"
    by (auto simp: chan_recv_def subs_of_def fun_eq_iff split: option.splits list.splits)
  ultimately show ?case using receive by (intro logs_wf_cong [OF receive]) (auto simp: logs_wf_def)
qed (rule subscribe_wf)

interpretation logs_sys: invariant_system "\<lambda>s. s = newJobLogStore" logs_step logs_wf
proof
  show "logs_wf s" if "s = newJobLogStore" for s using that new_wf by simp
qed (rule logs_step_wf)

text \<open>
  C12. Followers are safe as long as the calls do not interleave: from an empty store, however clients
  subscribe and unsubscribe, logs are appended and jobs deleted, one call at a time, no send ever
  hits a closed channel, no channel holds more than its 1000 lines, and appending never touches the
  buffer of a job or the set of followers.
\<close>

theorem followers_never_hit_closed_channel:
  assumes "logs_step\<^sup>*\<^sup>* newJobLogStore s"
  shows "(\<exists>s'. notifySubscribers s key lines = Some s' \<and> subs_of s' = subs_of s \<and> ls_buffers s' = ls_buffers s) \<and>
    (\<forall>ch c. map_of (ls_chans s) ch = Some c \<longrightarrow> length (ch_buf c) \<le> log_chan_cap)"
proof -
  have wf: "logs_wf s" using logs_sys.inv_reachable [OF refl assms] .
  have "\<forall>(ch, l)\<in>set (concat (map (\<lambda>ch. map (Pair ch) lines) (subs_of s key))). ch \<in> set (subs_of s key)" by auto
  from send_all_wf [OF wf this] logs_wf_cap [OF wf] show ?thesis
    unfolding notifySubscribers_def notify_send_def notify_read_def by blast
qed

definition followed :: job_log_store where
  "followed = snd (snd (logs_subscribe newJobLogStore ''ns/job''))"

lemma followed_reachable: "logs_step\<^sup>*\<^sup>* newJobLogStore followed"
  unfolding followed_def
  by (rule r_into_rtranclp, rule logs_step.subscribe [of _ "''ns/job''"]) (simp add: prod_eq_iff)

theorem followers_never_hit_closed_channel_witness:
  "logs_step\<^sup>*\<^sup>* newJobLogStore followed \<and> subs_of followed ''ns/job'' = [0] \<and>
   (\<exists>s'. notifySubscribers followed ''ns/job'' [''line''] = Some s')"
proof -
  have "subs_of followed ''ns/job'' = [0]" by code_simp
  with followers_never_hit_closed_channel [OF followed_reachable, of "''ns/job''" "[''line'']"] followed_reachable
  show ?thesis by blast
qed

text \<open>
  \<open>notifySubscribers\<close> sends after it has dropped the lock. When \<open>deleteSubscribers\<close> runs between the
  two (a job is reset to Pending while its agent posts logs), the send hits a channel that has been
  closed, and the server panics, for every followed job and every non-empty batch of lines.
\<close>

theorem notify_races_with_delete:
  assumes "logs_wf s" and "notify_read s key \<noteq> []" and "lines \<noteq> []"
  shows "notify_send (deleteSubscribers s key) (notify_read s key) lines = None"
proof -
  obtain ch cs where subs: "subs_of s key = ch # cs" using assms(2) by (cases "subs_of s key") (auto simp: notify_read_def)
  obtain l ls where lines: "lines = l # ls" using assms(3) by (cases lines) auto
  let ?t = "s\<lparr>ls_subscribers := AList.delete key (ls_subscribers s)\<rparr>"
  obtain c where c: "map_of (ls_chans s) ch = Some c"
    using assms(1) subs unfolding logs_wf_def by (metis list.set_intros(1))
  have "map_of (ls_chans (deleteSubscribers s key)) ch = Some (c\<lparr>ch_closed := True\<rparr>)"
    using fold_close_frame [of "subs_of s key" ?t ch] c subs by (simp add: deleteSubscribers_def Let_def)
  then have "chan_send (deleteSubscribers s key) ch l = None" by (simp add: chan_send_def)
  then show ?thesis using subs lines by (simp add: notify_send_def notify_read_def)
qed

theorem notify_races_with_delete_witness:
  "logs_wf followed \<and> notify_read followed ''ns/job'' = [0] \<and>
   notify_send (deleteSubscribers followed ''ns/job'') (notify_read followed ''ns/job'') [''line''] = None"
proof -
  have wf: "logs_wf followed" by (rule logs_sys.inv_reachable [OF refl followed_reachable])
  have r: "notify_read followed ''ns/job'' = [0]" by code_simp
  from notify_races_with_delete [OF wf, of "''ns/job''" "[''line'']"] wf r show ?thesis by simp
qed

end
