(* ===== verification/JobState.thy ===== *)
theory JobState
  imports GoText JobLogs
begin

text \<open>
  The state the job subsystem of \<open>pkg/provider\<close> shares: jobs, runners, host reservations and bare
  metal hosts, each a safemap of pointers, with the store buckets behind them, the log buffers and
  the queue of power events (\<open>job_crd.go\<close>, \<open>jobrunner_crd.go\<close>, \<open>hostreservation_crd.go\<close>,
  \<open>baremetalhost.go\<close>, \<open>bmc_integration.go\<close>, \<open>job_logs.go\<close>).

  An object of a map is filed under its own key, so a write through a pointer taken from a snapshot
  is an update of the map at the key the snapshot gave. Fields the job code neither reads nor writes
  are left out of the records. The JSON codec keeps them but for the creation time, a \<open>metav1.Time\<close>, which
  it writes to the second: a bucket holds an object as it will be decoded. A store operation on a key
  succeeds or fails as the field \<open>io_ok\<close> says, which the environment may change between steps. A
  handler reads the clock once.
\<close>

section \<open>Objects\<close>

record artifact_spec =
  art_Path :: string
  art_Name :: string

record job_spec =
  js_Pool :: string
  js_Priority :: int
  js_Repo :: string
  js_BuildScript :: string
  js_BuildImage :: string
  js_Script :: string
  js_Image :: string
  js_Env :: "(string, string) gomap"
  js_Timeout :: int
  js_Labels :: "(string, string) gomap"
  js_Artifacts :: "artifact_spec list"

record job_status =
  st_Phase :: string
  st_BMHRef :: string
  st_RunnerRef :: string
  st_HostIP :: string
  st_StartedAt :: stamp
  st_CompletedAt :: stamp
  st_ExitCode :: "int option"
  st_ErrorMessage :: string
  st_LogLines :: int
  st_LastHeartbeat :: stamp

record job =
  j_Namespace :: string
  j_Name :: string
  j_CreationTimestamp :: instant
  j_Spec :: job_spec
  j_Status :: job_status

definition jobKey :: "job \<Rightarrow> string" where
  "jobKey j = j_Namespace j @ ''/'' @ j_Name j"

abbreviation phase :: "job \<Rightarrow> string" where
  "phase j \<equiv> st_Phase (j_Status j)"

abbreviation job_pool :: "job \<Rightarrow> string" where
  "job_pool j \<equiv> js_Pool (j_Spec j)"

record work_schedule =
  ws_Days :: "string list"
  ws_Start :: string
  ws_End :: string
  ws_Timezone :: string

record job_runner_spec =
  rs_Pool :: string
  rs_BootConfigRef :: string
  rs_Template :: string
  rs_Image :: string
  rs_IdleTimeout :: int
  rs_ReclaimPolicy :: string
  rs_AllowOverflow :: bool
  rs_MaxConcurrent :: int
  rs_Labels :: "(string, string) gomap"
  rs_Schedule :: "work_schedule option"

record job_runner_status =
  rst_Phase :: string
  rst_ReservedHosts :: int
  rst_ActiveJobs :: int
  rst_TotalCompleted :: int
  rst_TotalFailed :: int

record job_runner =
  jr_Name :: string
  jr_CreationTimestamp :: instant
  jr_Spec :: job_runner_spec
  jr_Status :: job_runner_status

record agent_image =
  ai_Name :: string
  ai_Arch :: string
  ai_Size :: string

record agent_environment =
  ae_AgentVersion :: string
  ae_AgentCommit :: string
  ae_PodmanVersion :: string
  ae_StorageDriver :: string
  ae_StoragePath :: string
  ae_CgroupVersion :: string
  ae_OS :: string
  ae_Arch :: string
  ae_Images :: "agent_image list"
  ae_ReportedAt :: stamp

record host_reservation_spec =
  hs_BMHRef :: string
  hs_Pool :: string
  hs_Owner :: string
  hs_Purpose :: string
  hs_ExpiresAt :: stamp

record host_reservation_status =
  hst_Phase :: string
  hst_BMHNetwork :: string
  hst_BMHIP :: string
  hst_ActiveJob :: string
  hst_ReservedAt :: stamp
  hst_AgentEnv :: "agent_environment option"

record host_reservation =
  hr_Namespace :: string
  hr_Name :: string
  hr_CreationTimestamp :: instant
  hr_Spec :: host_reservation_spec
  hr_Status :: host_reservation_status

record bmc_details =
  bmc_Address :: string
  bmc_Username :: string
  bmc_Password :: string

record bmh_spec =
  bs_BMC :: bmc_details
  bs_BootMACAddress :: string
  bs_Online :: "bool option"
  bs_Image :: string
  bs_Network :: string
  bs_IP :: string
  bs_BootConfigRef :: string
  bs_Template :: string

record bare_metal_host =
  bmh_Namespace :: string
  bmh_Name :: string
  bmh_Annotations :: "(string, string) gomap"
  bmh_Spec :: bmh_spec

datatype power_action = PowerOn | PowerOff | PowerReset

record power_event =
  pe_BMHKey :: string
  pe_BMHName :: string
  pe_Creds :: bmc_details
  pe_BootMAC :: string
  pe_Image :: string
  pe_Action :: power_action
  pe_IsOnline :: bool
  pe_WasOnline :: bool

section \<open>The provider\<close>

record provider =
  jobs :: "(string, job) gomap"
  hostReservations :: "(string, host_reservation) gomap"
  jobRunners :: "(string, job_runner) gomap"
  bareMetalHosts :: "(string, bare_metal_host) gomap"
  bootConfigs :: "string list"
  cleanupTickCounter :: int
  jobLogBuf :: job_log_store
  runnerLogBuf :: job_log_store
  kickScheduler :: bool
  bmcController :: bool
  bmc_events :: "power_event list"
  store_jobs :: "(string, job) gomap option"
  store_jobLogs :: "(string, string list) gomap option"
  store_hostReservations :: "(string, host_reservation) gomap option"
  store_jobRunners :: "(string, job_runner) gomap option"
  store_bareMetalHosts :: "(string, bare_metal_host) gomap option"
  io_ok :: "string \<Rightarrow> bool"

text \<open>Phases as the code tests for them.\<close>

definition is_active :: "job \<Rightarrow> bool" where
  "is_active j \<longleftrightarrow> phase j = ''Scheduling'' \<or> phase j = ''Provisioning'' \<or> phase j = ''Running''"

definition is_terminal :: "job \<Rightarrow> bool" where
  "is_terminal j \<longleftrightarrow> phase j \<in> {''Completed'', ''Failed'', ''TimedOut'', ''Cancelled''}"

definition set_job :: "provider \<Rightarrow> string \<Rightarrow> job \<Rightarrow> provider" where
  "set_job p key j = p\<lparr>jobs := AList.update key j (jobs p)\<rparr>"

definition set_hr :: "provider \<Rightarrow> string \<Rightarrow> host_reservation \<Rightarrow> provider" where
  "set_hr p key h = p\<lparr>hostReservations := AList.update key h (hostReservations p)\<rparr>"

definition set_bmh :: "provider \<Rightarrow> string \<Rightarrow> bare_metal_host \<Rightarrow> provider" where
  "set_bmh p key b = p\<lparr>bareMetalHosts := AList.update key b (bareMetalHosts p)\<rparr>"

section \<open>Persistence\<close>

definition put_bucket :: "(string \<Rightarrow> bool) \<Rightarrow> (string, 'v) gomap option \<Rightarrow> string \<Rightarrow> 'v \<Rightarrow> (string, 'v) gomap option" where
  "put_bucket ok b key v = (case b of None \<Rightarrow> None | Some m \<Rightarrow> Some (if ok key then AList.update key v m else m))"

definition del_bucket :: "(string \<Rightarrow> bool) \<Rightarrow> (string, 'v) gomap option \<Rightarrow> string \<Rightarrow> bool \<times> (string, 'v) gomap option" where
  "del_bucket ok b key = (case b of None \<Rightarrow> (True, None) | Some m \<Rightarrow> if ok key then (True, Some (AList.delete key m)) else (False, Some m))"

definition store_key :: "string \<Rightarrow> string \<Rightarrow> string" where
  "store_key ns name = ns @ ''.'' @ name"

text \<open>
  What encoding to JSON and decoding again makes of an object: \<open>metav1.Time\<close> is written in RFC 3339, without
  the fraction of a second (the zero time as null, which is read as zero).
\<close>

definition json_time :: "instant \<Rightarrow> instant" where
  "json_time t = t div Second * Second"

lemma json_time_zero: "json_time zero_time = zero_time"
  by (simp add: json_time_def zero_time_def Second_def)

definition json_job :: "job \<Rightarrow> job" where
  "json_job j = j\<lparr>j_CreationTimestamp := json_time (j_CreationTimestamp j)\<rparr>"

definition json_reservation :: "host_reservation \<Rightarrow> host_reservation" where
  "json_reservation h = h\<lparr>hr_CreationTimestamp := json_time (hr_CreationTimestamp h)\<rparr>"

definition json_runner :: "job_runner \<Rightarrow> job_runner" where
  "json_runner r = r\<lparr>jr_CreationTimestamp := json_time (jr_CreationTimestamp r)\<rparr>"

definition persistJob :: "provider \<Rightarrow> job \<Rightarrow> provider" where
  "persistJob p j =
     p\<lparr>store_jobs := put_bucket (io_ok p) (store_jobs p) (store_key (j_Namespace j) (j_Name j)) (json_job j)\<rparr>"

definition persistHostReservation :: "provider \<Rightarrow> host_reservation \<Rightarrow> provider" where
  "persistHostReservation p h =
     p\<lparr>store_hostReservations := put_bucket (io_ok p) (store_hostReservations p) (store_key (hr_Namespace h) (hr_Name h)) (json_reservation h)\<rparr>"

definition persistJobRunner :: "provider \<Rightarrow> job_runner \<Rightarrow> provider" where
  "persistJobRunner p r = p\<lparr>store_jobRunners := put_bucket (io_ok p) (store_jobRunners p) (jr_Name r) (json_runner r)\<rparr>"

text \<open>
  Loading: every key of the bucket whose value can be read is put under the object's own key
  (\<open>Keys\<close> itself may fail, and then nothing is loaded).
\<close>

definition LoadJobsFromStore :: "provider \<Rightarrow> bool \<Rightarrow> provider" where
  "LoadJobsFromStore p keys_ok =
     (case store_jobs p of
        None \<Rightarrow> p
      | Some b \<Rightarrow>
          if \<not> keys_ok then p
          else fold (\<lambda>(key, j) p. if io_ok p key then set_job p (j_Namespace j @ ''/'' @ j_Name j) j else p) b p)"

definition LoadHostReservationsFromStore :: "provider \<Rightarrow> bool \<Rightarrow> provider" where
  "LoadHostReservationsFromStore p keys_ok =
     (case store_hostReservations p of
        None \<Rightarrow> p
      | Some b \<Rightarrow>
          if \<not> keys_ok then p
          else fold (\<lambda>(key, h) p. if io_ok p key then set_hr p (hr_Namespace h @ ''/'' @ hr_Name h) h else p) b p)"

definition LoadJobRunnersFromStore :: "provider \<Rightarrow> bool \<Rightarrow> provider" where
  "LoadJobRunnersFromStore p keys_ok =
     (case store_jobRunners p of
        None \<Rightarrow> p
      | Some b \<Rightarrow>
          if \<not> keys_ok then p
          else fold (\<lambda>(key, r) p. if io_ok p key
                 then p\<lparr>jobRunners := AList.update (jr_Name r) r (jobRunners p)\<rparr> else p) b p)"

section \<open>Runner events, power events, the scheduler's wake-up\<close>

definition two_digits :: "int \<Rightarrow> string" where
  "two_digits n = (if n < 10 then ''0'' @ Itoa n else Itoa n)"

text \<open>\<open>Format("15:04:05")\<close> in UTC.\<close>

definition clock_string :: "instant \<Rightarrow> string" where
  "clock_string now =
     (let s = (now div Second) mod 86400
      in two_digits (s div 3600) @ '':'' @ two_digits (s mod 3600 div 60) @ '':'' @ two_digits (s mod 60))"

definition appendRunnerEvent :: "instant \<Rightarrow> provider \<Rightarrow> string \<Rightarrow> string \<Rightarrow> provider" where
  "appendRunnerEvent now p runnerName msg =
     p\<lparr>runnerLogBuf := append_lines (runnerLogBuf p) runnerName [''['' @ clock_string now @ ''] '' @ msg]\<rparr>"

definition getRunnerLogs :: "provider \<Rightarrow> string \<Rightarrow> string list" where
  "getRunnerLogs p runnerName = (case logs_get (runnerLogBuf p) runnerName of Some ls \<Rightarrow> ls | None \<Rightarrow> [])"

text \<open>The controller's channel has 32 places; an event is dropped when it is full.\<close>

definition enqueueBMCPowerEvent :: "provider \<Rightarrow> bare_metal_host \<Rightarrow> bool \<Rightarrow> bool \<Rightarrow> provider" where
  "enqueueBMCPowerEvent p b wasOnline isOnline =
     (if \<not> bmcController p \<or> bmc_Address (bs_BMC (bmh_Spec b)) = '''' then p
      else if length (bmc_events p) < 32 then
        p\<lparr>bmc_events := bmc_events p @
           [\<lparr>pe_BMHKey = bmh_Namespace b @ ''/'' @ bmh_Name b, pe_BMHName = bmh_Name b, pe_Creds = bs_BMC (bmh_Spec b),
             pe_BootMAC = bs_BootMACAddress (bmh_Spec b), pe_Image = bs_Image (bmh_Spec b),
             pe_Action = (if isOnline then PowerOn else PowerOff), pe_IsOnline = isOnline, pe_WasOnline = wasOnline\<rparr>]\<rparr>
      else p)"

definition triggerScheduler :: "provider \<Rightarrow> provider" where
  "triggerScheduler p = p\<lparr>kickScheduler := True\<rparr>"

definition deleteJobLogs :: "provider \<Rightarrow> string \<Rightarrow> provider" where
  "deleteJobLogs p key = p\<lparr>jobLogBuf := deleteJobLogs_store (jobLogBuf p) key\<rparr>"

text \<open>\<open>strings.ReplaceAll(key, "/", ".")\<close>\<close>

definition slash_to_dot :: "string \<Rightarrow> string" where
  "slash_to_dot s = map (\<lambda>c. if c = CHR ''/'' then CHR ''.'' else c) s"

definition appendJobLogs :: "provider \<Rightarrow> string \<Rightarrow> string list \<Rightarrow> provider option" where
  "appendJobLogs p key lines =
     (let s = append_lines (jobLogBuf p) key lines
      in case notifySubscribers s key lines of
           None \<Rightarrow> None
         | Some s \<Rightarrow>
             (let p = p\<lparr>jobLogBuf := s\<rparr>;
                  all = (case logs_get s key of Some ls \<Rightarrow> ls | None \<Rightarrow> [])
              in Some (p\<lparr>store_jobLogs := put_bucket (io_ok p) (store_jobLogs p) (slash_to_dot key) all\<rparr>)))"

definition getJobLogs :: "provider \<Rightarrow> string \<Rightarrow> string list" where
  "getJobLogs p key =
     (case logs_get (jobLogBuf p) key of
        Some ls \<Rightarrow> ls
      | None \<Rightarrow>
          (case store_jobLogs p of
             Some b \<Rightarrow>
               if io_ok p (slash_to_dot key)
               then (case map_of b (slash_to_dot key) of Some ls \<Rightarrow> ls | None \<Rightarrow> []) else []
           | None \<Rightarrow> []))"

section \<open>Responses\<close>

text \<open>What a handler answers: an error status, a status with a body, or 204. Texts are left out.\<close>

datatype 'a response = HttpError nat | HttpOk nat 'a | HttpNoContent

end
