(* ===== verification/JobRunner.thy ===== *)
theory JobRunner
  imports JobState
begin

text \<open>
  \<open>jobrunner_crd.go\<close> and \<open>hostreservation_crd.go\<close>: work schedules, and the handlers that create,
  change and delete runners and host reservations. A request body is what the JSON decoder makes of
  it (\<open>None\<close> when it rejects it), and a patch is the function that \<open>json.Unmarshal\<close> into the existing
  object amounts to. The time zone database is outside: \<open>tz_env\<close> gives the offset from UTC, in
  seconds, of the local zone and of the zones that can be loaded.
\<close>

section \<open>Work schedules\<close>

record tz_env =
  tz_Local :: "instant \<Rightarrow> int"
  tz_Load :: "string \<Rightarrow> (instant \<Rightarrow> int) option"

definition day_names :: "string list" where
  "day_names = [''Sunday'', ''Monday'', ''Tuesday'', ''Wednesday'', ''Thursday'', ''Friday'', ''Saturday'']"

text \<open>Seconds of local time since the epoch, a Thursday.\<close>

definition local_seconds :: "(instant \<Rightarrow> int) \<Rightarrow> instant \<Rightarrow> int" where
  "local_seconds off now = now div Second + off now"

definition Weekday_String :: "int \<Rightarrow> string" where
  "Weekday_String s = day_names ! nat ((s div 86400 + 4) mod 7)"

definition to_lower :: "char \<Rightarrow> char" where
  "to_lower c = (let n = of_char c :: nat in if 65 \<le> n \<and> n \<le> 90 then char_of (n + 32) else c)"

definition EqualFold :: "string \<Rightarrow> string \<Rightarrow> bool" where
  "EqualFold s t \<longleftrightarrow> map to_lower s = map to_lower t"

text \<open>\<open>fmt.Sscanf(s, "%d", &n)\<close>: blanks, an optional sign, digits; anything may follow.\<close>

definition Sscanf_d :: "string \<Rightarrow> int option" where
  "Sscanf_d s =
     (let s = dropWhile (\<lambda>c. is_space c \<and> c \<noteq> CHR 0x0A) s;
          digits = takeWhile (\<lambda>c. digit_val c \<noteq> None)
      in case s of
           [] \<Rightarrow> None
         | c # r \<Rightarrow> if c = CHR ''+'' \<or> c = CHR ''-'' then Atoi (c # digits r) else Atoi (digits s))"

definition scan_or_zero :: "string \<Rightarrow> int" where
  "scan_or_zero s = (case Sscanf_d s of Some n \<Rightarrow> n | None \<Rightarrow> 0)"

definition clock_minutes :: "string \<Rightarrow> string \<Rightarrow> int" where
  "clock_minutes h m = wrap64 (wrap64 (scan_or_zero h * 60) + scan_or_zero m)"

definition IsActive :: "tz_env \<Rightarrow> work_schedule option \<Rightarrow> instant \<Rightarrow> bool" where
  "IsActive tz s now =
     (case s of
        None \<Rightarrow> False
      | Some s \<Rightarrow>
          if ws_Days s = [] \<or> ws_Start s = '''' \<or> ws_End s = '''' then False
          else
            (case (if ws_Timezone s \<noteq> '''' then tz_Load tz (ws_Timezone s) else Some (tz_Local tz)) of
               None \<Rightarrow> False
             | Some loc \<Rightarrow>
                 (let t = local_seconds loc now;
                      dayName = take 3 (Weekday_String t)
                  in if \<not> list_ex (\<lambda>d. EqualFold d dayName) (ws_Days s) then False
                     else
                       (case (splitN 2 (CHR '':'') (ws_Start s), splitN 2 (CHR '':'') (ws_End s)) of
                          ([sh, sm], [eh, em]) \<Rightarrow>
                            (let startMin = clock_minutes sh sm;
                                 endMin = clock_minutes eh em;
                                 nowMin = t mod 86400 div 3600 * 60 + t mod 3600 div 60
                             in nowMin \<ge> startMin \<and> nowMin < endMin)
                        | _ \<Rightarrow> False))))"

definition dayOrder :: "string list" where
  "dayOrder = [''Mon'', ''Tue'', ''Wed'', ''Thu'', ''Fri'', ''Sat'', ''Sun'']"

definition dayIdx :: "string \<Rightarrow> nat option" where
  "dayIdx d = map_of (zip dayOrder [0..<7]) d"

definition join_with :: "string \<Rightarrow> string list \<Rightarrow> string" where
  "join_with sep xs = (case xs of [] \<Rightarrow> '''' | y # ys \<Rightarrow> y @ concat (map (\<lambda>z. sep @ z) ys))"

definition consecutive_days :: "nat list \<Rightarrow> bool" where
  "consecutive_days indices \<longleftrightarrow> length indices > 1 \<and>
     list_all (\<lambda>i. indices ! i = indices ! (i - 1) + 1) [1..<length indices]"

definition FormatSummary :: "work_schedule option \<Rightarrow> string" where
  "FormatSummary s =
     (case s of
        None \<Rightarrow> ''-''
      | Some s \<Rightarrow>
          if ws_Days s = [] then ''-''
          else
            (let indices = sort (List.map_filter dayIdx (ws_Days s));
                 daysStr =
                   (if consecutive_days indices \<and> length indices > 2
                    then dayOrder ! hd indices @ ''-'' @ dayOrder ! last indices
                    else join_with '','' (map (\<lambda>i. dayOrder ! i) indices));
                 result = daysStr @ '' '' @ ws_Start s @ ''-'' @ ws_End s
             in if ws_Timezone s \<noteq> '''' \<and> ws_Timezone s \<noteq> ''Local'' then result @ '' '' @ ws_Timezone s else result))"

section \<open>Runners\<close>

definition set_runner :: "provider \<Rightarrow> string \<Rightarrow> job_runner \<Rightarrow> provider" where
  "set_runner p name r = p\<lparr>jobRunners := AList.update name r (jobRunners p)\<rparr>"

definition enrichJobRunnerStatus :: "provider \<Rightarrow> job_runner \<Rightarrow> job_runner" where
  "enrichJobRunnerStatus p r =
     (let pool = rs_Pool (jr_Spec r);
          mine = filter (\<lambda>j. job_pool j = pool) (Map_Values (jobs p));
          count = (\<lambda>P. int (length (filter P mine)))
      in r\<lparr>jr_Status := (jr_Status r)\<lparr>
             rst_ReservedHosts := int (length (filter (\<lambda>h. hs_Pool (hr_Spec h) = pool) (Map_Values (hostReservations p)))),
             rst_ActiveJobs := count is_active,
             rst_TotalCompleted := count (\<lambda>j. phase j = ''Completed''),
             rst_TotalFailed := count (\<lambda>j. phase j = ''Failed'' \<or> phase j = ''TimedOut'')\<rparr>\<rparr>)"

definition handleListJobRunners :: "provider \<Rightarrow> job_runner list response" where
  "handleListJobRunners p = HttpOk 200 (map (enrichJobRunnerStatus p) (Map_Values (jobRunners p)))"

definition handleGetJobRunner :: "provider \<Rightarrow> string \<Rightarrow> job_runner response" where
  "handleGetJobRunner p name =
     (case Map_Get (jobRunners p) name of
        None \<Rightarrow> HttpError 404
      | Some r \<Rightarrow> HttpOk 200 (enrichJobRunnerStatus p r))"

definition handleCreateJobRunner ::
  "instant \<Rightarrow> provider \<Rightarrow> job_runner option \<Rightarrow> job_runner response \<times> provider" where
  "handleCreateJobRunner now p body =
     (case body of
        None \<Rightarrow> (HttpError 400, p)
      | Some r \<Rightarrow>
          if jr_Name r = '''' then (HttpError 400, p)
          else if Map_Has (jobRunners p) (jr_Name r) then (HttpError 409, p)
          else if rs_Pool (jr_Spec r) = '''' then (HttpError 400, p)
          else if rs_Template (jr_Spec r) = '''' \<and> rs_BootConfigRef (jr_Spec r) = '''' then (HttpError 400, p)
          else if rs_BootConfigRef (jr_Spec r) \<noteq> '''' \<and> rs_BootConfigRef (jr_Spec r) \<notin> set (bootConfigs p)
          then (HttpError 400, p)
          else
            (let r = (if jr_CreationTimestamp r = zero_time then r\<lparr>jr_CreationTimestamp := now\<rparr> else r);
                 r = (if rs_ReclaimPolicy (jr_Spec r) = ''''
                      then r\<lparr>jr_Spec := (jr_Spec r)\<lparr>rs_ReclaimPolicy := ''PowerOff''\<rparr>\<rparr> else r);
                 r = (if rst_Phase (jr_Status r) = ''''
                      then r\<lparr>jr_Status := (jr_Status r)\<lparr>rst_Phase := ''Active''\<rparr>\<rparr> else r)
             in (HttpOk 201 r, set_runner (persistJobRunner p r) (jr_Name r) r)))"

definition handleUpdateJobRunner ::
  "provider \<Rightarrow> string \<Rightarrow> job_runner option \<Rightarrow> job_runner response \<times> provider" where
  "handleUpdateJobRunner p name body =
     (case Map_Get (jobRunners p) name of
        None \<Rightarrow> (HttpError 404, p)
      | Some old \<Rightarrow>
          (case body of
             None \<Rightarrow> (HttpError 400, p)
           | Some r \<Rightarrow>
               (let r = r\<lparr>jr_Name := name\<rparr>;
                    r = (if jr_CreationTimestamp r = zero_time then r\<lparr>jr_CreationTimestamp := jr_CreationTimestamp old\<rparr> else r);
                    r = (if rst_Phase (jr_Status r) = '''' then r\<lparr>jr_Status := jr_Status old\<rparr> else r)
                in (HttpOk 200 r, set_runner (persistJobRunner p r) name r))))"

definition handlePatchJobRunner ::
  "provider \<Rightarrow> string \<Rightarrow> (job_runner \<Rightarrow> job_runner option) \<Rightarrow> job_runner response \<times> provider" where
  "handlePatchJobRunner p name patch =
     (case Map_Get (jobRunners p) name of
        None \<Rightarrow> (HttpError 404, p)
      | Some existing \<Rightarrow>
          (case patch existing of
             None \<Rightarrow> (HttpError 400, p)
           | Some merged \<Rightarrow>
               (let merged = merged\<lparr>jr_Name := name, jr_CreationTimestamp := jr_CreationTimestamp existing\<rparr>
                in (HttpOk 200 merged, set_runner (persistJobRunner p merged) name merged))))"

definition handleDeleteJobRunner :: "provider \<Rightarrow> string \<Rightarrow> unit response \<times> provider" where
  "handleDeleteJobRunner p name =
     (case Map_Get (jobRunners p) name of
        None \<Rightarrow> (HttpError 404, p)
      | Some r \<Rightarrow>
          (let activeCount = length (filter (\<lambda>j. st_RunnerRef (j_Status j) = name \<and> is_active j) (Map_Values (jobs p)))
           in if activeCount > 0 then (HttpError 409, p)
              else
                (case del_bucket (io_ok p) (store_jobRunners p) name of
                   (False, b) \<Rightarrow> (HttpError 500, p)
                 | (True, b) \<Rightarrow>
                     (HttpOk 200 (), p\<lparr>store_jobRunners := b, jobRunners := Map_Delete (jobRunners p) name\<rparr>))))"

section \<open>Host reservations\<close>

definition handleListAllHostReservations :: "provider \<Rightarrow> host_reservation list response" where
  "handleListAllHostReservations p = HttpOk 200 (Map_Values (hostReservations p))"

definition handleListNamespacedHostReservations :: "provider \<Rightarrow> string \<Rightarrow> host_reservation list response" where
  "handleListNamespacedHostReservations p ns =
     HttpOk 200 (filter (\<lambda>h. hr_Namespace h = ns) (Map_Values (hostReservations p)))"

definition handleGetHostReservation :: "provider \<Rightarrow> string \<Rightarrow> string \<Rightarrow> host_reservation response" where
  "handleGetHostReservation p ns name =
     (case Map_Get (hostReservations p) (ns @ ''/'' @ name) of None \<Rightarrow> HttpError 404 | Some h \<Rightarrow> HttpOk 200 h)"

definition handleCreateHostReservation ::
  "instant \<Rightarrow> provider \<Rightarrow> string \<Rightarrow> host_reservation option \<Rightarrow> host_reservation response \<times> provider" where
  "handleCreateHostReservation now p ns body =
     (case body of
        None \<Rightarrow> (HttpError 400, p)
      | Some h \<Rightarrow>
          if hr_Name h = '''' then (HttpError 400, p)
          else
            (let h = h\<lparr>hr_Namespace := ns\<rparr>;
                 key = ns @ ''/'' @ hr_Name h
             in if Map_Has (hostReservations p) key then (HttpError 409, p)
                else if hs_BMHRef (hr_Spec h) = '''' then (HttpError 400, p)
                else if hs_Pool (hr_Spec h) = '''' then (HttpError 400, p)
                else
                  (case List.find (\<lambda>b. bmh_Name b = hs_BMHRef (hr_Spec h)) (Map_Values (bareMetalHosts p)) of
                     None \<Rightarrow> (HttpError 400, p)
                   | Some b \<Rightarrow>
                       if list_ex (\<lambda>e. hs_BMHRef (hr_Spec e) = hs_BMHRef (hr_Spec h)) (Map_Values (hostReservations p))
                       then (HttpError 409, p)
                       else
                         (let h = h\<lparr>hr_Status := (hr_Status h)\<lparr>hst_BMHNetwork := bs_Network (bmh_Spec b),
                                                              hst_BMHIP := bs_IP (bmh_Spec b)\<rparr>\<rparr>;
                              h = (if hr_CreationTimestamp h = zero_time then h\<lparr>hr_CreationTimestamp := now\<rparr> else h);
                              h = (if hst_Phase (hr_Status h) = ''''
                                   then h\<lparr>hr_Status := (hr_Status h)\<lparr>hst_Phase := ''Active''\<rparr>\<rparr> else h);
                              h = (if hst_ReservedAt (hr_Status h) = NoStamp
                                   then h\<lparr>hr_Status := (hr_Status h)\<lparr>hst_ReservedAt := format_rfc3339 now\<rparr>\<rparr> else h)
                          in (HttpOk 201 h, set_hr (persistHostReservation p h) key h)))))"

definition handleUpdateHostReservation ::
  "provider \<Rightarrow> string \<Rightarrow> string \<Rightarrow> host_reservation option \<Rightarrow> host_reservation response \<times> provider" where
  "handleUpdateHostReservation p ns name body =
     (let key = ns @ ''/'' @ name in
      case Map_Get (hostReservations p) key of
        None \<Rightarrow> (HttpError 404, p)
      | Some old \<Rightarrow>
          (case body of
             None \<Rightarrow> (HttpError 400, p)
           | Some h \<Rightarrow>
               (let h = h\<lparr>hr_Name := name, hr_Namespace := ns\<rparr>;
                    h = (if hr_CreationTimestamp h = zero_time then h\<lparr>hr_CreationTimestamp := hr_CreationTimestamp old\<rparr> else h);
                    h = (if hst_Phase (hr_Status h) = '''' then h\<lparr>hr_Status := hr_Status old\<rparr> else h)
                in (HttpOk 200 h, set_hr (persistHostReservation p h) key h))))"

definition handlePatchHostReservation ::
  "provider \<Rightarrow> string \<Rightarrow> string \<Rightarrow> (host_reservation \<Rightarrow> host_reservation option) \<Rightarrow> host_reservation response \<times> provider" where
  "handlePatchHostReservation p ns name patch =
     (let key = ns @ ''/'' @ name in
      case Map_Get (hostReservations p) key of
        None \<Rightarrow> (HttpError 404, p)
      | Some existing \<Rightarrow>
          (case patch existing of
             None \<Rightarrow> (HttpError 400, p)
           | Some merged \<Rightarrow>
               (let merged = merged\<lparr>hr_Name := name, hr_Namespace := ns, hr_CreationTimestamp := hr_CreationTimestamp existing\<rparr>
                in (HttpOk 200 merged, set_hr (persistHostReservation p merged) key merged))))"

definition handleDeleteHostReservation :: "provider \<Rightarrow> string \<Rightarrow> string \<Rightarrow> unit response \<times> provider" where
  "handleDeleteHostReservation p ns name =
     (let key = ns @ ''/'' @ name in
      case Map_Get (hostReservations p) key of
        None \<Rightarrow> (HttpError 404, p)
      | Some h \<Rightarrow>
          if hst_ActiveJob (hr_Status h) \<noteq> '''' then (HttpError 409, p)
          else
            (case del_bucket (io_ok p) (store_hostReservations p) (store_key ns name) of
               (False, b) \<Rightarrow> (HttpError 500, p)
             | (True, b) \<Rightarrow>
                 (HttpOk 200 (), p\<lparr>store_hostReservations := b,
                                  hostReservations := Map_Delete (hostReservations p) key\<rparr>)))"

section \<open>Reservations are unique per host\<close>

definition unique_hosts :: "provider \<Rightarrow> bool" where
  "unique_hosts p \<longleftrightarrow> gm_wf (hostReservations p) \<and>
     (\<forall>k h k' h'. map_of (hostReservations p) k = Some h \<and> map_of (hostReservations p) k' = Some h' \<and>
        hs_BMHRef (hr_Spec h) = hs_BMHRef (hr_Spec h') \<longrightarrow> k = k')"

lemma unique_hosts_delete:
  assumes "unique_hosts p" and "hostReservations q = AList.delete k (hostReservations p)"
  shows "unique_hosts q"
  using assms unfolding unique_hosts_def by (auto simp: delete_conv' split: if_splits simp del: map_of_eq_Some_iff)

lemma unique_hosts_insert:
  assumes "unique_hosts p" and "hostReservations q = AList.update k h (hostReservations p)"
    and "\<And>k' h'. map_of (hostReservations p) k' = Some h' \<Longrightarrow> hs_BMHRef (hr_Spec h') = hs_BMHRef (hr_Spec h) \<Longrightarrow> k' = k"
  shows "unique_hosts q"
  unfolding unique_hosts_def
proof (intro conjI allI impI)
  show "gm_wf (hostReservations q)" using assms(1,2) by (simp add: unique_hosts_def)
  fix i g i' g'
  assume a: "map_of (hostReservations q) i = Some g \<and> map_of (hostReservations q) i' = Some g' \<and> hs_BMHRef (hr_Spec g) = hs_BMHRef (hr_Spec g')"
  have u: "\<And>i g i' g'. map_of (hostReservations p) i = Some g \<Longrightarrow> map_of (hostReservations p) i' = Some g' \<Longrightarrow>
      hs_BMHRef (hr_Spec g) = hs_BMHRef (hr_Spec g') \<Longrightarrow> i = i'"
    using assms(1) unfolding unique_hosts_def by blast
  from a have gi: "if i = k then g = h else map_of (hostReservations p) i = Some g"
    and gi': "if i' = k then g' = h else map_of (hostReservations p) i' = Some g'"
    and e: "hs_BMHRef (hr_Spec g) = hs_BMHRef (hr_Spec g')"
    unfolding assms(2) update_conv' by (auto simp del: map_of_eq_Some_iff split: if_splits)
  show "i = i'"
  proof (cases "i = k"; cases "i' = k")
    assume "i = k" "i' \<noteq> k" with gi gi' e show ?thesis using assms(3) [of i' g'] by metis
  next
    assume "i \<noteq> k" "i' = k" with gi gi' e show ?thesis using assms(3) [of i g] by metis
  next
    assume "i \<noteq> k" "i' \<noteq> k" with gi gi' e show ?thesis using u [of i g i' g'] by metis
  qed simp
qed

lemma handleCreateHostReservation_state:
  "snd (handleCreateHostReservation now p ns body) = p \<or>
   (\<exists>h. hostReservations (snd (handleCreateHostReservation now p ns body)) =
          AList.update (hr_Namespace h @ ''/'' @ hr_Name h) h (hostReservations p) \<and>
        hs_BMHRef (hr_Spec h) \<noteq> '''' \<and>
        (\<forall>h'\<in>snd ` set (hostReservations p). hs_BMHRef (hr_Spec h') \<noteq> hs_BMHRef (hr_Spec h)))"
proof (cases body)
  case None
  then show ?thesis by (simp add: handleCreateHostReservation_def)
next
  case (Some c)
  show ?thesis
  proof (cases "List.find (\<lambda>b. bmh_Name b = hs_BMHRef (hr_Spec c)) (Map_Values (bareMetalHosts p))")
    case None
    with Some show ?thesis by (simp add: handleCreateHostReservation_def Let_def)
  next
    case b: (Some b)
    let ?h0 = "c\<lparr>hr_Namespace := ns\<rparr>"
    let ?h1 = "?h0\<lparr>hr_Status := (hr_Status ?h0)\<lparr>hst_BMHNetwork := bs_Network (bmh_Spec b), hst_BMHIP := bs_IP (bmh_Spec b)\<rparr>\<rparr>"
    let ?h2 = "if hr_CreationTimestamp ?h1 = zero_time then ?h1\<lparr>hr_CreationTimestamp := now\<rparr> else ?h1"
    let ?h3 = "if hst_Phase (hr_Status ?h2) = '''' then ?h2\<lparr>hr_Status := (hr_Status ?h2)\<lparr>hst_Phase := ''Active''\<rparr>\<rparr> else ?h2"
    let ?h = "if hst_ReservedAt (hr_Status ?h3) = NoStamp
              then ?h3\<lparr>hr_Status := (hr_Status ?h3)\<lparr>hst_ReservedAt := format_rfc3339 now\<rparr>\<rparr> else ?h3"
    have k: "hr_Namespace ?h = ns" "hr_Name ?h = hr_Name c" "hr_Spec ?h = hr_Spec c" by simp_all
    have "snd (handleCreateHostReservation now p ns body) = p \<or>
      snd (handleCreateHostReservation now p ns body) = set_hr (persistHostReservation p ?h) (ns @ ''/'' @ hr_Name c) ?h \<and>
      hs_BMHRef (hr_Spec c) \<noteq> '''' \<and>
      \<not> list_ex (\<lambda>e. hs_BMHRef (hr_Spec e) = hs_BMHRef (hr_Spec c)) (map snd (hostReservations p))"
      using Some b unfolding handleCreateHostReservation_def Let_def by (simp add: Values_eq)
    with k obtain h where h: "hr_Namespace h = ns" "hr_Name h = hr_Name c" "hr_Spec h = hr_Spec c"
      "snd (handleCreateHostReservation now p ns body) = p \<or>
       snd (handleCreateHostReservation now p ns body) = set_hr (persistHostReservation p h) (ns @ ''/'' @ hr_Name c) h \<and>
       hs_BMHRef (hr_Spec c) \<noteq> '''' \<and>
       \<not> list_ex (\<lambda>e. hs_BMHRef (hr_Spec e) = hs_BMHRef (hr_Spec c)) (map snd (hostReservations p))" by blast
    from h(4) show ?thesis
    proof (elim disjE conjE)
      assume e: "snd (handleCreateHostReservation now p ns body) = set_hr (persistHostReservation p h) (ns @ ''/'' @ hr_Name c) h"
        and "hs_BMHRef (hr_Spec c) \<noteq> ''''"
          "\<not> list_ex (\<lambda>e. hs_BMHRef (hr_Spec e) = hs_BMHRef (hr_Spec c)) (map snd (hostReservations p))"
      moreover have "hostReservations (snd (handleCreateHostReservation now p ns body)) =
          AList.update (hr_Namespace h @ ''/'' @ hr_Name h) h (hostReservations p)"
        unfolding e h(1,2) by (simp add: set_hr_def persistHostReservation_def)
      ultimately show ?thesis unfolding h(3) [symmetric] list_ex_iff set_map by blast
    qed simp
  qed
qed

text \<open>
  C21. A host is reserved at most once: creating and deleting reservations keep the reservations of
  different keys on different hosts, whatever the request and whatever the store does.
\<close>

theorem reservations_unique:
  assumes "unique_hosts p"
  shows "unique_hosts (snd (handleCreateHostReservation now p ns body)) \<and>
    unique_hosts (snd (handleDeleteHostReservation p ns' name))"
proof
  show "unique_hosts (snd (handleCreateHostReservation now p ns body))"
    using handleCreateHostReservation_state [of now p ns body]
  proof (elim disjE exE conjE)
    fix h assume h: "hostReservations (snd (handleCreateHostReservation now p ns body)) =
          AList.update (hr_Namespace h @ ''/'' @ hr_Name h) h (hostReservations p)"
      "\<forall>h'\<in>snd ` set (hostReservations p). hs_BMHRef (hr_Spec h') \<noteq> hs_BMHRef (hr_Spec h)"
    have "hs_BMHRef (hr_Spec h') \<noteq> hs_BMHRef (hr_Spec h)" if "map_of (hostReservations p) k' = Some h'" for k' h'
      using h(2) map_of_SomeD [OF that] by force
    then show ?thesis using unique_hosts_insert [OF assms h(1)] by blast
  qed (simp add: assms)
  have "snd (handleDeleteHostReservation p ns' name) = p \<or>
    hostReservations (snd (handleDeleteHostReservation p ns' name)) = AList.delete (ns' @ ''/'' @ name) (hostReservations p)"
    by (auto simp: handleDeleteHostReservation_def Let_def Map_Delete_def split: option.splits prod.splits bool.splits)
  then show "unique_hosts (snd (handleDeleteHostReservation p ns' name))"
    using unique_hosts_delete [OF assms] assms by auto
qed

text \<open>
  Replacing a reservation (PUT) does not look at the other reservations: when one host is reserved
  under some other key, an update that names that host is accepted and the host is reserved twice.
\<close>

theorem update_reserves_twice:
  assumes "map_of (hostReservations p) (ns @ ''/'' @ name) = Some old" and "map_of (hostReservations p) k = Some h"
    and "k \<noteq> ns @ ''/'' @ name" and "hs_BMHRef (hr_Spec new) = hs_BMHRef (hr_Spec h)"
  shows "(\<exists>r. fst (handleUpdateHostReservation p ns name (Some new)) = HttpOk 200 r) \<and>
    \<not> unique_hosts (snd (handleUpdateHostReservation p ns name (Some new)))"
proof -
  let ?q = "snd (handleUpdateHostReservation p ns name (Some new))"
  obtain r where r: "fst (handleUpdateHostReservation p ns name (Some new)) = HttpOk 200 r" "hr_Spec r = hr_Spec new"
    "hostReservations ?q = AList.update (ns @ ''/'' @ name) r (hostReservations p)"
    using assms(1) by (simp add: handleUpdateHostReservation_def Map_Get_def Let_def set_hr_def persistHostReservation_def)
  then have "map_of (hostReservations ?q) k = Some h" "map_of (hostReservations ?q) (ns @ ''/'' @ name) = Some r"
    using assms(2,3) by (simp_all add: update_conv' del: map_of_eq_Some_iff)
  then have "\<not> unique_hosts ?q" unfolding unique_hosts_def using assms(3,4) r(2) by metis
  with r(1) show ?thesis by blast
qed

text \<open>A small state for the witnesses: two hosts, each reserved once.\<close>

definition sample_host :: "string \<Rightarrow> bare_metal_host" where
  "sample_host name =
     \<lparr>bmh_Namespace = ''bm'', bmh_Name = name, bmh_Annotations = [],
      bmh_Spec = \<lparr>bs_BMC = \<lparr>bmc_Address = '''', bmc_Username = '''', bmc_Password = ''''\<rparr>, bs_BootMACAddress = '''',
        bs_Online = None, bs_Image = '''', bs_Network = '''', bs_IP = '''', bs_BootConfigRef = '''', bs_Template = ''''\<rparr>\<rparr>"

definition sample_reservation :: "string \<Rightarrow> string \<Rightarrow> host_reservation" where
  "sample_reservation name bmh =
     \<lparr>hr_Namespace = ''ci'', hr_Name = name, hr_CreationTimestamp = 1,
      hr_Spec = \<lparr>hs_BMHRef = bmh, hs_Pool = ''build'', hs_Owner = '''', hs_Purpose = '''', hs_ExpiresAt = NoStamp\<rparr>,
      hr_Status = \<lparr>hst_Phase = ''Active'', hst_BMHNetwork = '''', hst_BMHIP = '''', hst_ActiveJob = '''',
        hst_ReservedAt = NoStamp, hst_AgentEnv = None\<rparr>\<rparr>"

definition sample_provider :: provider where
  "sample_provider =
     \<lparr>jobs = [], hostReservations = [(''ci/a'', sample_reservation ''a'' ''s1''), (''ci/b'', sample_reservation ''b'' ''s2'')],
      jobRunners = [], bareMetalHosts = [(''bm/s1'', sample_host ''s1''), (''bm/s2'', sample_host ''s2'')],
      bootConfigs = [], cleanupTickCounter = 0, jobLogBuf = newJobLogStore, runnerLogBuf = newJobLogStore,
      kickScheduler = False, bmcController = False, bmc_events = [], store_jobs = None, store_jobLogs = None,
      store_hostReservations = None, store_jobRunners = None, store_bareMetalHosts = None, io_ok = \<lambda>_. True\<rparr>"

lemma sample_reservations:
  "map_of (hostReservations sample_provider) ''ci/a'' = Some (sample_reservation ''a'' ''s1'')"
  "map_of (hostReservations sample_provider) ''ci/b'' = Some (sample_reservation ''b'' ''s2'')"
  by (simp_all add: sample_provider_def)

lemma sample_unique: "unique_hosts sample_provider"
  unfolding unique_hosts_def sample_provider_def
  by (auto simp: sample_reservation_def simp del: map_of_eq_Some_iff split: if_splits)

theorem reservations_unique_witness:
  "unique_hosts (snd (handleCreateHostReservation 5 sample_provider ''ci'' (Some (sample_reservation ''c'' ''s1'')))) \<and>
   unique_hosts (snd (handleDeleteHostReservation sample_provider ''ci'' ''a''))"
  by (rule reservations_unique [OF sample_unique])

theorem update_reserves_twice_witness:
  "unique_hosts sample_provider \<and>
   \<not> unique_hosts (snd (handleUpdateHostReservation sample_provider ''ci'' ''a'' (Some (sample_reservation ''a'' ''s2''))))"
proof -
  have "map_of (hostReservations sample_provider) (''ci'' @ ''/'' @ ''a'') = Some (sample_reservation ''a'' ''s1'')"
    using sample_reservations(1) by simp
  from update_reserves_twice [OF this sample_reservations(2), of "sample_reservation ''a'' ''s2''"] sample_unique
  show ?thesis by (simp add: sample_reservation_def)
qed

section \<open>Work hours\<close>

lemma two_digits_scan: "0 \<le> n \<Longrightarrow> n < 60 \<Longrightarrow> Sscanf_d (two_digits n) = Some n \<and> CHR '':'' \<notin> set (two_digits n)"
proof -
  assume "0 \<le> n" "n < 60"
  have "list_all (\<lambda>i. Sscanf_d (two_digits (int i)) = Some (int i) \<and> CHR '':'' \<notin> set (two_digits (int i))) [0..<60]"
    by code_simp
  then have "\<forall>i<60. Sscanf_d (two_digits (int i)) = Some (int i) \<and> CHR '':'' \<notin> set (two_digits (int i))"
    by (simp only: list_all_iff set_upt atLeastLessThan_iff) simp
  from this [rule_format, of "nat n"] \<open>0 \<le> n\<close> \<open>n < 60\<close> show ?thesis by simp
qed

definition hh_mm :: "int \<Rightarrow> int \<Rightarrow> string" where
  "hh_mm h m = two_digits h @ '':'' @ two_digits m"

lemma hh_mm_split:
  assumes "0 \<le> h" "h < 24" "0 \<le> m" "m < 60"
  shows "splitN 2 (CHR '':'') (hh_mm h m) = [two_digits h, two_digits m]"
    and "clock_minutes (two_digits h) (two_digits m) = h * 60 + m" and "hh_mm h m \<noteq> ''''"
  using splitN_join2 [of "CHR '':''" "two_digits h" "two_digits m"] two_digits_scan [of h] two_digits_scan [of m] assms
  by (simp_all add: hh_mm_def clock_minutes_def scan_or_zero_def wrap64_def)

lemma minute_of_day: "(t :: int) mod 86400 div 3600 * 60 + t mod 3600 div 60 = t mod 86400 div 60"
proof -
  define u where "u = t mod 86400"
  have "t mod 3600 = u mod 3600" unfolding u_def by (simp add: mod_mod_cancel)
  moreover have "u div 3600 = u div 60 div 60" by (simp add: zdiv_zmult2_eq)
  moreover have "u mod 3600 div 60 = u div 60 mod 60" using zmod_zmult2_eq [of 60 u 60] by simp
  ultimately show ?thesis unfolding u_def [symmetric] by simp
qed

text \<open>
  Work hours written \<open>hh:mm\<close>: with a time zone that can be loaded, a schedule is active exactly on
  its days (compared without case, by the three-letter name) from the start minute up to, and not
  including, the end minute of the local time. In particular a window that ends at or before it
  starts, such as 22:00 to 06:00, is never active, and neither is one without days.
\<close>

theorem work_hours:
  assumes "ws_Start s = hh_mm h m" and "ws_End s = hh_mm h' m'" and "ws_Timezone s = ''''"
    and "0 \<le> h" "h < 24" "0 \<le> m" "m < 60" "0 \<le> h'" "h' < 24" "0 \<le> m'" "m' < 60"
  shows "(IsActive tz (Some s) now \<longleftrightarrow>
      (\<exists>d\<in>set (ws_Days s). EqualFold d (take 3 (Weekday_String (local_seconds (tz_Local tz) now)))) \<and>
      h * 60 + m \<le> local_seconds (tz_Local tz) now mod 86400 div 60 \<and>
      local_seconds (tz_Local tz) now mod 86400 div 60 < h' * 60 + m') \<and>
    (h' * 60 + m' \<le> h * 60 + m \<longrightarrow> \<not> IsActive tz (Some s) now)"
proof -
  have "IsActive tz (Some s) now \<longleftrightarrow>
      (\<exists>d\<in>set (ws_Days s). EqualFold d (take 3 (Weekday_String (local_seconds (tz_Local tz) now)))) \<and>
      h * 60 + m \<le> local_seconds (tz_Local tz) now mod 86400 div 60 \<and>
      local_seconds (tz_Local tz) now mod 86400 div 60 < h' * 60 + m'"
    using assms(1-3) hh_mm_split [OF assms(4-7)] hh_mm_split [OF assms(8-11)]
    by (auto simp: IsActive_def Let_def minute_of_day list_ex_iff)
  then show ?thesis by simp
qed

definition weekdays :: "string \<Rightarrow> string \<Rightarrow> work_schedule" where
  "weekdays a b = \<lparr>ws_Days = [''mon'', ''tue'', ''wed'', ''thu'', ''fri''], ws_Start = a, ws_End = b, ws_Timezone = ''''\<rparr>"

theorem work_hours_witness:
  "IsActive \<lparr>tz_Local = (\<lambda>_. 3600), tz_Load = (\<lambda>_. None)\<rparr> (Some (weekdays ''09:00'' ''17:30'')) (8 * Hour) \<and>
   \<not> IsActive \<lparr>tz_Local = (\<lambda>_. 3600), tz_Load = (\<lambda>_. None)\<rparr> (Some (weekdays ''22:00'' ''06:00'')) (22 * Hour)"
proof -
  have 1: "''09:00'' = hh_mm 9 0" "''17:30'' = hh_mm 17 30" "''22:00'' = hh_mm 22 0" "''06:00'' = hh_mm 6 0" by code_simp+
  have d: "EqualFold ''thu'' (take 3 (Weekday_String (local_seconds (\<lambda>_. 3600) (8 * Hour))))"
    "9 * 60 + 0 \<le> local_seconds (\<lambda>_. 3600) (8 * Hour) mod 86400 div 60"
    "local_seconds (\<lambda>_. 3600) (8 * Hour) mod 86400 div 60 < 17 * 60 + 30" by code_simp+
  have a: "IsActive \<lparr>tz_Local = (\<lambda>_. 3600), tz_Load = (\<lambda>_. None)\<rparr> (Some (weekdays ''09:00'' ''17:30'')) (8 * Hour)"
    using work_hours [of "weekdays ''09:00'' ''17:30''" 9 0 17 30 "\<lparr>tz_Local = (\<lambda>_. 3600), tz_Load = (\<lambda>_. None)\<rparr>" "8 * Hour"] d
    by (simp add: 1 weekdays_def)
  have b: "\<not> IsActive \<lparr>tz_Local = (\<lambda>_. 3600), tz_Load = (\<lambda>_. None)\<rparr> (Some (weekdays ''22:00'' ''06:00'')) (22 * Hour)"
    using work_hours [of "weekdays ''22:00'' ''06:00''" 22 0 6 0 "\<lparr>tz_Local = (\<lambda>_. 3600), tz_Load = (\<lambda>_. None)\<rparr>" "22 * Hour"]
    by (simp add: 1 weekdays_def)
  from a b show ?thesis ..
qed

end
