(* ===== verification/BmcControl.thy ===== *)
theory BmcControl
  imports JobRunner
begin

text \<open>
  The power controller of bare metal hosts, \<open>pkg/bmc/controller.go\<close> with \<open>client.go\<close> and the test double of
  \<open>mock.go\<close>. Power events wait in a channel of capacity 32; \<open>Run\<close> takes them one at a time and talks to the
  management controller (BMC) of the host over IPMI; a boot of an install image also starts a goroutine
  that waits for the host's DHCP lease, or for three minutes, and then selects the disk as boot device.

  The BMC is behind the interface \<open>BMC\<close> of \<open>client.go\<close>: its methods are the fields of the record
  \<open>bmc_client\<close>, functions on the state of the machines, and the locale \<open>bmc_laws\<close> states what the
  interface documents. A goroutine is alive from the \<open>go\<close> statement to its deferred function; the places
  between which other goroutines may run are its stages. A context is a flag, set by its cancel function
  or with its parent.
\<close>

section \<open>The interface\<close>

datatype BootDevice = BootDevicePXE | BootDeviceDisk

definition IsInstallImage :: "string \<Rightarrow> bool" where
  "IsInstallImage img =
     (if img = [] then False
      else let lower = map to_lower img
           in if lower = ''localboot'' \<or> lower = ''baremetalservices'' then False else True)"

text \<open>A method returns whether its error is nil, and what became of the machines.\<close>

record 'w bmc_client =
  newClient :: "bmc_details \<Rightarrow> 'w \<Rightarrow> bool \<times> 'w"
  SetBootDevice :: "bmc_details \<Rightarrow> BootDevice \<Rightarrow> bool \<Rightarrow> 'w \<Rightarrow> bool \<times> 'w"
  Power :: "bmc_details \<Rightarrow> power_action \<Rightarrow> 'w \<Rightarrow> bool \<times> 'w"
  GetPowerStatus :: "bmc_details \<Rightarrow> 'w \<Rightarrow> bool option \<times> 'w"
  Close :: "bmc_details \<Rightarrow> 'w \<Rightarrow> 'w"

section \<open>The controller\<close>

datatype watch_stage = Started | Waiting | Setting | Leaving

record lease_watcher =
  lw_id :: nat
  lw_event :: power_event
  lw_cancelled :: bool
  lw_lease :: bool
  lw_sub :: bool
  lw_deadline :: instant
  lw_stage :: watch_stage

text \<open>
  \<open>c_watchers\<close> maps a host to its cancel function, here the number of the goroutine it stops;
  \<open>c_reported\<close> are the calls of \<open>OnPowerChanged\<close>, the latest first.
\<close>

record 'w controller =
  c_events :: "power_event list"
  c_store :: bool
  c_watchers :: "(string, nat) gomap"
  c_live :: "lease_watcher list"
  c_next :: nat
  c_ctx_done :: bool
  c_stopped :: bool
  c_reported :: "(string \<times> bool) list"
  c_world :: 'w

definition NewController :: "bool \<Rightarrow> 'w \<Rightarrow> 'w controller" where
  "NewController s w =
     \<lparr>c_events = [], c_store = s, c_watchers = [], c_live = [], c_next = 0, c_ctx_done = False,
      c_stopped = False, c_reported = [], c_world = w\<rparr>"

definition SetStore :: "'w controller \<Rightarrow> bool \<Rightarrow> 'w controller" where
  "SetStore c s = c\<lparr>c_store := s\<rparr>"

definition Enqueue :: "'w controller \<Rightarrow> power_event \<Rightarrow> 'w controller" where
  "Enqueue c evt = (if length (c_events c) < 32 then c\<lparr>c_events := c_events c @ [evt]\<rparr> else c)"

definition onPowerChanged :: "'w controller \<Rightarrow> string \<Rightarrow> bool \<Rightarrow> 'w controller" where
  "onPowerChanged c key on = c\<lparr>c_reported := (key, on) # c_reported c\<rparr>"

definition handlePowerOff :: "'w bmc_client \<Rightarrow> power_event \<Rightarrow> 'w controller \<Rightarrow> 'w controller" where
  "handlePowerOff B evt c =
     (let (ok, w) = Power B (pe_Creds evt) PowerOff (c_world c);
          c = c\<lparr>c_world := w\<rparr>
      in if \<not> ok then c else onPowerChanged c (pe_BMHKey evt) False)"

text \<open>The step that a normal boot and an install boot share: switch on, or reset a running host.\<close>

definition powerOnOrReset :: "'w bmc_client \<Rightarrow> power_event \<Rightarrow> 'w controller \<Rightarrow> bool \<times> 'w controller" where
  "powerOnOrReset B evt c =
     (let (st, w) = GetPowerStatus B (pe_Creds evt) (c_world c);
          powered = (case st of None \<Rightarrow> False | Some b \<Rightarrow> b);
          (ok, w) = Power B (pe_Creds evt) (if powered then PowerReset else PowerOn) w;
          c = c\<lparr>c_world := w\<rparr>
      in if \<not> ok then (False, c) else (True, onPowerChanged c (pe_BMHKey evt) True))"

definition handleNormalPowerOn :: "'w bmc_client \<Rightarrow> power_event \<Rightarrow> 'w controller \<Rightarrow> 'w controller" where
  "handleNormalPowerOn B evt c = snd (powerOnOrReset B evt c)"

definition cancel :: "nat \<Rightarrow> lease_watcher list \<Rightarrow> lease_watcher list" where
  "cancel n ls = map (\<lambda>l. if lw_id l = n then l\<lparr>lw_cancelled := True\<rparr> else l) ls"

definition startLeaseWatcher :: "power_event \<Rightarrow> 'w controller \<Rightarrow> 'w controller" where
  "startLeaseWatcher evt c =
     (let live = (case map_of (c_watchers c) (pe_BMHKey evt) of None \<Rightarrow> c_live c | Some n \<Rightarrow> cancel n (c_live c));
          l = \<lparr>lw_id = c_next c, lw_event = evt, lw_cancelled = c_ctx_done c, lw_lease = False,
               lw_sub = False, lw_deadline = 0, lw_stage = Started\<rparr>
      in c\<lparr>c_watchers := AList.update (pe_BMHKey evt) (c_next c) (c_watchers c),
           c_live := live @ [l], c_next := Suc (c_next c)\<rparr>)"

definition handleInstallBoot :: "'w bmc_client \<Rightarrow> power_event \<Rightarrow> 'w controller \<Rightarrow> 'w controller" where
  "handleInstallBoot B evt c =
     (let (ok, w) = SetBootDevice B (pe_Creds evt) BootDevicePXE False (c_world c);
          c = c\<lparr>c_world := w\<rparr>
      in if \<not> ok then c
         else let (ok, c) = powerOnOrReset B evt c
              in if \<not> ok then c else startLeaseWatcher evt c)"

definition handleEvent :: "'w bmc_client \<Rightarrow> power_event \<Rightarrow> 'w controller \<Rightarrow> 'w controller" where
  "handleEvent B evt c =
     (if bmc_Address (pe_Creds evt) = [] then c
      else let (ok, w) = newClient B (pe_Creds evt) (c_world c);
               c = c\<lparr>c_world := w\<rparr>
           in if \<not> ok then c
              else let c = (if pe_Action evt = PowerOff \<or> \<not> pe_IsOnline evt then handlePowerOff B evt c
                            else if IsInstallImage (pe_Image evt) then handleInstallBoot B evt c
                            else handleNormalPowerOn B evt c)
                   in c\<lparr>c_world := Close B (pe_Creds evt) (c_world c)\<rparr>)"

definition SetPersistentDiskBoot :: "'w bmc_client \<Rightarrow> bmc_details \<Rightarrow> 'w controller \<Rightarrow> 'w controller" where
  "SetPersistentDiskBoot B creds c =
     (if bmc_Address creds = [] then c
      else let (ok, w) = newClient B creds (c_world c)
           in if \<not> ok then c\<lparr>c_world := w\<rparr>
              else c\<lparr>c_world := Close B creds (snd (SetBootDevice B creds BootDeviceDisk True w))\<rparr>)"

text \<open>One turn of \<open>Run\<close>: take an event and handle it, or leave when the context is done.\<close>

definition Run_event :: "'w bmc_client \<Rightarrow> 'w controller \<Rightarrow> 'w controller" where
  "Run_event B c =
     (if c_stopped c then c
      else case c_events c of
             [] \<Rightarrow> c
           | evt # rest \<Rightarrow> handleEvent B evt (c\<lparr>c_events := rest\<rparr>))"

definition Run_done :: "'w controller \<Rightarrow> 'w controller" where
  "Run_done c =
     (if c_ctx_done c \<and> \<not> c_stopped c
      then c\<lparr>c_stopped := True, c_live := fold cancel (map snd (c_watchers c)) (c_live c)\<rparr>
      else c)"

text \<open>Cancelling the context of \<open>Run\<close> cancels the contexts derived from it.\<close>

definition ctx_cancel :: "'w controller \<Rightarrow> 'w controller" where
  "ctx_cancel c = c\<lparr>c_ctx_done := True, c_live := map (lw_cancelled_update (\<lambda>_. True)) (c_live c)\<rparr>"

section \<open>The goroutine of a lease watcher\<close>

definition dhcpLeaseTimeout :: duration where
  "dhcpLeaseTimeout = 3 * Minute"

definition update_watcher :: "nat \<Rightarrow> (lease_watcher \<Rightarrow> lease_watcher) \<Rightarrow> 'w controller \<Rightarrow> 'w controller" where
  "update_watcher n f c = c\<lparr>c_live := map (\<lambda>l. if lw_id l = n then f l else l) (c_live c)\<rparr>"

definition find_watcher :: "nat \<Rightarrow> watch_stage \<Rightarrow> 'w controller \<Rightarrow> lease_watcher option" where
  "find_watcher n st c = List.find (\<lambda>l. lw_id l = n \<and> lw_stage l = st) (c_live c)"

text \<open>Up to the \<open>select\<close>: subscribe when there is a store and a MAC address, and start the timer.\<close>

definition watch_subscribe :: "nat \<Rightarrow> bool \<Rightarrow> instant \<Rightarrow> 'w controller \<Rightarrow> 'w controller" where
  "watch_subscribe n sub_ok now c =
     (case find_watcher n Started c of
        None \<Rightarrow> c
      | Some l \<Rightarrow>
          update_watcher n
            (\<lambda>l. l\<lparr>lw_sub := c_store c \<and> pe_BootMAC (lw_event l) \<noteq> [] \<and> sub_ok,
                   lw_deadline := now + dhcpLeaseTimeout, lw_stage := Waiting\<rparr>) c)"

text \<open>The callback of the subscription, for a DHCP event of type \<open>typ\<close>.\<close>

definition dhcp_message :: "string \<Rightarrow> string \<Rightarrow> 'w controller \<Rightarrow> 'w controller" where
  "dhcp_message typ mac c =
     c\<lparr>c_live := map (\<lambda>l. if lw_stage l = Waiting \<and> lw_sub l \<and> typ = ''LeaseCreated'' \<and>
                              EqualFold mac (pe_BootMAC (lw_event l))
                           then l\<lparr>lw_lease := True\<rparr> else l) (c_live c)\<rparr>"

text \<open>The cases of the \<open>select\<close>; any that is ready may be taken.\<close>

definition watch_cancelled :: "nat \<Rightarrow> 'w controller \<Rightarrow> 'w controller" where
  "watch_cancelled n c =
     (case find_watcher n Waiting c of
        None \<Rightarrow> c
      | Some l \<Rightarrow> if lw_cancelled l then update_watcher n (lw_stage_update (\<lambda>_. Leaving)) c else c)"

definition watch_ready :: "nat \<Rightarrow> instant \<Rightarrow> 'w controller \<Rightarrow> 'w controller" where
  "watch_ready n now c =
     (case find_watcher n Waiting c of
        None \<Rightarrow> c
      | Some l \<Rightarrow> if lw_lease l \<or> lw_deadline l \<le> now then update_watcher n (lw_stage_update (\<lambda>_. Setting)) c else c)"

definition watch_set_disk :: "'w bmc_client \<Rightarrow> nat \<Rightarrow> 'w controller \<Rightarrow> 'w controller" where
  "watch_set_disk B n c =
     (case find_watcher n Setting c of
        None \<Rightarrow> c
      | Some l \<Rightarrow>
          (let creds = pe_Creds (lw_event l);
               (ok, w) = newClient B creds (c_world c);
               w = (if \<not> ok then w else Close B creds (snd (SetBootDevice B creds BootDeviceDisk True w)))
           in update_watcher n (lw_stage_update (\<lambda>_. Leaving)) (c\<lparr>c_world := w\<rparr>)))"

text \<open>The deferred function of the goroutine, after which it is gone.\<close>

definition watch_exit :: "nat \<Rightarrow> 'w controller \<Rightarrow> 'w controller" where
  "watch_exit n c =
     (case find_watcher n Leaving c of
        None \<Rightarrow> c
      | Some l \<Rightarrow>
          c\<lparr>c_watchers := AList.delete (pe_BMHKey (lw_event l)) (c_watchers c),
            c_live := filter (\<lambda>l. lw_id l \<noteq> n) (c_live c)\<rparr>)"

section \<open>Runs\<close>

datatype bmc_op =
    OpEnqueue power_event | OpEvent | OpSetStore bool | OpDiskBoot bmc_details | OpCancel | OpDone
  | OpSubscribe nat bool instant | OpMessage string string | OpCancelled nat | OpReady nat instant
  | OpSetDisk nat | OpExit nat

fun bmc_step :: "'w bmc_client \<Rightarrow> bmc_op \<Rightarrow> 'w controller \<Rightarrow> 'w controller" where
  "bmc_step B (OpEnqueue evt) c = Enqueue c evt"
| "bmc_step B OpEvent c = Run_event B c"
| "bmc_step B (OpSetStore s) c = SetStore c s"
| "bmc_step B (OpDiskBoot creds) c = SetPersistentDiskBoot B creds c"
| "bmc_step B OpCancel c = ctx_cancel c"
| "bmc_step B OpDone c = Run_done c"
| "bmc_step B (OpSubscribe n ok now) c = watch_subscribe n ok now c"
| "bmc_step B (OpMessage typ mac) c = dhcp_message typ mac c"
| "bmc_step B (OpCancelled n) c = watch_cancelled n c"
| "bmc_step B (OpReady n now) c = watch_ready n now c"
| "bmc_step B (OpSetDisk n) c = watch_set_disk B n c"
| "bmc_step B (OpExit n) c = watch_exit n c"

fun bmc_exec :: "'w bmc_client \<Rightarrow> bmc_op list \<Rightarrow> 'w controller \<Rightarrow> 'w controller" where
  "bmc_exec B [] c = c"
| "bmc_exec B (op # ops) c = bmc_exec B ops (bmc_step B op c)"
section \<open>What the interface promises\<close>

text \<open>
  The documented effect of each method on the machine it is connected to: a command that returns no
  error has taken effect, one that fails has not, and nothing else touches a machine.
\<close>

locale bmc_laws =
  fixes B :: "'w bmc_client"
    and on_of :: "'w \<Rightarrow> string \<Rightarrow> bool"
    and boot_of :: "'w \<Rightarrow> string \<Rightarrow> BootDevice"
  assumes new_same: "newClient B cr w = (ok, w') \<Longrightarrow> on_of w' = on_of w \<and> boot_of w' = boot_of w"
    and close_same: "on_of (Close B cr w) = on_of w \<and> boot_of (Close B cr w) = boot_of w"
    and status_same: "GetPowerStatus B cr w = (st, w') \<Longrightarrow> on_of w' = on_of w \<and> boot_of w' = boot_of w"
    and boot_set: "SetBootDevice B cr d persist w = (ok, w') \<Longrightarrow>
      on_of w' = on_of w \<and> boot_of w' = (if ok then (boot_of w)(bmc_Address cr := d) else boot_of w)"
    and power_set: "Power B cr a w = (ok, w') \<Longrightarrow>
      boot_of w' = boot_of w \<and> on_of w' = (if ok then (on_of w)(bmc_Address cr := (a \<noteq> PowerOff)) else on_of w)"
begin

lemma powerOnOrReset_effect:
  assumes "powerOnOrReset B evt c = (ok, c')"
  shows "boot_of (c_world c') = boot_of (c_world c)"
    and "on_of (c_world c') = (if ok then (on_of (c_world c))(bmc_Address (pe_Creds evt) := True) else on_of (c_world c))"
    and "c_reported c' = (if ok then (pe_BMHKey evt, True) # c_reported c else c_reported c)"
    and "c_events c' = c_events c" "c_live c' = c_live c" "c_watchers c' = c_watchers c"
proof -
  obtain st w1 where st: "GetPowerStatus B (pe_Creds evt) (c_world c) = (st, w1)" by fastforce
  define a where "a = (if (case st of None \<Rightarrow> False | Some b \<Rightarrow> b) then PowerReset else PowerOn)"
  obtain ok2 w2 where p: "Power B (pe_Creds evt) a w1 = (ok2, w2)" by fastforce
  have a: "a \<noteq> PowerOff" by (simp add: a_def)
  have eq: "powerOnOrReset B evt c =
      (if \<not> ok2 then (False, c\<lparr>c_world := w2\<rparr>) else (True, onPowerChanged (c\<lparr>c_world := w2\<rparr>) (pe_BMHKey evt) True))"
    using st p by (simp add: powerOnOrReset_def a_def)
  note effects = status_same [OF st] power_set [OF p]
  show "boot_of (c_world c') = boot_of (c_world c)"
    and "on_of (c_world c') = (if ok then (on_of (c_world c))(bmc_Address (pe_Creds evt) := True) else on_of (c_world c))"
    and "c_reported c' = (if ok then (pe_BMHKey evt, True) # c_reported c else c_reported c)"
    and "c_events c' = c_events c" "c_live c' = c_live c" "c_watchers c' = c_watchers c"
    using assms eq effects a by (auto simp: onPowerChanged_def split: if_splits)
qed

end

section \<open>The test double\<close>

text \<open>\<open>MockBMC\<close> records its calls and can be told to fail the next one; one per address of a BMC.\<close>

datatype mock_call = CallSetBootDevice BootDevice bool | CallPower power_action | CallGetPowerStatus | CallClose

record MockBMC =
  m_PoweredOn :: bool
  m_BootDevice :: BootDevice
  m_Calls :: "mock_call list"
  m_FailNext :: bool

definition NewMock :: MockBMC where
  "NewMock = \<lparr>m_PoweredOn = False, m_BootDevice = BootDeviceDisk, m_Calls = [], m_FailNext = False\<rparr>"

definition mock_record :: "mock_call \<Rightarrow> MockBMC \<Rightarrow> bool \<times> MockBMC" where
  "mock_record call m = (\<not> m_FailNext m, m\<lparr>m_Calls := m_Calls m @ [call], m_FailNext := False\<rparr>)"

definition mock_SetBootDevice :: "BootDevice \<Rightarrow> bool \<Rightarrow> MockBMC \<Rightarrow> bool \<times> MockBMC" where
  "mock_SetBootDevice dev persist m =
     (let (ok, m) = mock_record (CallSetBootDevice dev persist) m
      in if \<not> ok then (False, m) else (True, m\<lparr>m_BootDevice := dev\<rparr>))"

definition mock_Power :: "power_action \<Rightarrow> MockBMC \<Rightarrow> bool \<times> MockBMC" where
  "mock_Power action m =
     (let (ok, m) = mock_record (CallPower action) m
      in if \<not> ok then (False, m)
         else (True, case action of
                       PowerOn \<Rightarrow> m\<lparr>m_PoweredOn := True\<rparr>
                     | PowerOff \<Rightarrow> m\<lparr>m_PoweredOn := False\<rparr>
                     | PowerReset \<Rightarrow> m\<lparr>m_PoweredOn := True\<rparr>))"

definition mock_GetPowerStatus :: "MockBMC \<Rightarrow> bool option \<times> MockBMC" where
  "mock_GetPowerStatus m =
     (let (ok, m) = mock_record CallGetPowerStatus m
      in if \<not> ok then (None, m) else (Some (m_PoweredOn m), m))"

definition at_mock :: "(MockBMC \<Rightarrow> 'r \<times> MockBMC) \<Rightarrow> bmc_details \<Rightarrow> (string \<Rightarrow> MockBMC) \<Rightarrow> 'r \<times> (string \<Rightarrow> MockBMC)" where
  "at_mock f cr w = (let (r, m) = f (w (bmc_Address cr)) in (r, w(bmc_Address cr := m)))"

definition MockClientFactory :: "(string \<Rightarrow> MockBMC) bmc_client" where
  "MockClientFactory =
     \<lparr>newClient = \<lambda>cr w. (True, w),
      SetBootDevice = \<lambda>cr dev persist. at_mock (mock_SetBootDevice dev persist) cr,
      Power = \<lambda>cr action. at_mock (mock_Power action) cr,
      GetPowerStatus = at_mock mock_GetPowerStatus,
      Close = \<lambda>cr w. snd (at_mock (mock_record CallClose) cr w)\<rparr>"

lemma at_mock_eq: "at_mock f cr w = (fst (f (w (bmc_Address cr))), w(bmc_Address cr := snd (f (w (bmc_Address cr)))))"
  by (simp add: at_mock_def split_beta)

lemmas mock_method_defs = mock_SetBootDevice_def mock_Power_def mock_GetPowerStatus_def mock_record_def

lemma mock_simps [simp]:
  "newClient MockClientFactory cr w = (True, w)"
  "SetBootDevice MockClientFactory cr dev persist w = at_mock (mock_SetBootDevice dev persist) cr w"
  "Power MockClientFactory cr action w = at_mock (mock_Power action) cr w"
  "GetPowerStatus MockClientFactory cr w = at_mock mock_GetPowerStatus cr w"
  "Close MockClientFactory cr w = snd (at_mock (mock_record CallClose) cr w)"
  by (simp_all add: MockClientFactory_def)

lemma mock_method_effects [simp]:
  "m_PoweredOn (snd (mock_record call m)) = m_PoweredOn m"
  "m_BootDevice (snd (mock_record call m)) = m_BootDevice m"
  "m_PoweredOn (snd (mock_SetBootDevice dev persist m)) = m_PoweredOn m"
  "m_BootDevice (snd (mock_SetBootDevice dev persist m)) =
     (if fst (mock_SetBootDevice dev persist m) then dev else m_BootDevice m)"
  "m_BootDevice (snd (mock_Power action m)) = m_BootDevice m"
  "m_PoweredOn (snd (mock_Power action m)) =
     (if fst (mock_Power action m) then action \<noteq> PowerOff else m_PoweredOn m)"
  "m_PoweredOn (snd (mock_GetPowerStatus m)) = m_PoweredOn m"
  "m_BootDevice (snd (mock_GetPowerStatus m)) = m_BootDevice m"
  by (simp_all add: mock_method_defs split: power_action.split)

interpretation mock: bmc_laws MockClientFactory "\<lambda>w a. m_PoweredOn (w a)" "\<lambda>w a. m_BootDevice (w a)"
proof
  fix cr w w' ok st d persist a
  show "(\<lambda>a. m_PoweredOn (w' a)) = (\<lambda>a. m_PoweredOn (w a)) \<and> (\<lambda>a. m_BootDevice (w' a)) = (\<lambda>a. m_BootDevice (w a))"
    if "newClient MockClientFactory cr w = (ok, w')" using that by simp
  show "(\<lambda>a. m_PoweredOn (Close MockClientFactory cr w a)) = (\<lambda>a. m_PoweredOn (w a)) \<and>
      (\<lambda>a. m_BootDevice (Close MockClientFactory cr w a)) = (\<lambda>a. m_BootDevice (w a))"
    by (simp add: at_mock_eq fun_eq_iff)
  show "(\<lambda>a. m_PoweredOn (w' a)) = (\<lambda>a. m_PoweredOn (w a)) \<and> (\<lambda>a. m_BootDevice (w' a)) = (\<lambda>a. m_BootDevice (w a))"
    if "GetPowerStatus MockClientFactory cr w = (st, w')"
    using that by (auto simp: at_mock_eq intro!: ext split: if_splits)
  show "(\<lambda>a. m_PoweredOn (w' a)) = (\<lambda>a. m_PoweredOn (w a)) \<and>
      (\<lambda>a. m_BootDevice (w' a)) =
        (if ok then (\<lambda>a. m_BootDevice (w a))(bmc_Address cr := d) else (\<lambda>a. m_BootDevice (w a)))"
    if "SetBootDevice MockClientFactory cr d persist w = (ok, w')"
    using that by (auto simp: at_mock_eq intro!: ext split: if_splits)
  show "(\<lambda>a. m_BootDevice (w' a)) = (\<lambda>a. m_BootDevice (w a)) \<and>
      (\<lambda>a. m_PoweredOn (w' a)) =
        (if ok then (\<lambda>a. m_PoweredOn (w a))(bmc_Address cr := (a \<noteq> PowerOff)) else (\<lambda>a. m_PoweredOn (w a)))"
    if "Power MockClientFactory cr a w = (ok, w')"
    using that by (auto simp: at_mock_eq intro!: ext split: if_splits)
qed
section \<open>What handling an event does\<close>

definition wants_on :: "power_event \<Rightarrow> bool" where
  "wants_on evt \<longleftrightarrow> pe_Action evt \<noteq> PowerOff \<and> pe_IsOnline evt"

definition installs :: "power_event \<Rightarrow> bool" where
  "installs evt \<longleftrightarrow> wants_on evt \<and> IsInstallImage (pe_Image evt)"

text \<open>The event failed: no report, nothing switched, at most the boot device of an install is selected.\<close>

definition event_failed :: "('w \<Rightarrow> string \<Rightarrow> bool) \<Rightarrow> ('w \<Rightarrow> string \<Rightarrow> BootDevice) \<Rightarrow> power_event \<Rightarrow> 'w controller \<Rightarrow> 'w controller \<Rightarrow> bool" where
  "event_failed on_of boot_of evt c c' \<longleftrightarrow>
     c_reported c' = c_reported c \<and> on_of (c_world c') = on_of (c_world c) \<and>
     (boot_of (c_world c') = boot_of (c_world c) \<or>
      installs evt \<and> boot_of (c_world c') = (boot_of (c_world c))(bmc_Address (pe_Creds evt) := BootDevicePXE)) \<and>
     c_live c' = c_live c \<and> c_watchers c' = c_watchers c"

definition event_done :: "('w \<Rightarrow> string \<Rightarrow> bool) \<Rightarrow> ('w \<Rightarrow> string \<Rightarrow> BootDevice) \<Rightarrow> power_event \<Rightarrow> 'w controller \<Rightarrow> 'w controller \<Rightarrow> bool" where
  "event_done on_of boot_of evt c c' \<longleftrightarrow>
     c_reported c' = (pe_BMHKey evt, wants_on evt) # c_reported c \<and>
     on_of (c_world c') = (on_of (c_world c))(bmc_Address (pe_Creds evt) := wants_on evt) \<and>
     boot_of (c_world c') =
       (if installs evt then (boot_of (c_world c))(bmc_Address (pe_Creds evt) := BootDevicePXE) else boot_of (c_world c)) \<and>
     c_live c' = (if installs evt then c_live (startLeaseWatcher evt c) else c_live c) \<and>
     c_watchers c' = (if installs evt then c_watchers (startLeaseWatcher evt c) else c_watchers c)"

lemma startLeaseWatcher_keeps [simp]:
  "c_world (startLeaseWatcher evt c) = c_world c" "c_reported (startLeaseWatcher evt c) = c_reported c"
  "c_events (startLeaseWatcher evt c) = c_events c"
  by (simp_all add: startLeaseWatcher_def Let_def)

lemma powerOnOrReset_frame:
  assumes "powerOnOrReset B evt c = (ok, c')"
  shows "c_events c' = c_events c" "c_live c' = c_live c" "c_watchers c' = c_watchers c" "c_next c' = c_next c"
    "c_ctx_done c' = c_ctx_done c"
  using assms by (auto simp: powerOnOrReset_def onPowerChanged_def split_beta Let_def split: if_splits)

lemma startLeaseWatcher_cong:
  "c_live c' = c_live c \<Longrightarrow> c_watchers c' = c_watchers c \<Longrightarrow> c_next c' = c_next c \<Longrightarrow> c_ctx_done c' = c_ctx_done c \<Longrightarrow>
   c_live (startLeaseWatcher evt c') = c_live (startLeaseWatcher evt c) \<and>
   c_watchers (startLeaseWatcher evt c') = c_watchers (startLeaseWatcher evt c)"
  by (simp add: startLeaseWatcher_def Let_def split: option.split)

lemma handleEvent_events [simp]: "c_events (handleEvent B evt c) = c_events c"
  by (auto simp: handleEvent_def handlePowerOff_def handleInstallBoot_def handleNormalPowerOn_def powerOnOrReset_def
      onPowerChanged_def split_beta Let_def)

context bmc_laws
begin

abbreviation failed :: "power_event \<Rightarrow> 'w controller \<Rightarrow> 'w controller \<Rightarrow> bool" where
  "failed \<equiv> event_failed on_of boot_of"

abbreviation finished :: "power_event \<Rightarrow> 'w controller \<Rightarrow> 'w controller \<Rightarrow> bool" where
  "finished \<equiv> event_done on_of boot_of"

lemma handlePowerOff_outcome:
  assumes "\<not> wants_on evt"
  shows "failed evt c (handlePowerOff B evt c) \<or> finished evt c (handlePowerOff B evt c)"
proof -
  obtain ok w where p: "Power B (pe_Creds evt) PowerOff (c_world c) = (ok, w)" by fastforce
  from power_set [OF p] p assms show ?thesis
    by (cases ok) (simp_all add: handlePowerOff_def onPowerChanged_def event_failed_def event_done_def installs_def)
qed

lemma handleNormalPowerOn_outcome:
  assumes "wants_on evt" and "\<not> installs evt"
  shows "failed evt c (handleNormalPowerOn B evt c) \<or> finished evt c (handleNormalPowerOn B evt c)"
proof -
  obtain ok c' where p: "powerOnOrReset B evt c = (ok, c')" by fastforce
  from powerOnOrReset_effect [OF p] p assms show ?thesis
    by (cases ok) (simp_all add: handleNormalPowerOn_def event_failed_def event_done_def)
qed

lemma handleInstallBoot_outcome:
  assumes "installs evt"
  shows "failed evt c (handleInstallBoot B evt c) \<or> finished evt c (handleInstallBoot B evt c)"
proof -
  obtain ok1 w where b: "SetBootDevice B (pe_Creds evt) BootDevicePXE False (c_world c) = (ok1, w)" by fastforce
  let ?d = "c\<lparr>c_world := w\<rparr>"
  obtain ok2 c' where p: "powerOnOrReset B evt ?d = (ok2, c')" by fastforce
  note e = powerOnOrReset_effect [OF p] powerOnOrReset_frame [OF p] boot_set [OF b]
  have w: "wants_on evt" using assms by (simp add: installs_def)
  show ?thesis
  proof (cases "ok1 \<and> ok2")
    case True
    then have eq: "handleInstallBoot B evt c = startLeaseWatcher evt c'"
      using b p by (simp add: handleInstallBoot_def)
    have "c_live (startLeaseWatcher evt c') = c_live (startLeaseWatcher evt c) \<and>
        c_watchers (startLeaseWatcher evt c') = c_watchers (startLeaseWatcher evt c)"
      using e by (intro startLeaseWatcher_cong) simp_all
    with True e eq assms w show ?thesis by (simp add: event_done_def)
  next
    case False
    then have "handleInstallBoot B evt c = (if ok1 then c' else ?d)"
      using b p by (auto simp: handleInstallBoot_def)
    with False e assms have "failed evt c (handleInstallBoot B evt c)" by (simp add: event_failed_def)
    then show ?thesis ..
  qed
qed

lemma outcome_close:
  "failed evt c d \<or> finished evt c d \<Longrightarrow>
   failed evt c (d\<lparr>c_world := Close B cr (c_world d)\<rparr>) \<or> finished evt c (d\<lparr>c_world := Close B cr (c_world d)\<rparr>)"
  using close_same [of cr "c_world d"] by (auto simp: event_failed_def event_done_def)

lemma outcome_new:
  assumes "newClient B cr (c_world c) = (ok, w)" and "failed evt (c\<lparr>c_world := w\<rparr>) d \<or> finished evt (c\<lparr>c_world := w\<rparr>) d"
  shows "failed evt c d \<or> finished evt c d"
proof -
  have "c_live (startLeaseWatcher evt (c\<lparr>c_world := w\<rparr>)) = c_live (startLeaseWatcher evt c) \<and>
      c_watchers (startLeaseWatcher evt (c\<lparr>c_world := w\<rparr>)) = c_watchers (startLeaseWatcher evt c)"
    by (intro startLeaseWatcher_cong) simp_all
  with new_same [OF assms(1)] have "failed evt (c\<lparr>c_world := w\<rparr>) d = failed evt c d"
    "finished evt (c\<lparr>c_world := w\<rparr>) d = finished evt c d" by (simp_all add: event_failed_def event_done_def)
  with assms(2) show ?thesis by simp
qed

lemma handleEvent_outcome: "failed evt c (handleEvent B evt c) \<or> finished evt c (handleEvent B evt c)"
proof (cases "bmc_Address (pe_Creds evt) = []")
  case True
  then show ?thesis by (simp add: handleEvent_def event_failed_def)
next
  case False
  obtain ok w where n: "newClient B (pe_Creds evt) (c_world c) = (ok, w)" by fastforce
  let ?c = "c\<lparr>c_world := w\<rparr>"
  have "failed evt ?c ?c" by (simp add: event_failed_def)
  show ?thesis
  proof (cases ok)
    case True
    define d where "d = (if pe_Action evt = PowerOff \<or> \<not> pe_IsOnline evt then handlePowerOff B evt ?c
        else if IsInstallImage (pe_Image evt) then handleInstallBoot B evt ?c else handleNormalPowerOn B evt ?c)"
    have "failed evt ?c d \<or> finished evt ?c d"
      unfolding d_def using handlePowerOff_outcome [of evt ?c] handleInstallBoot_outcome [of evt ?c]
        handleNormalPowerOn_outcome [of evt ?c] by (auto simp: wants_on_def installs_def)
    from outcome_new [OF n outcome_close [OF this, of "pe_Creds evt"]] show ?thesis
      using n True False by (simp add: handleEvent_def d_def Let_def)
  next
    case nok: False
    from outcome_new [OF n, of evt ?c] \<open>failed evt ?c ?c\<close> n nok False show ?thesis
      by (simp add: handleEvent_def)
  qed
qed

end
section \<open>Invariants of a run\<close>

text \<open>
  What is reported of a host is the state of its machine, when a host has one BMC and a BMC one host
  (\<open>addr\<close> gives the address for the key of a host in \<open>K\<close>).
\<close>

definition power_inv :: "('w \<Rightarrow> string \<Rightarrow> bool) \<Rightarrow> string set \<Rightarrow> (string \<Rightarrow> string) \<Rightarrow> 'w controller \<Rightarrow> bool" where
  "power_inv on_of K addr c \<longleftrightarrow>
     (\<forall>k b. map_of (c_reported c) k = Some b \<longrightarrow> k \<in> K \<and> on_of (c_world c) (addr k) = b) \<and>
     (\<forall>e\<in>set (c_events c). pe_BMHKey e \<in> K \<and> bmc_Address (pe_Creds e) = addr (pe_BMHKey e)) \<and>
     length (c_events c) \<le> 32"

fun op_at :: "string set \<Rightarrow> (string \<Rightarrow> string) \<Rightarrow> bmc_op \<Rightarrow> bool" where
  "op_at K addr (OpEnqueue e) = (pe_BMHKey e \<in> K \<and> bmc_Address (pe_Creds e) = addr (pe_BMHKey e))"
| "op_at K addr op = True"

lemma power_inv_frame:
  "power_inv on_of K addr c \<Longrightarrow> c_reported c' = c_reported c \<Longrightarrow> c_events c' = c_events c \<Longrightarrow>
   on_of (c_world c') = on_of (c_world c) \<Longrightarrow> power_inv on_of K addr c'"
  by (simp add: power_inv_def)

lemma update_watcher_keeps [simp]:
  "c_reported (update_watcher n f c) = c_reported c" "c_events (update_watcher n f c) = c_events c"
  "c_world (update_watcher n f c) = c_world c" "c_watchers (update_watcher n f c) = c_watchers c"
  "c_next (update_watcher n f c) = c_next c" "c_ctx_done (update_watcher n f c) = c_ctx_done c"
  by (simp_all add: update_watcher_def)

lemma watch_quiet:
  "c_reported (watch_subscribe n ok now c) = c_reported c \<and> c_events (watch_subscribe n ok now c) = c_events c \<and>
     c_world (watch_subscribe n ok now c) = c_world c"
  "c_reported (watch_cancelled n c) = c_reported c \<and> c_events (watch_cancelled n c) = c_events c \<and>
     c_world (watch_cancelled n c) = c_world c"
  "c_reported (watch_ready n now c) = c_reported c \<and> c_events (watch_ready n now c) = c_events c \<and>
     c_world (watch_ready n now c) = c_world c"
  "c_reported (watch_exit n c) = c_reported c \<and> c_events (watch_exit n c) = c_events c \<and>
     c_world (watch_exit n c) = c_world c"
  by (simp_all add: watch_subscribe_def watch_cancelled_def watch_ready_def watch_exit_def split: option.split)

context bmc_laws
begin

lemma disk_boot_on:
  assumes "newClient B cr w = (ok, w')"
  shows "on_of (Close B cr' (snd (SetBootDevice B cr' d persist w'))) = on_of w"
proof -
  obtain ok2 w2 where "SetBootDevice B cr' d persist w' = (ok2, w2)" by fastforce
  with boot_set [OF this] new_same [OF assms] show ?thesis by (simp add: close_same)
qed

lemma SetPersistentDiskBoot_quiet:
  "c_reported (SetPersistentDiskBoot B cr c) = c_reported c \<and> c_events (SetPersistentDiskBoot B cr c) = c_events c \<and>
   on_of (c_world (SetPersistentDiskBoot B cr c)) = on_of (c_world c)"
proof -
  obtain ok w where n: "newClient B cr (c_world c) = (ok, w)" by fastforce
  from disk_boot_on [OF n] new_same [OF n] n show ?thesis by (simp add: SetPersistentDiskBoot_def)
qed

lemma watch_set_disk_quiet:
  "c_reported (watch_set_disk B n c) = c_reported c \<and> c_events (watch_set_disk B n c) = c_events c \<and>
   on_of (c_world (watch_set_disk B n c)) = on_of (c_world c)"
proof (cases "find_watcher n Setting c")
  case (Some l)
  obtain ok w where n: "newClient B (pe_Creds (lw_event l)) (c_world c) = (ok, w)" by fastforce
  from disk_boot_on [OF n] new_same [OF n] n Some show ?thesis by (simp add: watch_set_disk_def Let_def)
qed (simp add: watch_set_disk_def)

lemma handleEvent_power:
  assumes "power_inv on_of K addr c" and "inj_on addr K" and "bmc_Address (pe_Creds evt) = addr (pe_BMHKey evt)"
    and "pe_BMHKey evt \<in> K"
  shows "power_inv on_of K addr (handleEvent B evt c)"
  using handleEvent_outcome [of evt c]
proof
  assume "failed evt c (handleEvent B evt c)"
  with assms(1) show ?thesis by (intro power_inv_frame [OF assms(1)]) (simp_all add: event_failed_def)
next
  assume "finished evt c (handleEvent B evt c)"
  then show ?thesis using assms by (auto simp: event_done_def power_inv_def dest: inj_onD)
qed

lemma power_step:
  assumes "power_inv on_of K addr c" and "inj_on addr K" and "op_at K addr op"
  shows "power_inv on_of K addr (bmc_step B op c)"
proof (cases op)
  case OpEvent
  show ?thesis
  proof (cases "c_events c")
    case (Cons evt rest)
    have "power_inv on_of K addr (c\<lparr>c_events := rest\<rparr>)" "bmc_Address (pe_Creds evt) = addr (pe_BMHKey evt)"
      "pe_BMHKey evt \<in> K"
      using assms(1) Cons by (auto simp: power_inv_def)
    with OpEvent Cons assms(1,2) show ?thesis by (simp add: Run_event_def handleEvent_power)
  qed (use assms(1) OpEvent in \<open>simp add: Run_event_def\<close>)
next
  case (OpEnqueue e)
  with assms(1,3) show ?thesis by (auto simp: Enqueue_def power_inv_def)
qed (use assms(1) in \<open>simp_all add: power_inv_def SetStore_def ctx_cancel_def Run_done_def dhcp_message_def
      SetPersistentDiskBoot_quiet watch_set_disk_quiet watch_quiet\<close>)

lemma power_exec:
  "power_inv on_of K addr c \<Longrightarrow> inj_on addr K \<Longrightarrow> list_all (op_at K addr) ops \<Longrightarrow> power_inv on_of K addr (bmc_exec B ops c)"
  by (induction ops arbitrary: c) (auto intro: power_step)

end
text \<open>
  The cancel function filed for a host is that of a goroutine that is alive, belongs to the host and
  has not been cancelled, unless the whole controller has.
\<close>

definition watch_inv :: "'w controller \<Rightarrow> bool" where
  "watch_inv c \<longleftrightarrow>
     gm_wf (c_watchers c) \<and> distinct (map lw_id (c_live c)) \<and> (\<forall>l\<in>set (c_live c). lw_id l < c_next c) \<and>
     (\<forall>k n. map_of (c_watchers c) k = Some n \<longrightarrow>
       (\<exists>l\<in>set (c_live c). lw_id l = n \<and> pe_BMHKey (lw_event l) = k \<and> (lw_cancelled l \<longrightarrow> c_ctx_done c)))"

lemma watch_inv_live:
  "watch_inv c \<Longrightarrow> map_of (c_watchers c) k = Some n \<Longrightarrow>
   \<exists>l\<in>set (c_live c). lw_id l = n \<and> pe_BMHKey (lw_event l) = k \<and> (lw_cancelled l \<longrightarrow> c_ctx_done c)"
  unfolding watch_inv_def by blast

lemma watch_inv_entry:
  assumes "watch_inv c" and "map_of (c_watchers c) k = Some n" and "l \<in> set (c_live c)" and "lw_id l = n"
  shows "pe_BMHKey (lw_event l) = k" "lw_cancelled l \<Longrightarrow> c_ctx_done c"
proof -
  obtain m where m: "m \<in> set (c_live c)" "lw_id m = n" "pe_BMHKey (lw_event m) = k" "lw_cancelled m \<longrightarrow> c_ctx_done c"
    using watch_inv_live [OF assms(1,2)] by blast
  have "m = l" using assms m(1,2) by (auto simp: watch_inv_def distinct_map dest: inj_onD)
  with m show "pe_BMHKey (lw_event l) = k" "lw_cancelled l \<Longrightarrow> c_ctx_done c" by simp_all
qed

lemma watch_inv_map:
  assumes "watch_inv c" and live: "c_live c' = map g (c_live c)"
    and g: "\<And>l. lw_id (g l) = lw_id l \<and> lw_event (g l) = lw_event l \<and> (lw_cancelled (g l) \<longrightarrow> lw_cancelled l \<or> c_ctx_done c')"
    and same: "c_watchers c' = c_watchers c" "c_next c' = c_next c" "c_ctx_done c \<Longrightarrow> c_ctx_done c'"
  shows "watch_inv c'"
  unfolding watch_inv_def
proof (intro conjI allI impI)
  have "map lw_id (c_live c') = map lw_id (c_live c)" using g live by simp
  then show "distinct (map lw_id (c_live c'))" using assms(1) by (simp add: watch_inv_def)
  show "gm_wf (c_watchers c')" "\<forall>l\<in>set (c_live c'). lw_id l < c_next c'"
    using assms(1) g live same by (auto simp: watch_inv_def)
  fix k n assume "map_of (c_watchers c') k = Some n"
  then obtain l where l: "l \<in> set (c_live c)" "lw_id l = n" "pe_BMHKey (lw_event l) = k" "lw_cancelled l \<longrightarrow> c_ctx_done c"
    using watch_inv_live [OF assms(1)] same(1) by metis
  have "g l \<in> set (c_live c')" using l(1) live by simp
  moreover have "lw_id (g l) = n" "pe_BMHKey (lw_event (g l)) = k" "lw_cancelled (g l) \<longrightarrow> c_ctx_done c'"
    using l g [of l] same(3) by auto
  ultimately show "\<exists>l\<in>set (c_live c'). lw_id l = n \<and> pe_BMHKey (lw_event l) = k \<and> (lw_cancelled l \<longrightarrow> c_ctx_done c')"
    by blast
qed

lemma watch_inv_update:
  assumes "watch_inv c" and "\<And>l. lw_id (f l) = lw_id l \<and> lw_event (f l) = lw_event l \<and> lw_cancelled (f l) = lw_cancelled l"
  shows "watch_inv (update_watcher n f c)"
  by (rule watch_inv_map [OF assms(1), where g = "\<lambda>l. if lw_id l = n then f l else l"])
    (use assms(2) in \<open>auto simp: update_watcher_def\<close>)

lemma fold_cancel_map:
  "\<exists>g. fold cancel ns ls = map g ls \<and> (\<forall>l. lw_id (g l) = lw_id l \<and> lw_event (g l) = lw_event l)"
proof (induction ns arbitrary: ls)
  case Nil
  show ?case by (intro exI [of _ id]) simp
next
  case (Cons n ns)
  let ?h = "\<lambda>l. if lw_id l = n then l\<lparr>lw_cancelled := True\<rparr> else l"
  obtain g where "fold cancel ns (map ?h ls) = map g (map ?h ls)"
    "\<forall>l. lw_id (g l) = lw_id l \<and> lw_event (g l) = lw_event l"
    using Cons.IH [of "map ?h ls"] by blast
  moreover have "cancel n ls = map ?h ls" by (simp add: cancel_def)
  ultimately show ?case by (intro exI [of _ "g \<circ> ?h"]) simp
qed

lemma startLeaseWatcher_watch:
  assumes "watch_inv c"
  shows "watch_inv (startLeaseWatcher evt c)"
proof -
  define live where
    "live = (case map_of (c_watchers c) (pe_BMHKey evt) of None \<Rightarrow> c_live c | Some n \<Rightarrow> cancel n (c_live c))"
  define new where "new = \<lparr>lw_id = c_next c, lw_event = evt, lw_cancelled = c_ctx_done c, lw_lease = False,
      lw_sub = False, lw_deadline = 0, lw_stage = Started\<rparr>"
  have sel: "c_watchers (startLeaseWatcher evt c) = AList.update (pe_BMHKey evt) (c_next c) (c_watchers c)"
    "c_live (startLeaseWatcher evt c) = live @ [new]" "c_next (startLeaseWatcher evt c) = Suc (c_next c)"
    "c_ctx_done (startLeaseWatcher evt c) = c_ctx_done c"
    by (simp_all add: startLeaseWatcher_def live_def new_def Let_def)
  have ids: "map lw_id live = map lw_id (c_live c)"
    by (auto simp: live_def cancel_def split: option.split)
  have small: "\<forall>l\<in>set live. lw_id l < c_next c"
    using assms ids by (metis (no_types, lifting) imageE imageI list.set_map watch_inv_def)
  have other: "\<exists>l\<in>set live. lw_id l = n \<and> pe_BMHKey (lw_event l) = k \<and> (lw_cancelled l \<longrightarrow> c_ctx_done c)"
    if k: "k \<noteq> pe_BMHKey evt" "map_of (c_watchers c) k = Some n" for k n
  proof -
    obtain l where l: "l \<in> set (c_live c)" "lw_id l = n" "pe_BMHKey (lw_event l) = k" "lw_cancelled l \<longrightarrow> c_ctx_done c"
      using watch_inv_live [OF assms k(2)] by blast
    have "l \<in> set live"
    proof (cases "map_of (c_watchers c) (pe_BMHKey evt)")
      case (Some m)
      with watch_inv_entry(1) [OF assms Some] l k(1) have "lw_id l \<noteq> m" by blast
      with l(1) Some show ?thesis by (force simp: live_def cancel_def)
    qed (use l in \<open>simp add: live_def\<close>)
    with l show ?thesis by blast
  qed
  have "distinct (map lw_id (live @ [new]))"
    using assms ids small by (auto simp: watch_inv_def new_def)
  with assms small other show ?thesis
    unfolding watch_inv_def sel by (auto simp: new_def less_SucI)
qed

lemma watch_inv_neutral [simp]:
  "watch_inv (c\<lparr>c_world := w\<rparr>) = watch_inv c" "watch_inv (onPowerChanged c key on) = watch_inv c"
  "watch_inv (c\<lparr>c_events := es\<rparr>) = watch_inv c" "watch_inv (c\<lparr>c_store := s\<rparr>) = watch_inv c"
  by (simp_all add: watch_inv_def onPowerChanged_def)

lemma powerOnOrReset_watch: "watch_inv c \<Longrightarrow> watch_inv (snd (powerOnOrReset B evt c))"
  by (simp add: powerOnOrReset_def split_beta Let_def)

lemma handleEvent_watch: "watch_inv c \<Longrightarrow> watch_inv (handleEvent B evt c)"
  by (simp add: handleEvent_def handlePowerOff_def handleInstallBoot_def handleNormalPowerOn_def split_beta Let_def
      powerOnOrReset_watch startLeaseWatcher_watch)

lemma watch_exit_watch:
  assumes "watch_inv c"
  shows "watch_inv (watch_exit n c)"
proof (cases "find_watcher n Leaving c")
  case (Some l)
  then have l: "l \<in> set (c_live c)" "lw_id l = n" by (auto simp: find_watcher_def dest: find_SomeD)
  have "m \<noteq> n" if "map_of (c_watchers c) k = Some m" "k \<noteq> pe_BMHKey (lw_event l)" for k m
    using watch_inv_entry(1) [OF assms that(1) l(1)] that(2) l(2) by auto
  then show ?thesis
    using assms Some by (fastforce simp: watch_exit_def watch_inv_def distinct_map_filter)
qed (use assms in \<open>simp add: watch_exit_def\<close>)

lemma watch_step:
  assumes "watch_inv c"
  shows "watch_inv (bmc_step B op c)"
proof (cases op)
  case OpEvent
  then show ?thesis using assms by (simp add: Run_event_def handleEvent_watch split: list.split)
next
  case OpCancel
  then show ?thesis
    by (auto intro!: watch_inv_map [OF assms, where g = "lw_cancelled_update (\<lambda>_. True)"] simp: ctx_cancel_def)
next
  case OpDone
  obtain g where "fold cancel (map snd (c_watchers c)) (c_live c) = map g (c_live c)"
    "\<forall>l. lw_id (g l) = lw_id l \<and> lw_event (g l) = lw_event l" using fold_cancel_map by blast
  then show ?thesis using OpDone assms
    by (auto intro!: watch_inv_map [OF assms, where g = g] simp: Run_done_def)
next
  case (OpMessage ty mac)
  let ?g = "\<lambda>l. if lw_stage l = Waiting \<and> lw_sub l \<and> ty = ''LeaseCreated'' \<and>
      EqualFold mac (pe_BootMAC (lw_event l)) then l\<lparr>lw_lease := True\<rparr> else l"
  show ?thesis by (rule watch_inv_map [OF assms, of _ ?g]) (auto simp: OpMessage dhcp_message_def)
next
  case (OpSetDisk n)
  then show ?thesis using assms
    by (auto simp: watch_set_disk_def split_beta Let_def intro!: watch_inv_update split: option.split)
next
  case (OpExit n)
  with assms show ?thesis by (simp add: watch_exit_watch)
qed (use assms in \<open>auto simp: Enqueue_def SetStore_def SetPersistentDiskBoot_def watch_subscribe_def watch_cancelled_def
      watch_ready_def split_beta Let_def intro!: watch_inv_update split: option.split\<close>)

lemma watch_exec: "watch_inv c \<Longrightarrow> watch_inv (bmc_exec B ops c)"
  by (induction ops arbitrary: c) (simp_all add: watch_step)
section \<open>Properties\<close>

text \<open>
  A power event is applied as a whole or not reported: after an event has been handled, either
  \<open>OnPowerChanged\<close> was called once, with the wanted state, the machine of the host is in that state and no
  other machine was switched, an install boots from the network once and its lease watcher runs, any
  other event leaves every boot device alone; or nothing was reported, no machine was switched and no
  watcher started.
\<close>

theorem power_event_outcome:
  assumes "bmc_laws B on_of boot_of"
  shows "event_done on_of boot_of evt c (handleEvent B evt c) \<noteq> event_failed on_of boot_of evt c (handleEvent B evt c)"
proof -
  have "c_reported c \<noteq> (pe_BMHKey evt, wants_on evt) # c_reported c"
    by (metis not_Cons_self2)
  then have "\<not> (event_failed on_of boot_of evt c d \<and> event_done on_of boot_of evt c d)" for d
    by (simp add: event_failed_def event_done_def)
  then show ?thesis using bmc_laws.handleEvent_outcome [OF assms, of evt c] by blast
qed

definition sample_event :: "bool \<Rightarrow> string \<Rightarrow> power_event" where
  "sample_event on img =
     \<lparr>pe_BMHKey = ''g10/server1'', pe_BMHName = ''server1'',
      pe_Creds = \<lparr>bmc_Address = ''10.0.0.1'', bmc_Username = ''ADMIN'', bmc_Password = ''ADMIN''\<rparr>,
      pe_BootMAC = ''AA:BB'', pe_Image = img, pe_Action = (if on then PowerOn else PowerOff),
      pe_IsOnline = on, pe_WasOnline = \<not> on\<rparr>"

definition mock_start :: "(string \<Rightarrow> MockBMC) controller" where
  "mock_start = NewController True (\<lambda>a. NewMock)"

theorem power_event_outcome_witness:
  "event_done (\<lambda>w a. m_PoweredOn (w a)) (\<lambda>w a. m_BootDevice (w a)) (sample_event True ''fedora43'') mock_start
     (handleEvent MockClientFactory (sample_event True ''fedora43'') mock_start) \<and>
   c_reported (handleEvent MockClientFactory (sample_event True ''fedora43'') mock_start) = [(''g10/server1'', True)]"
proof -
  let ?c = "handleEvent MockClientFactory (sample_event True ''fedora43'') mock_start"
  have r: "c_reported ?c = [(''g10/server1'', True)]" by code_simp
  moreover have "c_reported mock_start = []" by code_simp
  ultimately show ?thesis
    using power_event_outcome [OF mock.bmc_laws_axioms, of "sample_event True ''fedora43''" mock_start]
    by (simp add: event_failed_def)
qed



definition third_install :: "power_event \<Rightarrow> instant \<Rightarrow> bmc_op list" where
  "third_install evt t =
     [OpEnqueue evt, OpEvent, OpSubscribe 0 True t, OpEnqueue evt, OpEvent, OpCancelled 0, OpExit 0,
      OpSubscribe 1 True t, OpEnqueue evt, OpEvent, OpReady 1 (t + dhcpLeaseTimeout)]"

lemma enqueue_and_run:
  assumes "c_events c = []" and "\<not> c_stopped c"
  shows "Run_event B (Enqueue c evt) = handleEvent B evt c"
proof -
  have idle: "c\<lparr>c_events := []\<rparr> = c" using assms(1) by (cases c) simp
  show ?thesis by (simp add: Run_event_def Enqueue_def assms idle)
qed

lemma mock_install:
  assumes "installs evt" and "bmc_Address (pe_Creds evt) \<noteq> []" and "\<not> m_FailNext (c_world c (bmc_Address (pe_Creds evt)))"
  shows "\<exists>w r. handleEvent MockClientFactory evt c = (startLeaseWatcher evt c)\<lparr>c_world := w, c_reported := r\<rparr> \<and>
    \<not> m_FailNext (w (bmc_Address (pe_Creds evt))) \<and> m_BootDevice (w (bmc_Address (pe_Creds evt))) = BootDevicePXE"
proof -
  have "handleEvent MockClientFactory evt c =
      (startLeaseWatcher evt c)\<lparr>c_world := c_world (handleEvent MockClientFactory evt c),
        c_reported := c_reported (handleEvent MockClientFactory evt c)\<rparr>"
    using assms by (simp add: handleEvent_def installs_def wants_on_def handleInstallBoot_def powerOnOrReset_def
        onPowerChanged_def at_mock_eq mock_method_defs startLeaseWatcher_def Let_def split: option.split)
  moreover have "\<not> m_FailNext (c_world (handleEvent MockClientFactory evt c) (bmc_Address (pe_Creds evt)))"
    "m_BootDevice (c_world (handleEvent MockClientFactory evt c) (bmc_Address (pe_Creds evt))) = BootDevicePXE"
    using assms by (simp_all add: handleEvent_def installs_def wants_on_def handleInstallBoot_def powerOnOrReset_def
        onPowerChanged_def at_mock_eq mock_method_defs startLeaseWatcher_def Let_def)
  ultimately show ?thesis by blast
qed

text \<open>
  C27. The goroutine of a watcher that was superseded removes its successor's cancel function: its deferred
  function deletes the entry of the host, not its own. After a second install boot of a host the third
  one finds no entry and cancels nothing. So two watchers of the host are alive, neither cancelled, and
  when the timer of the older one fires it selects the disk as boot device although the network boot of
  the newest install was just requested. The comments at the table and in \<open>startLeaseWatcher\<close> say that it
  avoids duplicate watchers.
\<close>

theorem superseded_watcher_unregisters_successor:
  assumes "installs evt" and "bmc_Address (pe_Creds evt) \<noteq> []" and "\<not> m_FailNext (w (bmc_Address (pe_Creds evt)))"
    and c: "c = bmc_exec MockClientFactory (third_install evt t) (NewController s w)"
  shows "map (\<lambda>l. (lw_id l, pe_BMHKey (lw_event l), lw_cancelled l)) (c_live c) =
      [(1, pe_BMHKey evt, False), (2, pe_BMHKey evt, False)] \<and>
    m_BootDevice (c_world c (bmc_Address (pe_Creds evt))) = BootDevicePXE \<and>
    m_BootDevice (c_world (watch_set_disk MockClientFactory 1 c) (bmc_Address (pe_Creds evt))) = BootDeviceDisk"
proof -
  let ?a = "bmc_Address (pe_Creds evt)" and ?k = "pe_BMHKey evt"
  let ?B = MockClientFactory
  define new where "new n = \<lparr>lw_id = n, lw_event = evt, lw_cancelled = False, lw_lease = False,
      lw_sub = False, lw_deadline = 0, lw_stage = Started\<rparr>" for n
  let ?c0 = "NewController s w"
  obtain w1 r1 where c1: "handleEvent ?B evt ?c0 = (startLeaseWatcher evt ?c0)\<lparr>c_world := w1, c_reported := r1\<rparr>"
    and w1: "\<not> m_FailNext (w1 ?a)"
    using mock_install [of evt ?c0] assms(1-3) by (auto simp: NewController_def)
  define c2 where "c2 = bmc_exec ?B [OpEnqueue evt, OpEvent, OpSubscribe 0 True t] ?c0"
  have c2: "c2 = ?c0\<lparr>c_watchers := [(?k, 0)], c_next := 1, c_world := w1, c_reported := r1,
      c_live := [(new 0)\<lparr>lw_sub := s \<and> pe_BootMAC evt \<noteq> [], lw_deadline := t + dhcpLeaseTimeout, lw_stage := Waiting\<rparr>]\<rparr>"
    using c1 by (simp add: c2_def Enqueue_def Run_event_def NewController_def startLeaseWatcher_def Let_def
        watch_subscribe_def find_watcher_def update_watcher_def new_def)
  obtain w2 r2 where e2: "handleEvent ?B evt c2 = (startLeaseWatcher evt c2)\<lparr>c_world := w2, c_reported := r2\<rparr>"
    and w2: "\<not> m_FailNext (w2 ?a)"
    using mock_install [of evt c2] assms(1-2) w1 by (auto simp: c2)
  define c4 where "c4 = bmc_exec ?B [OpEnqueue evt, OpEvent, OpCancelled 0, OpExit 0, OpSubscribe 1 True t] c2"
  have c4: "c4 = ?c0\<lparr>c_watchers := [], c_next := 2, c_world := w2, c_reported := r2,
      c_live := [(new 1)\<lparr>lw_sub := s \<and> pe_BootMAC evt \<noteq> [], lw_deadline := t + dhcpLeaseTimeout, lw_stage := Waiting\<rparr>]\<rparr>"
  proof -
    have "c4 = bmc_exec ?B [OpCancelled 0, OpExit 0, OpSubscribe 1 True t] (handleEvent ?B evt c2)"
      using enqueue_and_run [of c2 ?B evt] by (simp add: c4_def c2 NewController_def)
    then show ?thesis unfolding e2
      by (simp add: c2 startLeaseWatcher_def Let_def cancel_def new_def NewController_def watch_cancelled_def
          watch_exit_def watch_subscribe_def find_watcher_def update_watcher_def)
  qed
  obtain w3 r3 where e3: "handleEvent ?B evt c4 = (startLeaseWatcher evt c4)\<lparr>c_world := w3, c_reported := r3\<rparr>"
    and w3: "\<not> m_FailNext (w3 ?a)" "m_BootDevice (w3 ?a) = BootDevicePXE"
    using mock_install [of evt c4] assms(1-2) w2 by (auto simp: c4)
  have "c = bmc_exec ?B [OpReady 1 (t + dhcpLeaseTimeout)] (handleEvent ?B evt c4)"
  proof -
    have "Run_event ?B (Enqueue c4 evt) = handleEvent ?B evt c4"
      by (rule enqueue_and_run) (simp_all add: c4 NewController_def)
    then show ?thesis by (simp add: c third_install_def c4_def c2_def)
  qed
  then have "c = ?c0\<lparr>c_watchers := [(?k, 2)], c_next := 3, c_world := w3, c_reported := r3,
      c_live := [(new 1)\<lparr>lw_sub := s \<and> pe_BootMAC evt \<noteq> [], lw_deadline := t + dhcpLeaseTimeout, lw_stage := Setting\<rparr>, new 2]\<rparr>"
    unfolding e3 by (simp add: c4 startLeaseWatcher_def Let_def new_def NewController_def watch_ready_def
        find_watcher_def update_watcher_def)
  then show ?thesis using w3
    by (simp add: new_def watch_set_disk_def find_watcher_def at_mock_eq mock_SetBootDevice_def mock_record_def Let_def)
qed

theorem superseded_watcher_unregisters_successor_witness:
  "length (c_live (bmc_exec MockClientFactory (third_install (sample_event True ''fedora43'') 0) mock_start)) = 2 \<and>
   installs (sample_event True ''fedora43'')"
proof -
  let ?e = "sample_event True ''fedora43''"
  have i: "installs ?e" by code_simp
  have "bmc_Address (pe_Creds ?e) \<noteq> []" "\<not> m_FailNext ((\<lambda>_. NewMock) (bmc_Address (pe_Creds ?e)))" by code_simp+
  from superseded_watcher_unregisters_successor [OF i this refl, of 0 True] i show ?thesis
    unfolding mock_start_def by (auto dest: arg_cong [where f = length])
qed

end
