(* ===== verification/Hosts.thy ===== *)
theory Hosts
  imports BmcControl
begin

text \<open>
  Bare metal hosts and boot configurations: the handlers of \<open>pkg/provider/baremetalhost.go\<close>,
  \<open>bmc_integration.go\<close> and \<open>bootconfig_crd.go\<close>, with what they write into the Network objects. A host is
  mirrored as DHCP reservations in the networks it is attached to: one for its boot MAC, one per
  secondary NIC, one for its BMC. The boot image decides what the reservation tells the machine to boot.

  Calls to the DNS manager and to the REST interface of microdns go to other processes and their errors
  are only logged; they are recorded in \<open>h_calls\<close>. A request body that is decoded over an existing object
  is the function from the old object to the new one, or None for a decoding error. Whether a write to a
  bucket succeeds is the field \<open>h_ok\<close>, which the environment may change between steps. Fields that these
  files neither read nor write are left out.
\<close>

section \<open>Objects\<close>

record reservation =
  rv_MAC :: string
  rv_IP :: string
  rv_Hostname :: string
  rv_Gateway :: string
  rv_DNSServers :: "string list"
  rv_Domain :: string
  rv_NextServer :: string
  rv_BootFile :: string
  rv_BootFileEFI :: string
  rv_IPXEBootURL :: string
  rv_RootPath :: string

record network_obj =
  nw_Name :: string
  nw_Gateway :: string
  nw_Endpoint :: string
  nw_Zone :: string
  nw_Server :: string
  nw_Reservations :: "reservation list"

record nic_spec =
  nic_MAC :: string
  nic_IP :: string
  nic_Role :: string
  nic_Network :: string
  nic_Hostname :: string

record host_bmc =
  hb_Address :: string
  hb_MAC :: string
  hb_Hostname :: string
  hb_Network :: string
  hb_Username :: string
  hb_Password :: string

record host_spec =
  sp_BMC :: host_bmc
  sp_BootMACAddress :: string
  sp_Online :: "bool option"
  sp_Image :: string
  sp_Network :: string
  sp_IP :: string
  sp_Hostname :: string
  sp_NextServer :: string
  sp_BootFile :: string
  sp_BootFileEFI :: string
  sp_BootConfigRef :: string
  sp_BootMode :: string
  sp_NICs :: "nic_spec list"

record host_status =
  hst_state_Phase :: string
  hst_PoweredOn :: bool
  hst_NetworkInterfaces :: "(string, string) gomap"

record host =
  ho_Namespace :: string
  ho_Name :: string
  ho_CreationTimestamp :: "instant option"
  ho_Annotations :: "(string, string) gomap"
  ho_Spec :: host_spec
  ho_Status :: host_status

record boot_config =
  bc_Name :: string
  bc_CreationTimestamp :: "instant option"
  bc_Format :: string
  bc_Data :: "(string, string) gomap"
  bc_Phase :: string
  bc_AssignedTo :: "string list"

section \<open>State\<close>

datatype net_call =
    CleanStaleDNS string string string
  | RegisterDNS string string string
  | DeregisterDNS string string string
  | UpsertDHCP string reservation
  | DeleteDHCP string string
  | SnapshotDNS string string string

datatype host_bucket = BHosts | BNetworks | BBootConfigs

record host_state =
  h_hosts :: "(string, host) gomap"
  h_hostStore :: "(string, host) gomap option"
  h_networks :: "(string, network_obj) gomap"
  h_netStore :: "(string, network_obj) gomap option"
  h_bootConfigs :: "(string, boot_config) gomap"
  h_bootStore :: "(string, boot_config) gomap option"
  h_cdroms :: "(string, string) gomap"
  h_bmc :: bool
  h_events :: "power_event list"
  h_kick :: bool
  h_calls :: "net_call list"
  h_ok :: "host_bucket \<Rightarrow> string \<Rightarrow> bool"

text \<open>The resolver, and the zone and the gateway of the default network of the configuration.\<close>

record host_env =
  he_LookupHost :: "string \<Rightarrow> string list option"
  he_Zone :: string
  he_Gateway :: string

definition call :: "net_call \<Rightarrow> host_state \<Rightarrow> host_state" where
  "call x st = st\<lparr>h_calls := h_calls st @ [x]\<rparr>"

definition ToLower :: "string \<Rightarrow> string" where
  "ToLower s = map to_lower s"

fun firstNonEmpty :: "string list \<Rightarrow> string" where
  "firstNonEmpty [] = []"
| "firstNonEmpty (v # vals) = (if v \<noteq> [] then v else firstNonEmpty vals)"

text \<open>A write through \<open>PutJSON\<close>: whether its error is nil, and the bucket.\<close>

definition put_json :: "bool \<Rightarrow> (string, 'v) gomap option \<Rightarrow> string \<Rightarrow> 'v \<Rightarrow> bool \<times> (string, 'v) gomap option" where
  "put_json ok b key v =
     (case b of None \<Rightarrow> (True, None) | Some m \<Rightarrow> if ok then (True, Some (AList.update key v m)) else (False, Some m))"

section \<open>Reservations on networks\<close>

definition networkDNSEndpoint :: "network_obj \<Rightarrow> string" where
  "networkDNSEndpoint n =
     (if nw_Endpoint n \<noteq> [] then nw_Endpoint n
      else if nw_Server n \<noteq> [] then ''http://'' @ nw_Server n @ '':8080'' else [])"

fun upsert_res :: "reservation \<Rightarrow> reservation list \<Rightarrow> reservation list" where
  "upsert_res r [] = [r]"
| "upsert_res r (e # es) = (if ToLower (rv_MAC e) = ToLower (rv_MAC r) then r # es else e # upsert_res r es)"

definition fill_defaults :: "network_obj \<Rightarrow> reservation \<Rightarrow> reservation" where
  "fill_defaults n res =
     (let res = (if rv_Gateway res = [] \<and> nw_Gateway n \<noteq> [] then res\<lparr>rv_Gateway := nw_Gateway n\<rparr> else res);
          res = (if rv_DNSServers res = [] \<and> nw_Server n \<noteq> [] then res\<lparr>rv_DNSServers := [nw_Server n]\<rparr> else res)
      in if rv_Domain res = [] \<and> nw_Zone n \<noteq> [] then res\<lparr>rv_Domain := nw_Zone n\<rparr> else res)"

definition upsertNetworkReservation :: "string \<Rightarrow> reservation \<Rightarrow> host_state \<Rightarrow> host_state" where
  "upsertNetworkReservation networkName res st =
     (case map_of (h_networks st) networkName of
        None \<Rightarrow> st
      | Some n \<Rightarrow>
          (let res = fill_defaults n res;
               n = n\<lparr>nw_Reservations := upsert_res res (nw_Reservations n)\<rparr>;
               (ok, b) = put_json (h_ok st BNetworks (nw_Name n)) (h_netStore st) (nw_Name n) n;
               st = st\<lparr>h_networks := AList.update networkName n (h_networks st), h_netStore := b\<rparr>;
               endpoint = networkDNSEndpoint n
           in if \<not> ok then st
              else if endpoint \<noteq> [] then call (UpsertDHCP endpoint res) st else st))"

definition removeBMHFromNetwork :: "string \<Rightarrow> string \<Rightarrow> host_state \<Rightarrow> host_state" where
  "removeBMHFromNetwork mac networkName st =
     (if mac = [] \<or> networkName = [] then st
      else case map_of (h_networks st) networkName of
             None \<Rightarrow> st
           | Some n \<Rightarrow>
               (let rs = filter (\<lambda>r. ToLower (rv_MAC r) \<noteq> ToLower mac) (nw_Reservations n)
                in if length rs = length (nw_Reservations n) then st
                   else let n = n\<lparr>nw_Reservations := rs\<rparr>;
                            (ok, b) = put_json (h_ok st BNetworks (nw_Name n)) (h_netStore st) (nw_Name n) n;
                            st = st\<lparr>h_networks := AList.update networkName n (h_networks st), h_netStore := b\<rparr>;
                            endpoint = networkDNSEndpoint n
                        in if \<not> ok then st
                           else let st = (if endpoint \<noteq> [] then call (DeleteDHCP endpoint mac) st else st)
                                in call (SnapshotDNS (nw_Name n) endpoint (nw_Zone n)) st))"

section \<open>Synchronising a host\<close>

definition host_hostname :: "host \<Rightarrow> string" where
  "host_hostname b = firstNonEmpty [sp_Hostname (ho_Spec b), ho_Name b]"

definition nic_network :: "host \<Rightarrow> nic_spec \<Rightarrow> string" where
  "nic_network b nic = (if nic_Network nic = [] then sp_Network (ho_Spec b) else nic_Network nic)"

definition nic_hostname :: "host \<Rightarrow> nic_spec \<Rightarrow> string" where
  "nic_hostname b nic = firstNonEmpty [nic_Hostname nic, host_hostname b @ ''-'' @ nic_Role nic]"

definition empty_reservation :: reservation where
  "empty_reservation =
     \<lparr>rv_MAC = [], rv_IP = [], rv_Hostname = [], rv_Gateway = [], rv_DNSServers = [], rv_Domain = [], rv_NextServer = [],
      rv_BootFile = [], rv_BootFileEFI = [], rv_IPXEBootURL = [], rv_RootPath = []\<rparr>"

definition ipxe_url :: "host_env \<Rightarrow> string" where
  "ipxe_url env =
     (let mkubeHost = ''mkube.'' @ he_Zone env
      in case he_LookupHost env mkubeHost of
           Some (ip # _) \<Rightarrow> ''http://'' @ ip @ '':8082/api/v1/ipxe/boot''
         | _ \<Rightarrow> ''http://'' @ mkubeHost @ '':8082/api/v1/ipxe/boot'')"

definition portal_ip :: "host_env \<Rightarrow> host_state \<Rightarrow> string \<Rightarrow> string" where
  "portal_ip env st netName =
     (let ip = (case map_of (h_networks st) netName of None \<Rightarrow> [] | Some n \<Rightarrow> nw_Gateway n)
      in if ip = [] then he_Gateway env else ip)"

definition iscsi_target :: "host_env \<Rightarrow> host_state \<Rightarrow> string \<Rightarrow> string \<Rightarrow> string" where
  "iscsi_target env st netName iqn = ''iscsi:'' @ portal_ip env st netName @ ''::::'' @ iqn"

definition root_path :: "host_env \<Rightarrow> host_state \<Rightarrow> host \<Rightarrow> string" where
  "root_path env st b =
     (let img = sp_Image (ho_Spec b)
      in if img \<noteq> [] \<and> img \<noteq> ''localboot''
         then case map_of (h_cdroms st) img of
                None \<Rightarrow> []
              | Some iqn \<Rightarrow> if iqn \<noteq> [] then iscsi_target env st (sp_Network (ho_Spec b)) iqn else []
         else [])"

definition data_reservation :: "host_env \<Rightarrow> host_state \<Rightarrow> host \<Rightarrow> reservation" where
  "data_reservation env st b =
     (let s = ho_Spec b
      in empty_reservation\<lparr>rv_MAC := sp_BootMACAddress s, rv_IP := sp_IP s, rv_Hostname := host_hostname b,
           rv_NextServer := sp_NextServer s, rv_BootFile := sp_BootFile s, rv_BootFileEFI := sp_BootFileEFI s,
           rv_IPXEBootURL := (if sp_Image s \<noteq> [] \<and> sp_Image s \<noteq> ''baremetalservices'' then ipxe_url env else []),
           rv_RootPath := root_path env st b\<rparr>)"

definition nic_reservation :: "host \<Rightarrow> nic_spec \<Rightarrow> reservation" where
  "nic_reservation b nic =
     empty_reservation\<lparr>rv_MAC := nic_MAC nic, rv_IP := nic_IP nic, rv_Hostname := nic_hostname b nic, rv_Gateway := ''0.0.0.0''\<rparr>"

definition ipmi_reservation :: "host \<Rightarrow> reservation" where
  "ipmi_reservation b =
     (let m = sp_BMC (ho_Spec b)
      in empty_reservation\<lparr>rv_MAC := hb_MAC m, rv_IP := hb_Address m,
           rv_Hostname := firstNonEmpty [hb_Hostname m, ho_Name b @ ''-ipmi'']\<rparr>)"

definition sync_old_data :: "host \<Rightarrow> string \<Rightarrow> string \<Rightarrow> string \<Rightarrow> host_state \<Rightarrow> host_state" where
  "sync_old_data b oldDataNetwork oldHostname oldIP st =
     (if oldDataNetwork \<noteq> [] \<and> oldDataNetwork \<noteq> sp_Network (ho_Spec b)
      then let st = removeBMHFromNetwork (sp_BootMACAddress (ho_Spec b)) oldDataNetwork st
           in if oldIP \<noteq> [] \<and> oldHostname \<noteq> [] then call (DeregisterDNS oldDataNetwork oldHostname oldIP) st else st
      else st)"

definition register_dns :: "string \<Rightarrow> string \<Rightarrow> string \<Rightarrow> host_state \<Rightarrow> host_state" where
  "register_dns net hostname ip st = call (RegisterDNS net hostname ip) (call (CleanStaleDNS net hostname ip) st)"

definition sync_data :: "host_env \<Rightarrow> host \<Rightarrow> host_state \<Rightarrow> host_state" where
  "sync_data env b st =
     (let s = ho_Spec b
      in if sp_Network s \<noteq> [] \<and> sp_BootMACAddress s \<noteq> []
         then let st = upsertNetworkReservation (sp_Network s) (data_reservation env st b) st
              in if sp_IP s \<noteq> [] \<and> host_hostname b \<noteq> [] then register_dns (sp_Network s) (host_hostname b) (sp_IP s) st
                 else st
         else st)"

definition sync_nic :: "host \<Rightarrow> nic_spec \<Rightarrow> host_state \<Rightarrow> host_state" where
  "sync_nic b nic st =
     (if nic_network b nic = [] \<or> nic_MAC nic = [] then st
      else let st = upsertNetworkReservation (nic_network b nic) (nic_reservation b nic) st
           in if nic_IP nic \<noteq> [] then register_dns (nic_network b nic) (nic_hostname b nic) (nic_IP nic) st else st)"

definition sync_ipmi :: "host \<Rightarrow> string \<Rightarrow> host_state \<Rightarrow> host_state" where
  "sync_ipmi b oldIPMINetwork st =
     (let m = sp_BMC (ho_Spec b);
          st = (if oldIPMINetwork \<noteq> [] \<and> oldIPMINetwork \<noteq> hb_Network m
                then removeBMHFromNetwork (hb_MAC m) oldIPMINetwork st else st)
      in if hb_Network m \<noteq> [] \<and> hb_MAC m \<noteq> [] then upsertNetworkReservation (hb_Network m) (ipmi_reservation b) st else st)"

definition notify_network :: "string \<Rightarrow> host_state \<Rightarrow> host_state" where
  "notify_network netName st =
     (if netName = [] then st
      else case map_of (h_networks st) netName of
             None \<Rightarrow> st
           | Some n \<Rightarrow> call (SnapshotDNS netName (networkDNSEndpoint n) (nw_Zone n)) st)"

definition syncBMHToNetwork :: "host_env \<Rightarrow> host \<Rightarrow> string \<Rightarrow> string \<Rightarrow> string \<Rightarrow> string \<Rightarrow> host_state \<Rightarrow> host_state" where
  "syncBMHToNetwork env b oldDataNetwork oldIPMINetwork oldHostname oldIP st =
     (let st = sync_old_data b oldDataNetwork oldHostname oldIP st;
          st = sync_data env b st;
          st = fold (sync_nic b) (sp_NICs (ho_Spec b)) st;
          st = sync_ipmi b oldIPMINetwork st
      in fold notify_network [sp_Network (ho_Spec b), hb_Network (sp_BMC (ho_Spec b))] st)"

definition clean_nic :: "host \<Rightarrow> host \<Rightarrow> nic_spec \<Rightarrow> host_state \<Rightarrow> host_state" where
  "clean_nic oldBMH newBMH nic st =
     (if ToLower (nic_MAC nic) \<in> set (map (\<lambda>n. ToLower (nic_MAC n)) (sp_NICs (ho_Spec newBMH))) then st
      else let st = removeBMHFromNetwork (nic_MAC nic) (nic_network oldBMH nic) st
           in if nic_network oldBMH nic \<noteq> [] \<and> nic_IP nic \<noteq> []
              then call (DeregisterDNS (nic_network oldBMH nic) (nic_hostname oldBMH nic) (nic_IP nic)) st else st)"

definition cleanRemovedNICs :: "host \<Rightarrow> host \<Rightarrow> host_state \<Rightarrow> host_state" where
  "cleanRemovedNICs oldBMH newBMH st = fold (clean_nic oldBMH newBMH) (sp_NICs (ho_Spec oldBMH)) st"
section \<open>Boot configurations\<close>

definition persistBootConfig :: "boot_config \<Rightarrow> host_state \<Rightarrow> host_state" where
  "persistBootConfig bc st =
     st\<lparr>h_bootStore := snd (put_json (h_ok st BBootConfigs (bc_Name bc)) (h_bootStore st) (bc_Name bc) bc)\<rparr>"

text \<open>Both functions that take a host off the list of a boot configuration, and the one that adds it.\<close>

definition unassign :: "string \<Rightarrow> string \<Rightarrow> host_state \<Rightarrow> host_state" where
  "unassign bmhName ref st =
     (case map_of (h_bootConfigs st) ref of
        None \<Rightarrow> st
      | Some bc \<Rightarrow>
          (let bc = bc\<lparr>bc_AssignedTo := filter (\<lambda>n. n \<noteq> bmhName) (bc_AssignedTo bc)\<rparr>
           in persistBootConfig bc (st\<lparr>h_bootConfigs := AList.update ref bc (h_bootConfigs st)\<rparr>)))"

definition assign :: "string \<Rightarrow> string \<Rightarrow> host_state \<Rightarrow> host_state" where
  "assign bmhName ref st =
     (case map_of (h_bootConfigs st) ref of
        None \<Rightarrow> st
      | Some bc \<Rightarrow>
          if bmhName \<in> set (bc_AssignedTo bc) then st
          else let bc = bc\<lparr>bc_AssignedTo := bc_AssignedTo bc @ [bmhName]\<rparr>
               in persistBootConfig bc (st\<lparr>h_bootConfigs := AList.update ref bc (h_bootConfigs st)\<rparr>))"

definition syncBootConfigRef :: "string \<Rightarrow> string \<Rightarrow> string \<Rightarrow> host_state \<Rightarrow> host_state" where
  "syncBootConfigRef bmhName oldRef newRef st =
     (let st = (if oldRef \<noteq> [] \<and> oldRef \<noteq> newRef then unassign bmhName oldRef st else st)
      in if newRef \<noteq> [] then assign bmhName newRef st else st)"

definition removeBootConfigRef :: "string \<Rightarrow> string \<Rightarrow> host_state \<Rightarrow> host_state" where
  "removeBootConfigRef bmhName ref st = (if ref = [] then st else unassign bmhName ref st)"

definition handleCreateBootConfig :: "instant \<Rightarrow> boot_config option \<Rightarrow> host_state \<Rightarrow> boot_config response \<times> host_state" where
  "handleCreateBootConfig now body st =
     (case body of
        None \<Rightarrow> (HttpError 400, st)
      | Some bc \<Rightarrow>
          if bc_Name bc = [] then (HttpError 400, st)
          else if gm_has (h_bootConfigs st) (bc_Name bc) then (HttpError 409, st)
          else let bc = (if bc_CreationTimestamp bc = None then bc\<lparr>bc_CreationTimestamp := Some now\<rparr> else bc);
                   bc = (if bc_Format bc = [] then bc\<lparr>bc_Format := ''custom''\<rparr> else bc);
                   bc = (if bc_Phase bc = [] then bc\<lparr>bc_Phase := ''Active''\<rparr> else bc);
                   (ok, b) = put_json (h_ok st BBootConfigs (bc_Name bc)) (h_bootStore st) (bc_Name bc) bc
               in if \<not> ok then (HttpError 500, st)
                  else (HttpOk 201 bc, st\<lparr>h_bootStore := b, h_bootConfigs := AList.update (bc_Name bc) bc (h_bootConfigs st)\<rparr>))"

definition handleUpdateBootConfig :: "string \<Rightarrow> boot_config option \<Rightarrow> host_state \<Rightarrow> boot_config response \<times> host_state" where
  "handleUpdateBootConfig name body st =
     (case map_of (h_bootConfigs st) name of
        None \<Rightarrow> (HttpError 404, st)
      | Some old \<Rightarrow>
          (case body of
             None \<Rightarrow> (HttpError 400, st)
           | Some bc \<Rightarrow>
               (let bc = bc\<lparr>bc_Name := name\<rparr>;
                    bc = (if bc_CreationTimestamp bc = None then bc\<lparr>bc_CreationTimestamp := bc_CreationTimestamp old\<rparr> else bc);
                    bc = (if bc_Phase bc = [] then bc\<lparr>bc_Phase := bc_Phase old, bc_AssignedTo := bc_AssignedTo old\<rparr> else bc);
                    (ok, b) = put_json (h_ok st BBootConfigs name) (h_bootStore st) name bc
                in if \<not> ok then (HttpError 500, st)
                   else (HttpOk 200 bc, st\<lparr>h_bootStore := b, h_bootConfigs := AList.update name bc (h_bootConfigs st)\<rparr>))))"

definition handlePatchBootConfig :: "string \<Rightarrow> (boot_config \<Rightarrow> boot_config option) option \<Rightarrow> host_state \<Rightarrow> boot_config response \<times> host_state" where
  "handlePatchBootConfig name body st =
     (case map_of (h_bootConfigs st) name of
        None \<Rightarrow> (HttpError 404, st)
      | Some existing \<Rightarrow>
          (case body of
             None \<Rightarrow> (HttpError 400, st)
           | Some patch \<Rightarrow>
               (case patch existing of
                  None \<Rightarrow> (HttpError 400, st)
                | Some merged \<Rightarrow>
                    (let merged = merged\<lparr>bc_Name := name, bc_CreationTimestamp := bc_CreationTimestamp existing\<rparr>;
                         (ok, b) = put_json (h_ok st BBootConfigs name) (h_bootStore st) name merged
                     in if \<not> ok then (HttpError 500, st)
                        else (HttpOk 200 merged, st\<lparr>h_bootStore := b, h_bootConfigs := AList.update name merged (h_bootConfigs st)\<rparr>)))))"

definition handleDeleteBootConfig :: "string \<Rightarrow> host_state \<Rightarrow> unit response \<times> host_state" where
  "handleDeleteBootConfig name st =
     (case map_of (h_bootConfigs st) name of
        None \<Rightarrow> (HttpError 404, st)
      | Some bc \<Rightarrow>
          if bc_AssignedTo bc \<noteq> [] then (HttpError 409, st)
          else let (ok, b) = del_bucket (h_ok st BBootConfigs) (h_bootStore st) name
               in if \<not> ok then (HttpError 500, st)
                  else (HttpOk 200 (), st\<lparr>h_bootStore := b, h_bootConfigs := AList.delete name (h_bootConfigs st)\<rparr>))"

section \<open>Handlers of hosts\<close>

definition host_key :: "string \<Rightarrow> string \<Rightarrow> string" where
  "host_key ns name = ns @ ''/'' @ name"

definition is_online :: "host \<Rightarrow> bool" where
  "is_online b \<longleftrightarrow> sp_Online (ho_Spec b) = Some True"

definition enqueue_power :: "host \<Rightarrow> bool \<Rightarrow> bool \<Rightarrow> host_state \<Rightarrow> host_state" where
  "enqueue_power b wasOnline isOnline st =
     (let m = sp_BMC (ho_Spec b)
      in if \<not> h_bmc st \<or> hb_Address m = [] then st
         else if length (h_events st) < 32
         then st\<lparr>h_events := h_events st @
                [\<lparr>pe_BMHKey = host_key (ho_Namespace b) (ho_Name b), pe_BMHName = ho_Name b,
                  pe_Creds = \<lparr>bmc_Address = hb_Address m, bmc_Username = hb_Username m, bmc_Password = hb_Password m\<rparr>,
                  pe_BootMAC = sp_BootMACAddress (ho_Spec b), pe_Image = sp_Image (ho_Spec b),
                  pe_Action = (if isOnline then PowerOn else PowerOff), pe_IsOnline = isOnline, pe_WasOnline = wasOnline\<rparr>]\<rparr>
         else st)"

abbreviation set_bmc :: "(host_bmc \<Rightarrow> host_bmc) \<Rightarrow> host \<Rightarrow> host" where
  "set_bmc f \<equiv> ho_Spec_update (sp_BMC_update f)"

definition default_credentials :: "host \<Rightarrow> host" where
  "default_credentials b =
     (if hb_Address (sp_BMC (ho_Spec b)) \<noteq> []
      then let b = (if hb_Username (sp_BMC (ho_Spec b)) = [] then set_bmc (hb_Username_update (\<lambda>_. ''ADMIN'')) b else b)
           in if hb_Password (sp_BMC (ho_Spec b)) = [] then set_bmc (hb_Password_update (\<lambda>_. ''ADMIN'')) b else b
      else b)"

definition handleCreateBMH :: "host_env \<Rightarrow> instant \<Rightarrow> string \<Rightarrow> host option \<Rightarrow> host_state \<Rightarrow> host response \<times> host_state" where
  "handleCreateBMH env now ns body st =
     (case body of
        None \<Rightarrow> (HttpError 400, st)
      | Some b \<Rightarrow>
          (let b = b\<lparr>ho_Namespace := ns\<rparr>
           in if ho_Name b = [] then (HttpError 400, st)
              else let b = (if ho_CreationTimestamp b = None then b\<lparr>ho_CreationTimestamp := Some now\<rparr> else b);
                       b = (if hst_state_Phase (ho_Status b) = []
                            then ho_Status_update (hst_state_Phase_update (\<lambda>_. ''Registering'')) b else b);
                       b = default_credentials b;
                       key = host_key ns (ho_Name b)
                   in if gm_has (h_hosts st) key then (HttpError 409, st)
                      else let (ok, bk) = put_json (h_ok st BHosts (store_key ns (ho_Name b))) (h_hostStore st) (store_key ns (ho_Name b)) b
                           in if \<not> ok then (HttpError 500, st)
                              else let st = st\<lparr>h_hostStore := bk, h_hosts := AList.update key b (h_hosts st)\<rparr>;
                                       st = syncBMHToNetwork env b [] [] [] [] st;
                                       st = syncBootConfigRef (ho_Name b) [] (sp_BootConfigRef (ho_Spec b)) st
                                   in (HttpOk 201 b, st\<lparr>h_kick := True\<rparr>)))"

text \<open>
  What an update makes of the decoded object: the key, kept credentials, the mark of manual power;
  \<open>ts\<close> is the current time as the code formats it.
\<close>

definition normalise_update :: "string \<Rightarrow> string \<Rightarrow> string \<Rightarrow> host \<Rightarrow> host \<Rightarrow> host" where
  "normalise_update ts ns name existing b =
     (let b = b\<lparr>ho_Namespace := ns, ho_Name := name\<rparr>;
          old = sp_BMC (ho_Spec existing);
          b = (if hb_Username (sp_BMC (ho_Spec b)) = [] \<and> hb_Username old \<noteq> []
               then set_bmc (hb_Username_update (\<lambda>_. hb_Username old)) b else b);
          b = (if hb_Password (sp_BMC (ho_Spec b)) = [] \<and> hb_Password old \<noteq> []
               then set_bmc (hb_Password_update (\<lambda>_. hb_Password old)) b else b);
          b = (if is_online b \<and> \<not> is_online existing
               then b\<lparr>ho_Annotations := AList.update ''bmh.mkube.io/manual-power'' ts (ho_Annotations b)\<rparr> else b)
      in if \<not> is_online b \<and> is_online existing
         then b\<lparr>ho_Annotations := AList.delete ''bmh.mkube.io/manual-power'' (ho_Annotations b)\<rparr> else b)"

definition handleUpdateBMH :: "host_env \<Rightarrow> string \<Rightarrow> string \<Rightarrow> string \<Rightarrow> (host \<Rightarrow> host option) \<Rightarrow> host_state \<Rightarrow> host response \<times> host_state" where
  "handleUpdateBMH env ts ns name body st =
     (let key = host_key ns name
      in case map_of (h_hosts st) key of
           None \<Rightarrow> (HttpError 404, st)
         | Some existing \<Rightarrow>
             (case body existing of
                None \<Rightarrow> (HttpError 400, st)
              | Some decoded \<Rightarrow>
                  (let b = normalise_update ts ns name existing decoded;
                       wasOnline = is_online existing;
                       isOnline = is_online b;
                       (ok, bk) = put_json (h_ok st BHosts (store_key ns name)) (h_hostStore st) (store_key ns name) b
                   in if \<not> ok then (HttpError 500, st)
                      else let st = st\<lparr>h_hostStore := bk, h_hosts := AList.update key b (h_hosts st)\<rparr>;
                               st = (if isOnline \<noteq> wasOnline then enqueue_power b wasOnline isOnline st else st);
                               st = (if isOnline \<and> wasOnline \<and> sp_Image (ho_Spec b) \<noteq> sp_Image (ho_Spec existing) \<and>
                                        IsInstallImage (sp_Image (ho_Spec b))
                                     then enqueue_power b True True st else st);
                               st = cleanRemovedNICs existing b st;
                               st = syncBMHToNetwork env b (sp_Network (ho_Spec existing)) (hb_Network (sp_BMC (ho_Spec existing)))
                                      (host_hostname existing) (sp_IP (ho_Spec existing)) st;
                               st = syncBootConfigRef (ho_Name b) (sp_BootConfigRef (ho_Spec existing)) (sp_BootConfigRef (ho_Spec b)) st
                           in (HttpOk 200 b, st\<lparr>h_kick := True\<rparr>))))"

text \<open>\<open>PATCH\<close> reads the whole body first; from there on it is the same as \<open>PUT\<close>.\<close>

definition handlePatchBMH :: "host_env \<Rightarrow> string \<Rightarrow> string \<Rightarrow> string \<Rightarrow> (host \<Rightarrow> host option) option \<Rightarrow> host_state \<Rightarrow> host response \<times> host_state" where
  "handlePatchBMH env ts ns name body st =
     (case body of
        None \<Rightarrow> (if gm_has (h_hosts st) (host_key ns name) then (HttpError 400, st) else (HttpError 404, st))
      | Some patch \<Rightarrow> handleUpdateBMH env ts ns name patch st)"

definition delete_nic :: "host \<Rightarrow> nic_spec \<Rightarrow> host_state \<Rightarrow> host_state" where
  "delete_nic b nic st =
     (let st = removeBMHFromNetwork (nic_MAC nic) (nic_network b nic) st
      in if nic_network b nic \<noteq> [] \<and> nic_IP nic \<noteq> []
         then call (DeregisterDNS (nic_network b nic) (host_hostname b @ ''-'' @ nic_Role nic) (nic_IP nic)) st else st)"

definition handleDeleteBMH :: "string \<Rightarrow> string \<Rightarrow> host_state \<Rightarrow> unit response \<times> host_state" where
  "handleDeleteBMH ns name st =
     (let key = host_key ns name
      in case map_of (h_hosts st) key of
           None \<Rightarrow> (HttpError 404, st)
         | Some b \<Rightarrow>
             (let s = ho_Spec b;
                  st = removeBMHFromNetwork (sp_BootMACAddress s) (sp_Network s) st;
                  st = removeBMHFromNetwork (hb_MAC (sp_BMC s)) (hb_Network (sp_BMC s)) st;
                  st = fold (delete_nic b) (sp_NICs s) st;
                  st = (if sp_Network s \<noteq> [] \<and> sp_IP s \<noteq> []
                        then call (DeregisterDNS (sp_Network s) (host_hostname b) (sp_IP s)) st else st);
                  st = removeBootConfigRef (ho_Name b) (sp_BootConfigRef s) st;
                  st = st\<lparr>h_hosts := AList.delete key (h_hosts st)\<rparr>;
                  st = st\<lparr>h_hostStore := snd (del_bucket (h_ok st BHosts) (h_hostStore st) (store_key ns name))\<rparr>
              in (HttpOk 200 (), st)))"

definition updateBMHFields :: "string \<Rightarrow> (host \<Rightarrow> host) \<Rightarrow> host_state \<Rightarrow> bool \<times> host_state" where
  "updateBMHFields key mutate st =
     (case map_of (h_hosts st) key of
        None \<Rightarrow> (False, st)
      | Some b \<Rightarrow>
          (let b = mutate b;
               st = st\<lparr>h_hosts := AList.update key b (h_hosts st)\<rparr>
           in case splitN 2 (CHR ''/'') key of
                [ns, name] \<Rightarrow>
                  (let (ok, bk) = put_json (h_ok st BHosts (store_key ns name)) (h_hostStore st) (store_key ns name) b
                   in (ok, st\<lparr>h_hostStore := bk\<rparr>))
              | _ \<Rightarrow> (True, st)))"

definition set_annotation :: "string \<Rightarrow> string \<Rightarrow> host \<Rightarrow> host" where
  "set_annotation k v b = b\<lparr>ho_Annotations := AList.update k v (ho_Annotations b)\<rparr>"

definition handleRefreshBMH :: "string \<Rightarrow> string \<Rightarrow> string \<Rightarrow> host_state \<Rightarrow> unit response \<times> host_state" where
  "handleRefreshBMH ts ns name st =
     (let (ok, st) = updateBMHFields (host_key ns name) (set_annotation ''bmh.mkube.io/refresh'' ts) st
      in (if ok then HttpOk 200 () else HttpError 500, st))"

definition handleRefreshAllBMH :: "string \<Rightarrow> host_state \<Rightarrow> string list response \<times> host_state" where
  "handleRefreshAllBMH ts st =
     (let (names, st) =
        fold (\<lambda>(key, b) (names, st).
               let (ok, st) = updateBMHFields key (set_annotation ''bmh.mkube.io/refresh'' ts) st
               in (if ok then names @ [ho_Name b] else names, st))
          (h_hosts st) ([], st)
      in (HttpOk 200 names, st))"

definition set_localboot :: "host \<Rightarrow> host" where
  "set_localboot = ho_Spec_update (sp_Image_update (\<lambda>_. ''localboot''))"

definition bmcPowerChangedCallback :: "string \<Rightarrow> bool \<Rightarrow> host_state \<Rightarrow> host_state" where
  "bmcPowerChangedCallback bmhKey poweredOn st =
     snd (updateBMHFields bmhKey (ho_Status_update (hst_PoweredOn_update (\<lambda>_. poweredOn))) st)"

definition bmcInstallBootedCallback :: "host_env \<Rightarrow> string \<Rightarrow> host_state \<Rightarrow> host_state" where
  "bmcInstallBootedCallback env bmhKey st =
     (let (ok, st) = updateBMHFields bmhKey set_localboot st
      in if \<not> ok then st
         else case map_of (h_hosts st) bmhKey of
                None \<Rightarrow> st
              | Some b \<Rightarrow> syncBMHToNetwork env b (sp_Network (ho_Spec b)) (hb_Network (sp_BMC (ho_Spec b)))
                            (host_hostname b) (sp_IP (ho_Spec b)) st)"
section \<open>Booting\<close>

text \<open>
  Requests of a booting machine; \<open>sourceIP\<close> is the address of the peer without its port. The code takes the
  first host of that address in the order in which it ranges over its map, which may differ from request
  to request; the order of the list stands for it, and what is proved of these requests holds for every
  order of the list.
\<close>

definition host_by_ip :: "string \<Rightarrow> host_state \<Rightarrow> (string \<times> host) option" where
  "host_by_ip sourceIP st = List.find (\<lambda>(key, b). sp_IP (ho_Spec b) = sourceIP) (h_hosts st)"

datatype ipxe_script = IpxeExit | IpxeSanboot string

text \<open>The script that is served, and the key of the host whose image the goroutine is to switch.\<close>

definition handleIPXEBoot :: "host_env \<Rightarrow> string \<Rightarrow> host_state \<Rightarrow> ipxe_script \<times> string option" where
  "handleIPXEBoot env sourceIP st =
     (case host_by_ip sourceIP st of
        None \<Rightarrow> (IpxeExit, None)
      | Some (matchedKey, b) \<Rightarrow>
          (let img = sp_Image (ho_Spec b)
           in if img = ''localboot'' \<or> img = [] then (IpxeExit, None)
              else case map_of (h_cdroms st) img of
                     None \<Rightarrow> (IpxeExit, None)
                   | Some iqn \<Rightarrow>
                       if iqn = [] then (IpxeExit, None)
                       else (IpxeSanboot (iscsi_target env st (sp_Network (ho_Spec b)) iqn),
                             if sp_BootMode (ho_Spec b) \<noteq> ''forever'' then Some matchedKey else None)))"

text \<open>Switching a host to localboot and synchronising its reservation, as two handlers do it.\<close>

definition switch_localboot :: "host_env \<Rightarrow> string \<Rightarrow> host_state \<Rightarrow> bool \<times> host_state" where
  "switch_localboot env key st =
     (let (ok, st) = updateBMHFields key set_localboot st
      in if \<not> ok then (False, st)
         else (True, case map_of (h_hosts st) key of
                       None \<Rightarrow> st
                     | Some b \<Rightarrow> syncBMHToNetwork env b (sp_Network (ho_Spec b)) (hb_Network (sp_BMC (ho_Spec b)))
                                   (ho_Name b) (sp_IP (ho_Spec b)) st))"

definition ipxe_goroutine :: "host_env \<Rightarrow> string \<Rightarrow> host_state \<Rightarrow> host_state" where
  "ipxe_goroutine env key st = snd (switch_localboot env key st)"

definition handleBootComplete :: "host_env \<Rightarrow> string \<Rightarrow> host_state \<Rightarrow> unit response \<times> host_state" where
  "handleBootComplete env sourceIP st =
     (case host_by_ip sourceIP st of
        None \<Rightarrow> (HttpError 404, st)
      | Some (key, b) \<Rightarrow>
          (let (ok, st) = switch_localboot env key st
           in (if ok then HttpOk 200 () else HttpError 500, st)))"

definition content_type :: "string \<Rightarrow> string" where
  "content_type fmt =
     (if fmt = ''ignition'' then ''application/vnd.coreos.ignition+json''
      else if fmt = ''cloud-init'' then ''text/yaml''
      else if fmt = ''kickstart'' then ''text/plain'' else ''application/octet-stream'')"

definition serve_first :: "boot_config \<Rightarrow> (string \<times> string) response" where
  "serve_first bc =
     (case bc_Data bc of [] \<Rightarrow> HttpError 404 | (_, content) # _ \<Rightarrow> HttpOk 200 (content_type (bc_Format bc), content))"

definition handleServeBootConfig :: "string \<Rightarrow> host_state \<Rightarrow> (string \<times> string) response" where
  "handleServeBootConfig name st =
     (case map_of (h_bootConfigs st) name of None \<Rightarrow> HttpError 404 | Some bc \<Rightarrow> serve_first bc)"

definition handleBootConfigLookup :: "string \<Rightarrow> host_state \<Rightarrow> (string \<times> string) response" where
  "handleBootConfigLookup sourceIP st =
     (case host_by_ip sourceIP st of
        None \<Rightarrow> HttpError 404
      | Some (_, b) \<Rightarrow>
          if sp_BootConfigRef (ho_Spec b) = [] then HttpError 404
          else case map_of (h_bootConfigs st) (sp_BootConfigRef (ho_Spec b)) of
                 None \<Rightarrow> HttpError 404
               | Some bc \<Rightarrow> serve_first bc)"

section \<open>Reading and loading\<close>

definition handleGetBMH :: "string \<Rightarrow> string \<Rightarrow> host_state \<Rightarrow> host response" where
  "handleGetBMH ns name st = (case map_of (h_hosts st) (host_key ns name) of None \<Rightarrow> HttpError 404 | Some b \<Rightarrow> HttpOk 200 b)"

definition bmhReferencesNetwork :: "host \<Rightarrow> string \<Rightarrow> bool" where
  "bmhReferencesNetwork b network \<longleftrightarrow>
     (if ho_Namespace b = network then True
      else if sp_Network (ho_Spec b) \<noteq> [] \<and> sp_Network (ho_Spec b) = network then True
      else if hb_Network (sp_BMC (ho_Spec b)) \<noteq> [] \<and> hb_Network (sp_BMC (ho_Spec b)) = network then True
      else if list_ex (\<lambda>nic. nic_network b nic = network) (sp_NICs (ho_Spec b)) then True
      else list_ex (\<lambda>(_, net). net = network) (hst_NetworkInterfaces (ho_Status b)))"

definition handleListAllBMH :: "host_state \<Rightarrow> host list" where
  "handleListAllBMH st = map snd (h_hosts st)"

definition handleListNamespacedBMH :: "string \<Rightarrow> host_state \<Rightarrow> host list" where
  "handleListNamespacedBMH ns st = filter (\<lambda>b. bmhReferencesNetwork b ns) (map snd (h_hosts st))"

definition LoadBMHFromStore :: "(string \<Rightarrow> bool) \<Rightarrow> host_state \<Rightarrow> host_state" where
  "LoadBMHFromStore readable st =
     (case h_hostStore st of
        None \<Rightarrow> st
      | Some m \<Rightarrow>
          st\<lparr>h_hosts := fold (\<lambda>(key, b) hs. if readable key then AList.update (host_key (ho_Namespace b) (ho_Name b)) b hs else hs)
                         m (h_hosts st)\<rparr>)"

definition LoadBootConfigsFromStore :: "(string \<Rightarrow> bool) \<Rightarrow> host_state \<Rightarrow> host_state" where
  "LoadBootConfigsFromStore readable st =
     (case h_bootStore st of
        None \<Rightarrow> st
      | Some m \<Rightarrow>
          st\<lparr>h_bootConfigs := fold (\<lambda>(key, bc) bs. if readable key then AList.update (bc_Name bc) bc bs else bs) m (h_bootConfigs st)\<rparr>)"

text \<open>\<open>checkBootConfigCRDs\<close>: the references that no host backs any more.\<close>

definition stale_assignments :: "host_state \<Rightarrow> (string \<times> string) list" where
  "stale_assignments st =
     concat (map (\<lambda>(_, bc). map (Pair (bc_Name bc))
        (filter (\<lambda>n. \<not> list_ex (\<lambda>(_, b). ho_Name b = n \<and> sp_BootConfigRef (ho_Spec b) = bc_Name bc) (h_hosts st)) (bc_AssignedTo bc)))
        (h_bootConfigs st))"

section \<open>Requests\<close>

datatype host_op =
    HCreate instant string "host option"
  | HUpdate string string string "host \<Rightarrow> host option"
  | HPatch string string string "(host \<Rightarrow> host option) option"
  | HDelete string string
  | HRefresh string string string
  | HRefreshAll string
  | HPower string bool
  | HInstallBooted string
  | HSwitch string
  | HBootComplete string
  | HBootCreate instant "boot_config option"
  | HBootUpdate string "boot_config option"
  | HBootPatch string "(boot_config \<Rightarrow> boot_config option) option"
  | HBootDelete string
  | HLoadHosts "string \<Rightarrow> bool"
  | HLoadBoots "string \<Rightarrow> bool"
  | HNetwork string "network_obj option"
  | HTake
  | HStore "host_bucket \<Rightarrow> string \<Rightarrow> bool"

text \<open>
  \<open>HTake\<close> is the controller taking an event from the queue, \<open>HStore\<close> the store changing its mood.
  \<open>HNetwork\<close> stands for every other writer of the table of networks (the requests that create, replace,
  patch or delete a network, and the loading of networks): it puts any network, with any list of
  reservations, under a name, or removes the name. The handlers of those requests check no reservation.
\<close>

fun host_step :: "host_env \<Rightarrow> host_op \<Rightarrow> host_state \<Rightarrow> host_state" where
  "host_step env (HCreate now ns body) st = snd (handleCreateBMH env now ns body st)"
| "host_step env (HUpdate ts ns name body) st = snd (handleUpdateBMH env ts ns name body st)"
| "host_step env (HPatch ts ns name body) st = snd (handlePatchBMH env ts ns name body st)"
| "host_step env (HDelete ns name) st = snd (handleDeleteBMH ns name st)"
| "host_step env (HRefresh ts ns name) st = snd (handleRefreshBMH ts ns name st)"
| "host_step env (HRefreshAll ts) st = snd (handleRefreshAllBMH ts st)"
| "host_step env (HPower key on) st = bmcPowerChangedCallback key on st"
| "host_step env (HInstallBooted key) st = bmcInstallBootedCallback env key st"
| "host_step env (HSwitch key) st = ipxe_goroutine env key st"
| "host_step env (HBootComplete ip) st = snd (handleBootComplete env ip st)"
| "host_step env (HBootCreate now body) st = snd (handleCreateBootConfig now body st)"
| "host_step env (HBootUpdate name body) st = snd (handleUpdateBootConfig name body st)"
| "host_step env (HBootPatch name body) st = snd (handlePatchBootConfig name body st)"
| "host_step env (HBootDelete name) st = snd (handleDeleteBootConfig name st)"
| "host_step env (HLoadHosts readable) st = LoadBMHFromStore readable st"
| "host_step env (HLoadBoots readable) st = LoadBootConfigsFromStore readable st"
| "host_step env (HNetwork name nw) st =
     st\<lparr>h_networks := (case nw of Some n \<Rightarrow> AList.update name n (h_networks st) | None \<Rightarrow> AList.delete name (h_networks st))\<rparr>"
| "host_step env HTake st = st\<lparr>h_events := tl (h_events st)\<rparr>"
| "host_step env (HStore ok) st = st\<lparr>h_ok := ok\<rparr>"

definition host_exec :: "host_env \<Rightarrow> host_op list \<Rightarrow> host_state \<Rightarrow> host_state" where
  "host_exec env ops st = fold (host_step env) ops st"

end
