(* ===== verification/HostSync.thy ===== *)
theory HostSync
  imports Hosts
begin

text \<open>
  What the requests on bare metal hosts do to the DHCP reservations of the networks. The reservations are
  seen as one map from network and MAC address to reservation; every request is a list of abstract
  operations on it (\<open>Put\<close>, \<open>Drop\<close>), and the handlers refine that list. From the refinement follow what is
  in the tables after a request and what is left behind. A second part keeps the invariant of the tables
  over all requests, and the last one the boot-once rule of network boots.
\<close>

section \<open>Reservations as a map\<close>

definition res_view :: "host_state \<Rightarrow> string \<times> string \<Rightarrow> reservation option" where
  "res_view st = (\<lambda>(n, m). case map_of (h_networks st) n of
     None \<Rightarrow> None
   | Some nw \<Rightarrow> List.find (\<lambda>r. ToLower (rv_MAC r) = m) (nw_Reservations nw))"

datatype res_op = Put string reservation | Drop string string

fun apply_res :: "(string \<rightharpoonup> network_obj) \<Rightarrow> res_op \<Rightarrow> (string \<times> string \<rightharpoonup> reservation) \<Rightarrow> (string \<times> string \<rightharpoonup> reservation)" where
  "apply_res N (Put n r) v = (case N n of None \<Rightarrow> v | Some nw \<Rightarrow> v((n, ToLower (rv_MAC r)) \<mapsto> fill_defaults nw r))"
| "apply_res N (Drop n mac) v = (if mac = [] \<or> n = [] then v else v((n, ToLower mac) := None))"

definition nic_plan :: "host \<Rightarrow> nic_spec \<Rightarrow> res_op list" where
  "nic_plan b nic =
     (if nic_network b nic = [] \<or> nic_MAC nic = [] then [] else [Put (nic_network b nic) (nic_reservation b nic)])"

definition sync_plan :: "host_env \<Rightarrow> host_state \<Rightarrow> host \<Rightarrow> string \<Rightarrow> string \<Rightarrow> res_op list" where
  "sync_plan env st b oldDataNetwork oldIPMINetwork =
     (let s = ho_Spec b; m = sp_BMC s
      in (if oldDataNetwork \<noteq> [] \<and> oldDataNetwork \<noteq> sp_Network s then [Drop oldDataNetwork (sp_BootMACAddress s)] else []) @
         (if sp_Network s \<noteq> [] \<and> sp_BootMACAddress s \<noteq> [] then [Put (sp_Network s) (data_reservation env st b)] else []) @
         concat (map (nic_plan b) (sp_NICs s)) @
         (if oldIPMINetwork \<noteq> [] \<and> oldIPMINetwork \<noteq> hb_Network m then [Drop oldIPMINetwork (hb_MAC m)] else []) @
         (if hb_Network m \<noteq> [] \<and> hb_MAC m \<noteq> [] then [Put (hb_Network m) (ipmi_reservation b)] else []))"

definition clean_plan :: "host \<Rightarrow> host \<Rightarrow> res_op list" where
  "clean_plan old new =
     map (\<lambda>nic. Drop (nic_network old nic) (nic_MAC nic))
       (filter (\<lambda>nic. ToLower (nic_MAC nic) \<notin> set (map (\<lambda>n. ToLower (nic_MAC n)) (sp_NICs (ho_Spec new)))) (sp_NICs (ho_Spec old)))"

definition delete_plan :: "host \<Rightarrow> res_op list" where
  "delete_plan b =
     Drop (sp_Network (ho_Spec b)) (sp_BootMACAddress (ho_Spec b)) #
     Drop (hb_Network (sp_BMC (ho_Spec b))) (hb_MAC (sp_BMC (ho_Spec b))) #
     map (\<lambda>nic. Drop (nic_network b nic) (nic_MAC nic)) (sp_NICs (ho_Spec b))"

section \<open>What the operations leave alone\<close>

text \<open>The fields of a network other than its reservations, which no operation on hosts changes.\<close>

definition same_nets :: "host_state \<Rightarrow> host_state \<Rightarrow> bool" where
  "same_nets st st' \<longleftrightarrow>
     (\<forall>n. map_option (nw_Reservations_update (\<lambda>_. [])) (map_of (h_networks st') n) =
          map_option (nw_Reservations_update (\<lambda>_. [])) (map_of (h_networks st) n)) \<and>
     h_cdroms st' = h_cdroms st"

lemma same_nets_refl [simp]: "same_nets st st"
  by (simp add: same_nets_def)

lemma same_nets_trans: "same_nets a b \<Longrightarrow> same_nets b c \<Longrightarrow> same_nets a c"
  by (simp add: same_nets_def)

lemma fill_defaults_static:
  assumes "nw_Reservations_update (\<lambda>_. []) n = nw_Reservations_update (\<lambda>_. []) n'"
  shows "fill_defaults n r = fill_defaults n' r"
proof -
  have "nw_Gateway n = nw_Gateway n'" "nw_Server n = nw_Server n'" "nw_Zone n = nw_Zone n'"
    using arg_cong [OF assms, of nw_Gateway] arg_cong [OF assms, of nw_Server] arg_cong [OF assms, of nw_Zone] by simp_all
  then show ?thesis by (simp only: fill_defaults_def)
qed

lemma portal_ip_static:
  assumes "same_nets st st'"
  shows "portal_ip env st' n = portal_ip env st n"
proof -
  have "map_option nw_Gateway (map_option (nw_Reservations_update (\<lambda>_. [])) (map_of (h_networks st') n)) =
      map_option nw_Gateway (map_option (nw_Reservations_update (\<lambda>_. [])) (map_of (h_networks st) n))"
    using assms by (simp add: same_nets_def)
  then have "map_option nw_Gateway (map_of (h_networks st') n) = map_option nw_Gateway (map_of (h_networks st) n)"
    by (simp add: option.map_comp comp_def)
  then show ?thesis by (auto simp: portal_ip_def split: option.splits)
qed

lemma data_reservation_static: "same_nets st st' \<Longrightarrow> data_reservation env st' b = data_reservation env st b"
  by (simp add: data_reservation_def root_path_def iscsi_target_def portal_ip_static same_nets_def Let_def split: option.split)

lemma apply_res_static:
  assumes "same_nets st st'"
  shows "apply_res (map_of (h_networks st')) op v = apply_res (map_of (h_networks st)) op v"
proof (cases op)
  case (Put n r)
  have "map_option (nw_Reservations_update (\<lambda>_. [])) (map_of (h_networks st') n) =
      map_option (nw_Reservations_update (\<lambda>_. [])) (map_of (h_networks st) n)"
    using assms by (simp add: same_nets_def)
  then consider "map_of (h_networks st') n = None" "map_of (h_networks st) n = None"
    | nw nw' where "map_of (h_networks st') n = Some nw'" "map_of (h_networks st) n = Some nw"
        "nw_Reservations_update (\<lambda>_. []) nw' = nw_Reservations_update (\<lambda>_. []) nw"
    by (cases "map_of (h_networks st) n"; cases "map_of (h_networks st') n") (simp_all del: map_of_eq_None_iff)
  then show ?thesis
  proof cases
    case 1
    with Put show ?thesis by (simp del: map_of_eq_None_iff)
  next
    case 2
    with Put fill_defaults_static [OF 2(3), of r] show ?thesis by simp
  qed
qed simp

lemma call_keeps [simp]:
  "h_networks (call x st) = h_networks st" "h_cdroms (call x st) = h_cdroms st" "h_hosts (call x st) = h_hosts st"
  "h_hostStore (call x st) = h_hostStore st" "h_bootConfigs (call x st) = h_bootConfigs st" "h_ok (call x st) = h_ok st"
  "h_events (call x st) = h_events st" "h_bmc (call x st) = h_bmc st" "h_bootStore (call x st) = h_bootStore st"
  by (simp_all add: call_def)

lemma res_view_cong: "h_networks st' = h_networks st \<Longrightarrow> res_view st' = res_view st"
  by (simp add: res_view_def)

lemma register_dns_view [simp]: "res_view (register_dns a b c st) = res_view st" "h_networks (register_dns a b c st) = h_networks st"
  "h_cdroms (register_dns a b c st) = h_cdroms st"
  by (simp_all add: register_dns_def res_view_def)

section \<open>The two primitives\<close>

lemma find_upsert:
  "List.find (\<lambda>r. ToLower (rv_MAC r) = m) (upsert_res res rs) =
     (if m = ToLower (rv_MAC res) then Some res else List.find (\<lambda>r. ToLower (rv_MAC r) = m) rs)"
  by (induction rs) auto

lemma find_filter_out:
  "List.find (\<lambda>r. f r = m) (filter (\<lambda>r. f r \<noteq> k) rs) = (if m = k then None else List.find (\<lambda>r. f r = m) rs)"
  by (induction rs) auto

lemma upsert_networks:
  "h_networks (upsertNetworkReservation n res st) =
     (case map_of (h_networks st) n of
        None \<Rightarrow> h_networks st
      | Some nw \<Rightarrow> AList.update n (nw\<lparr>nw_Reservations := upsert_res (fill_defaults nw res) (nw_Reservations nw)\<rparr>) (h_networks st))"
  by (simp add: upsertNetworkReservation_def Let_def split_beta split: option.split)

lemma fill_defaults_MAC [simp]: "rv_MAC (fill_defaults nw res) = rv_MAC res"
  by (simp add: fill_defaults_def Let_def)

lemma upsert_view:
  "res_view (upsertNetworkReservation n res st) = apply_res (map_of (h_networks st)) (Put n res) (res_view st)"
proof (cases "map_of (h_networks st) n")
  case None
  then show ?thesis by (simp add: upsertNetworkReservation_def)
next
  case (Some nw)
  then show ?thesis by (auto simp: res_view_def upsert_networks find_upsert fun_eq_iff)
qed

lemma remove_networks:
  "h_networks (removeBMHFromNetwork mac n st) =
     (if mac = [] \<or> n = [] then h_networks st
      else case map_of (h_networks st) n of
        None \<Rightarrow> h_networks st
      | Some nw \<Rightarrow>
          (let rs = filter (\<lambda>r. ToLower (rv_MAC r) \<noteq> ToLower mac) (nw_Reservations nw)
           in if length rs = length (nw_Reservations nw) then h_networks st
              else AList.update n (nw\<lparr>nw_Reservations := rs\<rparr>) (h_networks st)))"
  by (simp add: removeBMHFromNetwork_def Let_def split_beta split: option.split)

lemma filter_length_eq: "length (filter P xs) = length xs \<Longrightarrow> filter P xs = xs"
  by (metis filter_id_conv length_filter_less less_irrefl)

lemma remove_view:
  "res_view (removeBMHFromNetwork mac n st) = apply_res (map_of (h_networks st)) (Drop n mac) (res_view st)"
proof (cases "map_of (h_networks st) n")
  case None
  then show ?thesis by (auto simp: res_view_def remove_networks fun_eq_iff simp del: map_of_eq_None_iff)
next
  case (Some nw)
  let ?rs = "filter (\<lambda>r. ToLower (rv_MAC r) \<noteq> ToLower mac) (nw_Reservations nw)"
  have find: "List.find (\<lambda>r. ToLower (rv_MAC r) = m) ?rs =
      (if m = ToLower mac then None else List.find (\<lambda>r. ToLower (rv_MAC r) = m) (nw_Reservations nw))" for m
    by (rule find_filter_out)
  show ?thesis
  proof (cases "length ?rs = length (nw_Reservations nw)")
    case True
    then have "?rs = nw_Reservations nw" by (rule filter_length_eq)
    with find [of "ToLower mac"] Some True show ?thesis by (auto simp: res_view_def remove_networks fun_eq_iff)
  next
    case False
    with find Some show ?thesis by (auto simp: res_view_def remove_networks fun_eq_iff Let_def)
  qed
qed

lemma upsert_same_nets: "same_nets st (upsertNetworkReservation n res st)"
proof -
  have "h_cdroms (upsertNetworkReservation n res st) = h_cdroms st"
    by (simp add: upsertNetworkReservation_def Let_def split_beta split: option.split)
  then show ?thesis by (auto simp: same_nets_def upsert_networks split: option.split)
qed

lemma remove_same_nets: "same_nets st (removeBMHFromNetwork mac n st)"
proof -
  have "h_cdroms (removeBMHFromNetwork mac n st) = h_cdroms st"
    by (simp add: removeBMHFromNetwork_def Let_def split_beta split: option.split)
  then show ?thesis by (auto simp: same_nets_def remove_networks Let_def split: option.split)
qed
section \<open>Refinement\<close>

text \<open>A step of the code carries out a list of operations on the map.\<close>

definition carries_out :: "host_state \<Rightarrow> res_op list \<Rightarrow> host_state \<Rightarrow> bool" where
  "carries_out st plan st' \<longleftrightarrow>
     same_nets st st' \<and> res_view st' = fold (apply_res (map_of (h_networks st))) plan (res_view st)"

lemma carries_out_append:
  assumes "carries_out a p b" and "carries_out b q c"
  shows "carries_out a (p @ q) c"
proof -
  have s: "same_nets a b" using assms(1) by (simp add: carries_out_def)
  have "apply_res (map_of (h_networks b)) = apply_res (map_of (h_networks a))"
    by (rule ext, rule ext) (rule apply_res_static [OF s])
  with assms same_nets_trans [of a b c] show ?thesis by (simp add: carries_out_def)
qed

lemma carries_out_nothing:
  "h_networks st' = h_networks st \<Longrightarrow> h_cdroms st' = h_cdroms st \<Longrightarrow> carries_out st [] st'"
  by (simp add: carries_out_def same_nets_def res_view_def)

lemma carries_out_frame:
  "carries_out st p st' \<Longrightarrow> h_networks st'' = h_networks st' \<Longrightarrow> h_cdroms st'' = h_cdroms st' \<Longrightarrow> carries_out st p st''"
  using carries_out_append [of st p st' "[]" st''] carries_out_nothing by simp

lemma carries_out_call [simp]: "carries_out st p (call x st') = carries_out st p st'"
  using carries_out_frame [of st p st' "call x st'"] carries_out_frame [of st p "call x st'" st'] by auto

lemma carries_out_dns [simp]: "carries_out st p (register_dns a b c st') = carries_out st p st'"
  by (simp add: register_dns_def)

lemma upsert_carries: "carries_out st [Put n res] (upsertNetworkReservation n res st)"
  by (simp add: carries_out_def upsert_view upsert_same_nets)

lemma remove_carries: "carries_out st [Drop n mac] (removeBMHFromNetwork mac n st)"
  by (simp add: carries_out_def remove_view remove_same_nets)

lemma carries_out_fold:
  assumes "\<And>x st. carries_out st (plan x) (f x st)"
  shows "carries_out st (concat (map plan xs)) (fold f xs st)"
proof (induction xs arbitrary: st)
  case Nil
  show ?case by (simp add: carries_out_nothing)
next
  case (Cons x xs)
  show ?case using carries_out_append [OF assms [of st x] Cons.IH [of "f x st"]] by simp
qed

lemma sync_nic_carries: "carries_out st (nic_plan b nic) (sync_nic b nic st)"
  by (simp add: sync_nic_def nic_plan_def upsert_carries carries_out_nothing Let_def)

lemma clean_nic_carries:
  "carries_out st (if ToLower (nic_MAC nic) \<in> set (map (\<lambda>n. ToLower (nic_MAC n)) (sp_NICs (ho_Spec new))) then []
     else [Drop (nic_network old nic) (nic_MAC nic)]) (clean_nic old new nic st)"
  by (simp add: clean_nic_def remove_carries carries_out_nothing Let_def)

lemma cleanRemovedNICs_carries: "carries_out st (clean_plan old new) (cleanRemovedNICs old new st)"
proof -
  let ?P = "\<lambda>nic. ToLower (nic_MAC nic) \<in> set (map (\<lambda>n. ToLower (nic_MAC n)) (sp_NICs (ho_Spec new)))"
  let ?Q = "\<lambda>nic. Drop (nic_network old nic) (nic_MAC nic)"
  have eq: "concat (map (\<lambda>nic. if ?P nic then [] else [?Q nic]) nics) = map ?Q (filter (\<lambda>nic. \<not> ?P nic) nics)" for nics
    by (induction nics) auto
  have "carries_out st (concat (map (\<lambda>nic. if ?P nic then [] else [?Q nic]) (sp_NICs (ho_Spec old))))
      (fold (clean_nic old new) (sp_NICs (ho_Spec old)) st)"
    by (rule carries_out_fold) (rule clean_nic_carries)
  then show ?thesis unfolding eq cleanRemovedNICs_def clean_plan_def .
qed

lemma notify_carries: "carries_out st [] (fold notify_network ns st)"
proof -
  have "carries_out st [] (notify_network n st)" for n st
    by (simp add: notify_network_def carries_out_nothing split: option.split)
  then have "carries_out st (concat (map (\<lambda>_. []) ns)) (fold notify_network ns st)" by (rule carries_out_fold)
  moreover have "concat (map (\<lambda>_. []) ns) = ([] :: res_op list)" by (induction ns) auto
  ultimately show ?thesis by simp
qed

lemma syncBMHToNetwork_carries:
  "carries_out st (sync_plan env st b oldNet oldIPMI) (syncBMHToNetwork env b oldNet oldIPMI oldHostname oldIP st)"
proof -
  let ?s = "ho_Spec b" and ?m = "sp_BMC (ho_Spec b)"
  define st1 where "st1 = sync_old_data b oldNet oldHostname oldIP st"
  define st2 where "st2 = sync_data env b st1"
  define st3 where "st3 = fold (sync_nic b) (sp_NICs ?s) st2"
  define st4 where "st4 = sync_ipmi b oldIPMI st3"
  define p1 where "p1 = (if oldNet \<noteq> [] \<and> oldNet \<noteq> sp_Network ?s then [Drop oldNet (sp_BootMACAddress ?s)] else [])"
  define p2 where "p2 = (if sp_Network ?s \<noteq> [] \<and> sp_BootMACAddress ?s \<noteq> [] then [Put (sp_Network ?s) (data_reservation env st b)] else [])"
  define p4 where "p4 = (if oldIPMI \<noteq> [] \<and> oldIPMI \<noteq> hb_Network ?m then [Drop oldIPMI (hb_MAC ?m)] else [])"
  define p5 where "p5 = (if hb_Network ?m \<noteq> [] \<and> hb_MAC ?m \<noteq> [] then [Put (hb_Network ?m) (ipmi_reservation b)] else [])"
  have s1: "carries_out st p1 st1"
    by (simp add: p1_def st1_def sync_old_data_def remove_carries carries_out_nothing Let_def)
  then have "data_reservation env st1 b = data_reservation env st b"
    by (intro data_reservation_static) (simp add: carries_out_def)
  then have s2: "carries_out st1 p2 st2"
    by (simp add: p2_def st2_def sync_data_def upsert_carries carries_out_nothing Let_def)
  have s3: "carries_out st2 (concat (map (nic_plan b) (sp_NICs ?s))) st3"
    unfolding st3_def by (rule carries_out_fold [OF sync_nic_carries])
  define st' where "st' = (if oldIPMI \<noteq> [] \<and> oldIPMI \<noteq> hb_Network ?m then removeBMHFromNetwork (hb_MAC ?m) oldIPMI st3 else st3)"
  have "carries_out st3 p4 st'" by (simp add: p4_def st'_def remove_carries carries_out_nothing)
  moreover have "carries_out st' p5 st4"
    by (simp add: p5_def st4_def st'_def sync_ipmi_def upsert_carries carries_out_nothing Let_def)
  ultimately have "carries_out st3 (p4 @ p5) st4" by (rule carries_out_append)
  from carries_out_append [OF s1 carries_out_append [OF s2 carries_out_append [OF s3 this]]]
  have "carries_out st (p1 @ p2 @ concat (map (nic_plan b) (sp_NICs ?s)) @ (p4 @ p5)) st4" .
  moreover have "carries_out st4 [] (fold notify_network [sp_Network ?s, hb_Network ?m] st4)" by (rule notify_carries)
  ultimately have "carries_out st ((p1 @ p2 @ concat (map (nic_plan b) (sp_NICs ?s)) @ (p4 @ p5)) @ [])
      (fold notify_network [sp_Network ?s, hb_Network ?m] st4)" by (rule carries_out_append)
  then show ?thesis
    by (simp only: sync_plan_def syncBMHToNetwork_def Let_def append_Nil2 p1_def p2_def p4_def p5_def
        st1_def st2_def st3_def st4_def append_assoc)
qed
section \<open>Reading off a plan\<close>

fun op_target :: "res_op \<Rightarrow> string \<times> string" where
  "op_target (Put n r) = (n, ToLower (rv_MAC r))"
| "op_target (Drop n mac) = (n, ToLower mac)"

lemma apply_untouched: "t \<noteq> op_target op \<Longrightarrow> apply_res N op v t = v t"
  by (cases op) (auto split: option.split)

lemma plan_untouched: "t \<notin> op_target ` set plan \<Longrightarrow> fold (apply_res N) plan v t = v t"
  by (induction plan arbitrary: v) (auto simp: apply_untouched)

lemma plan_settled:
  assumes "distinct (map op_target plan)" and "op \<in> set plan"
  shows "\<exists>v'. v' (op_target op) = v (op_target op) \<and> fold (apply_res N) plan v (op_target op) = apply_res N op v' (op_target op)"
  using assms
proof (induction plan arbitrary: v)
  case (Cons x plan)
  show ?case
  proof (cases "op = x")
    case True
    with Cons.prems(1) have "op_target op \<notin> op_target ` set plan" by auto
    with True show ?thesis by (auto simp: plan_untouched)
  next
    case False
    with Cons.prems have op: "op \<in> set plan" "op_target x \<notin> op_target ` set plan" "distinct (map op_target plan)" by simp_all
    have ne: "op_target op \<noteq> op_target x" using op(2) imageI [OF op(1), of op_target] by metis
    from Cons.IH [OF op(3,1), of "apply_res N x v"] obtain v' where
      "v' (op_target op) = apply_res N x v (op_target op)"
      "fold (apply_res N) plan (apply_res N x v) (op_target op) = apply_res N op v' (op_target op)" by blast
    with apply_untouched [OF ne] show ?thesis by auto
  qed
qed simp

definition host_macs :: "host \<Rightarrow> string list" where
  "host_macs b =
     map ToLower (sp_BootMACAddress (ho_Spec b) # hb_MAC (sp_BMC (ho_Spec b)) # map nic_MAC (sp_NICs (ho_Spec b)))"

definition plan_macs :: "res_op list \<Rightarrow> string set" where
  "plan_macs p = snd ` op_target ` set p"

lemma plan_macs_simps [simp]:
  "plan_macs [] = {}" "plan_macs (op # p) = insert (snd (op_target op)) (plan_macs p)"
  "plan_macs (p @ q) = plan_macs p \<union> plan_macs q"
  by (simp_all add: plan_macs_def image_Un)

lemma distinct_targets_append:
  assumes "distinct (map op_target p)" and "distinct (map op_target q)"
    and "plan_macs p \<subseteq> A" and "plan_macs q \<inter> A = {}"
  shows "distinct (map op_target (p @ q))"
proof -
  have "plan_macs p \<inter> plan_macs q = {}" using assms(3,4) by blast
  then have "op_target ` set p \<inter> op_target ` set q = {}" unfolding plan_macs_def by blast
  with assms(1,2) show ?thesis by simp
qed

lemma nic_plan_macs1: "plan_macs (nic_plan b nic) \<subseteq> {ToLower (nic_MAC nic)}"
  by (simp add: nic_plan_def nic_reservation_def)

lemma nic_plan_macs: "plan_macs (concat (map (nic_plan b) nics)) \<subseteq> (\<lambda>nic. ToLower (nic_MAC nic)) ` set nics"
proof (induction nics)
  case (Cons nic nics)
  have "concat (map (nic_plan b) (nic # nics)) = nic_plan b nic @ concat (map (nic_plan b) nics)" by simp
  with Cons nic_plan_macs1 [of b nic] show ?case by auto
qed simp

lemma nic_plan_targets:
  "distinct (map (\<lambda>nic. ToLower (nic_MAC nic)) nics) \<Longrightarrow> distinct (map op_target (concat (map (nic_plan b) nics)))"
proof (induction nics)
  case (Cons nic nics)
  let ?rest = "concat (map (nic_plan b) nics)"
  have "ToLower (nic_MAC nic) \<notin> (\<lambda>nic. ToLower (nic_MAC nic)) ` set nics" using Cons.prems by simp
  then have "plan_macs ?rest \<inter> {ToLower (nic_MAC nic)} = {}" using nic_plan_macs [of b nics] by blast
  moreover have "distinct (map op_target ?rest)" using Cons by simp
  moreover have "distinct (map op_target (nic_plan b nic))" by (simp add: nic_plan_def)
  ultimately have "distinct (map op_target (nic_plan b nic @ ?rest))"
    using nic_plan_macs1 [of b nic] by (intro distinct_targets_append)
  then show ?case by simp
qed simp

lemma sync_plan_settled:
  assumes "distinct (host_macs b)"
  shows "distinct (map op_target (sync_plan env st b oldNet oldIPMI))"
proof -
  let ?s = "ho_Spec b" and ?m = "sp_BMC (ho_Spec b)" and ?low = "\<lambda>nic. ToLower (nic_MAC nic)"
  define ns where "ns = concat (map (nic_plan b) (sp_NICs ?s))"
  define a where "a = (if oldNet \<noteq> [] \<and> oldNet \<noteq> sp_Network ?s then [Drop oldNet (sp_BootMACAddress ?s)] else []) @
      (if sp_Network ?s \<noteq> [] \<and> sp_BootMACAddress ?s \<noteq> [] then [Put (sp_Network ?s) (data_reservation env st b)] else [])"
  define c where "c = (if oldIPMI \<noteq> [] \<and> oldIPMI \<noteq> hb_Network ?m then [Drop oldIPMI (hb_MAC ?m)] else []) @
      (if hb_Network ?m \<noteq> [] \<and> hb_MAC ?m \<noteq> [] then [Put (hb_Network ?m) (ipmi_reservation b)] else [])"
  have d: "ToLower (sp_BootMACAddress ?s) \<noteq> ToLower (hb_MAC ?m)"
    "ToLower (sp_BootMACAddress ?s) \<notin> ?low ` set (sp_NICs ?s)" "ToLower (hb_MAC ?m) \<notin> ?low ` set (sp_NICs ?s)"
    "distinct (map ?low (sp_NICs ?s))"
    using assms by (auto simp: host_macs_def comp_def)
  have a: "plan_macs a \<subseteq> {ToLower (sp_BootMACAddress ?s)}" "distinct (map op_target a)"
    by (auto simp: a_def data_reservation_def Let_def)
  have c: "plan_macs c \<subseteq> {ToLower (hb_MAC ?m)}" "distinct (map op_target c)"
    by (auto simp: c_def ipmi_reservation_def Let_def)
  have disj: "X \<inter> Y = {}" if "X \<subseteq> {x}" "x \<notin> Y" for X Y and x :: string using that by blast
  have n: "plan_macs ns \<subseteq> ?low ` set (sp_NICs ?s)" unfolding ns_def by (rule nic_plan_macs)
  have "distinct (map op_target ns)" unfolding ns_def by (rule nic_plan_targets [OF d(4)])
  moreover have "plan_macs c \<inter> ?low ` set (sp_NICs ?s) = {}" by (rule disj [OF c(1) d(3)])
  ultimately have "distinct (map op_target (ns @ c))" using c(2) n by (intro distinct_targets_append)
  moreover have "plan_macs (ns @ c) \<inter> {ToLower (sp_BootMACAddress ?s)} = {}"
  proof -
    have "X \<union> Z \<subseteq> Y \<union> {z} \<Longrightarrow> x \<notin> Y \<Longrightarrow> x \<noteq> z \<Longrightarrow> (X \<union> Z) \<inter> {x} = {}" for X Y Z and x z :: string by blast
    from this [OF Un_mono [OF n c(1)] d(2,1)] show ?thesis by simp
  qed
  ultimately have "distinct (map op_target (a @ (ns @ c)))" by (rule distinct_targets_append [OF a(2) _ a(1)])
  then show ?thesis by (simp only: sync_plan_def Let_def a_def ns_def c_def append_assoc)
qed
section \<open>Requests\<close>

lemma sync_plan_static: "same_nets st st' \<Longrightarrow> sync_plan env st' b o1 o2 = sync_plan env st b o1 o2"
  using data_reservation_static [of st st' env b] by (simp add: sync_plan_def Let_def)

lemma persistBootConfig_nets [simp]:
  "h_networks (persistBootConfig bc st) = h_networks st" "h_cdroms (persistBootConfig bc st) = h_cdroms st"
  "h_hosts (persistBootConfig bc st) = h_hosts st" "h_events (persistBootConfig bc st) = h_events st"
  "h_bootConfigs (persistBootConfig bc st) = h_bootConfigs st"
  by (simp_all add: persistBootConfig_def)

lemma assign_nets [simp]:
  "h_networks (assign n r st) = h_networks st" "h_cdroms (assign n r st) = h_cdroms st"
  "h_hosts (assign n r st) = h_hosts st" "h_events (assign n r st) = h_events st"
  "h_networks (unassign n r st) = h_networks st" "h_cdroms (unassign n r st) = h_cdroms st"
  "h_hosts (unassign n r st) = h_hosts st" "h_events (unassign n r st) = h_events st"
  by (simp_all add: assign_def unassign_def Let_def split: option.split)

lemma syncBootConfigRef_nets [simp]:
  "h_networks (syncBootConfigRef n o1 o2 st) = h_networks st" "h_cdroms (syncBootConfigRef n o1 o2 st) = h_cdroms st"
  "h_hosts (syncBootConfigRef n o1 o2 st) = h_hosts st" "h_events (syncBootConfigRef n o1 o2 st) = h_events st"
  "h_networks (removeBootConfigRef n r st) = h_networks st" "h_cdroms (removeBootConfigRef n r st) = h_cdroms st"
  "h_hosts (removeBootConfigRef n r st) = h_hosts st" "h_events (removeBootConfigRef n r st) = h_events st"
  by (simp_all add: syncBootConfigRef_def removeBootConfigRef_def Let_def)

lemma enqueue_power_nets [simp]:
  "h_networks (enqueue_power b x y st) = h_networks st" "h_cdroms (enqueue_power b x y st) = h_cdroms st"
  "h_hosts (enqueue_power b x y st) = h_hosts st" "h_bootConfigs (enqueue_power b x y st) = h_bootConfigs st"
  by (simp_all add: enqueue_power_def Let_def)

text \<open>The synchronisation started from a state that differs from \<open>st\<close> outside the networks.\<close>

lemma sync_after:
  assumes "carries_out st p st'" and "h_networks st'' = h_networks st'" and "h_cdroms st'' = h_cdroms st'"
  shows "carries_out st (p @ sync_plan env st b o1 o2) (syncBMHToNetwork env b o1 o2 h ip st'')"
proof -
  have c: "carries_out st p st''" using assms by (rule carries_out_frame)
  then have "sync_plan env st'' b o1 o2 = sync_plan env st b o1 o2" by (simp add: carries_out_def sync_plan_static)
  with carries_out_append [OF c syncBMHToNetwork_carries] show ?thesis by metis
qed

lemma handleCreateBMH_carries:
  assumes "handleCreateBMH env now ns body st = (HttpOk code b, st')"
  shows "carries_out st (sync_plan env st b [] []) st'"
proof -
  obtain d where "body = Some d" using assms by (cases body) (simp_all add: handleCreateBMH_def)
  obtain bk where eq: "st' = (syncBootConfigRef (ho_Name b) [] (sp_BootConfigRef (ho_Spec b)) (syncBMHToNetwork env b [] [] [] []
      (st\<lparr>h_hostStore := bk, h_hosts := AList.update (host_key ns (ho_Name b)) b (h_hosts st)\<rparr>)))\<lparr>h_kick := True\<rparr>"
    using assms \<open>body = Some d\<close> by (simp add: handleCreateBMH_def Let_def split_beta split: if_splits) metis+
  have "carries_out st ([] @ sync_plan env st b [] []) (syncBMHToNetwork env b [] [] [] []
      (st\<lparr>h_hostStore := bk, h_hosts := AList.update (host_key ns (ho_Name b)) b (h_hosts st)\<rparr>))"
    by (rule sync_after [OF carries_out_nothing]) simp_all
  then show ?thesis unfolding eq append_Nil by (rule carries_out_frame) simp_all
qed
lemma handleUpdateBMH_accepted:
  assumes "handleUpdateBMH env ts ns name body st = (HttpOk code b, st')"
    and "map_of (h_hosts st) (host_key ns name) = Some old"
  shows "\<exists>d bk st1. body old = Some d \<and> b = normalise_update ts ns name old d \<and>
      h_networks st1 = h_networks st \<and> h_cdroms st1 = h_cdroms st \<and>
      h_hosts st1 = AList.update (host_key ns name) b (h_hosts st) \<and> h_bootConfigs st1 = h_bootConfigs st \<and>
      h_hostStore st1 = bk \<and> length (h_events st1) \<le> max 32 (length (h_events st)) \<and>
      st' = (syncBootConfigRef (ho_Name b) (sp_BootConfigRef (ho_Spec old)) (sp_BootConfigRef (ho_Spec b))
        (syncBMHToNetwork env b (sp_Network (ho_Spec old)) (hb_Network (sp_BMC (ho_Spec old))) (host_hostname old) (sp_IP (ho_Spec old))
          (cleanRemovedNICs old b st1)))\<lparr>h_kick := True\<rparr>"
proof -
  obtain d where d: "body old = Some d"
    using assms by (cases "body old") (simp_all add: handleUpdateBMH_def)
  let ?b = "normalise_update ts ns name old d"
  obtain ok bk where put: "put_json (h_ok st BHosts (store_key ns name)) (h_hostStore st) (store_key ns name) ?b = (ok, bk)"
    by fastforce
  define st0 where "st0 = st\<lparr>h_hostStore := bk, h_hosts := AList.update (host_key ns name) ?b (h_hosts st)\<rparr>"
  define st01 where "st01 = (if is_online ?b \<noteq> is_online old then enqueue_power ?b (is_online old) (is_online ?b) st0 else st0)"
  define st1 where "st1 = (if is_online ?b \<and> is_online old \<and> sp_Image (ho_Spec ?b) \<noteq> sp_Image (ho_Spec old) \<and>
      IsInstallImage (sp_Image (ho_Spec ?b)) then enqueue_power ?b True True st01 else st01)"
  define r where "r = (syncBootConfigRef (ho_Name ?b) (sp_BootConfigRef (ho_Spec old)) (sp_BootConfigRef (ho_Spec ?b))
        (syncBMHToNetwork env ?b (sp_Network (ho_Spec old)) (hb_Network (sp_BMC (ho_Spec old))) (host_hostname old) (sp_IP (ho_Spec old))
          (cleanRemovedNICs old ?b st1)))\<lparr>h_kick := True\<rparr>"
  have "handleUpdateBMH env ts ns name body st = (if \<not> ok then (HttpError 500, st) else (HttpOk 200 ?b, r))"
    unfolding handleUpdateBMH_def Let_def assms(2) option.case d put prod.case r_def st1_def st01_def st0_def by (rule refl)
  with assms(1) have "(HttpOk 200 ?b, r) = (HttpOk code b, st')" by (cases ok) simp_all
  then have b: "b = ?b" and "st' = r" by simp_all
  from this(2) have st': "st' = (syncBootConfigRef (ho_Name b) (sp_BootConfigRef (ho_Spec old)) (sp_BootConfigRef (ho_Spec b))
        (syncBMHToNetwork env b (sp_Network (ho_Spec old)) (hb_Network (sp_BMC (ho_Spec old))) (host_hostname old) (sp_IP (ho_Spec old))
          (cleanRemovedNICs old b st1)))\<lparr>h_kick := True\<rparr>"
    unfolding r_def b .
  have ev: "length (h_events (enqueue_power x u v s)) \<le> max 32 (length (h_events s))" for x u v s
    by (simp add: enqueue_power_def Let_def)
  have "length (h_events st1) \<le> max 32 (length (h_events st01))" "length (h_events st01) \<le> max 32 (length (h_events st0))"
    using ev [of ?b True True st01] ev [of ?b "is_online old" "is_online ?b" st0]
    by (simp_all only: st1_def st01_def split: if_split) simp_all
  then have "length (h_events st1) \<le> max 32 (length (h_events st))" by (simp add: st0_def max_def split: if_splits)
  moreover have "h_networks st1 = h_networks st" "h_cdroms st1 = h_cdroms st" "h_hosts st1 = AList.update (host_key ns name) b (h_hosts st)"
    "h_bootConfigs st1 = h_bootConfigs st"
    by (simp_all add: st1_def st01_def st0_def b)
  ultimately show ?thesis using d b st' by blast
qed

lemma handleUpdateBMH_carries:
  assumes "handleUpdateBMH env ts ns name body st = (HttpOk code b, st')"
    and "map_of (h_hosts st) (host_key ns name) = Some old"
  shows "carries_out st (clean_plan old b @ sync_plan env st b (sp_Network (ho_Spec old)) (hb_Network (sp_BMC (ho_Spec old)))) st'"
proof -
  obtain st1 where st1: "h_networks st1 = h_networks st" "h_cdroms st1 = h_cdroms st"
    and st': "st' = (syncBootConfigRef (ho_Name b) (sp_BootConfigRef (ho_Spec old)) (sp_BootConfigRef (ho_Spec b))
        (syncBMHToNetwork env b (sp_Network (ho_Spec old)) (hb_Network (sp_BMC (ho_Spec old))) (host_hostname old) (sp_IP (ho_Spec old))
          (cleanRemovedNICs old b st1)))\<lparr>h_kick := True\<rparr>"
    using handleUpdateBMH_accepted [OF assms] by metis
  have "carries_out st ([] @ clean_plan old b) (cleanRemovedNICs old b st1)"
    by (rule carries_out_append [OF carries_out_nothing cleanRemovedNICs_carries]) (simp_all add: st1)
  from sync_after [OF this [unfolded append_Nil] refl refl] show ?thesis
    unfolding st' by (rule carries_out_frame) simp_all
qed

lemma delete_nic_carries: "carries_out st [Drop (nic_network b nic) (nic_MAC nic)] (delete_nic b nic st)"
  by (simp add: delete_nic_def remove_carries Let_def)

lemma handleDeleteBMH_carries:
  assumes "map_of (h_hosts st) (host_key ns name) = Some b"
  shows "carries_out st (delete_plan b) (snd (handleDeleteBMH ns name st))"
proof -
  let ?s = "ho_Spec b"
  define st1 where "st1 = removeBMHFromNetwork (sp_BootMACAddress ?s) (sp_Network ?s) st"
  define st2 where "st2 = removeBMHFromNetwork (hb_MAC (sp_BMC ?s)) (hb_Network (sp_BMC ?s)) st1"
  define st3 where "st3 = fold (delete_nic b) (sp_NICs ?s) st2"
  have "carries_out st2 (concat (map (\<lambda>nic. [Drop (nic_network b nic) (nic_MAC nic)]) (sp_NICs ?s))) st3"
    unfolding st3_def by (rule carries_out_fold) (rule delete_nic_carries)
  moreover have "concat (map (\<lambda>x. [f x]) xs) = map f xs" for f :: "nic_spec \<Rightarrow> res_op" and xs by (induction xs) simp_all
  ultimately have s3: "carries_out st2 (map (\<lambda>nic. Drop (nic_network b nic) (nic_MAC nic)) (sp_NICs ?s)) st3" by simp
  have s1: "carries_out st [Drop (sp_Network ?s) (sp_BootMACAddress ?s)] st1" unfolding st1_def by (rule remove_carries)
  have s2: "carries_out st1 [Drop (hb_Network (sp_BMC ?s)) (hb_MAC (sp_BMC ?s))] st2" unfolding st2_def by (rule remove_carries)
  from carries_out_append [OF s1 carries_out_append [OF s2 s3]] have "carries_out st (delete_plan b) st3"
    by (simp add: delete_plan_def)
  moreover have "h_networks (snd (handleDeleteBMH ns name st)) = h_networks st3"
    "h_cdroms (snd (handleDeleteBMH ns name st)) = h_cdroms st3"
    using assms by (simp_all add: handleDeleteBMH_def Let_def st1_def st2_def st3_def)
  ultimately show ?thesis by (rule carries_out_frame)
qed
section \<open>The rest of the state\<close>

text \<open>What synchronising reservations leaves alone: everything but the networks and the calls made.\<close>

definition net_only :: "host_state \<Rightarrow> host_state \<Rightarrow> bool" where
  "net_only st st' \<longleftrightarrow>
     h_hosts st' = h_hosts st \<and> h_hostStore st' = h_hostStore st \<and> h_bootConfigs st' = h_bootConfigs st \<and>
     h_bootStore st' = h_bootStore st \<and> h_cdroms st' = h_cdroms st \<and> h_events st' = h_events st \<and>
     h_bmc st' = h_bmc st \<and> h_ok st' = h_ok st"

abbreviation one_per_mac :: "network_obj \<Rightarrow> bool" where
  "one_per_mac nw \<equiv> distinct (map (\<lambda>r. ToLower (rv_MAC r)) (nw_Reservations nw))"

text \<open>The networks outside a set \<open>D\<close> of names reserve once for each MAC address.\<close>

definition nets_ok :: "string set \<Rightarrow> host_state \<Rightarrow> bool" where
  "nets_ok D st \<longleftrightarrow> gm_wf (h_networks st) \<and> (\<forall>n nw. map_of (h_networks st) n = Some nw \<longrightarrow> n \<notin> D \<longrightarrow> one_per_mac nw)"

definition res_step :: "host_state \<Rightarrow> host_state \<Rightarrow> bool" where
  "res_step st st' \<longleftrightarrow> net_only st st' \<and> (\<forall>D. nets_ok D st \<longrightarrow> nets_ok D st')"

lemma res_step_refl [simp]: "res_step st st"
  by (simp add: res_step_def net_only_def)

lemma res_step_trans: "res_step a b \<Longrightarrow> res_step b c \<Longrightarrow> res_step a c"
  by (simp add: res_step_def net_only_def)

lemma res_step_call [simp]: "res_step st (call x st') = res_step st st'"
  by (simp add: res_step_def net_only_def nets_ok_def)

lemma res_step_dns [simp]: "res_step st (register_dns a b c st') = res_step st st'"
  by (simp add: register_dns_def)

lemma res_step_fold: "(\<And>x s. res_step s (f x s)) \<Longrightarrow> res_step st (fold f xs st)"
  by (induction xs arbitrary: st) (auto intro: res_step_trans)

lemma upsert_res_macs:
  "set (map (\<lambda>r. ToLower (rv_MAC r)) (upsert_res r rs)) = insert (ToLower (rv_MAC r)) (set (map (\<lambda>r. ToLower (rv_MAC r)) rs))"
  by (induction rs) auto

lemma upsert_res_distinct:
  "distinct (map (\<lambda>r. ToLower (rv_MAC r)) rs) \<Longrightarrow> distinct (map (\<lambda>r. ToLower (rv_MAC r)) (upsert_res r rs))"
proof (induction rs)
  case (Cons e rs)
  show ?case
  proof (cases "ToLower (rv_MAC e) = ToLower (rv_MAC r)")
    case True
    with Cons.prems show ?thesis by simp
  next
    case False
    with Cons show ?thesis using upsert_res_macs [of r rs] by (simp del: set_map)
  qed
qed simp

lemma upsert_res_step: "res_step st (upsertNetworkReservation n res st)"
proof -
  have "net_only st (upsertNetworkReservation n res st)"
    by (simp add: net_only_def upsertNetworkReservation_def Let_def split_beta split: option.split)
  moreover have "nets_ok D (upsertNetworkReservation n res st)" if ok: "nets_ok D st" for D
  proof (cases "map_of (h_networks st) n")
    case None
    then show ?thesis using ok by (simp add: nets_ok_def upsert_networks)
  next
    case (Some nw)
    have "n \<notin> D \<longrightarrow> one_per_mac nw" using ok Some unfolding nets_ok_def by blast
    then have "n \<notin> D \<longrightarrow> distinct (map (\<lambda>r. ToLower (rv_MAC r)) (upsert_res (fill_defaults nw res) (nw_Reservations nw)))"
      using upsert_res_distinct by blast
    then show ?thesis using ok Some unfolding nets_ok_def upsert_networks
      by (auto simp del: map_of_eq_Some_iff)
  qed
  ultimately show ?thesis by (simp add: res_step_def)
qed

lemma remove_res_step: "res_step st (removeBMHFromNetwork mac n st)"
proof -
  have "net_only st (removeBMHFromNetwork mac n st)"
    by (simp add: net_only_def removeBMHFromNetwork_def Let_def split_beta split: option.split)
  moreover have "nets_ok D (removeBMHFromNetwork mac n st)" if ok: "nets_ok D st" for D
  proof (cases "map_of (h_networks st) n")
    case None
    then show ?thesis using ok by (simp add: nets_ok_def remove_networks)
  next
    case (Some nw)
    have "n \<notin> D \<longrightarrow> one_per_mac nw" using ok Some unfolding nets_ok_def by blast
    then have "n \<notin> D \<longrightarrow> distinct (map (\<lambda>r. ToLower (rv_MAC r)) (filter P (nw_Reservations nw)))" for P
      using distinct_map_filter by blast
    then show ?thesis using ok Some unfolding nets_ok_def remove_networks
      by (auto simp: Let_def simp del: map_of_eq_Some_iff)
  qed
  ultimately show ?thesis by (simp add: res_step_def)
qed

lemma sync_nic_res_step: "res_step st (sync_nic b nic st)"
  by (simp add: sync_nic_def upsert_res_step Let_def)

lemma clean_nic_res_step: "res_step st (clean_nic old new nic st)"
  by (simp add: clean_nic_def remove_res_step Let_def)

lemma delete_nic_res_step: "res_step st (delete_nic b nic st)"
  by (simp add: delete_nic_def remove_res_step Let_def)

lemma notify_res_step: "res_step st (notify_network n st)"
  by (simp add: notify_network_def split: option.split)

lemma sync_ipmi_res_step: "res_step st (sync_ipmi b old st)"
  by (auto simp: sync_ipmi_def Let_def intro: upsert_res_step remove_res_step res_step_trans)

lemma syncBMHToNetwork_res_step: "res_step st (syncBMHToNetwork env b o1 o2 h ip st)"
proof -
  have 1: "res_step s (sync_old_data b o1 h ip s)" for s by (simp add: sync_old_data_def remove_res_step Let_def)
  have 2: "res_step s (sync_data env b s)" for s by (simp add: sync_data_def upsert_res_step Let_def)
  have 3: "res_step s (fold (sync_nic b) ns s)" for s ns by (rule res_step_fold) (rule sync_nic_res_step)
  have 4: "res_step s (fold notify_network ns s)" for s ns by (rule res_step_fold) (rule notify_res_step)
  show ?thesis unfolding syncBMHToNetwork_def Let_def
    by (rule res_step_trans [OF res_step_trans [OF res_step_trans [OF res_step_trans [OF 1 2] 3] sync_ipmi_res_step] 4])
qed

lemma cleanRemovedNICs_res_step: "res_step st (cleanRemovedNICs old new st)"
  unfolding cleanRemovedNICs_def by (rule res_step_fold) (rule clean_nic_res_step)
section \<open>The tables\<close>

text \<open>A table whose entries are filed under the key computed from them.\<close>

definition keyed :: "('v \<Rightarrow> string) \<Rightarrow> (string, 'v) gomap \<Rightarrow> bool" where
  "keyed f m \<longleftrightarrow> gm_wf m \<and> (\<forall>k v. map_of m k = Some v \<longrightarrow> f v = k)"

lemma keyed_update: "keyed f m \<Longrightarrow> f v = k \<Longrightarrow> keyed f (AList.update k v m)"
  by (simp add: keyed_def del: map_of_eq_Some_iff)

lemma keyed_delete: "keyed f m \<Longrightarrow> keyed f (AList.delete k m)"
  by (simp add: keyed_def del: map_of_eq_Some_iff)

lemma keyed_key: "keyed f m \<Longrightarrow> map_of m k = Some v \<Longrightarrow> f v = k"
  unfolding keyed_def by blast

abbreviation own_key :: "host \<Rightarrow> string" where
  "own_key b \<equiv> host_key (ho_Namespace b) (ho_Name b)"

definition host_inv :: "string set \<Rightarrow> host_state \<Rightarrow> bool" where
  "host_inv D st \<longleftrightarrow> keyed own_key (h_hosts st) \<and> keyed bc_Name (h_bootConfigs st) \<and> nets_ok D st \<and> length (h_events st) \<le> 32"

lemma host_inv_res_step: "host_inv D st \<Longrightarrow> res_step st st' \<Longrightarrow> host_inv D st'"
  by (simp add: host_inv_def res_step_def net_only_def)

lemma host_inv_cong:
  "host_inv D st \<Longrightarrow> h_hosts st' = h_hosts st \<Longrightarrow> h_bootConfigs st' = h_bootConfigs st \<Longrightarrow>
   h_networks st' = h_networks st \<Longrightarrow> h_events st' = h_events st \<Longrightarrow> host_inv D st'"
  by (simp add: host_inv_def nets_ok_def)

lemma host_inv_set_host:
  "host_inv D st \<Longrightarrow> own_key b = k \<Longrightarrow> h_hosts st' = AList.update k b (h_hosts st) \<Longrightarrow> h_bootConfigs st' = h_bootConfigs st \<Longrightarrow>
   h_networks st' = h_networks st \<Longrightarrow> length (h_events st') \<le> 32 \<Longrightarrow> host_inv D st'"
  by (simp add: host_inv_def nets_ok_def keyed_update)

lemma host_inv_set_boot:
  "host_inv D st \<Longrightarrow> bc_Name bc = k \<Longrightarrow> h_bootConfigs st' = AList.update k bc (h_bootConfigs st) \<Longrightarrow> h_hosts st' = h_hosts st \<Longrightarrow>
   h_networks st' = h_networks st \<Longrightarrow> h_events st' = h_events st \<Longrightarrow> host_inv D st'"
  by (simp add: host_inv_def nets_ok_def keyed_update)

lemma host_inv_boot_name: "host_inv D st \<Longrightarrow> map_of (h_bootConfigs st) r = Some bc \<Longrightarrow> bc_Name bc = r"
  unfolding host_inv_def using keyed_key by metis

lemma host_inv_unassign:
  assumes "host_inv D st"
  shows "host_inv D (unassign n r st)"
proof (cases "map_of (h_bootConfigs st) r")
  case (Some bc)
  then show ?thesis using host_inv_boot_name [OF assms Some]
    by (intro host_inv_set_boot [OF assms, of "bc\<lparr>bc_AssignedTo := filter (\<lambda>m. m \<noteq> n) (bc_AssignedTo bc)\<rparr>" r])
      (simp_all add: unassign_def Let_def)
qed (use assms in \<open>simp add: unassign_def\<close>)

lemma host_inv_assign:
  assumes "host_inv D st"
  shows "host_inv D (assign n r st)"
proof (cases "map_of (h_bootConfigs st) r")
  case (Some bc)
  show ?thesis
  proof (cases "n \<in> set (bc_AssignedTo bc)")
    case False
    with Some host_inv_boot_name [OF assms Some] show ?thesis
      by (intro host_inv_set_boot [OF assms, of "bc\<lparr>bc_AssignedTo := bc_AssignedTo bc @ [n]\<rparr>" r])
        (simp_all add: assign_def Let_def)
  qed (use assms Some in \<open>simp add: assign_def\<close>)
qed (use assms in \<open>simp add: assign_def\<close>)

lemma host_inv_syncBoot: "host_inv D st \<Longrightarrow> host_inv D (syncBootConfigRef n o1 o2 st)" "host_inv D st \<Longrightarrow> host_inv D (removeBootConfigRef n r st)"
  by (simp_all add: syncBootConfigRef_def removeBootConfigRef_def Let_def host_inv_assign host_inv_unassign)

lemma host_inv_sync: "host_inv D st \<Longrightarrow> host_inv D (syncBMHToNetwork env b o1 o2 h ip st)"
  by (rule host_inv_res_step [OF _ syncBMHToNetwork_res_step])

lemma host_inv_kick: "host_inv D st \<Longrightarrow> host_inv D (st\<lparr>h_kick := x\<rparr>)"
  by (rule host_inv_cong) simp_all
lemma normalise_update_key [simp]:
  "ho_Namespace (normalise_update ts ns name old b) = ns" "ho_Name (normalise_update ts ns name old b) = name"
  by (simp_all add: normalise_update_def Let_def)

lemma default_credentials_key [simp]:
  "ho_Namespace (default_credentials b) = ho_Namespace b" "ho_Name (default_credentials b) = ho_Name b"
  by (simp_all add: default_credentials_def Let_def)

lemma host_inv_create: "host_inv D st \<Longrightarrow> host_inv D (snd (handleCreateBMH env now ns body st))"
proof -
  assume inv: "host_inv D st"
  have set: "host_inv D (st\<lparr>h_hostStore := bk, h_hosts := AList.update (host_key ns nm) b (h_hosts st)\<rparr>)"
    if "ho_Namespace b = ns" "ho_Name b = nm" for b bk nm
    by (rule host_inv_set_host [OF inv, of b]) (use that inv in \<open>simp_all add: host_inv_def\<close>)
  show ?thesis
  proof (cases body)
    case (Some d)
    show ?thesis unfolding handleCreateBMH_def Some option.case Let_def
      by (auto simp: inv split_beta intro!: host_inv_kick host_inv_syncBoot host_inv_sync set)
  qed (simp add: handleCreateBMH_def inv)
qed

lemma host_inv_update: "host_inv D st \<Longrightarrow> host_inv D (snd (handleUpdateBMH env ts ns name body st))"
proof -
  assume inv: "host_inv D st"
  obtain r st' where eq: "handleUpdateBMH env ts ns name body st = (r, st')" by fastforce
  show ?thesis
  proof (cases "\<exists>code b. r = HttpOk code b")
    case True
    then obtain code b where r: "r = HttpOk code b" by blast
    obtain old where old: "map_of (h_hosts st) (host_key ns name) = Some old"
      using eq r by (cases "map_of (h_hosts st) (host_key ns name)") (simp_all add: handleUpdateBMH_def Let_def)
    from handleUpdateBMH_accepted [OF eq [unfolded r] old] obtain d st1 where
      b: "b = normalise_update ts ns name old d" and
      st1: "h_networks st1 = h_networks st" "h_hosts st1 = AList.update (host_key ns name) b (h_hosts st)"
        "h_bootConfigs st1 = h_bootConfigs st" "length (h_events st1) \<le> max 32 (length (h_events st))" and
      st': "st' = (syncBootConfigRef (ho_Name b) (sp_BootConfigRef (ho_Spec old)) (sp_BootConfigRef (ho_Spec b))
        (syncBMHToNetwork env b (sp_Network (ho_Spec old)) (hb_Network (sp_BMC (ho_Spec old))) (host_hostname old) (sp_IP (ho_Spec old))
          (cleanRemovedNICs old b st1)))\<lparr>h_kick := True\<rparr>" by metis
    have "host_inv D st1"
      by (rule host_inv_set_host [OF inv, of b "host_key ns name"]) (use st1 b inv in \<open>simp_all add: host_inv_def\<close>)
    then have "host_inv D (cleanRemovedNICs old b st1)" by (rule host_inv_res_step [OF _ cleanRemovedNICs_res_step])
    then show ?thesis unfolding eq st' snd_conv by (intro host_inv_kick host_inv_syncBoot host_inv_sync)
  next
    case False
    have "st' = st"
      using eq False by (auto simp: handleUpdateBMH_def Let_def split_beta split: option.splits if_splits)
    with inv eq show ?thesis by simp
  qed
qed

lemma host_inv_delete:
  assumes inv: "host_inv D st"
  shows "host_inv D (snd (handleDeleteBMH ns name st))"
proof (cases "map_of (h_hosts st) (host_key ns name)")
  case (Some b)
  let ?s = "ho_Spec b"
  define st1 where "st1 = fold (delete_nic b) (sp_NICs ?s) (removeBMHFromNetwork (hb_MAC (sp_BMC ?s)) (hb_Network (sp_BMC ?s))
      (removeBMHFromNetwork (sp_BootMACAddress ?s) (sp_Network ?s) st))"
  have "res_step s (fold (delete_nic b) ns s)" for s ns by (rule res_step_fold) (rule delete_nic_res_step)
  then have "res_step st st1" unfolding st1_def by (meson remove_res_step res_step_trans)
  then have i1: "host_inv D st1" by (rule host_inv_res_step [OF inv])
  define st2 where "st2 = (if sp_Network ?s \<noteq> [] \<and> sp_IP ?s \<noteq> [] then call (DeregisterDNS (sp_Network ?s) (host_hostname b) (sp_IP ?s)) st1 else st1)"
  have "host_inv D st2" by (rule host_inv_res_step [OF i1]) (simp add: st2_def)
  then have i3: "host_inv D (removeBootConfigRef (ho_Name b) (sp_BootConfigRef ?s) st2)" by (rule host_inv_syncBoot)
  have drop: "host_inv D (t\<lparr>h_hosts := AList.delete k (h_hosts t), h_hostStore := bk\<rparr>)" if "host_inv D t" for t k bk
    using that by (simp add: host_inv_def nets_ok_def keyed_delete)
  have "snd (handleDeleteBMH ns name st) = (let t = removeBootConfigRef (ho_Name b) (sp_BootConfigRef ?s) st2
      in t\<lparr>h_hosts := AList.delete (host_key ns name) (h_hosts t),
           h_hostStore := snd (del_bucket (h_ok t BHosts) (h_hostStore t) (store_key ns name))\<rparr>)"
    using Some by (simp add: handleDeleteBMH_def Let_def st1_def st2_def)
  with drop [OF i3] show ?thesis by (simp add: Let_def)
qed (use inv in \<open>simp add: handleDeleteBMH_def\<close>)

lemma updateBMHFields_fields:
  "h_networks (snd (updateBMHFields key f st)) = h_networks st" "h_bootConfigs (snd (updateBMHFields key f st)) = h_bootConfigs st"
  "h_events (snd (updateBMHFields key f st)) = h_events st" "h_cdroms (snd (updateBMHFields key f st)) = h_cdroms st"
  "h_hosts (snd (updateBMHFields key f st)) =
     (case map_of (h_hosts st) key of None \<Rightarrow> h_hosts st | Some b \<Rightarrow> AList.update key (f b) (h_hosts st))"
  by (simp_all add: updateBMHFields_def Let_def split_beta split: option.split list.split)

lemma host_inv_fields:
  assumes "host_inv D st" and "\<And>b. own_key (f b) = own_key b"
  shows "host_inv D (snd (updateBMHFields key f st))"
proof (cases "map_of (h_hosts st) key")
  case (Some b)
  have "own_key (f b) = key" using assms(1) Some assms(2) unfolding host_inv_def by (metis keyed_key)
  then show ?thesis
    by (rule host_inv_set_host [OF assms(1)]) (use Some assms(1) in \<open>simp_all add: updateBMHFields_fields host_inv_def\<close>)
qed (use assms(1) in \<open>simp add: updateBMHFields_def\<close>)

lemma host_inv_refresh_all: "host_inv D st \<Longrightarrow> host_inv D (snd (handleRefreshAllBMH ts st))"
proof -
  assume "host_inv D st"
  then have "host_inv D (snd (fold (\<lambda>(key, b) (names, st).
      let (ok, st) = updateBMHFields key (set_annotation ''bmh.mkube.io/refresh'' ts) st
      in (if ok then names @ [ho_Name b] else names, st)) xs (ns, st)))" for xs ns
  proof (induction xs arbitrary: ns st)
    case (Cons x xs)
    have "host_inv D (snd (updateBMHFields (fst x) (set_annotation ''bmh.mkube.io/refresh'' ts) st))"
      by (rule host_inv_fields [OF Cons.prems]) (simp add: set_annotation_def)
    from Cons.IH [OF this] show ?case by (simp add: split_beta Let_def)
  qed simp
  then show ?thesis by (simp add: handleRefreshAllBMH_def split_beta Let_def)
qed

lemma host_inv_switch: "host_inv D st \<Longrightarrow> host_inv D (snd (switch_localboot env key st))"
proof -
  assume "host_inv D st"
  then have "host_inv D (snd (updateBMHFields key set_localboot st))"
    by (rule host_inv_fields) (simp add: set_localboot_def)
  then show ?thesis
    by (auto simp: switch_localboot_def split_beta host_inv_sync split: option.split)
qed

lemma host_inv_install_booted: "host_inv D st \<Longrightarrow> host_inv D (bmcInstallBootedCallback env key st)"
proof -
  assume "host_inv D st"
  then have "host_inv D (snd (updateBMHFields key set_localboot st))"
    by (rule host_inv_fields) (simp add: set_localboot_def)
  then show ?thesis
    by (auto simp: bmcInstallBootedCallback_def split_beta host_inv_sync split: option.split)
qed
lemma host_inv_boot_requests:
  assumes inv: "host_inv D st"
  shows "host_inv D (snd (handleCreateBootConfig now cbody st))"
    and "host_inv D (snd (handleUpdateBootConfig name ubody st))"
    and "host_inv D (snd (handlePatchBootConfig name pbody st))"
    and "host_inv D (snd (handleDeleteBootConfig name st))"
proof -
  have set: "host_inv D (st\<lparr>h_bootStore := b, h_bootConfigs := AList.update k bc (h_bootConfigs st)\<rparr>)"
    if "bc_Name bc = k" for b bc k
    using that by (intro host_inv_set_boot [OF inv, of bc k]) simp_all
  show "host_inv D (snd (handleCreateBootConfig now cbody st))"
    unfolding handleCreateBootConfig_def Let_def by (auto simp: inv split_beta intro!: set split: option.split)
  show "host_inv D (snd (handleUpdateBootConfig name ubody st))"
    unfolding handleUpdateBootConfig_def Let_def by (auto simp: inv split_beta intro!: set split: option.split)
  show "host_inv D (snd (handlePatchBootConfig name pbody st))"
    unfolding handlePatchBootConfig_def Let_def by (auto simp: inv split_beta intro!: set split: option.split)
  have "host_inv D (st\<lparr>h_bootStore := b, h_bootConfigs := AList.delete k (h_bootConfigs st)\<rparr>)" for b k
    using inv by (simp add: host_inv_def nets_ok_def keyed_delete)
  then show "host_inv D (snd (handleDeleteBootConfig name st))"
    unfolding handleDeleteBootConfig_def Let_def by (auto simp: inv split_beta split: option.split)
qed

lemma keyed_load: "keyed f m \<Longrightarrow> keyed f (fold (\<lambda>(key, v) t. if readable key then AList.update (f v) v t else t) kvs m)"
  by (induction kvs arbitrary: m) (auto simp: keyed_update split_beta simp del: map_of_eq_Some_iff)

text \<open>The names under which a request outside this model has stored a network that reserves twice for a MAC address.\<close>

definition doubled :: "host_op list \<Rightarrow> string set" where
  "doubled ops = {n. \<exists>nw. HNetwork n (Some nw) \<in> set ops \<and> \<not> one_per_mac nw}"

lemma host_step_inv: "host_inv D st \<Longrightarrow> doubled [op] \<subseteq> D \<Longrightarrow> host_inv D (host_step env op st)"
proof (cases op)
  case (HLoadHosts readable)
  assume "host_inv D st"
  then show ?thesis
    by (auto simp: HLoadHosts LoadBMHFromStore_def host_inv_def nets_ok_def keyed_load split: option.split simp del: map_of_eq_Some_iff)
next
  case (HLoadBoots readable)
  assume "host_inv D st"
  then show ?thesis
    by (auto simp: HLoadBoots LoadBootConfigsFromStore_def host_inv_def nets_ok_def keyed_load split: option.split simp del: map_of_eq_Some_iff)
next
  case (HNetwork n nw)
  assume i: "host_inv D st" and "doubled [op] \<subseteq> D"
  then have d: "nw = Some x \<Longrightarrow> n \<notin> D \<Longrightarrow> one_per_mac x" for x by (auto simp: HNetwork doubled_def)
  have "nets_ok D st" using i by (simp add: host_inv_def)
  then have "nets_ok D (host_step env op st)"
    using d unfolding HNetwork nets_ok_def by (cases nw) (simp_all del: map_of_eq_Some_iff)
  with i show ?thesis by (simp add: HNetwork host_inv_def)
next
  case (HPatch ts ns name body)
  assume "host_inv D st"
  then show ?thesis by (cases body) (simp_all add: HPatch handlePatchBMH_def host_inv_update)
next
  case (HBootComplete ip)
  assume "host_inv D st"
  then show ?thesis
    by (auto simp: HBootComplete handleBootComplete_def split_beta host_inv_switch split: option.split)
next
  case HTake
  assume "host_inv D st"
  then have "nets_ok D (st\<lparr>h_events := tl (h_events st)\<rparr>)" "length (h_events st) \<le> 32"
    "keyed own_key (h_hosts st)" "keyed bc_Name (h_bootConfigs st)" by (simp_all add: host_inv_def nets_ok_def)
  then show ?thesis by (simp add: HTake host_inv_def)
next
  case (HStore ok)
  assume "host_inv D st"
  then show ?thesis by (simp add: HStore host_inv_def nets_ok_def)
next
  case (HPower key on)
  assume "host_inv D st"
  then show ?thesis unfolding HPower host_step.simps bmcPowerChangedCallback_def by (rule host_inv_fields) simp
next
  case (HRefresh ts ns name)
  assume "host_inv D st"
  then have "host_inv D (snd (updateBMHFields (host_key ns name) (set_annotation ''bmh.mkube.io/refresh'' ts) st))"
    by (rule host_inv_fields) (simp add: set_annotation_def)
  then show ?thesis by (simp add: HRefresh handleRefreshBMH_def split_beta)
qed (simp_all add: host_inv_create host_inv_update host_inv_delete host_inv_refresh_all host_inv_install_booted
    host_inv_boot_requests ipxe_goroutine_def host_inv_switch)

definition host_start :: "host_state \<Rightarrow> bool" where
  "host_start st \<longleftrightarrow> h_hosts st = [] \<and> h_bootConfigs st = [] \<and> h_events st = [] \<and> nets_ok {} st"

interpretation host_sys: invariant_system host_start "\<lambda>s t. \<exists>op. doubled [op] \<subseteq> D \<and> t = host_step env op s" "host_inv D"
proof
  show "host_inv D s" if "host_start s" for s using that by (simp add: host_start_def host_inv_def keyed_def nets_ok_def)
  show "host_inv D t" if "host_inv D s" "\<exists>op. doubled [op] \<subseteq> D \<and> t = host_step env op s" for s t using that host_step_inv by auto
qed

lemma host_exec_steps: "doubled ops \<subseteq> D \<Longrightarrow> (\<lambda>s t. \<exists>op. doubled [op] \<subseteq> D \<and> t = host_step env op s)\<^sup>*\<^sup>* st (host_exec env ops st)"
proof (induction ops arbitrary: st)
  case (Cons op ops)
  have "doubled [op] \<subseteq> D" "doubled ops \<subseteq> D" using Cons.prems by (auto simp: doubled_def)
  then have "(\<lambda>s t. \<exists>op. doubled [op] \<subseteq> D \<and> t = host_step env op s) st (host_step env op st)" by blast
  with Cons.IH [OF \<open>doubled ops \<subseteq> D\<close>, of "host_step env op st"] show ?case
    by (auto simp: host_exec_def intro: converse_rtranclp_into_rtranclp)
qed (simp add: host_exec_def)

section \<open>Booting once\<close>

text \<open>When one host only has the address, the request finds it, in whatever order the table is ranged over.\<close>

lemma host_by_ip_unique:
  assumes "gm_wf (h_hosts st)" and "map_of (h_hosts st) key = Some b" and "sp_IP (ho_Spec b) = ip"
    and "\<forall>k c. map_of (h_hosts st) k = Some c \<and> sp_IP (ho_Spec c) = ip \<longrightarrow> k = key"
  shows "host_by_ip ip st = Some (key, b)"
proof -
  have mem: "(key, b) \<in> set (h_hosts st)" using assms(2) by (rule map_of_SomeD)
  have "host_by_ip ip st \<noteq> None"
    using mem assms(3) unfolding host_by_ip_def find_None_ball by fastforce
  then obtain k c where h: "host_by_ip ip st = Some (k, c)" by auto
  then have f: "List.find (\<lambda>(key, b). sp_IP (ho_Spec b) = ip) (h_hosts st) = Some (k, c)" by (simp add: host_by_ip_def)
  then have c: "sp_IP (ho_Spec c) = ip" and "(k, c) \<in> set (h_hosts st)" using find_SomeD [OF f] by auto
  then have m: "map_of (h_hosts st) k = Some c" using assms(1) by (simp only: gm_mem_iff)
  with c assms(4) have "k = key" by blast
  with m assms(2) h show ?thesis by simp
qed

lemma set_localboot_simps [simp]:
  "sp_Image (ho_Spec (set_localboot b)) = ''localboot''" "sp_IP (ho_Spec (set_localboot b)) = sp_IP (ho_Spec b)"
  "sp_Network (ho_Spec (set_localboot b)) = sp_Network (ho_Spec b)" "sp_BMC (ho_Spec (set_localboot b)) = sp_BMC (ho_Spec b)"
  "sp_BootMACAddress (ho_Spec (set_localboot b)) = sp_BootMACAddress (ho_Spec b)"
  "sp_NICs (ho_Spec (set_localboot b)) = sp_NICs (ho_Spec b)"
  by (simp_all add: set_localboot_def)

lemma switch_localboot_hosts:
  "map_of (h_hosts st) key = Some b \<Longrightarrow> h_hosts (snd (switch_localboot env key st)) = AList.update key (set_localboot b) (h_hosts st)"
  using syncBMHToNetwork_res_step
  by (auto simp: switch_localboot_def split_beta updateBMHFields_fields res_step_def net_only_def split: option.split)

lemma fill_defaults_root [simp]: "rv_RootPath (fill_defaults nw r) = rv_RootPath r"
  by (simp add: fill_defaults_def Let_def)

lemma switch_localboot_view:
  assumes "fst (switch_localboot env key st)" and "map_of (h_hosts st) key = Some b"
    and "distinct (host_macs b)" and "sp_BootMACAddress (ho_Spec b) \<noteq> []"
    and "sp_Network (ho_Spec b) \<noteq> []" and "map_of (h_networks st) (sp_Network (ho_Spec b)) = Some nw"
  shows "\<exists>r. res_view (snd (switch_localboot env key st)) (sp_Network (ho_Spec b), ToLower (sp_BootMACAddress (ho_Spec b))) = Some r \<and>
    rv_RootPath r = []"
proof -
  let ?s = "ho_Spec b" and ?c = "set_localboot b"
  define st1 where "st1 = snd (updateBMHFields key set_localboot st)"
  have h: "map_of (h_hosts st1) key = Some ?c" "h_networks st1 = h_networks st"
    using assms(2) by (simp_all add: st1_def updateBMHFields_fields)
  let ?plan = "sync_plan env st1 ?c (sp_Network ?s) (hb_Network (sp_BMC ?s))"
  let ?op = "Put (sp_Network ?s) (data_reservation env st1 ?c)"
  have "snd (switch_localboot env key st) =
      syncBMHToNetwork env ?c (sp_Network ?s) (hb_Network (sp_BMC ?s)) (ho_Name ?c) (sp_IP ?s) st1"
    using assms(1) h(1) by (auto simp: switch_localboot_def split_beta st1_def split: if_splits)
  then have v: "res_view (snd (switch_localboot env key st)) = fold (apply_res (map_of (h_networks st))) ?plan (res_view st1)"
    using syncBMHToNetwork_carries [of st1 env ?c] h(2) by (simp add: carries_out_def)
  have "host_macs ?c = host_macs b" by (simp add: host_macs_def)
  then have "distinct (map op_target ?plan)" using assms(3) by (intro sync_plan_settled) simp
  moreover have "?op \<in> set ?plan" using assms(4,5) by (simp add: sync_plan_def Let_def)
  ultimately obtain v' where "fold (apply_res (map_of (h_networks st))) ?plan (res_view st1) (op_target ?op) =
      apply_res (map_of (h_networks st)) ?op v' (op_target ?op)" using plan_settled by blast
  moreover have "rv_MAC (data_reservation env st1 ?c) = sp_BootMACAddress ?s" "rv_RootPath (data_reservation env st1 ?c) = []"
    by (simp_all add: data_reservation_def root_path_def Let_def)
  ultimately show ?thesis using assms(6) by (simp add: v)
qed

section \<open>Properties\<close>


text \<open>
  C23. What a request on a host does to the reservations of all networks, seen as a map from network and MAC
  address to reservation: an accepted creation puts one reservation per attached interface; an accepted
  update drops those of removed interfaces first, then the one of the boot MAC on a network that was left,
  puts the new ones, and treats the BMC alike; a deletion drops one per interface. The lists
  \<open>sync_plan\<close>, \<open>clean_plan\<close> and \<open>delete_plan\<close> say exactly which. Nothing else changes in the map, even when the
  store fails in between.
\<close>

theorem host_requests_refine_reservations:
  "(\<forall>code b st'. handleCreateBMH env now ns body st = (HttpOk code b, st') \<longrightarrow>
      res_view st' = fold (apply_res (map_of (h_networks st))) (sync_plan env st b [] []) (res_view st)) \<and>
   (\<forall>code b st' old. handleUpdateBMH env ts ns name ubody st = (HttpOk code b, st') \<and> map_of (h_hosts st) (host_key ns name) = Some old \<longrightarrow>
      res_view st' = fold (apply_res (map_of (h_networks st)))
        (clean_plan old b @ sync_plan env st b (sp_Network (ho_Spec old)) (hb_Network (sp_BMC (ho_Spec old)))) (res_view st)) \<and>
   (\<forall>b. map_of (h_hosts st) (host_key ns name) = Some b \<longrightarrow>
      res_view (snd (handleDeleteBMH ns name st)) = fold (apply_res (map_of (h_networks st))) (delete_plan b) (res_view st))"
  using handleCreateBMH_carries [of env now ns body st] handleUpdateBMH_carries [of env ts ns name ubody st]
    handleDeleteBMH_carries [of st ns name]
  unfolding carries_out_def by blast
definition sample_nic :: "nic_spec" where
  "sample_nic = \<lparr>nic_MAC = ''CC'', nic_IP = ''10.0.0.9'', nic_Role = ''data'', nic_Network = [], nic_Hostname = []\<rparr>"

definition sample_host :: "string \<Rightarrow> string \<Rightarrow> host" where
  "sample_host mac img =
     \<lparr>ho_Namespace = ''g10'', ho_Name = ''server1'', ho_CreationTimestamp = None, ho_Annotations = [],
      ho_Spec = \<lparr>sp_BMC = \<lparr>hb_Address = ''10.0.1.7'', hb_MAC = ''BB'', hb_Hostname = [], hb_Network = ''g11'', hb_Username = [], hb_Password = []\<rparr>,
        sp_BootMACAddress = mac, sp_Online = None, sp_Image = img, sp_Network = ''g10'', sp_IP = ''10.0.0.7'', sp_Hostname = [],
        sp_NextServer = [], sp_BootFile = [], sp_BootFileEFI = [], sp_BootConfigRef = [], sp_BootMode = [], sp_NICs = [sample_nic]\<rparr>,
      ho_Status = \<lparr>hst_state_Phase = [], hst_PoweredOn = False, hst_NetworkInterfaces = []\<rparr>\<rparr>"

definition sample_net :: "string \<Rightarrow> network_obj" where
  "sample_net n = \<lparr>nw_Name = n, nw_Gateway = ''10.0.0.1'', nw_Endpoint = [], nw_Zone = n @ ''.lo'', nw_Server = [], nw_Reservations = []\<rparr>"

definition sample_hosts :: host_state where
  "sample_hosts =
     \<lparr>h_hosts = [], h_hostStore = Some [], h_networks = [(''g10'', sample_net ''g10''), (''g11'', sample_net ''g11'')], h_netStore = Some [],
      h_bootConfigs = [], h_bootStore = Some [], h_cdroms = [(''fedora43'', ''iqn'')], h_bmc = True, h_events = [], h_kick = False,
      h_calls = [], h_ok = (\<lambda>_ _. True)\<rparr>"

definition sample_env :: host_env where
  "sample_env = \<lparr>he_LookupHost = (\<lambda>_. None), he_Zone = ''lo'', he_Gateway = ''10.0.0.1''\<rparr>"


definition sample_created :: host_state where
  "sample_created = snd (handleCreateBMH sample_env 0 ''g10'' (Some (sample_host ''AA'' ''fedora43'')) sample_hosts)"

theorem host_requests_refine_reservations_witness:
  "\<exists>b. handleCreateBMH sample_env 0 ''g10'' (Some (sample_host ''AA'' ''fedora43'')) sample_hosts = (HttpOk 201 b, sample_created) \<and>
     res_view sample_created =
       fold (apply_res (map_of (h_networks sample_hosts))) (sync_plan sample_env sample_hosts b [] []) (res_view sample_hosts)"
proof -
  let ?r = "handleCreateBMH sample_env 0 ''g10'' (Some (sample_host ''AA'' ''fedora43'')) sample_hosts"
  have "(case fst ?r of HttpOk c b \<Rightarrow> c = 201 | _ \<Rightarrow> False)" by code_simp
  then obtain b where "fst ?r = HttpOk 201 b" by (auto split: response.splits)
  then have r: "?r = (HttpOk 201 b, sample_created)" by (simp add: sample_created_def prod_eq_iff)
  with host_requests_refine_reservations [of sample_env 0 "''g10''" "Some (sample_host ''AA'' ''fedora43'')" sample_hosts]
  show ?thesis by blast
qed

text \<open>
  C24. After an accepted update the networks mirror the host: every interface of the new specification is
  reserved on its network with exactly the wanted options, completed from the network; the boot MAC is
  gone from a data network the host left and the BMC's from a BMC network it left; and any reservation
  that neither the new specification nor a removed interface names is as it was. Hypothesis: the
  interfaces of the host have different MAC addresses.
\<close>

theorem update_mirrors_host:
  assumes "handleUpdateBMH env ts ns name body st = (HttpOk code b, st')" and "map_of (h_hosts st) (host_key ns name) = Some old"
    and "distinct (host_macs b)" and "plan = sync_plan env st b (sp_Network (ho_Spec old)) (hb_Network (sp_BMC (ho_Spec old)))"
  shows "(\<forall>n r nw. Put n r \<in> set plan \<and> map_of (h_networks st) n = Some nw \<longrightarrow>
      res_view st' (n, ToLower (rv_MAC r)) = Some (fill_defaults nw r)) \<and>
    (\<forall>n mac. Drop n mac \<in> set plan \<and> n \<noteq> [] \<and> mac \<noteq> [] \<longrightarrow> res_view st' (n, ToLower mac) = None) \<and>
    (\<forall>t. t \<notin> op_target ` set (clean_plan old b @ plan) \<longrightarrow> res_view st' t = res_view st t)"
proof -
  let ?N = "map_of (h_networks st)"
  have v: "res_view st' = fold (apply_res ?N) plan (fold (apply_res ?N) (clean_plan old b) (res_view st))"
    using handleUpdateBMH_carries [OF assms(1,2)] assms(4) by (simp add: carries_out_def)
  have d: "distinct (map op_target plan)" unfolding assms(4) by (rule sync_plan_settled [OF assms(3)])
  have settled: "\<exists>v'. res_view st' (op_target op) = apply_res ?N op v' (op_target op)" if "op \<in> set plan" for op
    using plan_settled [OF d that] unfolding v by blast
  have "res_view st' (n, ToLower (rv_MAC r)) = Some (fill_defaults nw r)" if "Put n r \<in> set plan" "?N n = Some nw" for n r nw
    using settled [OF that(1)] that(2) by auto
  moreover have "res_view st' (n, ToLower mac) = None" if "Drop n mac \<in> set plan" "n \<noteq> []" "mac \<noteq> []" for n mac
    using settled [OF that(1)] that(2,3) by auto
  moreover have "res_view st' t = res_view st t" if "t \<notin> op_target ` set (clean_plan old b @ plan)" for t
    using that unfolding v by (simp add: plan_untouched image_Un)
  ultimately show ?thesis by blast
qed
definition sample_update :: "host response \<times> host_state" where
  "sample_update = handleUpdateBMH sample_env ''now'' ''g10'' ''server1'' (\<lambda>_. Some (sample_host ''DD'' ''localboot'')) sample_created"

lemma sample_update_ok:
  "\<exists>b old. sample_update = (HttpOk 200 b, snd sample_update) \<and> map_of (h_hosts sample_created) (host_key ''g10'' ''server1'') = Some old \<and>
     distinct (host_macs b) \<and> ho_Spec old = ho_Spec (default_credentials (sample_host ''AA'' ''fedora43'')) \<and>
     sp_BootMACAddress (ho_Spec b) = ''DD'' \<and> host_macs b = [''dd'', ''bb'', ''cc''] \<and> sp_Network (ho_Spec b) = ''g10''"
proof -
  have "(case fst sample_update of HttpOk c b \<Rightarrow> c = 200 \<and> distinct (host_macs b) \<and> sp_BootMACAddress (ho_Spec b) = ''DD'' \<and>
      host_macs b = [''dd'', ''bb'', ''cc''] \<and> sp_Network (ho_Spec b) = ''g10'' | _ \<Rightarrow> False)"
    by code_simp
  then obtain b where "fst sample_update = HttpOk 200 b" "distinct (host_macs b)" "sp_BootMACAddress (ho_Spec b) = ''DD''"
    "host_macs b = [''dd'', ''bb'', ''cc'']" "sp_Network (ho_Spec b) = ''g10''" by (auto split: response.splits)
  moreover have "(case map_of (h_hosts sample_created) (host_key ''g10'' ''server1'') of
      Some old \<Rightarrow> ho_Spec old = ho_Spec (default_credentials (sample_host ''AA'' ''fedora43'')) | None \<Rightarrow> False)" by code_simp
  then obtain old where "map_of (h_hosts sample_created) (host_key ''g10'' ''server1'') = Some old"
    "ho_Spec old = ho_Spec (default_credentials (sample_host ''AA'' ''fedora43''))" by (auto split: option.splits simp del: map_of_eq_Some_iff)
  ultimately show ?thesis by (metis prod.collapse)
qed

theorem update_mirrors_host_witness:
  "\<exists>r. res_view (snd sample_update) (''g10'', ''dd'') = Some r \<and> rv_IP r = ''10.0.0.7'' \<and> rv_RootPath r = []"
proof -
  obtain b old where b: "sample_update = (HttpOk 200 b, snd sample_update)" "distinct (host_macs b)" "sp_BootMACAddress (ho_Spec b) = ''DD''"
    "host_macs b = [''dd'', ''bb'', ''cc'']" "sp_Network (ho_Spec b) = ''g10''"
    and old: "map_of (h_hosts sample_created) (host_key ''g10'' ''server1'') = Some old" using sample_update_ok by blast
  let ?plan = "sync_plan sample_env sample_created b (sp_Network (ho_Spec old)) (hb_Network (sp_BMC (ho_Spec old)))"
  from b(3,5) have "Put ''g10'' (data_reservation sample_env sample_created b) \<in> set ?plan" by (simp add: sync_plan_def Let_def)
  moreover obtain nw where "map_of (h_networks sample_created) ''g10'' = Some nw"
  proof -
    have "map_of (h_networks sample_created) ''g10'' \<noteq> None" by code_simp
    then show ?thesis using that by auto
  qed
  moreover have "ToLower (rv_MAC (data_reservation sample_env sample_created b)) = ''dd''"
    using b(4) by (simp add: host_macs_def data_reservation_def Let_def)
  ultimately have "res_view (snd sample_update) (''g10'', ''dd'') = Some (fill_defaults nw (data_reservation sample_env sample_created b))"
    using update_mirrors_host [OF b(1) [unfolded sample_update_def] old b(2) refl] unfolding sample_update_def by metis
  moreover have "(case res_view (snd sample_update) (''g10'', ''dd'') of
      Some r \<Rightarrow> rv_IP r = ''10.0.0.7'' \<and> rv_RootPath r = [] | None \<Rightarrow> False)" by code_simp
  ultimately show ?thesis by auto
qed

lemma clean_plan_macs: "plan_macs (clean_plan old b) \<subseteq> (\<lambda>nic. ToLower (nic_MAC nic)) ` set (sp_NICs (ho_Spec old))"
  by (auto simp: clean_plan_def plan_macs_def)

lemma delete_plan_macs: "plan_macs (delete_plan b) \<subseteq> set (host_macs b)"
  by (auto simp: delete_plan_def plan_macs_def host_macs_def)

lemma sync_plan_macs: "plan_macs (sync_plan env st b o1 o2) \<subseteq> set (host_macs b)"
  using nic_plan_macs [of b "sp_NICs (ho_Spec b)"]
  by (auto simp: sync_plan_def Let_def host_macs_def data_reservation_def ipmi_reservation_def image_image)

lemma plan_view_mac: "m \<notin> plan_macs p \<Longrightarrow> fold (apply_res N) p v (n, m) = v (n, m)"
  using imageI [of "(n, m)" "op_target ` set p" snd] by (intro plan_untouched) (auto simp: plan_macs_def)

text \<open>
  A host whose boot MAC is changed leaves its old reservation behind: the clean-up of an update works
  with the new MAC address only, so the entry for the old one stays on the network through the update, and
  deleting the host afterwards does not remove it either. Hypotheses: the old boot MAC is neither an
  interface of the new specification nor a secondary interface of the old one.
\<close>

theorem old_boot_mac_keeps_reservation:
  assumes "handleUpdateBMH env ts ns name body st = (HttpOk code b, st')" and "map_of (h_hosts st) (host_key ns name) = Some old"
    and "m = ToLower (sp_BootMACAddress (ho_Spec old))" and "m \<notin> set (host_macs b)"
    and "m \<notin> (\<lambda>nic. ToLower (nic_MAC nic)) ` set (sp_NICs (ho_Spec old))"
  shows "res_view st' (n, m) = res_view st (n, m) \<and> res_view (snd (handleDeleteBMH ns name st')) (n, m) = res_view st (n, m)"
proof -
  have "m \<notin> plan_macs (clean_plan old b @ sync_plan env st b (sp_Network (ho_Spec old)) (hb_Network (sp_BMC (ho_Spec old))))"
    using assms(4,5) clean_plan_macs sync_plan_macs unfolding plan_macs_simps by blast
  with handleUpdateBMH_carries [OF assms(1,2)] have 1: "res_view st' (n, m) = res_view st (n, m)"
    unfolding carries_out_def using plan_view_mac by metis
  obtain st1 where "h_hosts st1 = AList.update (host_key ns name) b (h_hosts st)" and
    "st' = (syncBootConfigRef (ho_Name b) (sp_BootConfigRef (ho_Spec old)) (sp_BootConfigRef (ho_Spec b))
        (syncBMHToNetwork env b (sp_Network (ho_Spec old)) (hb_Network (sp_BMC (ho_Spec old))) (host_hostname old) (sp_IP (ho_Spec old))
          (cleanRemovedNICs old b st1)))\<lparr>h_kick := True\<rparr>"
    using handleUpdateBMH_accepted [OF assms(1,2)] by metis
  then have "map_of (h_hosts st') (host_key ns name) = Some b"
    using syncBMHToNetwork_res_step cleanRemovedNICs_res_step by (simp add: res_step_def net_only_def)
  from handleDeleteBMH_carries [OF this] have "res_view (snd (handleDeleteBMH ns name st')) (n, m) = res_view st' (n, m)"
    unfolding carries_out_def using plan_view_mac assms(4) delete_plan_macs by (metis subsetD)
  with 1 show ?thesis by simp
qed
theorem old_boot_mac_keeps_reservation_witness:
  "\<exists>r. res_view (snd (handleDeleteBMH ''g10'' ''server1'' (snd sample_update))) (''g10'', ''aa'') = Some r \<and> rv_IP r = ''10.0.0.7''"
proof -
  obtain b old where b: "sample_update = (HttpOk 200 b, snd sample_update)" "host_macs b = [''dd'', ''bb'', ''cc'']"
    and old: "map_of (h_hosts sample_created) (host_key ''g10'' ''server1'') = Some old"
    and spec: "ho_Spec old = ho_Spec (default_credentials (sample_host ''AA'' ''fedora43''))" using sample_update_ok by blast
  have m: "''aa'' = ToLower (sp_BootMACAddress (ho_Spec old))" unfolding spec by code_simp
  have "''aa'' \<notin> set (map (\<lambda>nic. ToLower (nic_MAC nic)) (sp_NICs (ho_Spec old)))" unfolding spec by code_simp
  then have n: "''aa'' \<notin> (\<lambda>nic. ToLower (nic_MAC nic)) ` set (sp_NICs (ho_Spec old))" by simp
  have "''aa'' \<notin> set (host_macs b)" unfolding b(2) by simp
  from old_boot_mac_keeps_reservation [OF b(1) [unfolded sample_update_def] old m this n, of "''g10''"]
  have "res_view (snd (handleDeleteBMH ''g10'' ''server1'' (snd sample_update))) (''g10'', ''aa'') = res_view sample_created (''g10'', ''aa'')"
    unfolding sample_update_def by blast
  moreover have "(case res_view sample_created (''g10'', ''aa'') of Some r \<Rightarrow> rv_IP r = ''10.0.0.7'' | None \<Rightarrow> False)" by code_simp
  ultimately show ?thesis by (auto split: option.splits)
qed



text \<open>When the store refuses the change the image is switched in memory only and the reservation keeps the image.\<close>

lemma failed_switch_keeps_root_path:
  assumes "\<not> fst (switch_localboot env key st)" and "map_of (h_hosts st) key = Some b"
  shows "map_of (h_hosts (snd (switch_localboot env key st))) key = Some (set_localboot b) \<and>
    res_view (snd (switch_localboot env key st)) = res_view st"
proof -
  have "snd (switch_localboot env key st) = snd (updateBMHFields key set_localboot st)"
    using assms(1) by (simp add: switch_localboot_def split_beta split: if_splits)
  with assms(2) show ?thesis by (simp add: updateBMHFields_fields res_view_def)
qed

text \<open>
  A boot configuration that is created after the host that refers to it does not know the host, and its
  deletion is not refused although the host would be served from it.
\<close>

lemma late_boot_config_unprotected:
  assumes "\<not> gm_has (h_bootConfigs st) (bc_Name bc)" and "bc_Name bc \<noteq> []" and "bc_AssignedTo bc = []"
    and "handleCreateBootConfig now (Some bc) st = (HttpOk code bc', st')" and "h_ok st' BBootConfigs (bc_Name bc)"
  shows "fst (handleDeleteBootConfig (bc_Name bc) st') = HttpOk 200 ()"
proof -
  have "map_of (h_bootConfigs st') (bc_Name bc) = Some bc'" "bc_AssignedTo bc' = []"
    using assms(1-4) by (auto simp: handleCreateBootConfig_def Let_def split_beta split: if_splits)
  with assms(5) show ?thesis
    by (simp add: handleDeleteBootConfig_def del_bucket_def Let_def split: option.split)
qed

end
