(* ===== verification/Deployments.thy ===== *)
theory Deployments
  imports Cluster GoText
begin

text \<open>
  \<open>pkg/provider/deployment.go\<close>: the deployment controller. A deployment keeps a number of pods made from a
  template; the pods are entries of the provider's pod table with an owner annotation. The state is the two
  tables and the two buckets that mirror them.

  Making the containers of a pod is work of the container runtime, the storage manager and the network, so
  \<open>CreatePod\<close> is modelled from the point at which that work is done: the record \<open>dep_env\<close> says for every pod
  whether it failed, which annotations it wrote and which addresses it got. The same record says which writes
  to the store succeed, whether an image has changed and whether an updated pod came up.
\<close>

section \<open>Objects\<close>

record container_spec =
  ct_Name :: string
  ct_Image :: string

text \<open>The rest of a pod's specification is only copied.\<close>

record pod_spec =
  ps_Containers :: "container_spec list"
  ps_Other :: string

record pod =
  po_Namespace :: string
  po_Name :: string
  po_Created :: instant
  po_Annotations :: "(string, string) gomap"
  po_Labels :: "(string, string) gomap"
  po_Spec :: pod_spec

record deployment =
  dp_Namespace :: string
  dp_Name :: string
  dp_Created :: "instant option"
  dp_Replicas :: int
  dp_TemplateAnnotations :: "(string, string) gomap"
  dp_TemplateLabels :: "(string, string) gomap"
  dp_TemplateSpec :: pod_spec
  dst_Replicas :: int
  dst_ReadyReplicas :: int
  dst_UpdatedAt :: stamp

definition annotationOwnerDeployment :: string where "annotationOwnerDeployment = ''vkube.io/owner-deployment''"
definition annotationNetwork :: string where "annotationNetwork = ''vkube.io/network''"
definition annotationFile :: string where "annotationFile = ''vkube.io/file''"
definition annotationStaticIP :: string where "annotationStaticIP = ''vkube.io/static-ip''"
definition annotationImagePolicy :: string where "annotationImagePolicy = ''vkube.io/image-policy''"
definition annotationNode :: string where "annotationNode = ''vkube.io/node''"
definition annotationImageDigest :: string where "annotationImageDigest = ''vkube.io/image-digest''"

lemmas annotation_keys =
  annotationOwnerDeployment_def annotationNetwork_def annotationFile_def annotationStaticIP_def
  annotationImagePolicy_def annotationNode_def annotationImageDigest_def

text \<open>Reading a Go map of strings: the empty string where the key is absent.\<close>

definition ann :: "(string, string) gomap \<Rightarrow> string \<Rightarrow> string" where
  "ann m k = (case map_of m k of Some v \<Rightarrow> v | None \<Rightarrow> '''')"

definition wrap32 :: "int \<Rightarrow> int" where
  "wrap32 x = (x + 2 ^ 31) mod 2 ^ 32 - 2 ^ 31"

definition podKey :: "pod \<Rightarrow> string" where
  "podKey pod = po_Namespace pod @ ''/'' @ po_Name pod"

definition pod_storeKey :: "pod \<Rightarrow> string" where
  "pod_storeKey pod = po_Namespace pod @ ''.'' @ po_Name pod"

section \<open>Names on the device\<close>

definition truncate_str :: "string \<Rightarrow> nat \<Rightarrow> string" where
  "truncate_str s n = (if n < length s then take n s else s)"

text \<open>\<open>strings.Map\<close> with the function literal of \<open>sanitizeName\<close>, on the bytes of an ASCII name.\<close>

definition sanitize_rune :: "char \<Rightarrow> char" where
  "sanitize_rune c =
     (let r = of_char c :: nat in
      if (97 \<le> r \<and> r \<le> 122) \<or> (48 \<le> r \<and> r \<le> 57) \<or> c = CHR ''-'' \<or> c = CHR ''_'' then c
      else if 65 \<le> r \<and> r \<le> 90 then char_of (r + 32)
      else CHR ''_'')"

definition sanitizeName :: "string \<Rightarrow> string \<Rightarrow> string \<Rightarrow> string" where
  "sanitizeName namespace name containerName =
     (let ns = (if namespace = '''' then ''default'' else namespace)
      in truncate_str (map sanitize_rune (ns @ ''_'' @ name @ ''_'' @ containerName)) 64)"

definition vethName :: "pod \<Rightarrow> nat \<Rightarrow> string" where
  "vethName pod index =
     (let ns = (if po_Namespace pod = '''' then ''default'' else po_Namespace pod)
      in ''veth_'' @ truncate_str ns 15 @ ''_'' @ truncate_str (po_Name pod) 15 @ ''_'' @ Itoa (int index))"

section \<open>State and environment\<close>

record dep_state =
  ds_deployments :: "(string, deployment) gomap"
  ds_pods :: "(string, pod) gomap"
  ds_depBucket :: "(string, deployment) gomap"
  ds_podBucket :: "(string, pod) gomap"
  ds_kicks :: nat

text \<open>
  What the work of \<open>CreatePod\<close> on the containers of a pod ends with: an error or not, the annotations written
  on the way (the device allocation and the copy-on-write volume), whether such a pod was stored, and the
  addresses of the containers.
\<close>

record create_result =
  cr_failed :: bool
  cr_stamps :: "(string, string) gomap"
  cr_stored :: bool
  cr_ips :: "(string, string) gomap"

record dep_env =
  de_now :: instant
  de_store :: bool
  de_deployments :: bool
  de_connected :: bool
  de_depPut :: bool
  de_depDelete :: bool
  de_depKeys :: bool
  de_depGet :: "string \<Rightarrow> bool"
  de_podPut :: "string \<Rightarrow> bool"
  de_podDelete :: "string \<Rightarrow> bool"
  de_cluster :: "node option"
  de_nodeName :: string
  de_create :: "bool \<Rightarrow> pod \<Rightarrow> create_result"
  de_digest :: "string \<Rightarrow> string option"
  de_refresh :: "string \<Rightarrow> bool option"
  de_live :: "pod \<Rightarrow> bool"

definition triggerReconcile :: "dep_state \<Rightarrow> dep_state" where
  "triggerReconcile s = s\<lparr>ds_kicks := (if ds_kicks s < 1 then Suc (ds_kicks s) else ds_kicks s)\<rparr>"

text \<open>A write of a pod to the bucket that is tried where there is a store and only logged when it fails.\<close>

definition store_pod :: "dep_env \<Rightarrow> pod \<Rightarrow> dep_state \<Rightarrow> dep_state" where
  "store_pod env pod s =
     (if de_store env \<and> de_podPut env (pod_storeKey pod)
      then s\<lparr>ds_podBucket := AList.update (pod_storeKey pod) pod (ds_podBucket s)\<rparr> else s)"

definition unstore_pod :: "dep_env \<Rightarrow> pod \<Rightarrow> dep_state \<Rightarrow> dep_state" where
  "unstore_pod env pod s =
     (if de_store env \<and> de_podDelete env (pod_storeKey pod)
      then s\<lparr>ds_podBucket := AList.delete (pod_storeKey pod) (ds_podBucket s)\<rparr> else s)"

section \<open>Operations on pods\<close>

definition set_ann :: "string \<Rightarrow> string \<Rightarrow> pod \<Rightarrow> pod" where
  "set_ann k v pod = pod\<lparr>po_Annotations := AList.update k v (po_Annotations pod)\<rparr>"

fun image_digest :: "dep_env \<Rightarrow> container_spec list \<Rightarrow> pod \<Rightarrow> pod" where
  "image_digest env [] pod = pod"
| "image_digest env (c # cs) pod =
     (if ct_Image c = '''' \<or> ann (po_Annotations pod) annotationFile \<noteq> '''' then image_digest env cs pod
      else (case de_digest env (ct_Image c) of
              None \<Rightarrow> image_digest env cs pod
            | Some digest \<Rightarrow> set_ann annotationImageDigest digest pod))"

definition stampImageDigest :: "dep_env \<Rightarrow> pod \<Rightarrow> dep_state \<Rightarrow> pod \<times> dep_state" where
  "stampImageDigest env pod s =
     (let pod = image_digest env (ps_Containers (po_Spec pod)) pod in (pod, store_pod env pod s))"

definition stampAssignedIP :: "dep_env \<Rightarrow> pod \<Rightarrow> (string, string) gomap \<Rightarrow> dep_state \<Rightarrow> pod \<times> dep_state" where
  "stampAssignedIP env pod containerIPs s =
     (if ann (po_Annotations pod) annotationStaticIP \<noteq> '''' then (pod, s)
      else (case ps_Containers (po_Spec pod) of
              [] \<Rightarrow> (pod, s)
            | c # cs \<Rightarrow>
                if containerIPs = [] \<or> ann containerIPs (ct_Name c) = '''' then (pod, s)
                else (let pod = set_ann annotationStaticIP (ann containerIPs (ct_Name c)) pod
                      in (pod, store_pod env pod s))))"

definition create_stamps :: "string list" where
  "create_stamps = [''stormbase.io/device-allocation'', ''vkube.io/cow-volume-id'', ''vkube.io/cow-template'']"

definition apply_stamps :: "(string, string) gomap \<Rightarrow> pod \<Rightarrow> pod" where
  "apply_stamps stamps pod = fold (\<lambda>(k, v). set_ann k v) (filter (\<lambda>(k, v). k \<in> set create_stamps) stamps) pod"

text \<open>\<open>CreatePod\<close> changes the pod it is given, so the pod is part of the result; \<open>True\<close> is no error.\<close>

definition CreatePod :: "dep_env \<Rightarrow> bool \<Rightarrow> pod \<Rightarrow> dep_state \<Rightarrow> bool \<times> pod \<times> dep_state" where
  "CreatePod env updating pod s =
     (let r = de_create env updating pod;
          pod = apply_stamps (cr_stamps r) pod;
          s = (if cr_stored r then store_pod env pod s else s)
      in if cr_failed r then (False, pod, s)
         else (let (pod, s) = stampImageDigest env pod s;
                   (pod, s) = stampAssignedIP env pod (cr_ips r) s
               in (True, pod, s\<lparr>ds_pods := AList.update (podKey pod) pod (ds_pods s)\<rparr>)))"

definition DeletePod :: "pod \<Rightarrow> dep_state \<Rightarrow> dep_state" where
  "DeletePod pod s = s\<lparr>ds_pods := AList.delete (podKey pod) (ds_pods s)\<rparr>"

definition teardownForUpdate :: "pod \<Rightarrow> dep_state \<Rightarrow> dep_state" where
  "teardownForUpdate pod s = s\<lparr>ds_pods := AList.delete (podKey pod) (ds_pods s)\<rparr>"

definition network_changed :: "pod \<Rightarrow> pod \<Rightarrow> bool" where
  "network_changed old pod =
     (let oldNet = ann (po_Annotations old) annotationNetwork; newNet = ann (po_Annotations pod) annotationNetwork;
          oldIP = ann (po_Annotations old) annotationStaticIP; newIP = ann (po_Annotations pod) annotationStaticIP
      in (newNet \<noteq> '''' \<and> newNet \<noteq> oldNet) \<or> (newIP \<noteq> '''' \<and> oldIP \<noteq> '''' \<and> newIP \<noteq> oldIP))"

definition recreate_in_place :: "dep_env \<Rightarrow> pod \<Rightarrow> dep_state \<Rightarrow> bool \<times> pod \<times> dep_state" where
  "recreate_in_place env pod s =
     (case CreatePod env True pod (teardownForUpdate pod s) of
        (False, pod, s) \<Rightarrow> (False, pod, s)
      | (True, pod, s) \<Rightarrow>
          (let (pod, s) = stampImageDigest env pod s
           in (True, pod, s\<lparr>ds_pods := AList.update (podKey pod) pod (ds_pods s)\<rparr>)))"

definition UpdatePod :: "dep_env \<Rightarrow> pod \<Rightarrow> dep_state \<Rightarrow> bool \<times> pod \<times> dep_state" where
  "UpdatePod env pod s =
     (case map_of (ds_pods s) (podKey pod) of
        Some old \<Rightarrow>
          if network_changed old pod then CreatePod env True pod (teardownForUpdate old s)
          else recreate_in_place env pod s
      | None \<Rightarrow> recreate_in_place env pod s)"

definition isLocalPod :: "dep_env \<Rightarrow> pod \<Rightarrow> bool" where
  "isLocalPod env pod =
     (if de_cluster env = None then True
      else (let targetNode = ann (po_Annotations pod) annotationNode
            in if targetNode = '''' then True else targetNode = de_nodeName env))"

section \<open>Pods of a deployment\<close>

definition scheduleReplicaNode :: "dep_env \<Rightarrow> nat \<Rightarrow> string" where
  "scheduleReplicaNode env replicaIndex =
     (case de_cluster env of
        None \<Rightarrow> de_nodeName env
      | Some mgr \<Rightarrow>
          (let nodes = HealthyNodes mgr
           in if nodes = [] then de_nodeName env else nodes ! (replicaIndex mod length nodes)))"

definition podFromDeployment :: "dep_env \<Rightarrow> deployment \<Rightarrow> string \<Rightarrow> pod" where
  "podFromDeployment env deploy podName =
     (let annotations = AList.update annotationOwnerDeployment (dp_Name deploy)
            (fold (\<lambda>(k, v). AList.update k v) (dp_TemplateAnnotations deploy) [])
      in \<lparr>po_Namespace = dp_Namespace deploy, po_Name = podName, po_Created = de_now env,
          po_Annotations = (if 1 < dp_Replicas deploy then AList.delete annotationStaticIP annotations else annotations),
          po_Labels = fold (\<lambda>(k, v). AList.update k v) (dp_TemplateLabels deploy) [],
          po_Spec = dp_TemplateSpec deploy\<rparr>)"

definition owned_by :: "deployment \<Rightarrow> pod \<Rightarrow> bool" where
  "owned_by deploy pod =
     (po_Namespace pod = dp_Namespace deploy \<and> ann (po_Annotations pod) annotationOwnerDeployment = dp_Name deploy)"

definition deploymentPods :: "dep_state \<Rightarrow> deployment \<Rightarrow> pod list" where
  "deploymentPods s deploy = sort_key po_Name (filter (owned_by deploy) (map snd (Map_Snapshot (ds_pods s))))"

definition isOwnedByDeployment :: "pod \<Rightarrow> bool" where
  "isOwnedByDeployment pod = (ann (po_Annotations pod) annotationOwnerDeployment \<noteq> '''')"

definition enrichDeploymentStatus :: "dep_state \<Rightarrow> deployment \<Rightarrow> deployment" where
  "enrichDeploymentStatus s deploy =
     (let ownedPods = deploymentPods s deploy
      in deploy\<lparr>dst_Replicas := wrap32 (int (length ownedPods)),
                dst_ReadyReplicas := fold (\<lambda>pod ready.
                  if Map_Has (ds_pods s) (po_Namespace pod @ ''/'' @ po_Name pod) then wrap32 (ready + 1) else ready)
                  ownedPods 0\<rparr>)"

definition replicas_of :: "deployment \<Rightarrow> nat" where
  "replicas_of deploy = nat (if dp_Replicas deploy \<le> 0 then 1 else dp_Replicas deploy)"

definition replica_name :: "deployment \<Rightarrow> nat \<Rightarrow> string" where
  "replica_name deploy i = dp_Name deploy @ ''-'' @ Itoa (int i)"

definition deploymentExpectedContainers :: "dep_state \<Rightarrow> string set" where
  "deploymentExpectedContainers s =
     fold (\<lambda>deploy expected.
       fold (\<lambda>i expected.
         fold (\<lambda>c expected. insert (sanitizeName (dp_Namespace deploy) (replica_name deploy i) (ct_Name c)) expected)
           (ps_Containers (dp_TemplateSpec deploy)) expected)
         [0..<replicas_of deploy] expected)
       (map snd (Map_Snapshot (ds_deployments s))) {}"
section \<open>Reconciliation\<close>

text \<open>The pod of a replica, with the node it is given where there is a cluster.\<close>

definition replica_pod :: "dep_env \<Rightarrow> deployment \<Rightarrow> nat \<Rightarrow> pod" where
  "replica_pod env deploy i =
     (let pod = podFromDeployment env deploy (replica_name deploy i)
      in if de_cluster env \<noteq> None then set_ann annotationNode (scheduleReplicaNode env i) pod else pod)"

text \<open>One turn of the loop that creates missing pods.\<close>

definition create_replica :: "dep_env \<Rightarrow> deployment \<Rightarrow> string list \<Rightarrow> nat \<Rightarrow> dep_state \<Rightarrow> dep_state" where
  "create_replica env deploy ownedByName i s =
     (if replica_name deploy i \<in> set ownedByName then s
      else (let pod = replica_pod env deploy i
            in if de_store env \<and> \<not> de_podPut env (pod_storeKey pod) then s
               else (let s = store_pod env pod s
                     in if \<not> isLocalPod env pod then s
                        else snd (snd (CreatePod env False pod s)))))"

text \<open>One turn of the loop that removes the pods whose name is not wanted.\<close>

definition remove_extra :: "dep_env \<Rightarrow> pod \<Rightarrow> dep_state \<Rightarrow> dep_state" where
  "remove_extra env pod s =
     (if de_cluster env \<noteq> None \<and> \<not> isLocalPod env pod then s else unstore_pod env pod (DeletePod pod s))"

fun rolling_update :: "dep_env \<Rightarrow> deployment \<Rightarrow> pod list \<Rightarrow> dep_state \<Rightarrow> dep_state" where
  "rolling_update env deploy [] s = s"
| "rolling_update env deploy (pod # rest) s =
     (case UpdatePod env (podFromDeployment env deploy (po_Name pod)) s of
        (False, newPod, s) \<Rightarrow> s
      | (True, newPod, s) \<Rightarrow>
          if rest \<noteq> [] \<and> \<not> de_live env newPod then s else rolling_update env deploy rest s)"

definition rollingUpdateDeployment :: "dep_env \<Rightarrow> deployment \<Rightarrow> dep_state \<Rightarrow> dep_state" where
  "rollingUpdateDeployment env deploy s = rolling_update env deploy (deploymentPods s deploy) s"

text \<open>The images are checked up to the first that changed.\<close>

fun image_changed :: "dep_env \<Rightarrow> container_spec list \<Rightarrow> bool" where
  "image_changed env [] = False"
| "image_changed env (c # cs) =
     (case de_refresh env (ct_Image c) of
        None \<Rightarrow> image_changed env cs
      | Some changed \<Rightarrow> if changed then True else image_changed env cs)"

definition create_missing :: "dep_env \<Rightarrow> deployment \<Rightarrow> dep_state \<Rightarrow> dep_state" where
  "create_missing env deploy s =
     fold (create_replica env deploy (map po_Name (deploymentPods s deploy))) [0..<replicas_of deploy] s"

definition extras :: "deployment \<Rightarrow> pod list \<Rightarrow> pod list" where
  "extras deploy ownedPods =
     rev (sort_key po_Name
       (filter (\<lambda>pod. po_Name pod \<notin> set (map (replica_name deploy) [0..<replicas_of deploy])) ownedPods))"

definition needs_rolling :: "dep_env \<Rightarrow> deployment \<Rightarrow> bool" where
  "needs_rolling env deploy \<longleftrightarrow>
     ann (dp_TemplateAnnotations deploy) annotationImagePolicy = ''auto'' \<and>
     image_changed env (ps_Containers (dp_TemplateSpec deploy))"

definition reconcile_pods :: "dep_env \<Rightarrow> deployment \<Rightarrow> dep_state \<Rightarrow> dep_state" where
  "reconcile_pods env deploy s =
     (let ownedPods = deploymentPods s deploy;
          s = create_missing env deploy s;
          s = fold (remove_extra env) (extras deploy ownedPods) s
      in if needs_rolling env deploy then rollingUpdateDeployment env deploy s else s)"

text \<open>\<open>key\<close> is the place in the table of the deployment that the code holds by pointer.\<close>

definition reconcileOneDeployment :: "dep_env \<Rightarrow> string \<times> deployment \<Rightarrow> dep_state \<Rightarrow> dep_state" where
  "reconcileOneDeployment env = (\<lambda>(key, deploy) s.
     (let s = reconcile_pods env deploy s
      in s\<lparr>ds_deployments := AList.update key
             (deploy\<lparr>dst_Replicas := wrap32 (int (length (deploymentPods s deploy))),
                     dst_UpdatedAt := format_rfc3339 (de_now env)\<rparr>) (ds_deployments s)\<rparr>))"

definition load_missing :: "dep_env \<Rightarrow> string \<times> deployment \<Rightarrow> dep_state \<Rightarrow> dep_state" where
  "load_missing env = (\<lambda>(key, deploy) s.
     (if \<not> de_depGet env key then s
      else (let mapKey = dp_Namespace deploy @ ''/'' @ dp_Name deploy
            in if Map_Has (ds_deployments s) mapKey then s
               else s\<lparr>ds_deployments := Map_Set (ds_deployments s) mapKey deploy\<rparr>)))"

definition reconcileDeployments :: "dep_env \<Rightarrow> dep_state \<Rightarrow> dep_state" where
  "reconcileDeployments env s =
     (let s = (if de_store env \<and> de_connected env \<and> de_deployments env \<and> de_depKeys env
               then fold (load_missing env) (ds_depBucket s) s else s)
      in fold (reconcileOneDeployment env) (ds_deployments s) s)"

section \<open>Requests\<close>

datatype dep_reply =
    DepObject int deployment
  | DepList "deployment list"
  | DepDeleted string nat
  | DepError int string

definition default_replicas :: "deployment \<Rightarrow> deployment" where
  "default_replicas deploy = (if dp_Replicas deploy \<le> 0 then deploy\<lparr>dp_Replicas := 1\<rparr> else deploy)"

definition handleCreateDeployment :: "dep_env \<Rightarrow> string \<Rightarrow> deployment option \<Rightarrow> dep_state \<Rightarrow> dep_reply \<times> dep_state" where
  "handleCreateDeployment env ns body s =
     (case body of
        None \<Rightarrow> (DepError 400 ''invalid Deployment JSON'', s)
      | Some deploy \<Rightarrow>
          (let deploy = deploy\<lparr>dp_Namespace := ns\<rparr>
           in if dp_Name deploy = '''' then (DepError 400 ''Deployment name is required'', s)
              else (let deploy = (if dp_Created deploy = None then deploy\<lparr>dp_Created := Some (de_now env)\<rparr> else deploy);
                        deploy = default_replicas deploy;
                        key = ns @ ''/'' @ dp_Name deploy;
                        storeKey = ns @ ''.'' @ dp_Name deploy
                    in if Map_Has (ds_deployments s) key
                       then (DepError 409 (''Deployment '' @ key @ '' already exists''), s)
                       else if de_store env \<and> de_deployments env \<and> \<not> de_depPut env
                       then (DepError 500 ''persisting deployment'', s)
                       else (let s = (if de_store env \<and> de_deployments env
                                      then s\<lparr>ds_depBucket := AList.update storeKey deploy (ds_depBucket s)\<rparr> else s);
                                 deploy = deploy\<lparr>dst_Replicas := 0, dst_ReadyReplicas := 0,
                                                 dst_UpdatedAt := format_rfc3339 (de_now env)\<rparr>
                             in (DepObject 201 deploy,
                                 triggerReconcile (s\<lparr>ds_deployments := Map_Set (ds_deployments s) key deploy\<rparr>))))))"

definition handleGetDeployment :: "string \<Rightarrow> string \<Rightarrow> dep_state \<Rightarrow> dep_reply" where
  "handleGetDeployment ns name s =
     (case Map_Get (ds_deployments s) (ns @ ''/'' @ name) of
        None \<Rightarrow> DepError 404 (''Deployment '' @ (ns @ ''/'' @ name) @ '' not found'')
      | Some deploy \<Rightarrow> DepObject 200 (enrichDeploymentStatus s deploy))"

definition handleListAllDeployments :: "dep_state \<Rightarrow> dep_reply" where
  "handleListAllDeployments s =
     DepList (map (enrichDeploymentStatus s) (map snd (Map_Snapshot (ds_deployments s))))"

definition handleListNamespacedDeployments :: "string \<Rightarrow> dep_state \<Rightarrow> dep_reply" where
  "handleListNamespacedDeployments ns s =
     DepList (map (enrichDeploymentStatus s)
       (filter (\<lambda>deploy. dp_Namespace deploy = ns) (map snd (Map_Snapshot (ds_deployments s)))))"

definition handleUpdateDeployment ::
  "dep_env \<Rightarrow> string \<Rightarrow> string \<Rightarrow> deployment option \<Rightarrow> dep_state \<Rightarrow> dep_reply \<times> dep_state" where
  "handleUpdateDeployment env ns name body s =
     (let key = ns @ ''/'' @ name; storeKey = ns @ ''.'' @ name
      in if \<not> Map_Has (ds_deployments s) key
         then (DepError 404 (''Deployment '' @ key @ '' not found''), s)
         else (case body of
                 None \<Rightarrow> (DepError 400 ''invalid Deployment JSON'', s)
               | Some deploy \<Rightarrow>
                   (let deploy = default_replicas (deploy\<lparr>dp_Namespace := ns, dp_Name := name\<rparr>)
                    in if de_store env \<and> de_deployments env \<and> \<not> de_depPut env
                       then (DepError 500 ''persisting deployment update'', s)
                       else (let s = (if de_store env \<and> de_deployments env
                                      then s\<lparr>ds_depBucket := AList.update storeKey deploy (ds_depBucket s)\<rparr> else s);
                                 deploy = deploy\<lparr>dst_UpdatedAt := format_rfc3339 (de_now env)\<rparr>;
                                 s = triggerReconcile (s\<lparr>ds_deployments := Map_Set (ds_deployments s) key deploy\<rparr>);
                                 deploy = enrichDeploymentStatus s deploy
                             in (DepObject 200 deploy,
                                 s\<lparr>ds_deployments := AList.update key deploy (ds_deployments s)\<rparr>)))))"

definition delete_owned :: "dep_env \<Rightarrow> pod \<Rightarrow> dep_state \<Rightarrow> dep_state" where
  "delete_owned env pod s = unstore_pod env pod (DeletePod pod s)"

definition handleDeleteDeployment :: "dep_env \<Rightarrow> string \<Rightarrow> string \<Rightarrow> dep_state \<Rightarrow> dep_reply \<times> dep_state" where
  "handleDeleteDeployment env ns name s =
     (let key = ns @ ''/'' @ name; storeKey = ns @ ''.'' @ name
      in case Map_Get (ds_deployments s) key of
           None \<Rightarrow> (DepError 404 (''Deployment '' @ key @ '' not found''), s)
         | Some deploy \<Rightarrow>
             (let ownedPods = deploymentPods s deploy;
                  s = fold (delete_owned env) ownedPods s;
                  s = (if de_store env \<and> de_deployments env \<and> de_depDelete env
                       then s\<lparr>ds_depBucket := AList.delete storeKey (ds_depBucket s)\<rparr> else s)
              in (DepDeleted name (length ownedPods),
                  triggerReconcile (s\<lparr>ds_deployments := Map_Delete (ds_deployments s) key\<rparr>))))"

section \<open>Loading and watching\<close>

definition load_deployment :: "dep_env \<Rightarrow> string \<times> deployment \<Rightarrow> dep_state \<Rightarrow> dep_state" where
  "load_deployment env = (\<lambda>(key, deploy) s.
     (if \<not> de_depGet env key then s
      else (let parts = splitN 2 (CHR ''.'') key;
                deploy = (if length parts = 2 then deploy\<lparr>dp_Namespace := parts ! 0, dp_Name := parts ! 1\<rparr> else deploy)
            in s\<lparr>ds_deployments := Map_Set (ds_deployments s) (dp_Namespace deploy @ ''/'' @ dp_Name deploy) deploy\<rparr>)))"

definition LoadDeploymentsFromStore :: "dep_env \<Rightarrow> dep_state \<Rightarrow> dep_state" where
  "LoadDeploymentsFromStore env s =
     (if \<not> de_store env \<or> \<not> de_deployments env \<or> \<not> de_depKeys env then s
      else fold (load_deployment env) (ds_depBucket s) s)"

fun parseStoreKey :: "string \<Rightarrow> string \<times> string" where
  "parseStoreKey key =
     (case dropWhile (\<lambda>c. c \<noteq> CHR ''.'') key of
        [] \<Rightarrow> ('''', key)
      | _ # name \<Rightarrow> (takeWhile (\<lambda>c. c \<noteq> CHR ''.'') key, name))"

text \<open>An event of the watch on the bucket: a value that is a deployment or not, or a deleted key.\<close>

datatype dep_event = DepPut "deployment option" | DepDelete string

definition runDeploymentWatch_event :: "dep_event \<Rightarrow> dep_state \<Rightarrow> dep_state" where
  "runDeploymentWatch_event evt s =
     (case evt of
        DepPut None \<Rightarrow> s
      | DepPut (Some deploy) \<Rightarrow>
          triggerReconcile (s\<lparr>ds_deployments := Map_Set (ds_deployments s) (dp_Namespace deploy @ ''/'' @ dp_Name deploy) deploy\<rparr>)
      | DepDelete key \<Rightarrow>
          (let (ns, name) = parseStoreKey key
           in triggerReconcile (s\<lparr>ds_deployments := Map_Delete (ds_deployments s) (ns @ ''/'' @ name)\<rparr>)))"
section \<open>What the operations do to the pod table\<close>

text \<open>Two versions of a pod that differ only in annotations other than the owner and the node.\<close>

definition same_pod :: "pod \<Rightarrow> pod \<Rightarrow> bool" where
  "same_pod p q \<longleftrightarrow>
     po_Namespace q = po_Namespace p \<and> po_Name q = po_Name p \<and> po_Spec q = po_Spec p \<and>
     ann (po_Annotations q) annotationOwnerDeployment = ann (po_Annotations p) annotationOwnerDeployment \<and>
     ann (po_Annotations q) annotationNode = ann (po_Annotations p) annotationNode"

lemma same_pod_refl [simp]: "same_pod p p"
  by (simp add: same_pod_def)

lemma same_pod_trans: "same_pod p q \<Longrightarrow> same_pod q r \<Longrightarrow> same_pod p r"
  by (simp add: same_pod_def)

lemma same_podKey: "same_pod p q \<Longrightarrow> podKey q = podKey p"
  by (simp add: same_pod_def podKey_def)

lemma same_pod_owned: "same_pod p q \<Longrightarrow> owned_by d q = owned_by d p"
  by (simp add: same_pod_def owned_by_def)

lemma ann_update: "ann (AList.update k v m) j = (if j = k then v else ann m j)"
  by (simp add: ann_def)

lemma same_pod_set_ann:
  "k \<noteq> annotationOwnerDeployment \<Longrightarrow> k \<noteq> annotationNode \<Longrightarrow> same_pod p (set_ann k v p)"
  by (simp add: same_pod_def set_ann_def ann_update)

lemma same_pod_stamps: "same_pod p (apply_stamps stamps p)"
proof -
  have "same_pod p (fold (\<lambda>(k, v). set_ann k v) xs p)" if "\<forall>(k, v)\<in>set xs. k \<in> set create_stamps" for xs
    using that
  proof (induction xs arbitrary: p)
    case (Cons x xs)
    obtain k v where x: "x = (k, v)" by (cases x)
    with Cons.prems have "k \<noteq> annotationOwnerDeployment" "k \<noteq> annotationNode"
      by (auto simp: create_stamps_def annotation_keys)
    then have "same_pod p (set_ann k v p)" by (rule same_pod_set_ann)
    with Cons.IH [of "set_ann k v p"] Cons.prems x show ?case by (auto intro: same_pod_trans)
  qed simp
  then show ?thesis by (simp add: apply_stamps_def)
qed

lemma same_pod_digest: "same_pod p (image_digest env cs p)"
proof (induction cs)
  case (Cons c cs)
  have "same_pod p (set_ann annotationImageDigest d p)" for d
    by (rule same_pod_set_ann) (simp_all add: annotation_keys)
  with Cons show ?case by (auto split: option.split)
qed simp

lemma store_pod_frame [simp]:
  "ds_pods (store_pod env p s) = ds_pods s" "ds_deployments (store_pod env p s) = ds_deployments s"
  by (simp_all add: store_pod_def)

lemma unstore_pod_frame [simp]:
  "ds_pods (unstore_pod env p s) = ds_pods s" "ds_deployments (unstore_pod env p s) = ds_deployments s"
  by (simp_all add: unstore_pod_def)

lemma stampImageDigest_facts:
  "same_pod p (fst (stampImageDigest env p s))"
  "ds_pods (snd (stampImageDigest env p s)) = ds_pods s"
  "ds_deployments (snd (stampImageDigest env p s)) = ds_deployments s"
  by (simp_all add: stampImageDigest_def Let_def same_pod_digest)

lemma stampAssignedIP_facts:
  "same_pod p (fst (stampAssignedIP env p ips s))"
  "ds_pods (snd (stampAssignedIP env p ips s)) = ds_pods s"
  "ds_deployments (snd (stampAssignedIP env p ips s)) = ds_deployments s"
proof -
  have "same_pod p (set_ann annotationStaticIP v p)" for v
    by (rule same_pod_set_ann) (simp_all add: annotation_keys)
  then show "same_pod p (fst (stampAssignedIP env p ips s))"
    by (simp add: stampAssignedIP_def Let_def split: list.split)
  show "ds_pods (snd (stampAssignedIP env p ips s)) = ds_pods s"
    by (simp add: stampAssignedIP_def Let_def split: list.split)
  show "ds_deployments (snd (stampAssignedIP env p ips s)) = ds_deployments s"
    by (simp add: stampAssignedIP_def Let_def split: list.split)
qed

lemma CreatePod_cases:
  obtains (failed) q t where "cr_failed (de_create env u p)" "CreatePod env u p s = (False, q, t)"
      "ds_pods t = ds_pods s" "ds_deployments t = ds_deployments s"
  | (created) q t where "\<not> cr_failed (de_create env u p)" "CreatePod env u p s = (True, q, t)"
      "same_pod p q" "ds_pods t = AList.update (podKey p) q (ds_pods s)" "ds_deployments t = ds_deployments s"
proof (cases "cr_failed (de_create env u p)")
  case True
  with failed show ?thesis by (simp add: CreatePod_def Let_def)
next
  case False
  define r where "r = de_create env u p"
  define p1 where "p1 = apply_stamps (cr_stamps r) p"
  define s1 where "s1 = (if cr_stored r then store_pod env p1 s else s)"
  obtain p2 s2 where 2: "stampImageDigest env p1 s1 = (p2, s2)" by fastforce
  obtain p3 s3 where 3: "stampAssignedIP env p2 (cr_ips r) s2 = (p3, s3)" by fastforce
  have eq: "CreatePod env u p s = (True, p3, s3\<lparr>ds_pods := AList.update (podKey p3) p3 (ds_pods s3)\<rparr>)"
    using False 2 3
    unfolding CreatePod_def Let_def r_def [symmetric] p1_def [symmetric] s1_def [symmetric] by simp
  have "same_pod p p1" by (simp add: p1_def same_pod_stamps)
  with stampImageDigest_facts [where p = p1 and env = env and s = s1] stampAssignedIP_facts [where p = p2 and env = env and ips = "cr_ips r" and s = s2] 2 3
  have same: "same_pod p p3" by (auto intro: same_pod_trans)
  have "ds_pods s3 = ds_pods s" "ds_deployments s3 = ds_deployments s"
    using stampImageDigest_facts [where p = p1 and env = env and s = s1] stampAssignedIP_facts [where p = p2 and env = env and ips = "cr_ips r" and s = s2] 2 3
    by (simp_all add: s1_def)
  with created [OF False eq same] same_podKey [OF same] show ?thesis by simp
qed

lemma recreate_in_place_cases:
  obtains (failed) q t where "cr_failed (de_create env True p)" "recreate_in_place env p s = (False, q, t)"
      "ds_pods t = AList.delete (podKey p) (ds_pods s)"
  | (created) q t m where "\<not> cr_failed (de_create env True p)" "recreate_in_place env p s = (True, q, t)"
      "same_pod p q" "ds_pods t = AList.update (podKey p) q (AList.update (podKey p) m (AList.delete (podKey p) (ds_pods s)))"
proof (cases rule: CreatePod_cases [of env True p "teardownForUpdate p s"])
  case (failed q t)
  with that(1) show ?thesis by (simp add: recreate_in_place_def teardownForUpdate_def)
next
  case (created q t)
  obtain q' t' where d: "stampImageDigest env q t = (q', t')" by fastforce
  with stampImageDigest_facts [where p = q and env = env and s = t] have "same_pod q q'" "ds_pods t' = ds_pods t" by simp_all
  with created have same: "same_pod p q'" by (auto intro: same_pod_trans)
  have "recreate_in_place env p s = (True, q', t'\<lparr>ds_pods := AList.update (podKey q') q' (ds_pods t')\<rparr>)"
    using created d by (simp add: recreate_in_place_def)
  moreover have "ds_pods t' = AList.update (podKey p) q (AList.delete (podKey p) (ds_pods s))"
    using created \<open>ds_pods t' = ds_pods t\<close> by (simp add: teardownForUpdate_def)
  ultimately show ?thesis using that(2) [OF created(1) _ same] same_podKey [OF same] by simp
qed

section \<open>A keyed pod table\<close>

text \<open>Every pod is in the table once, under its own key.\<close>

definition pods_keyed :: "dep_state \<Rightarrow> bool" where
  "pods_keyed s \<longleftrightarrow> gm_wf (ds_pods s) \<and> (\<forall>k p. map_of (ds_pods s) k = Some p \<longrightarrow> k = podKey p)"

lemma pods_keyedD: "pods_keyed s \<Longrightarrow> map_of (ds_pods s) k = Some p \<Longrightarrow> podKey p = k"
  by (simp add: pods_keyed_def)

lemma pods_keyed_update:
  "pods_keyed s \<Longrightarrow> podKey q = k \<Longrightarrow> ds_pods t = AList.update k q (ds_pods s) \<Longrightarrow> pods_keyed t"
  by (simp add: pods_keyed_def)

lemma pods_keyed_delete: "pods_keyed s \<Longrightarrow> ds_pods t = AList.delete k (ds_pods s) \<Longrightarrow> pods_keyed t"
  by (simp add: pods_keyed_def)

lemma pods_keyed_same: "pods_keyed s \<Longrightarrow> ds_pods t = ds_pods s \<Longrightarrow> pods_keyed t"
  by (simp add: pods_keyed_def)

text \<open>The deployment has a pod of this name.\<close>

definition has_pod :: "dep_state \<Rightarrow> deployment \<Rightarrow> string \<Rightarrow> bool" where
  "has_pod s d nm \<longleftrightarrow> (\<exists>p. map_of (ds_pods s) (dp_Namespace d @ ''/'' @ nm) = Some p \<and> owned_by d p)"

lemma set_deploymentPods:
  assumes "pods_keyed s"
  shows "p \<in> set (deploymentPods s d) \<longleftrightarrow> map_of (ds_pods s) (podKey p) = Some p \<and> owned_by d p"
proof -
  have wf: "gm_wf (ds_pods s)" using assms by (simp add: pods_keyed_def)
  have "p \<in> snd ` set (ds_pods s) \<longleftrightarrow> (\<exists>k. map_of (ds_pods s) k = Some p)"
    using gm_mem_iff [OF wf] by force
  also have "\<dots> \<longleftrightarrow> map_of (ds_pods s) (podKey p) = Some p"
    using pods_keyedD [OF assms] by blast
  finally show ?thesis using wf by (auto simp: deploymentPods_def)
qed

lemma podKey_owned: "owned_by d p \<Longrightarrow> podKey p = dp_Namespace d @ ''/'' @ po_Name p"
  by (simp add: owned_by_def podKey_def)

lemma names_deploymentPods:
  assumes "pods_keyed s"
  shows "nm \<in> set (map po_Name (deploymentPods s d)) \<longleftrightarrow> has_pod s d nm"
proof
  assume "nm \<in> set (map po_Name (deploymentPods s d))"
  then obtain p where "p \<in> set (deploymentPods s d)" "nm = po_Name p" by auto
  with set_deploymentPods [OF assms] podKey_owned show "has_pod s d nm"
    by (auto simp: has_pod_def)
next
  assume "has_pod s d nm"
  then obtain p where p: "map_of (ds_pods s) (dp_Namespace d @ ''/'' @ nm) = Some p" "owned_by d p"
    by (auto simp: has_pod_def)
  then have "podKey p = dp_Namespace d @ ''/'' @ nm" using pods_keyedD [OF assms] by blast
  with p podKey_owned [of d p] have "po_Name p = nm" "map_of (ds_pods s) (podKey p) = Some p" by simp_all
  with p set_deploymentPods [OF assms, of p d] show "nm \<in> set (map po_Name (deploymentPods s d))"
    by force
qed

lemma distinct_deploymentPods:
  assumes "pods_keyed s"
  shows "distinct (map podKey (deploymentPods s d))" "distinct (map po_Name (deploymentPods s d))"
proof -
  have wf: "gm_wf (ds_pods s)" using assms by (simp add: pods_keyed_def)
  have "map podKey (map snd (ds_pods s)) = map fst (ds_pods s)"
    using pods_keyedD [OF assms] gm_mem_iff [OF wf] by (auto simp del: map_of_eq_Some_iff)
  then have "distinct (map podKey (map snd (ds_pods s)))" using wf by (rule ssubst)
  then have "distinct (map podKey (filter (owned_by d) (map snd (ds_pods s))))"
    by (rule distinct_map_filter)
  then have "distinct (map podKey (sort_key po_Name (filter (owned_by d) (map snd (ds_pods s)))))"
    by (simp add: distinct_map)
  then show keys: "distinct (map podKey (deploymentPods s d))"
    using wf by (simp add: deploymentPods_def)
  have "inj_on po_Name (set (deploymentPods s d))"
  proof (rule inj_onI)
    fix p q assume "p \<in> set (deploymentPods s d)" "q \<in> set (deploymentPods s d)" "po_Name p = po_Name q"
    then have p: "map_of (ds_pods s) (podKey p) = Some p" "owned_by d p"
      and q: "map_of (ds_pods s) (podKey q) = Some q" "owned_by d q" and nm: "po_Name p = po_Name q"
      using set_deploymentPods [OF assms] by blast+
    have "podKey p = podKey q" unfolding podKey_owned [OF p(2)] podKey_owned [OF q(2)] nm ..
    with p(1) q(1) show "p = q" by (metis option.inject)
  qed
  then show "distinct (map po_Name (deploymentPods s d))"
    using keys by (simp add: distinct_map)
qed

lemma sorted_names_deploymentPods: "sorted (map po_Name (deploymentPods s d))"
  by (simp add: deploymentPods_def)

text \<open>The names of a deployment's pods are determined by which names it has.\<close>

lemma deploymentPods_names:
  assumes "pods_keyed s" and "distinct xs" and "\<And>nm. has_pod s d nm \<longleftrightarrow> nm \<in> set xs"
  shows "map po_Name (deploymentPods s d) = sort xs"
proof (rule sorted_distinct_set_unique)
  show "set (map po_Name (deploymentPods s d)) = set (sort xs)"
    using names_deploymentPods [OF assms(1)] assms(3) by auto
qed (use assms distinct_deploymentPods sorted_names_deploymentPods in auto)
section \<open>Names of replicas\<close>

lemma dec_inj: "dec m = dec n \<Longrightarrow> m = n"
  by (metis dtoi_dec option.inject)

lemma replica_name_dec: "replica_name d i = dp_Name d @ ''-'' @ dec i"
  by (simp add: replica_name_def Itoa_def)

lemma replica_name_inj: "replica_name d i = replica_name d j \<longleftrightarrow> i = j"
  by (auto simp: replica_name_dec dec_inj)

lemma distinct_replica_names: "distinct xs \<Longrightarrow> distinct (map (replica_name d) xs)"
  by (simp add: distinct_map inj_on_def replica_name_inj)

section \<open>A cycle, pod by pod\<close>

lemma map_of_fold_update_owner:
  "ann (AList.update annotationOwnerDeployment v m) annotationOwnerDeployment = v"
  by (simp add: ann_update)

lemma ann_delete: "ann (AList.delete k m) j = (if j = k then '''' else ann m j)"
  by (simp add: ann_def)

lemma podFromDeployment_owned [simp]:
  "owned_by d (podFromDeployment env d nm)" "po_Name (podFromDeployment env d nm) = nm"
  "po_Namespace (podFromDeployment env d nm) = dp_Namespace d"
  "po_Spec (podFromDeployment env d nm) = dp_TemplateSpec d"
  by (simp_all add: owned_by_def podFromDeployment_def Let_def ann_update ann_delete annotation_keys)

lemma replica_pod_owned [simp]:
  "owned_by d (replica_pod env d i)" "po_Name (replica_pod env d i) = replica_name d i"
  "podKey (replica_pod env d i) = dp_Namespace d @ ''/'' @ replica_name d i"
proof -
  have ne: "annotationOwnerDeployment \<noteq> annotationNode" by (simp add: annotation_keys)
  have "owned_by d (set_ann annotationNode v p) = owned_by d p" for v p
    using ne by (simp add: owned_by_def set_ann_def ann_update)
  then show "owned_by d (replica_pod env d i)" by (simp add: replica_pod_def Let_def)
  show "po_Name (replica_pod env d i) = replica_name d i"
    by (simp add: replica_pod_def Let_def set_ann_def)
  show "podKey (replica_pod env d i) = dp_Namespace d @ ''/'' @ replica_name d i"
    by (simp add: replica_pod_def Let_def set_ann_def podKey_def)
qed

text \<open>The turn of the loop for a missing replica gets as far as a pod.\<close>

definition creates :: "dep_env \<Rightarrow> deployment \<Rightarrow> nat \<Rightarrow> bool" where
  "creates env d i \<longleftrightarrow>
     (let pod = replica_pod env d i
      in (de_store env \<longrightarrow> de_podPut env (pod_storeKey pod)) \<and> isLocalPod env pod \<and>
         \<not> cr_failed (de_create env False pod))"

lemma create_replica_cases:
  obtains (kept) "replica_name d i \<in> set owned \<or> \<not> creates env d i"
      "ds_pods (create_replica env d owned i s) = ds_pods s"
  | (made) q where "replica_name d i \<notin> set owned" "creates env d i" "owned_by d q"
      "podKey q = dp_Namespace d @ ''/'' @ replica_name d i"
      "ds_pods (create_replica env d owned i s) = AList.update (podKey q) q (ds_pods s)"
proof -
  let ?p = "replica_pod env d i" and ?t = "store_pod env (replica_pod env d i) s"
  show ?thesis
  proof (cases "replica_name d i \<notin> set owned \<and> creates env d i")
    case True
    then have eq: "create_replica env d owned i s = snd (snd (CreatePod env False ?p ?t))"
      and ok: "\<not> cr_failed (de_create env False ?p)"
      by (auto simp: create_replica_def creates_def Let_def)
    from ok obtain q t where q: "CreatePod env False ?p ?t = (True, q, t)" "same_pod ?p q"
        "ds_pods t = AList.update (podKey ?p) q (ds_pods ?t)"
      by (cases rule: CreatePod_cases [of env False ?p ?t]) auto
    have "owned_by d q" "podKey q = podKey ?p" using same_pod_owned [OF q(2)] same_podKey [OF q(2)] by simp_all
    with made [of q] True eq q show ?thesis by simp
  next
    case False
    have "ds_pods (create_replica env d owned i s) = ds_pods s"
    proof (cases rule: CreatePod_cases [of env False ?p ?t])
      case (failed q t)
      then show ?thesis by (simp add: create_replica_def Let_def)
    next
      case (created q t)
      with False show ?thesis by (auto simp: create_replica_def creates_def Let_def)
    qed
    with kept False show ?thesis by blast
  qed
qed

lemma create_replica_step:
  assumes "pods_keyed s"
  shows "pods_keyed (create_replica env d owned i s)"
    and "has_pod (create_replica env d owned i s) d nm \<longleftrightarrow>
         has_pod s d nm \<or> (nm = replica_name d i \<and> nm \<notin> set owned \<and> creates env d i)"
    and "k \<noteq> dp_Namespace d @ ''/'' @ replica_name d i \<Longrightarrow>
         map_of (ds_pods (create_replica env d owned i s)) k = map_of (ds_pods s) k"
proof -
  show "pods_keyed (create_replica env d owned i s)"
    by (cases rule: create_replica_cases [of d i owned env s])
      (use assms in \<open>auto intro: pods_keyed_update pods_keyed_same\<close>)
  show "has_pod (create_replica env d owned i s) d nm \<longleftrightarrow>
         has_pod s d nm \<or> (nm = replica_name d i \<and> nm \<notin> set owned \<and> creates env d i)"
    by (cases rule: create_replica_cases [of d i owned env s]) (auto simp: has_pod_def)
  show "map_of (ds_pods (create_replica env d owned i s)) k = map_of (ds_pods s) k"
    if "k \<noteq> dp_Namespace d @ ''/'' @ replica_name d i"
    by (cases rule: create_replica_cases [of d i owned env s]) (use that in auto)
qed

lemma create_replicas_keyed: "pods_keyed s \<Longrightarrow> pods_keyed (fold (create_replica env d owned) js s)"
  by (induction js arbitrary: s) (simp_all add: create_replica_step)

lemma create_replicas_has:
  "pods_keyed s \<Longrightarrow>
   has_pod (fold (create_replica env d owned) js s) d nm \<longleftrightarrow>
   has_pod s d nm \<or> (\<exists>i\<in>set js. nm = replica_name d i \<and> nm \<notin> set owned \<and> creates env d i)"
proof (induction js arbitrary: s)
  case (Cons j js)
  then show ?case
    using Cons.IH [OF create_replica_step(1) [OF Cons.prems]] create_replica_step(2) [OF Cons.prems] by auto
qed simp

lemma create_replicas_frame:
  "pods_keyed s \<Longrightarrow> k \<notin> (\<lambda>i. dp_Namespace d @ ''/'' @ replica_name d i) ` set js \<Longrightarrow>
   map_of (ds_pods (fold (create_replica env d owned) js s)) k = map_of (ds_pods s) k"
  by (induction js arbitrary: s) (simp_all add: create_replica_step)

lemmas create_replicas = create_replicas_keyed create_replicas_has create_replicas_frame

section \<open>Removing the pods that are too many\<close>

lemma remove_extra_pods:
  "ds_pods (remove_extra env p s) =
     (if isLocalPod env p then AList.delete (podKey p) (ds_pods s) else ds_pods s)"
  by (auto simp: remove_extra_def DeletePod_def isLocalPod_def)

lemma has_pod_delete:
  assumes "owned_by d p" and "ds_pods t = AList.delete (podKey p) (ds_pods s)"
  shows "has_pod t d nm \<longleftrightarrow> has_pod s d nm \<and> nm \<noteq> po_Name p"
  using assms podKey_owned [OF assms(1)] by (auto simp: has_pod_def)

lemma remove_extras:
  assumes "pods_keyed s" and "\<forall>p\<in>set ps. owned_by d p"
  shows "pods_keyed (fold (remove_extra env) ps s) \<and>
    (has_pod (fold (remove_extra env) ps s) d nm \<longleftrightarrow>
       has_pod s d nm \<and> (\<forall>p\<in>set ps. isLocalPod env p \<longrightarrow> nm \<noteq> po_Name p)) \<and>
    (k \<notin> podKey ` set ps \<longrightarrow> map_of (ds_pods (fold (remove_extra env) ps s)) k = map_of (ds_pods s) k)"
  using assms
proof (induction ps arbitrary: s)
  case (Cons p ps)
  let ?t = "remove_extra env p s"
  have keyed: "pods_keyed ?t"
    using Cons.prems(1) remove_extra_pods [of env p s]
    by (cases "isLocalPod env p") (auto intro: pods_keyed_same pods_keyed_delete)
  have has: "has_pod ?t d nm \<longleftrightarrow> has_pod s d nm \<and> (isLocalPod env p \<longrightarrow> nm \<noteq> po_Name p)"
  proof (cases "isLocalPod env p")
    case True
    then show ?thesis using has_pod_delete [of d p ?t s nm] Cons.prems(2) by (simp add: remove_extra_pods)
  next
    case False
    then show ?thesis by (simp add: has_pod_def remove_extra_pods)
  qed
  have frame: "k \<noteq> podKey p \<Longrightarrow> map_of (ds_pods ?t) k = map_of (ds_pods s) k"
    by (simp add: remove_extra_pods)
  from Cons.IH [OF keyed] Cons.prems(2) has frame show ?case by auto
qed simp
section \<open>Rolling updates\<close>

text \<open>An update leaves the new pod in the table, or no pod when it fails; no other entry changes.\<close>

lemma UpdatePod_cases:
  assumes "pods_keyed s"
  obtains (failed) q t where "cr_failed (de_create env True p)" "UpdatePod env p s = (False, q, t)"
      "map_of (ds_pods t) = (map_of (ds_pods s))(podKey p := None)" "pods_keyed t"
  | (updated) q t where "\<not> cr_failed (de_create env True p)" "UpdatePod env p s = (True, q, t)"
      "map_of (ds_pods t) = (map_of (ds_pods s))(podKey p \<mapsto> q)" "same_pod p q" "pods_keyed t"
proof (cases "\<exists>old. map_of (ds_pods s) (podKey p) = Some old \<and> network_changed old p")
  case True
  then obtain old where old: "map_of (ds_pods s) (podKey p) = Some old" "network_changed old p" by blast
  then have key: "podKey old = podKey p" using pods_keyedD [OF assms] by blast
  have eq: "UpdatePod env p s = CreatePod env True p (teardownForUpdate old s)"
    using old by (simp add: UpdatePod_def)
  have down: "ds_pods (teardownForUpdate old s) = AList.delete (podKey p) (ds_pods s)"
    "pods_keyed (teardownForUpdate old s)"
    using key assms by (simp_all add: teardownForUpdate_def pods_keyed_def)
  show ?thesis
  proof (cases rule: CreatePod_cases [of env True p "teardownForUpdate old s"])
    case (failed q t)
    have "pods_keyed t" by (rule pods_keyed_same [OF down(2) failed(3)])
    with that(1) [OF failed(1), of q t] eq down failed show ?thesis by (simp add: fun_eq_iff)
  next
    case (created q t)
    have "pods_keyed t" by (rule pods_keyed_update [OF down(2) same_podKey [OF created(3)] created(4)])
    with that(2) [OF created(1), of q t] eq down created show ?thesis by (simp add: fun_eq_iff)
  qed
next
  case False
  then have eq: "UpdatePod env p s = recreate_in_place env p s"
    by (auto simp: UpdatePod_def split: option.split)
  show ?thesis
  proof (cases rule: recreate_in_place_cases [of env p s])
    case (failed q t)
    have "pods_keyed t" by (rule pods_keyed_delete [OF assms failed(3)])
    with that(1) [OF failed(1), of q t] eq failed show ?thesis by (simp add: fun_eq_iff)
  next
    case (created q t m)
    have "pods_keyed t"
      using assms created(4) same_podKey [OF created(3)] by (simp add: pods_keyed_def)
    with that(2) [OF created(1), of q t] eq created show ?thesis by (auto simp: fun_eq_iff)
  qed
qed

definition renewed :: "dep_state \<Rightarrow> deployment \<Rightarrow> pod \<Rightarrow> bool" where
  "renewed t d p \<longleftrightarrow> (\<exists>q. map_of (ds_pods t) (podKey p) = Some q \<and> owned_by d q \<and> po_Spec q = dp_TemplateSpec d)"

lemma podKey_podFromDeployment: "owned_by d p \<Longrightarrow> podKey (podFromDeployment env d (po_Name p)) = podKey p"
  by (simp add: podKey_def owned_by_def)

lemma rolling_update_progress:
  assumes "pods_keyed s" and "\<forall>p\<in>set ps. owned_by d p" and "distinct (map podKey ps)"
  shows "\<exists>n. (\<forall>p\<in>set (take n ps). renewed (rolling_update env d ps s) d p) \<and>
             (\<forall>k. k \<notin> podKey ` set (take (Suc n) ps) \<longrightarrow>
                  map_of (ds_pods (rolling_update env d ps s)) k = map_of (ds_pods s) k)"
  using assms
proof (induction ps arbitrary: s)
  case (Cons p ps)
  let ?np = "podFromDeployment env d (po_Name p)"
  have key: "podKey ?np = podKey p" using Cons.prems(2) by (simp add: podKey_podFromDeployment)
  from Cons.prems(1) show ?case
  proof (cases rule: UpdatePod_cases [where env = env and p = ?np])
    case (failed q t)
    then show ?thesis using key by (intro exI [of _ 0]) simp
  next
    case (updated q t)
    have new: "map_of (ds_pods t) (podKey p) = Some q" "owned_by d q" "po_Spec q = dp_TemplateSpec d"
      using updated key same_pod_owned [OF updated(4), of d] by (simp_all add: same_pod_def)
    show ?thesis
    proof (cases "ps \<noteq> [] \<and> \<not> de_live env q")
      case True
      then have "rolling_update env d (p # ps) s = t" using updated by simp
      then show ?thesis using updated key new by (intro exI [of _ 0]) simp
    next
      case False
      then have eq: "rolling_update env d (p # ps) s = rolling_update env d ps t" using updated by auto
      let ?u = "rolling_update env d ps t"
      obtain n where n: "\<forall>p\<in>set (take n ps). renewed ?u d p"
          "\<forall>k. k \<notin> podKey ` set (take (Suc n) ps) \<longrightarrow> map_of (ds_pods ?u) k = map_of (ds_pods t) k"
        using Cons.IH [OF updated(5)] Cons.prems by auto
      have "podKey p \<notin> podKey ` set (take (Suc n) ps)"
        using Cons.prems(3) set_take_subset [of "Suc n" ps] by auto
      then have "renewed ?u d p" using n(2) new by (auto simp: renewed_def)
      moreover have "map_of (ds_pods ?u) k = map_of (ds_pods s) k"
        if "k \<notin> podKey ` set (take (Suc (Suc n)) (p # ps))" for k
        using that n(2) updated(3) key by auto
      ultimately show ?thesis using n(1) eq by (intro exI [of _ "Suc n"]) auto
    qed
  qed
qed simp

definition sample_spec :: pod_spec where
  "sample_spec = \<lparr>ps_Containers = [\<lparr>ct_Name = ''main'', ct_Image = ''registry/web:1''\<rparr>], ps_Other = ''''\<rparr>"

definition sample_deployment :: "string \<Rightarrow> int \<Rightarrow> deployment" where
  "sample_deployment nm n =
     \<lparr>dp_Namespace = ''shop'', dp_Name = nm, dp_Created = None, dp_Replicas = n, dp_TemplateAnnotations = [],
      dp_TemplateLabels = [], dp_TemplateSpec = sample_spec, dst_Replicas = 0, dst_ReadyReplicas = 0,
      dst_UpdatedAt = NoStamp\<rparr>"

definition sample_pod :: "string \<Rightarrow> string \<Rightarrow> pod" where
  "sample_pod nm owner =
     \<lparr>po_Namespace = ''shop'', po_Name = nm, po_Created = 0,
      po_Annotations = (if owner = '''' then [] else [(annotationOwnerDeployment, owner)]), po_Labels = [],
      po_Spec = sample_spec\<rparr>"

definition sample_dep_env :: "node option \<Rightarrow> string \<Rightarrow> (pod \<Rightarrow> bool) \<Rightarrow> dep_env" where
  "sample_dep_env cl nm failing =
     \<lparr>de_now = 0, de_store = True, de_deployments = True, de_connected = True, de_depPut = True, de_depDelete = True,
      de_depKeys = True, de_depGet = (\<lambda>k. True), de_podPut = (\<lambda>k. True), de_podDelete = (\<lambda>k. True),
      de_cluster = cl, de_nodeName = nm,
      de_create = (\<lambda>u p. \<lparr>cr_failed = failing p, cr_stamps = [], cr_stored = False, cr_ips = []\<rparr>),
      de_digest = (\<lambda>i. None), de_refresh = (\<lambda>i. None), de_live = (\<lambda>p. True)\<rparr>"

definition sample_state :: "pod list \<Rightarrow> dep_state" where
  "sample_state ps =
     \<lparr>ds_deployments = [], ds_pods = map (\<lambda>p. (podKey p, p)) ps, ds_depBucket = [], ds_podBucket = [], ds_kicks = 0\<rparr>"

lemmas sample_defs = sample_spec_def sample_deployment_def sample_pod_def sample_dep_env_def sample_state_def

lemma sample_keyed: "distinct (map podKey ps) \<Longrightarrow> pods_keyed (sample_state ps)"
  by (auto simp: pods_keyed_def sample_state_def comp_def dest!: map_of_SomeD)

text \<open>
  C29. A rolling update replaces the pods of a deployment one after the other and stops at the first that
  cannot be rebuilt or does not come up. Whatever fails: there is a point such that every pod before it is in
  the table with the new specification, every pod after it is still the old one, and no other pod of the node
  has changed. So at most one replica is missing afterwards.
\<close>

theorem rolling_update_stops:
  assumes "pods_keyed s"
  shows "\<exists>n. (\<forall>p\<in>set (take n (deploymentPods s d)). renewed (rollingUpdateDeployment env d s) d p) \<and>
             (\<forall>p\<in>set (drop (Suc n) (deploymentPods s d)).
                map_of (ds_pods (rollingUpdateDeployment env d s)) (podKey p) = Some p) \<and>
             (\<forall>k. k \<notin> podKey ` set (deploymentPods s d) \<longrightarrow>
                map_of (ds_pods (rollingUpdateDeployment env d s)) k = map_of (ds_pods s) k)"
proof -
  let ?ps = "deploymentPods s d" and ?t = "rollingUpdateDeployment env d s"
  have owned: "\<forall>p\<in>set ?ps. owned_by d p" using set_deploymentPods [OF assms] by blast
  obtain n where n: "\<forall>p\<in>set (take n ?ps). renewed ?t d p"
      "\<forall>k. k \<notin> podKey ` set (take (Suc n) ?ps) \<longrightarrow> map_of (ds_pods ?t) k = map_of (ds_pods s) k"
    using rolling_update_progress [OF assms owned distinct_deploymentPods(1) [OF assms], of env]
    by (auto simp: rollingUpdateDeployment_def)
  have "map_of (ds_pods ?t) (podKey p) = Some p" if "p \<in> set (drop (Suc n) ?ps)" for p
  proof -
    have "set (map podKey (take (Suc n) ?ps)) \<inter> set (map podKey (drop (Suc n) ?ps)) = {}"
      using distinct_deploymentPods(1) [OF assms, of d]
      by (metis append_take_drop_id distinct_append map_append)
    then have "podKey p \<notin> podKey ` set (take (Suc n) ?ps)" using that by auto
    moreover have "map_of (ds_pods s) (podKey p) = Some p"
      using that set_deploymentPods [OF assms, of p d] in_set_dropD by fast
    ultimately show ?thesis using n(2) by metis
  qed
  moreover have "map_of (ds_pods ?t) k = map_of (ds_pods s) k" if "k \<notin> podKey ` set ?ps" for k
    using that n(2) set_take_subset [of "Suc n" ?ps] by blast
  ultimately show ?thesis using n(1) by blast
qed

theorem rolling_update_stops_witness:
  "pods_keyed (sample_state [sample_pod ''web-0'' ''web'', sample_pod ''web-1'' ''web'']) \<and>
   (\<exists>n. (\<forall>p\<in>set (take n (deploymentPods (sample_state [sample_pod ''web-0'' ''web'', sample_pod ''web-1'' ''web''])
                    (sample_deployment ''web'' 2))).
          renewed (rollingUpdateDeployment (sample_dep_env None ''n1'' (\<lambda>p. po_Name p = ''web-1''))
            (sample_deployment ''web'' 2) (sample_state [sample_pod ''web-0'' ''web'', sample_pod ''web-1'' ''web'']))
            (sample_deployment ''web'' 2) p))"
proof -
  have k: "pods_keyed (sample_state [sample_pod ''web-0'' ''web'', sample_pod ''web-1'' ''web''])"
    by (rule sample_keyed) (simp add: podKey_def sample_pod_def)
  from rolling_update_stops [OF k, of "sample_deployment ''web'' 2" "sample_dep_env None ''n1'' (\<lambda>p. po_Name p = ''web-1'')"]
  show ?thesis using k by blast
qed

section \<open>Convergence\<close>

lemma set_extras:
  "set (extras d ps) = {p \<in> set ps. po_Name p \<notin> replica_name d ` {..<replicas_of d}}"
  by (auto simp: extras_def lessThan_atLeast0)

lemma deploymentPods_cong: "ds_pods t = ds_pods s \<Longrightarrow> deploymentPods t d = deploymentPods s d"
  by (simp add: deploymentPods_def)

lemma reconcile_pods_has:
  assumes "pods_keyed s" and "\<not> needs_rolling env d"
  shows "pods_keyed (reconcile_pods env d s) \<and>
    (has_pod (reconcile_pods env d s) d nm \<longleftrightarrow>
       (has_pod s d nm \<or> (\<exists>i<replicas_of d. nm = replica_name d i \<and> creates env d i)) \<and>
       (\<forall>p\<in>set (extras d (deploymentPods s d)). isLocalPod env p \<longrightarrow> nm \<noteq> po_Name p)) \<and>
    (k \<notin> podKey ` set (deploymentPods s d) \<union> (\<lambda>i. dp_Namespace d @ ''/'' @ replica_name d i) ` {..<replicas_of d} \<longrightarrow>
       map_of (ds_pods (reconcile_pods env d s)) k = map_of (ds_pods s) k)"
proof -
  let ?ps = "deploymentPods s d"
  define t where "t = create_missing env d s"
  have t: "t = fold (create_replica env d (map po_Name ?ps)) [0..<replicas_of d] s"
    by (simp add: t_def create_missing_def)
  have keyed: "pods_keyed t" unfolding t by (rule create_replicas_keyed [OF assms(1)])
  have has: "has_pod t d nm \<longleftrightarrow> has_pod s d nm \<or> (\<exists>i<replicas_of d. nm = replica_name d i \<and> creates env d i)"
    unfolding t create_replicas_has [OF assms(1)] names_deploymentPods [OF assms(1)] by auto
  have frame: "map_of (ds_pods t) k = map_of (ds_pods s) k"
    if "k \<notin> (\<lambda>i. dp_Namespace d @ ''/'' @ replica_name d i) ` {..<replicas_of d}"
    unfolding t using that by (intro create_replicas_frame [OF assms(1)]) (simp add: lessThan_atLeast0)
  have owned: "\<forall>p\<in>set (extras d ?ps). owned_by d p"
    using set_deploymentPods [OF assms(1)] by (simp add: set_extras)
  have sub: "set (extras d ?ps) \<subseteq> set ?ps" by (auto simp: set_extras)
  have eq: "reconcile_pods env d s = fold (remove_extra env) (extras d ?ps) t"
    using assms(2) by (simp add: reconcile_pods_def Let_def t_def)
  from remove_extras [OF keyed owned, of env nm k]
  have r: "pods_keyed (reconcile_pods env d s)"
    "has_pod (reconcile_pods env d s) d nm \<longleftrightarrow>
       has_pod t d nm \<and> (\<forall>p\<in>set (extras d ?ps). isLocalPod env p \<longrightarrow> nm \<noteq> po_Name p)"
    "k \<notin> podKey ` set (extras d ?ps) \<Longrightarrow> map_of (ds_pods (reconcile_pods env d s)) k = map_of (ds_pods t) k"
    unfolding eq by simp_all
  have "map_of (ds_pods (reconcile_pods env d s)) k = map_of (ds_pods s) k"
    if "k \<notin> podKey ` set ?ps \<union> (\<lambda>i. dp_Namespace d @ ''/'' @ replica_name d i) ` {..<replicas_of d}"
  proof -
    have "k \<notin> podKey ` set (extras d ?ps)" using that image_mono [OF sub, of podKey] by (meson UnI1 subsetD)
    then have "map_of (ds_pods (reconcile_pods env d s)) k = map_of (ds_pods t) k" by (rule r(3))
    also have "\<dots> = map_of (ds_pods s) k" by (rule frame) (use that in simp)
    finally show ?thesis .
  qed
  then show ?thesis unfolding has [symmetric] using r(1,2) by (intro conjI impI)
qed
lemma isLocalPod_single: "de_cluster env = None \<Longrightarrow> isLocalPod env p"
  by (simp add: isLocalPod_def)


lemma creates_sample: "creates (sample_dep_env None nm failing) d i \<longleftrightarrow> \<not> failing (replica_pod (sample_dep_env None nm failing) d i)"
  by (simp add: creates_def Let_def isLocalPod_def sample_dep_env_def)


text \<open>Pods that are too many are removed in the order of their names, not of their numbers.\<close>

lemma extras_by_name:
  "map po_Name (extras (sample_deployment ''web'' 9) (map (\<lambda>nm. sample_pod nm ''web'') [''web-8'', ''web-9'', ''web-10'', ''web-11''])) =
     [''web-9'', ''web-11'', ''web-10'']"
  by code_simp

section \<open>Two nodes\<close>

lemma HealthyNodes_pair:
  "map pc_Name (peers nd) = [B] \<Longrightarrow> IsPeerHealthy nd B \<Longrightarrow> HealthyNodes nd = [nodeName nd, B]"
  by (simp add: HealthyNodes_def)

lemma mod2_node: "[a, b] ! (i mod Suc (Suc 0)) = (if even i then a else b)"
  by (simp add: mod_2_eq_odd flip: numeral_2_eq_2)

lemma creates_on_pair:
  assumes "de_cluster env = Some nd" and "HealthyNodes nd = [A, B]" and "de_nodeName env = A"
    and "A \<noteq> B" and "B \<noteq> ''''" and "\<And>k. de_podPut env k" and "\<And>p. \<not> cr_failed (de_create env False p)"
  shows "creates env d i \<longleftrightarrow> even i"
proof -
  have "scheduleReplicaNode env i = (if even i then A else B)"
    using assms(1,2) mod2_node [of A B i] by (simp add: scheduleReplicaNode_def)
  then have "ann (po_Annotations (replica_pod env d i)) annotationNode = (if even i then A else B)"
    using assms(1) by (simp add: replica_pod_def Let_def set_ann_def ann_update)
  then show ?thesis using assms by (auto simp: creates_def Let_def isLocalPod_def)
qed

lemma reconcile_on_pair:
  assumes "pods_keyed s" and "deploymentPods s d = []" and "\<not> needs_rolling env d"
    and "de_cluster env = Some nd" and "de_nodeName env = nodeName nd" and "nodeName nd \<noteq> B" and "B \<noteq> ''''"
    and "map pc_Name (peers nd) = [B]" and "IsPeerHealthy nd B"
    and "\<And>k. de_podPut env k" and "\<And>p. \<not> cr_failed (de_create env False p)"
  shows "map po_Name (deploymentPods (reconcile_pods env d s) d) =
         sort (map (replica_name d) (filter even [0..<replicas_of d]))"
proof (rule deploymentPods_names)
  note r = reconcile_pods_has [OF assms(1,3)]
  show "pods_keyed (reconcile_pods env d s)" using r by blast
  show "distinct (map (replica_name d) (filter even [0..<replicas_of d]))"
    by (intro distinct_replica_names) simp
  have c: "creates env d i \<longleftrightarrow> even i" for i
    by (rule creates_on_pair [OF assms(4) HealthyNodes_pair [OF assms(8,9)] assms(5,6,7,10,11)])
  have no: "\<not> has_pod s d nm" "extras d (deploymentPods s d) = []" for nm
    using names_deploymentPods [OF assms(1), of nm d] assms(2) by (simp_all add: extras_def)
  show "has_pod (reconcile_pods env d s) d nm \<longleftrightarrow> nm \<in> set (map (replica_name d) (filter even [0..<replicas_of d]))" for nm
    using r [of nm] c no by auto
qed

text \<open>
  C30. Replicas are not spread over a cluster. Each node computes the placement from its own list of healthy
  nodes, and that list starts with the node itself, so two nodes that see each other disagree: both take the
  replicas with an even number and leave the others to the peer. When nothing fails, a cycle on each of the
  two nodes creates every even replica twice and no odd replica at all.
\<close>

theorem replicas_placed_twice:
  assumes "pods_keyed sa" and "pods_keyed sb" and "deploymentPods sa d = []" and "deploymentPods sb d = []"
    and "\<not> needs_rolling ea d" and "\<not> needs_rolling eb d"
    and "de_cluster ea = Some na" and "de_nodeName ea = nodeName na" and "nodeName na \<noteq> ''''"
    and "de_cluster eb = Some nb" and "de_nodeName eb = nodeName nb" and "nodeName nb \<noteq> ''''"
    and "nodeName na \<noteq> nodeName nb"
    and "map pc_Name (peers na) = [nodeName nb]" and "IsPeerHealthy na (nodeName nb)"
    and "map pc_Name (peers nb) = [nodeName na]" and "IsPeerHealthy nb (nodeName na)"
    and "\<forall>k. de_podPut ea k \<and> de_podPut eb k"
    and "\<forall>p. \<not> cr_failed (de_create ea False p) \<and> \<not> cr_failed (de_create eb False p)"
  shows "map po_Name (deploymentPods (reconcile_pods ea d sa) d) =
           sort (map (replica_name d) (filter even [0..<replicas_of d])) \<and>
         map po_Name (deploymentPods (reconcile_pods eb d sb) d) =
           sort (map (replica_name d) (filter even [0..<replicas_of d]))"
  using reconcile_on_pair [OF assms(1,3,5,7,8,13,12,14,15)]
    reconcile_on_pair [OF assms(2,4,6,10,11) assms(13) [symmetric] assms(9,16,17)] assms(18,19)
  by simp

definition sample_node :: "string \<Rightarrow> string \<Rightarrow> node" where
  "sample_node nm peer =
     (New nm [\<lparr>pc_Name = peer, pc_Address = ''''\<rparr>] 300 [] ''arm64'')\<lparr>peerUp := [(peer, True)]\<rparr>"

lemma sample_node_facts:
  "nodeName (sample_node nm peer) = nm" "map pc_Name (peers (sample_node nm peer)) = [peer]"
  "IsPeerHealthy (sample_node nm peer) peer"
  by (simp_all add: sample_node_def New_def IsPeerHealthy_def)

theorem replicas_placed_twice_witness:
  "map po_Name (deploymentPods (reconcile_pods (sample_dep_env (Some (sample_node ''a'' ''b'')) ''a'' (\<lambda>p. False))
      (sample_deployment ''web'' 2) (sample_state [])) (sample_deployment ''web'' 2)) = [''web-0''] \<and>
   map po_Name (deploymentPods (reconcile_pods (sample_dep_env (Some (sample_node ''b'' ''a'')) ''b'' (\<lambda>p. False))
      (sample_deployment ''web'' 2) (sample_state [])) (sample_deployment ''web'' 2)) = [''web-0'']"
proof -
  let ?d = "sample_deployment ''web'' 2" and ?s = "sample_state []"
  let ?ea = "sample_dep_env (Some (sample_node ''a'' ''b'')) ''a'' (\<lambda>p. False)"
  let ?eb = "sample_dep_env (Some (sample_node ''b'' ''a'')) ''b'' (\<lambda>p. False)"
  have k: "pods_keyed ?s" by (rule sample_keyed) simp
  have none: "deploymentPods ?s ?d = []" by (simp add: deploymentPods_def sample_state_def Map_Snapshot_def)
  have nr: "\<not> needs_rolling e ?d" for e
    by (simp add: needs_rolling_def sample_deployment_def ann_def)
  have "replicas_of ?d = 2" "[0..<2] = [0, 1 :: nat]" by (simp_all add: replicas_of_def sample_deployment_def upt_rec)
  moreover have "replica_name ?d 0 = ''web-0''" by code_simp
  ultimately have ev: "sort (map (replica_name ?d) (filter even [0..<replicas_of ?d])) = [''web-0'']"
    by simp
  show ?thesis
    unfolding ev [symmetric]
    by (rule replicas_placed_twice [OF k k none none nr nr, where na = "sample_node ''a'' ''b''" and nb = "sample_node ''b'' ''a''"])
      (simp_all add: sample_node_facts sample_dep_env_def)
qed

section \<open>Interfaces of replicas\<close>

lemma truncate_str_take: "truncate_str s n = take n s"
  by (simp add: truncate_str_def)

lemma append_last_sep:
  "c \<notin> set a \<Longrightarrow> c \<notin> set b \<Longrightarrow> x @ c # a = y @ c # b \<longleftrightarrow> x = y \<and> a = b"
proof
  assume "c \<notin> set a" "c \<notin> set b" "x @ c # a = y @ c # b"
  then have "rev a @ c # rev x = rev b @ c # rev y" by (metis append.assoc append_Cons append_Nil rev.simps(2) rev_append)
  with \<open>c \<notin> set a\<close> \<open>c \<notin> set b\<close> have "rev a = rev b" "rev x = rev y"
    using takeWhile_neq_append [of c "rev a" "rev x"] takeWhile_neq_append [of c "rev b" "rev y"]
      dropWhile_neq_append [of c "rev a" "rev x"] dropWhile_neq_append [of c "rev b" "rev y"] by simp_all
  then show "x = y \<and> a = b" by simp
qed simp

lemma take_replica_name:
  "take 15 (replica_name d i) =
     take 15 (dp_Name d @ ''-'') @ take (14 - length (dp_Name d)) (dec i)"
  by (simp add: replica_name_dec take_Cons')

text \<open>
  C31. The name of the network interface of a container keeps 15 characters of the pod's name, the number of
  the replica included. Two replicas of a deployment have interfaces of the same name exactly when their
  numbers agree on the digits that fit: with a name of 14 or more characters all replicas of a deployment
  share one interface name, and so one address; with 13 characters \<open>1\<close>, \<open>10\<close> and \<open>11\<close> share one.
\<close>

theorem replicas_share_veth:
  "vethName (replica_pod env d i) k = vethName (replica_pod env' d j) l \<longleftrightarrow>
   k = l \<and> take (14 - length (dp_Name d)) (dec i) = take (14 - length (dp_Name d)) (dec j)"
proof -
  have us: "CHR ''_'' \<notin> set (dec n)" for n using dec_no_sep by fastforce
  have ns: "po_Namespace (replica_pod env d i) = dp_Namespace d" for env i
    by (simp add: replica_pod_def Let_def set_ann_def)
  have eq: "vethName (replica_pod env d i) k =
    (''veth_'' @ take 15 (if dp_Namespace d = '''' then ''default'' else dp_Namespace d) @ ''_'' @ take 15 (replica_name d i))
      @ CHR ''_'' # dec k" for env i k
    by (simp add: vethName_def truncate_str_take Itoa_def ns Let_def)
  show ?thesis
    unfolding eq append_last_sep [OF us us] by (auto simp: take_replica_name dest: dec_inj)
qed
section \<open>Histories\<close>

text \<open>Everything that changes the state: a cycle, the requests, the start, the watch, and the other callers of the pod operations.\<close>

inductive dep_step :: "dep_state \<Rightarrow> dep_state \<Rightarrow> bool" where
  cycle: "dep_step s (reconcileDeployments env s)"
| create: "dep_step s (snd (handleCreateDeployment env ns body s))"
| update: "dep_step s (snd (handleUpdateDeployment env ns name body s))"
| delete: "dep_step s (snd (handleDeleteDeployment env ns name s))"
| load: "dep_step s (LoadDeploymentsFromStore env s)"
| watch: "dep_step s (runDeploymentWatch_event evt s)"
| pod_create: "dep_step s (snd (snd (CreatePod env False p s)))"
| pod_update: "dep_step s (snd (snd (UpdatePod env p s)))"
| pod_delete: "dep_step s (DeletePod p s)"

definition deps_keyed :: "(string, deployment) gomap \<Rightarrow> bool" where
  "deps_keyed m \<longleftrightarrow> gm_wf m \<and> (\<forall>k d. map_of m k = Some d \<longrightarrow> k = dp_Namespace d @ ''/'' @ dp_Name d)"

definition dep_inv :: "dep_state \<Rightarrow> bool" where
  "dep_inv s \<longleftrightarrow> pods_keyed s \<and> deps_keyed (ds_deployments s)"

lemma deps_keyed_update:
  "deps_keyed m \<Longrightarrow> k = dp_Namespace d @ ''/'' @ dp_Name d \<Longrightarrow> deps_keyed (AList.update k d m)"
  by (simp add: deps_keyed_def)

lemma deps_keyed_delete: "deps_keyed m \<Longrightarrow> deps_keyed (AList.delete k m)"
  by (simp add: deps_keyed_def)

lemma dep_inv_same:
  "dep_inv s \<Longrightarrow> ds_pods t = ds_pods s \<Longrightarrow> deps_keyed (ds_deployments t) \<Longrightarrow> dep_inv t"
  by (simp add: dep_inv_def pods_keyed_def)

lemma dep_inv_triggerReconcile [simp]: "dep_inv (triggerReconcile s) = dep_inv s"
  by (simp add: dep_inv_def pods_keyed_def triggerReconcile_def)

lemma dep_inv_CreatePod:
  assumes "dep_inv s"
  shows "dep_inv (snd (snd (CreatePod env u p s)))"
proof (cases rule: CreatePod_cases [of env u p s])
  case (failed q t)
  with assms show ?thesis by (simp add: dep_inv_def pods_keyed_def)
next
  case (created q t)
  with assms same_podKey [OF created(3)] show ?thesis by (simp add: dep_inv_def pods_keyed_def)
qed

lemma dep_inv_DeletePod: "dep_inv s \<Longrightarrow> dep_inv (DeletePod p s)"
  by (simp add: dep_inv_def DeletePod_def pods_keyed_def)

lemma dep_inv_unstore: "dep_inv s \<Longrightarrow> dep_inv (unstore_pod env p s)"
  by (simp add: dep_inv_def pods_keyed_def)

lemma dep_inv_teardown: "dep_inv s \<Longrightarrow> dep_inv (teardownForUpdate p s)"
  by (simp add: dep_inv_def teardownForUpdate_def pods_keyed_def)

lemma dep_inv_recreate:
  assumes "dep_inv s"
  shows "dep_inv (snd (snd (recreate_in_place env p s)))"
proof -
  have c: "dep_inv (snd (snd (CreatePod env True p (teardownForUpdate p s))))"
    by (intro dep_inv_CreatePod dep_inv_teardown assms)
  show ?thesis
  proof (cases "CreatePod env True p (teardownForUpdate p s)")
    case (fields ok q t)
    obtain q' t' where d: "stampImageDigest env q t = (q', t')" by fastforce
    with stampImageDigest_facts [where p = q and env = env and s = t]
    have "ds_pods t' = ds_pods t" "ds_deployments t' = ds_deployments t" by simp_all
    with c fields d show ?thesis
      by (cases ok) (simp_all add: recreate_in_place_def dep_inv_def pods_keyed_def)
  qed
qed

lemma dep_inv_UpdatePod: "dep_inv s \<Longrightarrow> dep_inv (snd (snd (UpdatePod env p s)))"
  by (simp add: UpdatePod_def dep_inv_recreate dep_inv_CreatePod dep_inv_teardown split: option.split)

lemma dep_inv_fold: "(\<And>x t. dep_inv t \<Longrightarrow> dep_inv (f x t)) \<Longrightarrow> dep_inv s \<Longrightarrow> dep_inv (fold f xs s)"
  by (induction xs arbitrary: s) auto

lemma dep_inv_create_replica: "dep_inv s \<Longrightarrow> dep_inv (create_replica env d owned i s)"
proof -
  assume s: "dep_inv s"
  then have "dep_inv (store_pod env p s)" for p by (simp add: dep_inv_def pods_keyed_def)
  with s show ?thesis by (simp add: create_replica_def Let_def dep_inv_CreatePod)
qed

lemma dep_inv_rolling: "dep_inv s \<Longrightarrow> dep_inv (rolling_update env d ps s)"
proof (induction ps arbitrary: s)
  case (Cons p ps)
  show ?case
  proof (cases "UpdatePod env (podFromDeployment env d (po_Name p)) s")
    case (fields ok q t)
    with dep_inv_UpdatePod [OF Cons.prems, of env "podFromDeployment env d (po_Name p)"] have "dep_inv t" by simp
    with fields Cons.IH show ?thesis by (cases ok) simp_all
  qed
qed simp

lemma dep_inv_reconcile_pods: "dep_inv s \<Longrightarrow> dep_inv (reconcile_pods env d s)"
  unfolding reconcile_pods_def create_missing_def rollingUpdateDeployment_def Let_def
  by (auto simp: remove_extra_def
      intro!: dep_inv_rolling dep_inv_fold dep_inv_create_replica dep_inv_unstore dep_inv_DeletePod)

lemma dep_inv_reconcileOne:
  assumes "dep_inv s" and "key = dp_Namespace d @ ''/'' @ dp_Name d"
  shows "dep_inv (reconcileOneDeployment env (key, d) s)"
  using dep_inv_reconcile_pods [OF assms(1), of env d] assms(2)
  by (simp add: reconcileOneDeployment_def Let_def dep_inv_def pods_keyed_def deps_keyed_update)

lemma dep_inv_cycle:
  assumes "dep_inv s"
  shows "dep_inv (reconcileDeployments env s)"
proof -
  have load: "dep_inv (load_missing env e t)" if "dep_inv t" for e t
    using that by (cases e) (auto simp: load_missing_def Let_def dep_inv_def pods_keyed_def Map_Set_def deps_keyed_update)
  have run: "dep_inv (fold (reconcileOneDeployment env) es t)"
    if "dep_inv t" "\<forall>(k, d)\<in>set es. k = dp_Namespace d @ ''/'' @ dp_Name d" for es t
    using that
  proof (induction es arbitrary: t)
    case (Cons e es)
    obtain k d where e: "e = (k, d)" by (cases e)
    with Cons.prems have "dep_inv (reconcileOneDeployment env (k, d) t)" by (intro dep_inv_reconcileOne) auto
    with Cons.IH Cons.prems e show ?case by simp
  qed simp
  have keyed: "\<forall>(k, d)\<in>set (ds_deployments t). k = dp_Namespace d @ ''/'' @ dp_Name d" if "dep_inv t" for t
  proof -
    from that have "gm_wf (ds_deployments t)" "\<And>k d. map_of (ds_deployments t) k = Some d \<Longrightarrow> k = dp_Namespace d @ ''/'' @ dp_Name d"
      by (simp_all add: dep_inv_def deps_keyed_def)
    then show ?thesis using gm_mem_iff by fast
  qed
  show ?thesis
    unfolding reconcileDeployments_def Let_def
    using run [OF _ keyed] dep_inv_fold [of "load_missing env", OF load assms] assms by simp
qed

lemma enrich_names [simp]:
  "dp_Namespace (enrichDeploymentStatus s d) = dp_Namespace d" "dp_Name (enrichDeploymentStatus s d) = dp_Name d"
  by (simp_all add: enrichDeploymentStatus_def Let_def)

lemma default_replicas_names [simp]:
  "dp_Namespace (default_replicas d) = dp_Namespace d" "dp_Name (default_replicas d) = dp_Name d"
  by (simp_all add: default_replicas_def)

lemma dep_inv_set:
  "dep_inv s \<Longrightarrow> k = dp_Namespace d @ ''/'' @ dp_Name d \<Longrightarrow>
   dep_inv (s\<lparr>ds_deployments := Map_Set (ds_deployments s) k d\<rparr>)"
  by (simp add: dep_inv_def pods_keyed_def Map_Set_def deps_keyed_update)

lemma dep_inv_bucket: "dep_inv (s\<lparr>ds_depBucket := b\<rparr>) = dep_inv s"
  by (simp add: dep_inv_def pods_keyed_def)

lemma dep_inv_create: "dep_inv s \<Longrightarrow> dep_inv (snd (handleCreateDeployment env ns body s))"
  by (cases body) (auto simp: handleCreateDeployment_def Let_def dep_inv_set dep_inv_bucket)

lemma dep_inv_update: "dep_inv s \<Longrightarrow> dep_inv (snd (handleUpdateDeployment env ns name body s))"
  by (cases body)
    (auto simp: handleUpdateDeployment_def Let_def dep_inv_def pods_keyed_def triggerReconcile_def Map_Set_def
      deps_keyed_update)

lemma dep_inv_unset: "dep_inv s \<Longrightarrow> dep_inv (s\<lparr>ds_deployments := Map_Delete (ds_deployments s) k\<rparr>)"
  by (simp add: dep_inv_def pods_keyed_def Map_Delete_def deps_keyed_delete)

lemma dep_inv_delete: "dep_inv s \<Longrightarrow> dep_inv (snd (handleDeleteDeployment env ns name s))"
proof (cases "Map_Get (ds_deployments s) (ns @ ''/'' @ name)")
  case None
  then show "dep_inv s \<Longrightarrow> ?thesis" by (simp add: handleDeleteDeployment_def Let_def)
next
  case (Some d)
  assume s: "dep_inv s"
  define t where "t = fold (delete_owned env) (deploymentPods s d) s"
  define u where "u = (if de_store env \<and> de_deployments env \<and> de_depDelete env
     then t\<lparr>ds_depBucket := AList.delete (ns @ ''.'' @ name) (ds_depBucket t)\<rparr> else t)"
  have "dep_inv t" unfolding t_def
    by (rule dep_inv_fold [OF _ s]) (simp add: delete_owned_def dep_inv_unstore dep_inv_DeletePod)
  then have "dep_inv u" by (simp add: u_def dep_inv_bucket)
  moreover have "snd (handleDeleteDeployment env ns name s) =
    triggerReconcile (u\<lparr>ds_deployments := Map_Delete (ds_deployments u) (ns @ ''/'' @ name)\<rparr>)"
    using Some unfolding handleDeleteDeployment_def Let_def t_def [symmetric] u_def by (simp add: t_def)
  ultimately show ?thesis by (simp add: dep_inv_unset)
qed

lemma dep_inv_load: "dep_inv s \<Longrightarrow> dep_inv (LoadDeploymentsFromStore env s)"
proof -
  assume s: "dep_inv s"
  have "dep_inv (load_deployment env e t)" if "dep_inv t" for e t
    using that by (cases e) (auto simp: load_deployment_def Let_def dep_inv_set)
  with s show ?thesis
    unfolding LoadDeploymentsFromStore_def using dep_inv_fold [of "load_deployment env"] by simp
qed

lemma dep_inv_watch: "dep_inv s \<Longrightarrow> dep_inv (runDeploymentWatch_event evt s)"
  by (cases evt)
    (auto simp: runDeploymentWatch_event_def Let_def split_beta dep_inv_def pods_keyed_def triggerReconcile_def
      Map_Set_def Map_Delete_def deps_keyed_update deps_keyed_delete split: option.split)

lemma dep_step_inv: "dep_step s t \<Longrightarrow> dep_inv s \<Longrightarrow> dep_inv t"
  by (induction rule: dep_step.induct)
    (simp_all add: dep_inv_cycle dep_inv_create dep_inv_update dep_inv_delete dep_inv_load dep_inv_watch
      dep_inv_CreatePod dep_inv_UpdatePod dep_inv_DeletePod)

text \<open>A provider starts with empty tables and whatever is in the buckets.\<close>

definition dep_start :: "dep_state \<Rightarrow> bool" where
  "dep_start s \<longleftrightarrow> ds_pods s = [] \<and> ds_deployments s = []"

interpretation dep_sys: invariant_system dep_start dep_step dep_inv
proof
  show "dep_inv s" if "dep_start s" for s
    using that by (simp add: dep_start_def dep_inv_def pods_keyed_def deps_keyed_def)
qed (rule dep_step_inv)

text \<open>The hypothesis of the theorems above holds in every state a history reaches.\<close>

lemma reachable_pods_keyed: "dep_start s \<Longrightarrow> dep_step\<^sup>*\<^sup>* s t \<Longrightarrow> pods_keyed t"
  using dep_sys.inv_reachable [of s t] by (simp add: dep_inv_def)

end
