(* ===== verification/Vmid.thy ===== *)
theory Vmid
  imports GoText
begin

text \<open>
  \<open>pkg/proxmox/vmid.go\<close>: the allocator of Proxmox VMIDs, a two-way table between container names
  and numbers of a configured range. Every method holds the mutex for its whole body. The search
  of \<open>Allocate\<close> counts in Go's \<open>int\<close>, so its counter would wrap at the top of a range that ends at
  the largest \<open>int\<close>; the results below are for ranges that end below it (\<open>range_fits\<close>). The fuel of
  the loop is one more than the number of used VMIDs; \<open>vmid_loop_done\<close> shows it never runs out.
\<close>

section \<open>The allocator\<close>

record vmid_allocator =
  rangeMin :: int
  rangeMax :: int
  used :: "(int, string) gomap"
  names :: "(string, int) gomap"

datatype vmid_error =
    RangeFormat string
  | RangeBadMin string
  | RangeBadMax string
  | RangeMinAboveMax int int
  | NoAvailableVMIDs int int
  | LoopNotDone

definition NewVMIDAllocator :: "string \<Rightarrow> vmid_error + vmid_allocator" where
  "NewVMIDAllocator rangeSpec =
     (case splitN 2 (CHR ''-'') rangeSpec of
        [p0, p1] \<Rightarrow>
          (case Atoi (TrimSpace p0) of
             None \<Rightarrow> Inl (RangeBadMin p0)
           | Some lo \<Rightarrow>
               (case Atoi (TrimSpace p1) of
                  None \<Rightarrow> Inl (RangeBadMax p1)
                | Some hi \<Rightarrow>
                    if lo > hi then Inl (RangeMinAboveMax lo hi)
                    else Inr \<lparr>rangeMin = lo, rangeMax = hi, used = [], names = []\<rparr>))
      | _ \<Rightarrow> Inl (RangeFormat rangeSpec))"

text \<open>The loop of \<open>Allocate\<close>: \<open>Some None\<close> when the range is exhausted, \<open>None\<close> when the fuel is.\<close>

fun vmid_loop :: "nat \<Rightarrow> vmid_allocator \<Rightarrow> int \<Rightarrow> int option option" where
  "vmid_loop 0 a vmid = None"
| "vmid_loop (Suc n) a vmid =
     (if vmid \<le> rangeMax a
      then (if map_of (used a) vmid = None then Some (Some vmid)
            else vmid_loop n a (wrap64 (vmid + 1)))
      else Some None)"

definition VMIDAllocator_Allocate ::
  "vmid_allocator \<Rightarrow> string \<Rightarrow> (vmid_error + int) \<times> vmid_allocator" where
  "VMIDAllocator_Allocate a name =
     (case map_of (names a) name of
        Some vmid \<Rightarrow> (Inr vmid, a)
      | None \<Rightarrow>
          (case vmid_loop (Suc (length (used a))) a (rangeMin a) of
             None \<Rightarrow> (Inl LoopNotDone, a)
           | Some None \<Rightarrow> (Inl (NoAvailableVMIDs (rangeMin a) (rangeMax a)), a)
           | Some (Some vmid) \<Rightarrow>
               (Inr vmid, a\<lparr>used := AList.update vmid name (used a),
                            names := AList.update name vmid (names a)\<rparr>)))"

definition VMIDAllocator_Release :: "vmid_allocator \<Rightarrow> string \<Rightarrow> vmid_allocator" where
  "VMIDAllocator_Release a name =
     (case map_of (names a) name of
        Some vmid \<Rightarrow> a\<lparr>used := AList.delete vmid (used a), names := AList.delete name (names a)\<rparr>
      | None \<Rightarrow> a)"

definition VMIDAllocator_MarkUsed :: "vmid_allocator \<Rightarrow> int \<Rightarrow> string \<Rightarrow> vmid_allocator" where
  "VMIDAllocator_MarkUsed a vmid name =
     (let a' = a\<lparr>used := AList.update vmid name (used a)\<rparr>
      in if name \<noteq> '''' then a'\<lparr>names := AList.update name vmid (names a')\<rparr> else a')"

definition VMIDAllocator_Lookup :: "vmid_allocator \<Rightarrow> string \<Rightarrow> int option" where
  "VMIDAllocator_Lookup a name = map_of (names a) name"

definition VMIDAllocator_LookupName :: "vmid_allocator \<Rightarrow> int \<Rightarrow> string option" where
  "VMIDAllocator_LookupName a vmid = map_of (used a) vmid"

definition VMIDAllocator_InRange :: "vmid_allocator \<Rightarrow> int \<Rightarrow> bool" where
  "VMIDAllocator_InRange a vmid \<longleftrightarrow> vmid \<ge> rangeMin a \<and> vmid \<le> rangeMax a"

text \<open>\<open>Client.SyncVMIDs\<close> and the discovery: every listed container is marked, in order.\<close>

definition SyncVMIDs :: "vmid_allocator \<Rightarrow> (int \<times> string) list \<Rightarrow> vmid_allocator" where
  "SyncVMIDs a containers = fold (\<lambda>(v, n) a. VMIDAllocator_MarkUsed a v n) containers a"

section \<open>The search\<close>

declare vmid_loop.simps(2) [simp del]

definition range_fits :: "vmid_allocator \<Rightarrow> bool" where
  "range_fits a \<longleftrightarrow> - (2 ^ 63) \<le> rangeMin a \<and> rangeMax a < 2 ^ 63 - 1"

lemma next_vmid:
  "range_fits a \<Longrightarrow> rangeMin a \<le> v \<Longrightarrow> v \<le> rangeMax a \<Longrightarrow> wrap64 (v + 1) = v + 1"
  by (simp add: range_fits_def wrap64_id)

lemma vmid_loop_found:
  assumes "vmid_loop n a v = Some (Some w)" and "range_fits a" and "rangeMin a \<le> v"
  shows "v \<le> w \<and> w \<le> rangeMax a \<and> map_of (used a) w = None \<and>
    (\<forall>u. v \<le> u \<and> u < w \<longrightarrow> map_of (used a) u \<noteq> None)"
  using assms
proof (induction n arbitrary: v)
  case (Suc n)
  show ?case
  proof (cases "v \<le> rangeMax a \<and> map_of (used a) v \<noteq> None")
    case True
    with Suc.prems have rec: "vmid_loop n a (v + 1) = Some (Some w)"
      by (auto simp: vmid_loop.simps(2) next_vmid)
    have "rangeMin a \<le> v + 1" using Suc.prems(3) by simp
    note IH = Suc.IH [OF rec Suc.prems(2) this]
    have "map_of (used a) u \<noteq> None" if "v \<le> u" "u < w" for u
      using IH True that by (cases "u = v") auto
    with IH show ?thesis by auto
  next
    case False
    with Suc.prems show ?thesis by (auto simp: vmid_loop.simps(2) split: if_splits)
  qed
qed simp

lemma vmid_loop_full:
  assumes "vmid_loop n a v = Some None" and "range_fits a" and "rangeMin a \<le> v"
    and "v \<le> u" and "u \<le> rangeMax a"
  shows "map_of (used a) u \<noteq> None"
  using assms
proof (induction n arbitrary: v)
  case (Suc n)
  then have "map_of (used a) v \<noteq> None" "vmid_loop n a (v + 1) = Some None"
    by (auto simp: vmid_loop.simps(2) next_vmid split: if_splits)
  with Suc.IH [of "v + 1"] Suc.prems show ?case by (cases "u = v") auto
qed simp

lemma vmid_loop_fuel:
  assumes "vmid_loop n a v = None" and "range_fits a" and "rangeMin a \<le> v"
  shows "{v ..< v + int n} \<subseteq> fst ` set (used a)"
  using assms
proof (induction n arbitrary: v)
  case (Suc n)
  then have "v \<in> fst ` set (used a)" and rec: "vmid_loop n a (v + 1) = None"
    by (auto simp: vmid_loop.simps(2) next_vmid map_of_eq_None_iff split: if_splits)
  moreover have "{v ..< v + int (Suc n)} = insert v {v + 1 ..< v + 1 + int n}" by auto
  ultimately show ?case using Suc.IH [OF rec] Suc.prems by auto
qed simp

lemma vmid_loop_done:
  assumes "range_fits a"
  shows "vmid_loop (Suc (length (used a))) a (rangeMin a) \<noteq> None"
proof
  let ?n = "Suc (length (used a))"
  assume "vmid_loop ?n a (rangeMin a) = None"
  then have "card {rangeMin a ..< rangeMin a + int ?n} \<le> card (fst ` set (used a))"
    by (intro card_mono vmid_loop_fuel [OF _ assms order_refl]) auto
  also have "\<dots> \<le> length (used a)" using card_image_le [of "set (used a)" fst] card_length [of "used a"] by simp
  finally show False by simp
qed

section \<open>The two tables\<close>

text \<open>The tables are each other's inverse, and every VMID the allocator chose is in its range.\<close>

definition vmid_wf :: "vmid_allocator \<Rightarrow> bool" where
  "vmid_wf a \<longleftrightarrow> range_fits a \<and> gm_wf (used a) \<and> gm_wf (names a) \<and>
     (\<forall>n v. map_of (names a) n = Some v \<longleftrightarrow> map_of (used a) v = Some n)"

lemma vmid_Allocate_found:
  assumes "VMIDAllocator_Allocate a name = (Inr v, a')" and "map_of (names a) name = None" and "range_fits a"
  shows "a' = a\<lparr>used := AList.update v name (used a), names := AList.update name v (names a)\<rparr>"
    and "VMIDAllocator_InRange a v" and "map_of (used a) v = None"
    and "\<And>u. VMIDAllocator_InRange a u \<Longrightarrow> map_of (used a) u = None \<Longrightarrow> v \<le> u"
proof -
  have l: "vmid_loop (Suc (length (used a))) a (rangeMin a) = Some (Some v)"
    and a': "a' = a\<lparr>used := AList.update v name (used a), names := AList.update name v (names a)\<rparr>"
    using assms(1,2) unfolding VMIDAllocator_Allocate_def
    by (auto  split: option.splits)
  note f = vmid_loop_found [OF l assms(3) order_refl]
  show "a' = a\<lparr>used := AList.update v name (used a), names := AList.update name v (names a)\<rparr>" by (fact a')
  show "VMIDAllocator_InRange a v" "map_of (used a) v = None" using f by (auto simp: VMIDAllocator_InRange_def)
  show "v \<le> u" if "VMIDAllocator_InRange a u" "map_of (used a) u = None" for u
    using f that by (force simp: VMIDAllocator_InRange_def)
qed

lemma vmid_Allocate_wf:
  assumes "vmid_wf a"
  shows "vmid_wf (snd (VMIDAllocator_Allocate a name))"
proof (cases "\<exists>v a'. VMIDAllocator_Allocate a name = (Inr v, a') \<and> map_of (names a) name = None")
  case True
  then obtain v a' where r: "VMIDAllocator_Allocate a name = (Inr v, a')" and n: "map_of (names a) name = None"
    by blast
  have f: "range_fits a" using assms by (simp add: vmid_wf_def)
  note F = vmid_Allocate_found [OF r n f]
  have "map_of (names a) m \<noteq> Some v" for m using F(3) assms by (auto simp: vmid_wf_def)
  moreover have "map_of (used a) u \<noteq> Some name" for u using n assms by (auto simp: vmid_wf_def)
  ultimately show ?thesis using assms r F(1) by (auto simp: vmid_wf_def range_fits_def)
next
  case False
  then have "snd (VMIDAllocator_Allocate a name) = a"
    by (auto simp: VMIDAllocator_Allocate_def  split: option.splits)
  with assms show ?thesis by simp
qed

lemma vmid_Release_wf:
  assumes "vmid_wf a"
  shows "vmid_wf (VMIDAllocator_Release a name)"
proof (cases "map_of (names a) name")
  case None
  with assms show ?thesis by (simp add: VMIDAllocator_Release_def)
next
  case (Some v)
  with assms have iff: "map_of (names a) n = Some u \<Longrightarrow> (u = v \<longleftrightarrow> n = name)" for n u
    by (metis option.inject vmid_wf_def)
  from Some assms iff show ?thesis
    by (auto simp: VMIDAllocator_Release_def vmid_wf_def range_fits_def split: if_splits)
qed

text \<open>
  What discovery has to report for \<open>MarkUsed\<close> to keep the tables inverse: a named container whose
  VMID belongs to no other name and whose name has no other VMID.
\<close>

definition consistent_mark :: "vmid_allocator \<Rightarrow> int \<Rightarrow> string \<Rightarrow> bool" where
  "consistent_mark a v n \<longleftrightarrow> n \<noteq> '''' \<and> map_of (used a) v \<in> {None, Some n} \<and> map_of (names a) n \<in> {None, Some v}"

lemma vmid_MarkUsed_wf:
  assumes "vmid_wf a" and "consistent_mark a v n"
  shows "vmid_wf (VMIDAllocator_MarkUsed a v n)"
proof -
  let ?b = "VMIDAllocator_MarkUsed a v n"
  have inv: "map_of (names a) m = Some u \<longleftrightarrow> map_of (used a) u = Some m" for m u
    using assms(1) by (simp add: vmid_wf_def)
  have c: "map_of (used a) v \<in> {None, Some n}" "map_of (names a) n \<in> {None, Some v}" "n \<noteq> ''''"
    using assms(2) by (auto simp: consistent_mark_def)
  have b: "map_of (used ?b) u = (if u = v then Some n else map_of (used a) u)"
    "map_of (names ?b) m = (if m = n then Some v else map_of (names a) m)" for u m
    using c(3) by (simp_all add: VMIDAllocator_MarkUsed_def Let_def)
  have "map_of (names ?b) m = Some u \<longleftrightarrow> map_of (used ?b) u = Some m" for m u
    unfolding b using inv [of m u] inv [of m v] inv [of n u] c by (cases "u = v"; cases "m = n") auto
  moreover have "range_fits ?b" "gm_wf (used ?b)" "gm_wf (names ?b)"
    using assms(1) by (simp_all add: VMIDAllocator_MarkUsed_def vmid_wf_def range_fits_def Let_def)
  ultimately show ?thesis unfolding vmid_wf_def by blast
qed

section \<open>Histories\<close>

inductive vmid_step :: "vmid_allocator \<Rightarrow> vmid_allocator \<Rightarrow> bool" where
  alloc: "VMIDAllocator_Allocate a n = (r, a') \<Longrightarrow> vmid_step a a'"
| release: "vmid_step a (VMIDAllocator_Release a n)"
| mark: "consistent_mark a v n \<Longrightarrow> vmid_step a (VMIDAllocator_MarkUsed a v n)"

definition vmid_start :: "vmid_allocator \<Rightarrow> bool" where
  "vmid_start a \<longleftrightarrow> range_fits a \<and> used a = [] \<and> names a = []"

interpretation vmid_sys: invariant_system vmid_start vmid_step vmid_wf
proof
  show "vmid_wf s" if "vmid_start s" for s
    using that by (simp add: vmid_start_def vmid_wf_def)
  show "vmid_wf t" if "vmid_wf s" "vmid_step s t" for s t
    using that(2,1) by (cases rule: vmid_step.cases) (metis vmid_Allocate_wf snd_conv, auto intro: vmid_Release_wf vmid_MarkUsed_wf)
qed

section \<open>Properties\<close>

text \<open>
  C9. The tables stay a two-way mapping: whatever sequence of allocations, releases and consistent
  discoveries has run, a name has a VMID exactly when that VMID carries the name, so two containers
  never share a VMID.
\<close>

theorem vmid_bijection:
  assumes "vmid_start a\<^sub>0" and "vmid_step\<^sup>*\<^sup>* a\<^sub>0 a"
  shows "(VMIDAllocator_Lookup a n = Some v \<longleftrightarrow> VMIDAllocator_LookupName a v = Some n) \<and>
    (VMIDAllocator_Lookup a n = Some v \<and> VMIDAllocator_Lookup a m = Some v \<longrightarrow> n = m)"
proof -
  have "vmid_wf a" using assms by (rule vmid_sys.inv_reachable)
  then show ?thesis by (metis VMIDAllocator_Lookup_def VMIDAllocator_LookupName_def option.inject vmid_wf_def)
qed

definition vmid_fresh :: vmid_allocator where
  "vmid_fresh = \<lparr>rangeMin = 200, rangeMax = 201, used = [], names = []\<rparr>"

theorem vmid_bijection_witness:
  "vmid_start vmid_fresh \<and> NewVMIDAllocator ''200- 201'' = Inr vmid_fresh \<and>
   VMIDAllocator_LookupName (snd (VMIDAllocator_Allocate vmid_fresh ''web'')) 200 = Some ''web''"
proof -
  have s: "vmid_start vmid_fresh" by (simp add: vmid_start_def vmid_fresh_def range_fits_def)
  have "vmid_step vmid_fresh (snd (VMIDAllocator_Allocate vmid_fresh ''web''))"
    by (rule vmid_step.alloc [of _ "''web''" "fst (VMIDAllocator_Allocate vmid_fresh ''web'')"]) simp
  then have "vmid_step\<^sup>*\<^sup>* vmid_fresh (snd (VMIDAllocator_Allocate vmid_fresh ''web''))" by blast
  moreover have "VMIDAllocator_Lookup (snd (VMIDAllocator_Allocate vmid_fresh ''web'')) ''web'' = Some 200"
    by code_simp
  moreover have "NewVMIDAllocator ''200- 201'' = Inr vmid_fresh" by code_simp
  ultimately show ?thesis using vmid_bijection [OF s] s by blast
qed

text \<open>
  C10. \<open>Allocate\<close> is deterministic and complete: a name that has a VMID keeps it; otherwise the call
  returns the lowest VMID of the range that is not in use, and it fails only when the whole range
  is in use. The search always ends.
\<close>

theorem vmid_allocate_lowest:
  assumes "range_fits a"
  shows "case fst (VMIDAllocator_Allocate a name) of
      Inr v \<Rightarrow> VMIDAllocator_Lookup (snd (VMIDAllocator_Allocate a name)) name = Some v \<and>
        (VMIDAllocator_Lookup a name = Some v \<or>
         VMIDAllocator_Lookup a name = None \<and> VMIDAllocator_InRange a v \<and> VMIDAllocator_LookupName a v = None \<and>
         (\<forall>u. VMIDAllocator_InRange a u \<and> VMIDAllocator_LookupName a u = None \<longrightarrow> v \<le> u))
    | Inl e \<Rightarrow> e = NoAvailableVMIDs (rangeMin a) (rangeMax a) \<and> snd (VMIDAllocator_Allocate a name) = a \<and>
        (\<forall>u. VMIDAllocator_InRange a u \<longrightarrow> VMIDAllocator_LookupName a u \<noteq> None)"
proof (cases "fst (VMIDAllocator_Allocate a name)")
  case (Inr v)
  then have r: "VMIDAllocator_Allocate a name = (Inr v, snd (VMIDAllocator_Allocate a name))"
    by (metis prod.collapse)
  show ?thesis
  proof (cases "map_of (names a) name")
    case None
    from vmid_Allocate_found [OF r None assms] Inr None show ?thesis
      by (simp add: VMIDAllocator_Lookup_def VMIDAllocator_LookupName_def)
  next
    case (Some w)
    with Inr show ?thesis by (simp add: VMIDAllocator_Allocate_def VMIDAllocator_Lookup_def)
  qed
next
  case (Inl e)
  then have "vmid_loop (Suc (length (used a))) a (rangeMin a) = Some None"
    and "e = NoAvailableVMIDs (rangeMin a) (rangeMax a)" and "snd (VMIDAllocator_Allocate a name) = a"
    using vmid_loop_done [OF assms] unfolding VMIDAllocator_Allocate_def
    by (auto  split: option.splits)
  then show ?thesis using vmid_loop_full [OF _ assms order_refl] Inl
    by (simp add: VMIDAllocator_LookupName_def VMIDAllocator_InRange_def)
qed

theorem vmid_allocate_lowest_witness:
  "range_fits (snd (VMIDAllocator_Allocate vmid_fresh ''web'')) \<and>
   fst (VMIDAllocator_Allocate (snd (VMIDAllocator_Allocate vmid_fresh ''web'')) ''dns'') = Inr 201 \<and>
   VMIDAllocator_LookupName (snd (VMIDAllocator_Allocate vmid_fresh ''web'')) 201 = None"
proof -
  let ?a = "snd (VMIDAllocator_Allocate vmid_fresh ''web'')"
  have "rangeMin ?a = 200" "rangeMax ?a = 201" by code_simp+
  then have f: "range_fits ?a" by (simp add: range_fits_def)
  have "fst (VMIDAllocator_Allocate ?a ''dns'') = Inr 201" "VMIDAllocator_Lookup ?a ''dns'' = None" by code_simp+
  with vmid_allocate_lowest [OF f, of "''dns''"] f show ?thesis by simp
qed

text \<open>
  \<open>MarkUsed\<close> does not drop the old entry of a VMID or of a name. When a container is renamed and
  discovered again under its new name, both names hold the VMID; releasing the old name frees it
  although the container still runs under the new one, and if it was the only VMID at or below the
  lowest free one, the next allocation hands it out a second time.
\<close>

theorem vmid_rename_double_use:
  assumes "vmid_wf a" and "VMIDAllocator_Lookup a old = Some v" and "new \<noteq> ''''" and "new \<noteq> old"
    and "VMIDAllocator_InRange a v" and "other \<noteq> new"
    and "VMIDAllocator_Lookup a other = None"
    and "\<And>u. VMIDAllocator_InRange a u \<Longrightarrow> VMIDAllocator_LookupName a u = None \<Longrightarrow> v \<le> u"
  shows "let b = VMIDAllocator_Release (VMIDAllocator_MarkUsed a v new) old;
             (r, c) = VMIDAllocator_Allocate b other
         in r = Inr v \<and> VMIDAllocator_Lookup c new = Some v \<and> VMIDAllocator_Lookup c other = Some v"
proof -
  let ?b = "VMIDAllocator_Release (VMIDAllocator_MarkUsed a v new) old"
  let ?r = "fst (VMIDAllocator_Allocate ?b other)" and ?c = "snd (VMIDAllocator_Allocate ?b other)"
  have n: "map_of (names (VMIDAllocator_MarkUsed a v new)) old = Some v"
    using assms by (simp add: VMIDAllocator_MarkUsed_def VMIDAllocator_Lookup_def)
  then have u: "map_of (used ?b) w = (if w = v then None else map_of (used a) w)"
    and nb: "map_of (names ?b) m = (if m = old then None else if m = new then Some v else map_of (names a) m)"
    and rg: "rangeMin ?b = rangeMin a" "rangeMax ?b = rangeMax a" for w m
    using assms by (simp_all add: VMIDAllocator_Release_def VMIDAllocator_MarkUsed_def Let_def)
  have f: "range_fits ?b" using assms(1) rg by (simp add: vmid_wf_def range_fits_def)
  have free: "VMIDAllocator_InRange ?b v" "VMIDAllocator_LookupName ?b v = None" "map_of (names ?b) other = None"
    using assms u nb rg by (auto simp: VMIDAllocator_InRange_def VMIDAllocator_LookupName_def VMIDAllocator_Lookup_def)
  have least: "v \<le> w" if "VMIDAllocator_InRange ?b w" "map_of (used ?b) w = None" for w
    using assms(8) [of w] that u [of w] rg
    by (auto simp: VMIDAllocator_InRange_def VMIDAllocator_LookupName_def split: if_splits)
  obtain w where w: "?r = Inr w"
  proof (cases ?r)
    case (Inl e)
    have "vmid_loop (Suc (length (used ?b))) ?b (rangeMin ?b) = Some None"
      using vmid_loop_done [OF f] free(3) Inl unfolding VMIDAllocator_Allocate_def
      by (auto  split: option.splits)
    from vmid_loop_full [OF this f order_refl, of v] free show thesis
      by (simp add: VMIDAllocator_InRange_def VMIDAllocator_LookupName_def)
  qed (use that in blast)
  have alloc: "VMIDAllocator_Allocate ?b other = (Inr w, ?c)" using w by (metis prod.collapse)
  note F = vmid_Allocate_found [OF alloc free(3) f]
  have "w = v" using F(4) [OF free(1)] free(2) least [OF F(2,3)] by (simp add: VMIDAllocator_LookupName_def)
  then show ?thesis
    using alloc F(1) nb [of new] assms(4,6) by (simp add: VMIDAllocator_Lookup_def)
qed

theorem vmid_rename_double_use_witness:
  "let a = snd (VMIDAllocator_Allocate vmid_fresh ''web'');
       b = VMIDAllocator_Release (VMIDAllocator_MarkUsed a 200 ''www'') ''web'';
       (r, c) = VMIDAllocator_Allocate b ''dns''
   in r = Inr 200 \<and> VMIDAllocator_Lookup c ''www'' = Some 200 \<and> VMIDAllocator_Lookup c ''dns'' = Some 200"
proof -
  let ?a = "snd (VMIDAllocator_Allocate vmid_fresh ''web'')"
  have wf: "vmid_wf ?a"
    by (rule vmid_Allocate_wf) (simp add: vmid_wf_def vmid_fresh_def range_fits_def)
  have rg: "rangeMin ?a = 200" by code_simp
  have l: "VMIDAllocator_Lookup ?a ''web'' = Some 200" "VMIDAllocator_Lookup ?a ''dns'' = None"
    "VMIDAllocator_InRange ?a 200" by code_simp+
  show ?thesis
    using vmid_rename_double_use [OF wf l(1) _ _ l(3) _ l(2), of "''www''"] rg
    by (simp add: VMIDAllocator_InRange_def Let_def)
qed

end
