(* ===== verification/PodWorker.thy ===== *)
theory PodWorker
  imports SafeMap
begin

text \<open>
  \<open>pkg/provider/pod_worker.go\<close>: pod lifecycle operations run as goroutines behind a per-key
  in-flight guard. The worker's own state is its two safemaps and the context; the goroutines that
  are alive are a list, each with its key and the place it has reached. A step is one atomic
  operation: a call of \<open>Enqueue\<close> up to the \<open>go\<close> statement (its \<open>SetIfAbsent\<close> is the only shared
  access), or one shared access of one goroutine. The function a goroutine runs is not part of
  this file: it returns with or without an error at any later moment, or never.
\<close>

section \<open>The worker and its goroutines\<close>

datatype 'c stage = Spawned | Running 'c | Succeeded | Exiting

record 'c goroutine =
  g_key :: string
  g_stage :: "'c stage"

record 'c pod_worker =
  inflight :: "(string, bool) gomap"
  createdAt :: "(string, instant) gomap"
  pw_ctx :: 'c
  procs :: "'c goroutine list"

definition NewPodWorker :: "'c \<Rightarrow> 'c pod_worker" where
  "NewPodWorker background =
     \<lparr>inflight = Map_New, createdAt = Map_New, pw_ctx = background, procs = []\<rparr>"

definition PodWorker_Run :: "'c pod_worker \<Rightarrow> 'c \<Rightarrow> 'c pod_worker" where
  "PodWorker_Run pw ctx = pw\<lparr>pw_ctx := ctx\<rparr>"

definition PodWorker_Enqueue :: "'c pod_worker \<Rightarrow> string \<Rightarrow> 'c pod_worker" where
  "PodWorker_Enqueue pw key =
     (let (won, m) = Map_SetIfAbsent (inflight pw) key True
      in if \<not> won then pw
         else pw\<lparr>inflight := m, procs := procs pw @ [\<lparr>g_key = key, g_stage = Spawned\<rparr>]\<rparr>)"

definition set_stage :: "'c pod_worker \<Rightarrow> nat \<Rightarrow> 'c stage \<Rightarrow> 'c pod_worker" where
  "set_stage pw i st = pw\<lparr>procs := (procs pw)[i := (procs pw ! i)\<lparr>g_stage := st\<rparr>]\<rparr>"

text \<open>The goroutine's body: read the context and call \<open>fn\<close>, which later returns.\<close>

definition worker_call :: "'c pod_worker \<Rightarrow> nat \<Rightarrow> 'c pod_worker" where
  "worker_call pw i = set_stage pw i (Running (pw_ctx pw))"

definition worker_return :: "'c pod_worker \<Rightarrow> nat \<Rightarrow> bool \<Rightarrow> 'c pod_worker" where
  "worker_return pw i err = set_stage pw i (if err then Exiting else Succeeded)"

definition worker_record :: "'c pod_worker \<Rightarrow> nat \<Rightarrow> instant \<Rightarrow> 'c pod_worker" where
  "worker_record pw i now =
     (set_stage pw i Exiting)\<lparr>createdAt := Map_Set (createdAt pw) (g_key (procs pw ! i)) now\<rparr>"

text \<open>The deferred \<open>inflight.Delete\<close>, after which the goroutine is gone.\<close>

definition worker_exit :: "'c pod_worker \<Rightarrow> nat \<Rightarrow> 'c pod_worker" where
  "worker_exit pw i =
     pw\<lparr>inflight := Map_Delete (inflight pw) (g_key (procs pw ! i)),
        procs := take i (procs pw) @ drop (Suc i) (procs pw)\<rparr>"

definition IsPendingOrProcessing :: "'c pod_worker \<Rightarrow> string \<Rightarrow> bool" where
  "IsPendingOrProcessing pw key = Map_Has (inflight pw) key"

definition QueueDepth :: "'c pod_worker \<Rightarrow> nat" where
  "QueueDepth pw = Map_Len (inflight pw)"

definition CreatedAt :: "'c pod_worker \<Rightarrow> string \<Rightarrow> instant option" where
  "CreatedAt pw key = Map_Get (createdAt pw) key"

section \<open>Interleavings\<close>

inductive pw_step :: "'c pod_worker \<Rightarrow> 'c pod_worker \<Rightarrow> bool" where
  run: "pw_step pw (PodWorker_Run pw ctx)"
| enqueue: "pw_step pw (PodWorker_Enqueue pw key)"
| call: "i < length (procs pw) \<Longrightarrow> g_stage (procs pw ! i) = Spawned \<Longrightarrow> pw_step pw (worker_call pw i)"
| return: "i < length (procs pw) \<Longrightarrow> g_stage (procs pw ! i) = Running c \<Longrightarrow>
     pw_step pw (worker_return pw i err)"
| recorded: "i < length (procs pw) \<Longrightarrow> g_stage (procs pw ! i) = Succeeded \<Longrightarrow>
     pw_step pw (worker_record pw i now)"
| exit: "i < length (procs pw) \<Longrightarrow> g_stage (procs pw ! i) = Exiting \<Longrightarrow> pw_step pw (worker_exit pw i)"

section \<open>The guard\<close>

text \<open>Live goroutines have distinct keys, and those keys are what the in-flight map holds.\<close>

abbreviation proc_keys :: "'c pod_worker \<Rightarrow> string list" where
  "proc_keys pw \<equiv> map g_key (procs pw)"

definition pw_wf :: "'c pod_worker \<Rightarrow> bool" where
  "pw_wf pw \<longleftrightarrow> gm_wf (inflight pw) \<and> distinct (proc_keys pw) \<and>
     set (proc_keys pw) = fst ` set (inflight pw)"

lemma set_stage_keys [simp]: "proc_keys (set_stage pw i st) = proc_keys pw"
proof (cases "i < length (procs pw)")
  case True
  then show ?thesis by (simp add: set_stage_def map_update list_update_same_conv)
next
  case False
  then show ?thesis by (simp add: set_stage_def list_update_beyond)
qed

lemma set_stage_inflight [simp]: "inflight (set_stage pw i st) = inflight pw"
  by (simp add: set_stage_def)

lemma set_stage_wf: "pw_wf pw \<Longrightarrow> pw_wf (set_stage pw i st)"
  using set_stage_keys [of pw i st] by (simp add: pw_wf_def del: set_map)

lemma Enqueue_absent:
  "\<not> Map_Has (inflight pw) key \<Longrightarrow> PodWorker_Enqueue pw key =
     pw\<lparr>inflight := Map_Set (inflight pw) key True, procs := procs pw @ [\<lparr>g_key = key, g_stage = Spawned\<rparr>]\<rparr>"
  by (simp add: PodWorker_Enqueue_def SetIfAbsent_spec Map_Has_def)

lemma Enqueue_present: "Map_Has (inflight pw) key \<Longrightarrow> PodWorker_Enqueue pw key = pw"
  by (auto simp: PodWorker_Enqueue_def SetIfAbsent_spec Map_Has_def)

lemma Enqueue_wf:
  assumes "pw_wf pw"
  shows "pw_wf (PodWorker_Enqueue pw key)"
proof (cases "Map_Has (inflight pw) key")
  case True
  with assms show ?thesis by (simp add: Enqueue_present)
next
  case False
  then have "key \<notin> fst ` set (inflight pw)" by (simp add: Map_Has_def map_of_eq_None_iff)
  moreover from this have "key \<notin> g_key ` set (procs pw)" using assms by (simp add: pw_wf_def)
  moreover have "gm_wf (Map_Set (inflight pw) key True)"
    using assms by (simp add: pw_wf_def sm.ok_put)
  ultimately show ?thesis
    using assms False by (simp add: Enqueue_absent pw_wf_def Map_Set_def keys_update)
qed

lemma distinct_drop_nth:
  assumes "i < length xs" and "distinct (map f xs)"
  shows "distinct (map f (take i xs @ drop (Suc i) xs))"
    and "f ` set (take i xs @ drop (Suc i) xs) = f ` set xs - {f (xs ! i)}"
proof -
  have split: "xs = take i xs @ xs ! i # drop (Suc i) xs" using assms(1) by (rule id_take_nth_drop)
  have d: "distinct (map f (take i xs @ xs ! i # drop (Suc i) xs))" using assms(2) split by metis
  then show "distinct (map f (take i xs @ drop (Suc i) xs))" by auto
  have "f ` set xs = f ` set (take i xs @ xs ! i # drop (Suc i) xs)" using split by metis
  then show "f ` set (take i xs @ drop (Suc i) xs) = f ` set xs - {f (xs ! i)}"
    using d by (simp add: image_Un)
qed

lemma worker_exit_wf:
  assumes "pw_wf pw" and "i < length (procs pw)"
  shows "pw_wf (worker_exit pw i)"
proof -
  have d: "distinct (proc_keys pw)" using assms(1) by (simp add: pw_wf_def)
  have "gm_wf (Map_Delete (inflight pw) k)" for k
    using assms(1) by (simp add: pw_wf_def sm.ok_rem)
  with assms(1) distinct_drop_nth [OF assms(2) d] show ?thesis
    by (simp add: pw_wf_def worker_exit_def Map_Delete_def keys_delete image_Un [symmetric])
qed

lemma worker_record_wf: "pw_wf pw \<Longrightarrow> pw_wf (worker_record pw i now)"
  using set_stage_wf [of pw i Exiting] by (simp add: worker_record_def pw_wf_def)

lemma pw_step_wf: "pw_step pw pw' \<Longrightarrow> pw_wf pw \<Longrightarrow> pw_wf pw'"
  by (induction rule: pw_step.induct)
    (simp_all add: Enqueue_wf worker_call_def worker_return_def set_stage_wf worker_record_wf worker_exit_wf,
      simp add: PodWorker_Run_def pw_wf_def)

interpretation pw_sys: invariant_system "\<lambda>pw. \<exists>bg. pw = NewPodWorker bg" pw_step pw_wf
proof
  show "pw_wf s" if "\<exists>bg. s = NewPodWorker bg" for s :: "'c pod_worker"
    using that by (auto simp: NewPodWorker_def pw_wf_def Map_New_def)
  show "pw_wf t" if "pw_wf s" "pw_step s t" for s t :: "'c pod_worker"
    using that(2,1) by (rule pw_step_wf)
qed

section \<open>Properties\<close>

text \<open>
  C11. At most one operation per pod: in every interleaving no two live goroutines have the same
  key, a key reports as pending exactly while a goroutine for it is alive, and the queue depth is
  the number of live goroutines.
\<close>

theorem one_goroutine_per_key:
  assumes "pw_step\<^sup>*\<^sup>* (NewPodWorker bg) pw"
  shows "(\<forall>i<length (procs pw). \<forall>j<length (procs pw). g_key (procs pw ! i) = g_key (procs pw ! j) \<longrightarrow> i = j) \<and>
    (IsPendingOrProcessing pw key \<longleftrightarrow> (\<exists>g\<in>set (procs pw). g_key g = key)) \<and>
    QueueDepth pw = length (procs pw)"
proof -
  have wf: "pw_wf pw" using pw_sys.inv_reachable [OF _ assms] by blast
  then have d: "distinct (proc_keys pw)" and k: "set (proc_keys pw) = fst ` set (inflight pw)"
    and w: "gm_wf (inflight pw)" by (auto simp: pw_wf_def)
  have "length (inflight pw) = card (fst ` set (inflight pw))"
    using w by (metis distinct_card length_map set_map)
  also have "\<dots> = length (procs pw)" using d k by (metis distinct_card length_map)
  finally have "QueueDepth pw = length (procs pw)" by (simp add: QueueDepth_def Map_Len_def)
  moreover have "IsPendingOrProcessing pw key \<longleftrightarrow> (\<exists>g\<in>set (procs pw). g_key g = key)"
    using k unfolding IsPendingOrProcessing_def Map_Has_def gm_has_iff by force
  moreover have "i = j" if "i < length (procs pw)" "j < length (procs pw)"
    "g_key (procs pw ! i) = g_key (procs pw ! j)" for i j
    using that d by (metis length_map nth_eq_iff_index_eq nth_map)
  ultimately show ?thesis by blast
qed

theorem one_goroutine_per_key_witness:
  "IsPendingOrProcessing (PodWorker_Enqueue (PodWorker_Enqueue (NewPodWorker ()) ''ns/p'') ''ns/p'') ''ns/p'' \<and>
   QueueDepth (PodWorker_Enqueue (PodWorker_Enqueue (NewPodWorker ()) ''ns/p'') ''ns/p'') = 1"
proof -
  let ?pw = "PodWorker_Enqueue (PodWorker_Enqueue (NewPodWorker ()) ''ns/p'') ''ns/p''"
  have "pw_step\<^sup>*\<^sup>* (NewPodWorker ()) ?pw"
    by (meson converse_rtranclp_into_rtranclp pw_step.enqueue rtranclp.rtrancl_refl)
  moreover have "length (procs ?pw) = 1" "list_ex (\<lambda>g. g_key g = ''ns/p'') (procs ?pw)" by code_simp+
  ultimately show ?thesis using one_goroutine_per_key [of "()" ?pw "''ns/p''"] by (simp only: list_ex_iff)
qed

text \<open>An idle key never loses its work: \<open>Enqueue\<close> starts a goroutine for it.\<close>

lemma no_lost_work:
  assumes "\<not> IsPendingOrProcessing pw key"
  shows "\<exists>g\<in>set (procs (PodWorker_Enqueue pw key)). g_key g = key \<and> g_stage g = Spawned"
  using assms by (simp add: Enqueue_absent IsPendingOrProcessing_def)

text \<open>
  The creation time of a pod changes only when its operation has succeeded: a step that changes
  \<open>CreatedAt key\<close> is the recording step of a live goroutine of that key whose function returned no
  error, so while a failed or running operation holds the key the grace period is unaffected.
\<close>

theorem created_at_only_on_success:
  assumes "pw_step pw pw'" and "CreatedAt pw' key \<noteq> CreatedAt pw key"
  shows "\<exists>i now. i < length (procs pw) \<and> g_key (procs pw ! i) = key \<and> g_stage (procs pw ! i) = Succeeded \<and>
    pw' = worker_record pw i now \<and> CreatedAt pw' key = Some now"
  using assms(1)
proof (cases rule: pw_step.cases)
  case (recorded i now)
  with assms(2) have "g_key (procs pw ! i) = key"
    by (auto simp: CreatedAt_def worker_record_def set_stage_def Map_Get_def Map_Set_def split: if_splits)
  moreover from this have "CreatedAt pw' key = Some now"
    using recorded by (simp add: CreatedAt_def worker_record_def set_stage_def Map_Get_def Map_Set_def)
  ultimately show ?thesis using recorded by blast
next
  case (enqueue k)
  then have "createdAt pw' = createdAt pw"
    by (auto simp: PodWorker_Enqueue_def split_beta Let_def)
  with assms(2) show ?thesis by (simp add: CreatedAt_def)
qed (use assms(2) in \<open>simp_all add: CreatedAt_def PodWorker_Run_def worker_call_def worker_return_def
      worker_exit_def set_stage_def\<close>)

theorem created_at_only_on_success_witness:
  "\<exists>pw pw'. pw_step pw pw' \<and> CreatedAt pw' ''ns/p'' = Some 5 \<and>
     g_stage (procs (pw :: unit pod_worker) ! 0) = Succeeded"
proof -
  let ?pw = "worker_return (worker_call (PodWorker_Enqueue (NewPodWorker ()) ''ns/p'') 0) 0 False"
  let ?q = "worker_record ?pw 0 5"
  have l: "0 < length (procs ?pw)" "g_stage (procs ?pw ! 0) = Succeeded" by code_simp+
  then have st: "pw_step ?pw ?q" by (rule pw_step.recorded)
  have "CreatedAt ?pw ''ns/p'' = None" "CreatedAt ?q ''ns/p'' = Some 5" by code_simp+
  then have "CreatedAt ?q ''ns/p'' \<noteq> CreatedAt ?pw ''ns/p''" by simp
  from created_at_only_on_success [OF st this] st l \<open>CreatedAt ?q ''ns/p'' = Some 5\<close> show ?thesis by blast
qed

end
