(* ===== verification/Lifecycle.thy ===== *)
theory Lifecycle
  imports GoText
begin

text \<open>
  \<open>pkg/lifecycle/manager.go\<close>: the watchdog of the containers. The manager keeps a map of container
  units, two bounded channels to the callback goroutine, and the record of pod recreates. The
  container runtime, the network and the clock are outside this file: they are the record
  \<open>lc_env\<close> of functions over a state \<open>'w\<close>, about which nothing is assumed, so each call may answer
  anything at any time. Every handler holds the manager's mutex, so it is one atomic step. A unit
  is reached through a pointer in the map; no two entries share one, so a handler takes the unit,
  returns it changed, and \<open>checkAll\<close> stores it back under its key. Counters that grow by one per
  event (\<open>RestartCount\<close>, the probe counters) are unbounded integers; durations wrap at 64 bits.
\<close>

section \<open>Configuration and state\<close>

record lifecycle_config =
  BootManifestPath :: string
  WatchdogInterval :: int
  MaxRestarts :: int
  RestartCooldown :: int
  RestartBackoffMax :: int
  MaxRecreates :: int

record probe_config =
  pc_Type :: string
  pc_Path :: string
  pc_Port :: int
  pc_Command :: "string list"
  pc_InitialDelaySeconds :: int
  pc_PeriodSeconds :: int
  pc_TimeoutSeconds :: int
  pc_FailureThreshold :: int
  pc_SuccessThreshold :: int

record probe_state =
  ConsecutiveFailures :: int
  ConsecutiveSuccesses :: int
  LastProbeTime :: instant

definition zero_probe_state :: probe_state where
  "zero_probe_state = \<lparr>ConsecutiveFailures = 0, ConsecutiveSuccesses = 0, LastProbeTime = zero_time\<rparr>"

record probe_set =
  ps_Startup :: "probe_config option"
  ps_Liveness :: "probe_config option"
  ps_Readiness :: "probe_config option"

record health_check =
  hc_Type :: string
  hc_Path :: string
  hc_Port :: int
  hc_Interval :: int
  hc_Timeout :: int
  hc_Retries :: int

record container_unit =
  u_Name :: string
  u_ContainerID :: string
  u_ContainerIP :: string
  u_RestartPolicy :: string
  u_DependsOn :: "string list"
  u_Priority :: int
  u_StartOnBoot :: bool
  u_Managed :: bool
  u_Probes :: "probe_set option"
  u_HealthCheck :: "health_check option"
  u_RestartCount :: int
  u_LastRestartAt :: instant
  u_LastHealthCheck :: instant
  u_Healthy :: bool
  u_Ready :: bool
  u_StartupComplete :: bool
  u_Status :: string
  u_StartupState :: probe_state
  u_LivenessState :: probe_state
  u_ReadinessState :: probe_state

record recreate_record =
  rec_Count :: int
  rec_LastAt :: instant

record state_change_event =
  ev_containerName :: string
  ev_oldStatus :: string
  ev_newStatus :: string

record lc_manager =
  m_cfg :: lifecycle_config
  m_units :: "(string, container_unit) gomap"
  m_stateChangeCh :: "state_change_event list"
  m_failedCh :: "string list"
  m_OnFailed :: bool
  m_OnStateChanged :: bool
  m_recreates :: "(string, recreate_record) gomap"

text \<open>The runtime's view of a container, as far as the manager reads it.\<close>

record rt_container =
  ct_ID :: string
  ct_Status :: string

definition IsRunning :: "rt_container \<Rightarrow> bool" where
  "IsRunning ct \<longleftrightarrow> ct_Status ct = ''running''"

definition IsStopped :: "rt_container \<Rightarrow> bool" where
  "IsStopped ct \<longleftrightarrow> ct_Status ct = ''stopped''"

text \<open>
  The outside: whether a runtime is configured, its calls (\<open>None\<close> or \<open>False\<close> for an error), an
  HTTP GET (the status code, \<open>None\<close> for an error), a TCP dial, the clock, and sleeping.
\<close>

record 'w lc_env =
  env_rt :: bool
  env_GetContainer :: "string \<Rightarrow> 'w \<Rightarrow> rt_container option \<times> 'w"
  env_StartContainer :: "string \<Rightarrow> 'w \<Rightarrow> bool \<times> 'w"
  env_StopContainer :: "string \<Rightarrow> 'w \<Rightarrow> bool \<times> 'w"
  env_httpGet :: "string \<Rightarrow> duration \<Rightarrow> 'w \<Rightarrow> int option \<times> 'w"
  env_dialTCP :: "string \<Rightarrow> duration \<Rightarrow> 'w \<Rightarrow> bool \<times> 'w"
  env_Now :: "'w \<Rightarrow> instant \<times> 'w"
  env_Sleep :: "duration \<Rightarrow> 'w \<Rightarrow> 'w"

definition NewManager :: "lifecycle_config \<Rightarrow> lc_manager" where
  "NewManager cfg =
     \<lparr>m_cfg = cfg, m_units = [], m_stateChangeCh = [], m_failedCh = [], m_OnFailed = False,
      m_OnStateChanged = False, m_recreates = []\<rparr>"

section \<open>Registration\<close>

definition no_startup_probe :: "container_unit \<Rightarrow> bool" where
  "no_startup_probe u \<longleftrightarrow> (case u_Probes u of None \<Rightarrow> True | Some ps \<Rightarrow> ps_Startup ps = None)"

definition fresh_unit :: "container_unit \<Rightarrow> container_unit" where
  "fresh_unit u =
     (let u = u\<lparr>u_Healthy := True, u_Status := ''running''\<rparr>;
          u = (if no_startup_probe u then u\<lparr>u_StartupComplete := True\<rparr> else u)
      in u\<lparr>u_Ready := True\<rparr>)"

definition Manager_Register :: "lc_manager \<Rightarrow> string \<Rightarrow> container_unit \<Rightarrow> lc_manager" where
  "Manager_Register m name u = m\<lparr>m_units := AList.update name (fresh_unit u) (m_units m)\<rparr>"

definition Manager_Unregister :: "lc_manager \<Rightarrow> string \<Rightarrow> lc_manager" where
  "Manager_Unregister m name = m\<lparr>m_units := AList.delete name (m_units m)\<rparr>"

definition Manager_IsRegistered :: "lc_manager \<Rightarrow> string \<Rightarrow> bool" where
  "Manager_IsRegistered m name \<longleftrightarrow> map_of (m_units m) name \<noteq> None"

definition Manager_GetUnitReady :: "lc_manager \<Rightarrow> string \<Rightarrow> bool" where
  "Manager_GetUnitReady m name = (case map_of (m_units m) name of Some u \<Rightarrow> u_Ready u | None \<Rightarrow> False)"

definition SyncDiscoveredContainers :: "lc_manager \<Rightarrow> container_unit list \<Rightarrow> lc_manager" where
  "SyncDiscoveredContainers m us =
     fold (\<lambda>u m. if map_of (m_units m) (u_Name u) \<noteq> None then m
                 else m\<lparr>m_units := AList.update (u_Name u) (fresh_unit u) (m_units m)\<rparr>) us m"

section \<open>Callbacks through bounded channels\<close>

text \<open>A non-blocking send: the event is dropped when the channel is full.\<close>

definition fireStateChanged :: "lc_manager \<Rightarrow> string \<Rightarrow> string \<Rightarrow> string \<Rightarrow> lc_manager" where
  "fireStateChanged m containerName oldStatus newStatus =
     (if m_OnStateChanged m \<and> length (m_stateChangeCh m) < 64
      then m\<lparr>m_stateChangeCh := m_stateChangeCh m @
             [\<lparr>ev_containerName = containerName, ev_oldStatus = oldStatus, ev_newStatus = newStatus\<rparr>]\<rparr>
      else m)"

definition send_failed :: "lc_manager \<Rightarrow> string \<Rightarrow> lc_manager" where
  "send_failed m name =
     (if m_OnFailed m \<and> length (m_failedCh m) < 16 then m\<lparr>m_failedCh := m_failedCh m @ [name]\<rparr> else m)"

text \<open>One turn of \<open>callbackConsumer\<close>: which ready channel \<open>select\<close> takes is not determined.\<close>

datatype callback = CallStateChanged state_change_event | CallFailed string

definition consume_state_change :: "lc_manager \<Rightarrow> callback option \<times> lc_manager" where
  "consume_state_change m =
     (case m_stateChangeCh m of
        [] \<Rightarrow> (None, m)
      | e # es \<Rightarrow> (if m_OnStateChanged m then Some (CallStateChanged e) else None, m\<lparr>m_stateChangeCh := es\<rparr>))"

definition consume_failed :: "lc_manager \<Rightarrow> callback option \<times> lc_manager" where
  "consume_failed m =
     (case m_failedCh m of
        [] \<Rightarrow> (None, m)
      | n # ns \<Rightarrow> (if m_OnFailed m then Some (CallFailed n) else None, m\<lparr>m_failedCh := ns\<rparr>))"

section \<open>Restarts\<close>

text \<open>The doubling loop of \<open>restartBackoff\<close>, with the number of turns left.\<close>

fun backoff_loop :: "nat \<Rightarrow> duration \<Rightarrow> duration \<Rightarrow> duration" where
  "backoff_loop 0 maxDelay d = d"
| "backoff_loop (Suc n) maxDelay d = (if d < maxDelay then backoff_loop n maxDelay (wrap64 (d * 2)) else d)"

definition backoff_base :: "lifecycle_config \<Rightarrow> duration" where
  "backoff_base cfg = (let base = seconds (RestartCooldown cfg) in if base \<le> 0 then 10 * Second else base)"

definition backoff_max :: "lifecycle_config \<Rightarrow> duration" where
  "backoff_max cfg = (let d = seconds (RestartBackoffMax cfg) in if d \<le> 0 then 5 * Minute else d)"

definition restartBackoff :: "lc_manager \<Rightarrow> int \<Rightarrow> duration" where
  "restartBackoff m attempt =
     (let maxDelay = backoff_max (m_cfg m);
          d = backoff_loop (nat attempt) maxDelay (backoff_base (m_cfg m))
      in if d > maxDelay then maxDelay else d)"

definition max_recreates :: "lc_manager \<Rightarrow> int" where
  "max_recreates m = (if MaxRecreates (m_cfg m) = 0 then 3 else MaxRecreates (m_cfg m))"

definition shouldRecreate :: "'w lc_env \<Rightarrow> lc_manager \<Rightarrow> string \<Rightarrow> 'w \<Rightarrow> bool \<times> lc_manager \<times> 'w" where
  "shouldRecreate env m name w =
     (let rec = (case map_of (m_recreates m) name of
                   Some r \<Rightarrow> r | None \<Rightarrow> \<lparr>rec_Count = 0, rec_LastAt = zero_time\<rparr>);
          m = m\<lparr>m_recreates := AList.update name rec (m_recreates m)\<rparr>
      in if rec_Count rec \<ge> max_recreates m then (False, m, w)
         else
           (let (wait, w) =
                  (if rec_LastAt rec \<noteq> zero_time
                   then (let (now, w) = env_Now env w
                         in (time_Sub now (rec_LastAt rec) < restartBackoff m (rec_Count rec), w))
                   else (False, w))
            in if wait then (False, m, w)
               else (let (now, w) = env_Now env w
                     in (True, m\<lparr>m_recreates := AList.update name
                                 \<lparr>rec_Count = rec_Count rec + 1, rec_LastAt = now\<rparr> (m_recreates m)\<rparr>, w))))"

definition clearRecreates :: "lc_manager \<Rightarrow> string \<Rightarrow> lc_manager" where
  "clearRecreates m name = m\<lparr>m_recreates := AList.delete name (m_recreates m)\<rparr>"

definition max_restarts :: "lc_manager \<Rightarrow> int" where
  "max_restarts m = (if MaxRestarts (m_cfg m) = 0 then 5 else MaxRestarts (m_cfg m))"

type_synonym 'w lc_result = "lc_manager \<times> container_unit \<times> 'w"

definition restartUnit :: "'w lc_env \<Rightarrow> lc_manager \<Rightarrow> container_unit \<Rightarrow> 'w \<Rightarrow> 'w lc_result" where
  "restartUnit env m u w =
     (let oldStatus = u_Status u in
      if u_RestartCount u \<ge> max_restarts m then
        (let (again, m, w) = shouldRecreate env m (u_Name u) w in
         if \<not> again then
           (if u_Status u \<noteq> ''failed''
            then (fireStateChanged m (u_Name u) oldStatus ''failed'', u\<lparr>u_Status := ''failed''\<rparr>, w)
            else (m, u, w))
         else
           (send_failed (fireStateChanged m (u_Name u) oldStatus ''failed'') (u_Name u),
            u\<lparr>u_Status := ''failed''\<rparr>, w))
      else
        (let cooldown = restartBackoff m (u_RestartCount u);
             (now, w) = env_Now env w
         in if time_Sub now (u_LastRestartAt u) < cooldown then (m, u, w)
            else
              (let u = u\<lparr>u_Status := ''restarting''\<rparr>;
                   m = fireStateChanged m (u_Name u) oldStatus ''restarting'';
                   w = (if env_rt env
                        then (let w = snd (env_StopContainer env (u_ContainerID u) w);
                                  w = env_Sleep env (2 * Second) w
                              in snd (env_StartContainer env (u_ContainerID u) w))
                        else w);
                   (now, w) = env_Now env w
               in (m, u\<lparr>u_RestartCount := u_RestartCount u + 1, u_LastRestartAt := now\<rparr>, w))))"

definition handleUnhealthy :: "'w lc_env \<Rightarrow> lc_manager \<Rightarrow> container_unit \<Rightarrow> 'w \<Rightarrow> 'w lc_result" where
  "handleUnhealthy env m u w =
     (if u_RestartPolicy u = ''Always'' \<or> u_RestartPolicy u = ''OnFailure'' then restartUnit env m u w
      else if u_RestartPolicy u = ''Never''
      then (fireStateChanged m (u_Name u) (u_Status u) ''stopped'', u\<lparr>u_Status := ''stopped''\<rparr>, w)
      else (m, u, w))"

section \<open>Probes\<close>

definition shouldRunProbe :: "probe_config \<Rightarrow> probe_state \<Rightarrow> instant \<Rightarrow> bool" where
  "shouldRunProbe cfg st now =
     (let period = seconds (pc_PeriodSeconds cfg);
          period = (if period = 0 then 10 * Second else period)
      in if LastProbeTime st = zero_time then True else time_Sub now (LastProbeTime st) \<ge> period)"

definition httpProbe :: "'w lc_env \<Rightarrow> string \<Rightarrow> int \<Rightarrow> string \<Rightarrow> duration \<Rightarrow> 'w \<Rightarrow> bool \<times> 'w" where
  "httpProbe env addr port path timeout w =
     (case env_httpGet env (''http://'' @ addr @ '':'' @ Itoa port @ path) timeout w of
        (None, w) \<Rightarrow> (False, w)
      | (Some code, w) \<Rightarrow> (code \<ge> 200 \<and> code < 400, w))"

definition tcpProbe :: "'w lc_env \<Rightarrow> string \<Rightarrow> int \<Rightarrow> duration \<Rightarrow> 'w \<Rightarrow> bool \<times> 'w" where
  "tcpProbe env addr port timeout w = env_dialTCP env (addr @ '':'' @ Itoa port) timeout w"

definition runProbe :: "'w lc_env \<Rightarrow> probe_config \<Rightarrow> string \<Rightarrow> 'w \<Rightarrow> bool \<times> 'w" where
  "runProbe env cfg containerIP w =
     (if containerIP = '''' then (False, w)
      else
        (let timeout = seconds (pc_TimeoutSeconds cfg);
             timeout = (if timeout = 0 then Second else timeout)
         in if pc_Type cfg = ''http'' then httpProbe env containerIP (pc_Port cfg) (pc_Path cfg) timeout w
            else if pc_Type cfg = ''tcp'' then tcpProbe env containerIP (pc_Port cfg) timeout w
            else (False, w)))"

definition statusCheck :: "'w lc_env \<Rightarrow> container_unit \<Rightarrow> 'w \<Rightarrow> bool \<times> 'w" where
  "statusCheck env u w =
     (if \<not> env_rt env then (True, w)
      else (case env_GetContainer env (u_Name u) w of
              (None, w) \<Rightarrow> (False, w)
            | (Some ct, w) \<Rightarrow> (IsRunning ct, w)))"

definition performLegacyHealthCheck ::
  "'w lc_env \<Rightarrow> container_unit \<Rightarrow> health_check \<Rightarrow> 'w \<Rightarrow> bool \<times> 'w" where
  "performLegacyHealthCheck env u hc w =
     (let addr = (if u_ContainerIP u = '''' then ''localhost'' else u_ContainerIP u);
          timeout = seconds (hc_Timeout hc);
          timeout = (if timeout = 0 then 5 * Second else timeout)
      in if hc_Type hc = ''http'' then httpProbe env addr (hc_Port hc) (hc_Path hc) timeout w
         else if hc_Type hc = ''tcp'' then tcpProbe env addr (hc_Port hc) timeout w
         else statusCheck env u w)"

definition runLegacyHealthCheck ::
  "'w lc_env \<Rightarrow> lc_manager \<Rightarrow> string \<Rightarrow> container_unit \<Rightarrow> health_check \<Rightarrow> instant \<Rightarrow> 'w \<Rightarrow> 'w lc_result" where
  "runLegacyHealthCheck env m name u hc now w =
     (let (healthy, w) = performLegacyHealthCheck env u hc w;
          wasHealthy = u_Healthy u;
          u = u\<lparr>u_Healthy := healthy, u_LastHealthCheck := now\<rparr>
      in if wasHealthy \<and> \<not> healthy
         then handleUnhealthy env (fireStateChanged m name (u_Status u) ''unhealthy'') u w
         else if \<not> wasHealthy \<and> healthy
         then (fireStateChanged m name (u_Status u) ''running'', u\<lparr>u_Status := ''running''\<rparr>, w)
         else (m, u, w))"

section \<open>The watchdog\<close>

definition handleKeepalive :: "'w lc_env \<Rightarrow> lc_manager \<Rightarrow> string \<Rightarrow> container_unit \<Rightarrow> 'w \<Rightarrow> 'w lc_result" where
  "handleKeepalive env m name u w =
     (if \<not> env_rt env then (m, u, w)
      else
        (case env_GetContainer env (u_Name u) w of
           (None, w) \<Rightarrow> (m, u, w)
         | (Some ct, w) \<Rightarrow>
             if IsStopped ct \<and> u_Status u \<noteq> ''failed'' then
               (let oldStatus = u_Status u;
                    cooldown = seconds (RestartCooldown (m_cfg m));
                    cooldown = (if cooldown = 0 then 10 * Second else cooldown);
                    (now, w) = env_Now env w
                in if time_Sub now (u_LastRestartAt u) < cooldown then (m, u, w)
                   else
                     (let (ok, w) = env_StartContainer env (ct_ID ct) w in
                      if \<not> ok then (fireStateChanged m name oldStatus ''stopped'', u, w)
                      else
                        (let (now, w) = env_Now env w in
                         (fireStateChanged m name oldStatus ''running'',
                          u\<lparr>u_RestartCount := u_RestartCount u + 1, u_LastRestartAt := now,
                            u_Status := ''running''\<rparr>, w))))
             else (m, u, w)))"

definition or_default :: "int \<Rightarrow> int \<Rightarrow> int" where
  "or_default threshold d = (if threshold = 0 then d else threshold)"

definition probe_ok :: "probe_state \<Rightarrow> instant \<Rightarrow> probe_state" where
  "probe_ok st now =
     \<lparr>ConsecutiveFailures = 0, ConsecutiveSuccesses = ConsecutiveSuccesses st + 1, LastProbeTime = now\<rparr>"

definition probe_failed :: "probe_state \<Rightarrow> instant \<Rightarrow> probe_state" where
  "probe_failed st now =
     \<lparr>ConsecutiveFailures = ConsecutiveFailures st + 1, ConsecutiveSuccesses = 0, LastProbeTime = now\<rparr>"

definition check_startup ::
  "'w lc_env \<Rightarrow> lc_manager \<Rightarrow> container_unit \<Rightarrow> probe_config \<Rightarrow> instant \<Rightarrow> 'w \<Rightarrow> 'w lc_result" where
  "check_startup env m u probe now w =
     (if \<not> shouldRunProbe probe (u_StartupState u) now then (m, u, w)
      else
        (let (ok, w) = runProbe env probe (u_ContainerIP u) w in
         if ok then
           (let st = probe_ok (u_StartupState u) now;
                u = u\<lparr>u_StartupState := st\<rparr>
            in if ConsecutiveSuccesses st \<ge> or_default (pc_SuccessThreshold probe) 1
               then (m, u\<lparr>u_StartupComplete := True\<rparr>, w) else (m, u, w))
         else
           (let st = probe_failed (u_StartupState u) now;
                u = u\<lparr>u_StartupState := st\<rparr>
            in if ConsecutiveFailures st \<ge> or_default (pc_FailureThreshold probe) 3
               then (let (m, u, w) = restartUnit env m u w
                     in (m, u\<lparr>u_StartupState := zero_probe_state, u_StartupComplete := False\<rparr>, w))
               else (m, u, w))))"

definition check_liveness ::
  "'w lc_env \<Rightarrow> lc_manager \<Rightarrow> string \<Rightarrow> container_unit \<Rightarrow> probe_config \<Rightarrow> instant \<Rightarrow> 'w \<Rightarrow> 'w lc_result" where
  "check_liveness env m name u probe now w =
     (if \<not> shouldRunProbe probe (u_LivenessState u) now then (m, u, w)
      else
        (let (ok, w) = runProbe env probe (u_ContainerIP u) w;
             u = u\<lparr>u_LastHealthCheck := now\<rparr>
         in if ok then
              (let u = u\<lparr>u_LivenessState := probe_ok (u_LivenessState u) now\<rparr> in
               if \<not> u_Healthy u then
                 (fireStateChanged (clearRecreates m name) name (u_Status u) ''running'',
                  u\<lparr>u_Healthy := True, u_Status := ''running'', u_RestartCount := 0\<rparr>, w)
               else (m, u, w))
            else
              (let st = probe_failed (u_LivenessState u) now;
                   u = u\<lparr>u_LivenessState := st\<rparr>
               in if ConsecutiveFailures st \<ge> or_default (pc_FailureThreshold probe) 3
                  then (let u = u\<lparr>u_Healthy := False\<rparr>;
                            m = fireStateChanged m name (u_Status u) ''unhealthy'';
                            (m, u, w) = handleUnhealthy env m u w
                        in (m, u\<lparr>u_LivenessState := zero_probe_state\<rparr>, w))
                  else (m, u, w))))"

definition check_readiness ::
  "'w lc_env \<Rightarrow> container_unit \<Rightarrow> probe_config \<Rightarrow> instant \<Rightarrow> 'w \<Rightarrow> container_unit \<times> 'w" where
  "check_readiness env u probe now w =
     (if \<not> shouldRunProbe probe (u_ReadinessState u) now then (u, w)
      else
        (let (ok, w) = runProbe env probe (u_ContainerIP u) w in
         if ok then
           (let st = probe_ok (u_ReadinessState u) now;
                u = u\<lparr>u_ReadinessState := st\<rparr>
            in if ConsecutiveSuccesses st \<ge> or_default (pc_SuccessThreshold probe) 1 \<and> \<not> u_Ready u
               then (u\<lparr>u_Ready := True\<rparr>, w) else (u, w))
         else
           (let st = probe_failed (u_ReadinessState u) now;
                u = u\<lparr>u_ReadinessState := st\<rparr>
            in if ConsecutiveFailures st \<ge> or_default (pc_FailureThreshold probe) 3 \<and> u_Ready u
               then (u\<lparr>u_Ready := False\<rparr>, w) else (u, w))))"

text \<open>The body of the loop of \<open>checkAll\<close> for one unit.\<close>

definition check_unit ::
  "'w lc_env \<Rightarrow> instant \<Rightarrow> lc_manager \<Rightarrow> string \<Rightarrow> container_unit \<Rightarrow> 'w \<Rightarrow> 'w lc_result" where
  "check_unit env now m name u w =
     (let (m, u, w) = (if u_StartOnBoot u then handleKeepalive env m name u w else (m, u, w));
          startup = (case u_Probes u of None \<Rightarrow> None | Some ps \<Rightarrow> ps_Startup ps);
          liveness = (case u_Probes u of None \<Rightarrow> None | Some ps \<Rightarrow> ps_Liveness ps);
          readiness = (case u_Probes u of None \<Rightarrow> None | Some ps \<Rightarrow> ps_Readiness ps)
      in if \<not> u_StartupComplete u \<and> startup \<noteq> None then check_startup env m u (the startup) now w
         else
           (let (m, u, w) =
                  (case liveness of
                     Some probe \<Rightarrow> check_liveness env m name u probe now w
                   | None \<Rightarrow>
                       (case u_HealthCheck u of
                          Some hc \<Rightarrow> runLegacyHealthCheck env m name u hc now w
                        | None \<Rightarrow> (m, u, w)))
            in case readiness of
                 Some probe \<Rightarrow> (let (u, w) = check_readiness env u probe now w in (m, u, w))
               | None \<Rightarrow> (m, u, w)))"

definition checkAll :: "'w lc_env \<Rightarrow> lc_manager \<Rightarrow> 'w \<Rightarrow> lc_manager \<times> 'w" where
  "checkAll env m w =
     (let (now, w) = env_Now env w
      in fold (\<lambda>(name, u) (m, w).
                let (m, u, w) = check_unit env now m name u w
                in (m\<lparr>m_units := AList.update name u (m_units m)\<rparr>, w)) (m_units m) (m, w))"

record unit_status =
  us_Name :: string
  us_Status :: string
  us_Healthy :: bool
  us_Ready :: bool
  us_StartupComplete :: bool
  us_RestartCount :: int
  us_LastRestart :: instant
  us_LastHealthCheck :: instant

definition GetUnitStatus :: "lc_manager \<Rightarrow> (string, unit_status) gomap" where
  "GetUnitStatus m =
     fold (\<lambda>(name, u) r. AList.update name
        \<lparr>us_Name = name, us_Status = u_Status u, us_Healthy = u_Healthy u, us_Ready = u_Ready u,
         us_StartupComplete = u_StartupComplete u, us_RestartCount = u_RestartCount u,
         us_LastRestart = u_LastRestartAt u, us_LastHealthCheck = u_LastHealthCheck u\<rparr> r) (m_units m) []"

section \<open>Boot order\<close>

text \<open>
  The recursion of \<open>topoSort\<close>, a depth-first visit that marks a unit before its dependencies and
  appends it after them. The state is the set of visited names and the result. The fuel bounds the
  depth of the recursion (\<open>None\<close> when it runs out); one more than the number of units is enough.
  \<open>sort.Slice\<close> is not stable; since the order of the map is arbitrary, a stable sort of it gives
  every order \<open>sort.Slice\<close> can give.
\<close>

type_synonym visit_state = "string list \<times> container_unit list"

primrec visit :: "nat \<Rightarrow> (string, container_unit) gomap \<Rightarrow> container_unit \<Rightarrow> visit_state \<Rightarrow> visit_state option" where
  "visit 0 unitMap u st = None"
| "visit (Suc n) unitMap u st =
     (if u_Name u \<in> set (fst st) then Some st
      else
        map_option (\<lambda>(visited, result). (visited, result @ [u]))
          (fold (\<lambda>dep o_st. Option.bind o_st (\<lambda>st.
                   case map_of unitMap dep of Some depUnit \<Rightarrow> visit n unitMap depUnit st | None \<Rightarrow> Some st))
             (u_DependsOn u) (Some (u_Name u # fst st, snd st))))"

definition topoSort :: "container_unit list \<Rightarrow> (string, container_unit) gomap \<Rightarrow> container_unit list option" where
  "topoSort units unitMap =
     map_option snd
       (fold (\<lambda>u o_st. Option.bind o_st (visit (Suc (length unitMap)) unitMap u))
          (sort_key u_Priority units) (Some ([], [])))"

definition BootSequence :: "lc_manager \<Rightarrow> container_unit list option" where
  "BootSequence m = topoSort (fold (\<lambda>(k, u) us. us @ [u]) (m_units m) []) (m_units m)"

text \<open>
  \<open>waitForHealthy\<close> reacts to what its \<open>select\<close> receives, given as the list of events; \<open>None\<close> means
  it has not returned yet. \<open>ExecuteBootSequence\<close> gives every unit its own list.
\<close>

datatype wait_event = CtxDone | Deadline | TickEvent
datatype wait_result = WaitOk | WaitCancelled | WaitTimeout

fun waitForHealthy ::
  "'w lc_env \<Rightarrow> container_unit \<Rightarrow> health_check \<Rightarrow> wait_event list \<Rightarrow> 'w \<Rightarrow> wait_result option \<times> 'w" where
  "waitForHealthy env u hc [] w = (None, w)"
| "waitForHealthy env u hc (CtxDone # evs) w = (Some WaitCancelled, w)"
| "waitForHealthy env u hc (Deadline # evs) w = (Some WaitTimeout, w)"
| "waitForHealthy env u hc (TickEvent # evs) w =
     (let (ok, w) = performLegacyHealthCheck env u hc w
      in if ok then (Some WaitOk, w) else waitForHealthy env u hc evs w)"

definition boot_unit :: "'w lc_env \<Rightarrow> wait_event list \<Rightarrow> container_unit \<Rightarrow> 'w \<Rightarrow> 'w" where
  "boot_unit env evs u w =
     (let (ok, w) = env_StartContainer env (u_ContainerID u) w in
      if \<not> ok then w
      else env_Sleep env (Second div 2)
             (case u_HealthCheck u of None \<Rightarrow> w | Some hc \<Rightarrow> snd (waitForHealthy env u hc evs w)))"

definition ExecuteBootSequence :: "'w lc_env \<Rightarrow> (string \<Rightarrow> wait_event list) \<Rightarrow> lc_manager \<Rightarrow> 'w \<Rightarrow> 'w option" where
  "ExecuteBootSequence env evs m w =
     (if \<not> env_rt env then Some w
      else map_option (\<lambda>sequence. fold (\<lambda>u w. boot_unit env (evs (u_Name u)) u w) sequence w) (BootSequence m))"

section \<open>The backoff curve\<close>

lemma backoff_loop_min:
  assumes "0 < d" and "maxDelay \<le> 2 ^ 62"
  shows "min (backoff_loop n maxDelay d) maxDelay = min (d * 2 ^ n) maxDelay"
  using assms(1)
proof (induction n arbitrary: d)
  case 0
  then show ?case by simp
next
  case (Suc n)
  show ?case
  proof (cases "d < maxDelay")
    case True
    with Suc.prems assms(2) have "wrap64 (d * 2) = d * 2" by (intro wrap64_id) auto
    with True Suc.IH [of "d * 2"] Suc.prems show ?thesis by (simp add: mult.assoc)
  next
    case False
    have "(1::int) \<le> 2 ^ Suc n" by (rule one_le_power) simp
    then have "d * 1 \<le> d * 2 ^ Suc n" using Suc.prems by (intro mult_left_mono) auto
    with False show ?thesis by simp
  qed
qed

lemma restartBackoff_min:
  assumes "backoff_max (m_cfg m) \<le> 2 ^ 62" and "0 < backoff_base (m_cfg m)"
  shows "restartBackoff m n = min (backoff_base (m_cfg m) * 2 ^ nat n) (backoff_max (m_cfg m))"
  using backoff_loop_min [OF assms(2,1), of "nat n"] by (simp add: restartBackoff_def Let_def min_def split: if_splits)

section \<open>The recreate budget\<close>

definition recreate_count :: "lc_manager \<Rightarrow> string \<Rightarrow> int" where
  "recreate_count m name = (case map_of (m_recreates m) name of Some r \<Rightarrow> rec_Count r | None \<Rightarrow> 0)"

definition recreate_last :: "lc_manager \<Rightarrow> string \<Rightarrow> instant" where
  "recreate_last m name = (case map_of (m_recreates m) name of Some r \<Rightarrow> rec_LastAt r | None \<Rightarrow> zero_time)"

lemma shouldRecreate_cfg [simp]: "m_cfg (fst (snd (shouldRecreate env m name w))) = m_cfg m"
  by (simp add: shouldRecreate_def Let_def split_beta)

lemma shouldRecreate_no:
  assumes "shouldRecreate env m name w = (False, m', w')"
  shows "recreate_count m' = recreate_count m" and "recreate_last m' = recreate_last m"
    and "m_units m' = m_units m \<and> m_stateChangeCh m' = m_stateChangeCh m \<and> m_failedCh m' = m_failedCh m \<and> m_cfg m' = m_cfg m"
proof -
  have m': "m' = m\<lparr>m_recreates := AList.update name (case map_of (m_recreates m) name of
      Some r \<Rightarrow> r | None \<Rightarrow> \<lparr>rec_Count = 0, rec_LastAt = zero_time\<rparr>) (m_recreates m)\<rparr>"
    using assms unfolding shouldRecreate_def Let_def split_beta by (simp split: if_splits)
  show "recreate_count m' = recreate_count m" "recreate_last m' = recreate_last m"
    unfolding m' by (auto simp: recreate_count_def recreate_last_def fun_eq_iff split: option.splits)
  show "m_units m' = m_units m \<and> m_stateChangeCh m' = m_stateChangeCh m \<and> m_failedCh m' = m_failedCh m \<and> m_cfg m' = m_cfg m"
    unfolding m' by simp
qed

lemma shouldRecreate_yes:
  assumes "shouldRecreate env m name w = (True, m', w')"
  shows "recreate_count m name < max_recreates m"
    and "recreate_count m' = (recreate_count m)(name := recreate_count m name + 1)"
    and "recreate_last m name = zero_time \<or>
         restartBackoff m (recreate_count m name) \<le> time_Sub (fst (env_Now env w)) (recreate_last m name)"
    and "m_units m' = m_units m \<and> m_stateChangeCh m' = m_stateChangeCh m \<and> m_failedCh m' = m_failedCh m \<and> m_cfg m' = m_cfg m"
proof -
  let ?r = "case map_of (m_recreates m) name of Some r \<Rightarrow> r | None \<Rightarrow> \<lparr>rec_Count = 0, rec_LastAt = zero_time\<rparr>"
  have r: "rec_Count ?r = recreate_count m name" "rec_LastAt ?r = recreate_last m name"
    by (simp_all add: recreate_count_def recreate_last_def split: option.splits)
  have cfg: "max_recreates (m\<lparr>m_recreates := x\<rparr>) = max_recreates m"
    "restartBackoff (m\<lparr>m_recreates := x\<rparr>) n = restartBackoff m n" for x n
    by (simp_all add: max_recreates_def restartBackoff_def)
  have lt: "\<not> max_recreates m \<le> rec_Count ?r"
    and wait: "rec_LastAt ?r = zero_time \<or> \<not> time_Sub (fst (env_Now env w)) (rec_LastAt ?r) < restartBackoff m (rec_Count ?r)"
    and m': "\<exists>now. m' = m\<lparr>m_recreates := AList.update name \<lparr>rec_Count = rec_Count ?r + 1, rec_LastAt = now\<rparr>
      (AList.update name ?r (m_recreates m))\<rparr>"
    using assms unfolding shouldRecreate_def Let_def split_beta cfg by (auto split: if_splits)
  show "recreate_count m name < max_recreates m" using lt r by simp
  show "recreate_count m' = (recreate_count m)(name := recreate_count m name + 1)"
    using m' r by (auto simp: recreate_count_def fun_eq_iff)
  show "recreate_last m name = zero_time \<or>
      restartBackoff m (recreate_count m name) \<le> time_Sub (fst (env_Now env w)) (recreate_last m name)"
    using wait r by auto
  show "m_units m' = m_units m \<and> m_stateChangeCh m' = m_stateChangeCh m \<and> m_failedCh m' = m_failedCh m \<and> m_cfg m' = m_cfg m"
    using m' by auto
qed

text \<open>A sequence of requests by any units, none of which recovers in between, and the answers.\<close>

fun recreate_requests ::
  "'w lc_env \<Rightarrow> lc_manager \<Rightarrow> string list \<Rightarrow> 'w \<Rightarrow> (string \<times> bool) list \<times> lc_manager \<times> 'w" where
  "recreate_requests env m [] w = ([], m, w)"
| "recreate_requests env m (n # ns) w =
     (let (g, m, w) = shouldRecreate env m n w;
          (gs, m, w) = recreate_requests env m ns w
      in ((n, g) # gs, m, w))"

lemma recreate_requests_count:
  assumes "recreate_requests env m ns w = (gs, m', w')"
  shows "recreate_count m' name = recreate_count m name + int (length (filter (\<lambda>e. e = (name, True)) gs)) \<and>
    (recreate_count m name \<le> max 0 (max_recreates m) \<longrightarrow> recreate_count m' name \<le> max 0 (max_recreates m))"
  using assms
proof (induction ns arbitrary: m w gs)
  case Nil
  then show ?case by simp
next
  case (Cons n ns)
  obtain g m1 w1 where s: "shouldRecreate env m n w = (g, m1, w1)" by (metis prod_cases3)
  obtain gs' where rec: "recreate_requests env m1 ns w1 = (gs', m', w')" and gs: "gs = (n, g) # gs'"
    using Cons.prems s by (cases "recreate_requests env m1 ns w1") (auto simp: Let_def)
  have c: "m_cfg m1 = m_cfg m" using shouldRecreate_cfg [of env m n w] s by simp
  then have mr: "max_recreates m1 = max_recreates m" by (simp add: max_recreates_def)
  note IH = Cons.IH [OF rec, unfolded mr]
  show ?case
  proof (cases g)
    case True
    with s have y: "shouldRecreate env m n w = (True, m1, w1)" by simp
    show ?thesis
      using IH gs True shouldRecreate_yes(1,2) [OF y] by (cases "n = name") auto
  next
    case False
    with s have "shouldRecreate env m n w = (False, m1, w1)" by simp
    from shouldRecreate_no(1) [OF this] IH gs False show ?thesis by auto
  qed
qed

section \<open>The boot order\<close>

definition units_ok :: "(string, container_unit) gomap \<Rightarrow> bool" where
  "units_ok um \<longleftrightarrow> gm_wf um \<and> (\<forall>(k, u)\<in>set um. u_Name u = k)"

text \<open>What a visit adds: new units, each once, exactly the names that were not visited before.\<close>

definition extends :: "(string, container_unit) gomap \<Rightarrow> visit_state \<Rightarrow> visit_state \<Rightarrow> bool" where
  "extends um st st' \<longleftrightarrow> (\<exists>new. snd st' = snd st @ new \<and> set (fst st') = set (fst st) \<union> u_Name ` set new \<and>
     distinct (map u_Name new) \<and> u_Name ` set new \<inter> set (fst st) = {} \<and> set new \<subseteq> snd ` set um)"

lemma extends_refl: "extends um st st"
  by (simp add: extends_def)

lemma extends_trans: "extends um st st' \<Longrightarrow> extends um st' st'' \<Longrightarrow> extends um st st''"
  unfolding extends_def
proof (elim exE conjE)
  fix new new'
  assume "snd st' = snd st @ new" "set (fst st') = set (fst st) \<union> u_Name ` set new"
    "distinct (map u_Name new)" "u_Name ` set new \<inter> set (fst st) = {}" "set new \<subseteq> snd ` set um"
    "snd st'' = snd st' @ new'" "set (fst st'') = set (fst st') \<union> u_Name ` set new'"
    "distinct (map u_Name new')" "u_Name ` set new' \<inter> set (fst st') = {}" "set new' \<subseteq> snd ` set um"
  then show "\<exists>n. snd st'' = snd st @ n \<and> set (fst st'') = set (fst st) \<union> u_Name ` set n \<and>
     distinct (map u_Name n) \<and> u_Name ` set n \<inter> set (fst st) = {} \<and> set n \<subseteq> snd ` set um"
    by (intro exI [of _ "new @ new'"]) auto
qed

lemma units_ok_name: "units_ok um \<Longrightarrow> u \<in> snd ` set um \<Longrightarrow> u_Name u \<in> fst ` set um"
  by (force simp: units_ok_def)

lemma extends_bounds:
  assumes "extends um st st'" and "units_ok um" and "set (fst st) \<subseteq> fst ` set um"
  shows "set (fst st') \<subseteq> fst ` set um \<and> set (fst st) \<subseteq> set (fst st')"
proof -
  obtain new where new: "set (fst st') = set (fst st) \<union> u_Name ` set new" "set new \<subseteq> snd ` set um"
    using assms(1) by (auto simp: extends_def)
  have "u_Name ` set new \<subseteq> fst ` set um" using new(2) units_ok_name [OF assms(2)] by blast
  with new(1) assms(3) show ?thesis by blast
qed

abbreviation visit_all :: "nat \<Rightarrow> (string, container_unit) gomap \<Rightarrow> container_unit list \<Rightarrow> visit_state option \<Rightarrow> visit_state option" where
  "visit_all n um us \<equiv> fold (\<lambda>u o_st. Option.bind o_st (visit n um u)) us"

lemma visit_deps_eq:
  "fold (\<lambda>dep o_st. Option.bind o_st (\<lambda>st.
      case map_of um dep of Some d \<Rightarrow> visit n um d st | None \<Rightarrow> Some st)) ds o_st =
   visit_all n um (List.map_filter (map_of um) ds) o_st"
  by (induction ds arbitrary: o_st) (auto simp: List.map_filter_simps split: option.splits)

lemma visit_Suc:
  "u_Name u \<notin> set (fst st) \<Longrightarrow> visit (Suc n) um u st =
     map_option (\<lambda>(visited, result). (visited, result @ [u]))
       (visit_all n um (List.map_filter (map_of um) (u_DependsOn u)) (Some (u_Name u # fst st, snd st)))"
  by (simp add: visit_deps_eq)

lemma map_filter_mem: "d \<in> set (List.map_filter f ds) \<longleftrightarrow> (\<exists>k\<in>set ds. f k = Some d)"
  by (force simp: List.map_filter_def)

lemma set_map_filter_map_of: "set (List.map_filter (map_of um) ds) \<subseteq> snd ` set um"
  by (force simp: map_filter_mem dest: map_of_SomeD)

lemma units_ok_map_of: "units_ok um \<Longrightarrow> map_of um k = Some u \<Longrightarrow> u_Name u = k"
  by (auto simp: units_ok_def dest: map_of_SomeD)

lemma visit_all_total:
  assumes "\<And>u st. u \<in> snd ` set um \<Longrightarrow> set (fst st) \<subseteq> fst ` set um \<Longrightarrow> card (fst ` set um - set (fst st)) < n \<Longrightarrow>
      \<exists>st'. visit n um u st = Some st' \<and> extends um st st' \<and> u_Name u \<in> set (fst st')"
    and "units_ok um" and "set us \<subseteq> snd ` set um"
    and "set (fst st) \<subseteq> fst ` set um" and "card (fst ` set um - set (fst st)) < n"
  shows "\<exists>st'. visit_all n um us (Some st) = Some st' \<and> extends um st st' \<and> u_Name ` set us \<subseteq> set (fst st')"
  using assms(3-5)
proof (induction us arbitrary: st)
  case Nil
  then show ?case by (simp add: extends_refl)
next
  case (Cons u us)
  obtain st1 where 1: "visit n um u st = Some st1" "extends um st st1" "u_Name u \<in> set (fst st1)"
    using assms(1) [of u st] Cons.prems by auto
  have sub: "set (fst st1) \<subseteq> fst ` set um" "set (fst st) \<subseteq> set (fst st1)"
    using extends_bounds [OF 1(2) assms(2) Cons.prems(2)] by auto
  then have "card (fst ` set um - set (fst st1)) \<le> card (fst ` set um - set (fst st))"
    by (intro card_mono) auto
  with Cons.IH [OF _ sub(1)] Cons.prems obtain st2 where
    2: "visit_all n um us (Some st1) = Some st2" "extends um st1 st2" "u_Name ` set us \<subseteq> set (fst st2)" by auto
  moreover have "u_Name u \<in> set (fst st2)" using 1(3) 2(2) by (auto simp: extends_def)
  ultimately show ?case using 1 extends_trans [OF 1(2) 2(2)] by simp
qed

lemma visit_total:
  assumes "units_ok um" and "u \<in> snd ` set um" and "set (fst st) \<subseteq> fst ` set um"
    and "card (fst ` set um - set (fst st)) < n"
  shows "\<exists>st'. visit n um u st = Some st' \<and> extends um st st' \<and> u_Name u \<in> set (fst st')"
  using assms(2-4)
proof (induction n arbitrary: u st)
  case 0
  then show ?case by simp
next
  case (Suc n)
  show ?case
  proof (cases "u_Name u \<in> set (fst st)")
    case True
    then show ?thesis by (simp add: extends_refl)
  next
    case False
    let ?st = "(u_Name u # fst st, snd st)"
    have name: "u_Name u \<in> fst ` set um" using assms(1) Suc.prems(1) by (rule units_ok_name)
    then have sub: "set (fst ?st) \<subseteq> fst ` set um" using Suc.prems(2) by simp
    have "card (fst ` set um - set (fst ?st)) < card (fst ` set um - set (fst st))"
      using name False by (intro psubset_card_mono) auto
    then have "card (fst ` set um - set (fst ?st)) < n" using Suc.prems(3) by simp
    then obtain st1 where 1: "visit_all n um (List.map_filter (map_of um) (u_DependsOn u)) (Some ?st) = Some st1"
      "extends um ?st st1"
      using visit_all_total [OF Suc.IH assms(1) set_map_filter_map_of sub] by blast
    have v: "visit (Suc n) um u st = Some (fst st1, snd st1 @ [u])"
      unfolding visit_Suc [OF False] 1(1) by (simp add: split_beta)
    from 1(2) obtain new where new: "snd st1 = snd st @ new" "set (fst st1) = insert (u_Name u) (set (fst st)) \<union> u_Name ` set new"
      "distinct (map u_Name new)" "u_Name ` set new \<inter> insert (u_Name u) (set (fst st)) = {}" "set new \<subseteq> snd ` set um"
      by (auto simp: extends_def)
    have "extends um st (fst st1, snd st1 @ [u])"
      unfolding extends_def using new Suc.prems(1) False by (intro exI [of _ "new @ [u]"]) auto
    with v new(2) show ?thesis by simp
  qed
qed

text \<open>The dependency relation between registered units, and lists in which it points backwards.\<close>

definition dep_rel :: "(string, container_unit) gomap \<Rightarrow> (string \<times> string) set" where
  "dep_rel um = {(d, u_Name u) |d u. u \<in> snd ` set um \<and> d \<in> set (u_DependsOn u) \<and> gm_has um d}"

definition deps_before :: "(string, container_unit) gomap \<Rightarrow> container_unit list \<Rightarrow> bool" where
  "deps_before um us \<longleftrightarrow> (\<forall>xs u ys. us = xs @ u # ys \<longrightarrow>
     (\<forall>d\<in>set (u_DependsOn u). gm_has um d \<longrightarrow> d \<in> u_Name ` set xs))"

lemma deps_before_snoc:
  "deps_before um (us @ [u]) \<longleftrightarrow>
     deps_before um us \<and> (\<forall>d\<in>set (u_DependsOn u). gm_has um d \<longrightarrow> d \<in> u_Name ` set us)"
proof -
  have split: "us @ [u] = xs @ v # ys \<longleftrightarrow> (ys = [] \<and> xs = us \<and> v = u) \<or> (\<exists>zs. ys = zs @ [u] \<and> us = xs @ v # zs)" for xs v ys
    by (cases ys rule: rev_cases) auto
  show ?thesis unfolding deps_before_def split by blast
qed

definition pending :: "visit_state \<Rightarrow> string set" where
  "pending st = set (fst st) - u_Name ` set (snd st)"

definition ordered_state :: "(string, container_unit) gomap \<Rightarrow> string set \<Rightarrow> visit_state \<Rightarrow> bool" where
  "ordered_state um P st \<longleftrightarrow> deps_before um (snd st) \<and> pending st = P \<and> u_Name ` set (snd st) \<subseteq> set (fst st)"

lemma visit_all_ordered:
  assumes "\<And>u st st'. u \<in> set us \<Longrightarrow> visit n um u st = Some st' \<Longrightarrow> ordered_state um P st \<Longrightarrow>
      ordered_state um P st' \<and> insert (u_Name u) (u_Name ` set (snd st)) \<subseteq> u_Name ` set (snd st')"
    and "visit_all n um us (Some st) = Some st'" and "ordered_state um P st"
  shows "ordered_state um P st' \<and> u_Name ` set us \<union> u_Name ` set (snd st) \<subseteq> u_Name ` set (snd st')"
  using assms
proof (induction us arbitrary: st)
  case Nil
  then show ?case by simp
next
  case (Cons u us)
  have none: "visit_all n um us None = None" by (induction us) auto
  obtain st1 where 1: "visit n um u st = Some st1" "visit_all n um us (Some st1) = Some st'"
    using Cons.prems(2) none by (cases "visit n um u st") auto
  have o1: "ordered_state um P st1 \<and> insert (u_Name u) (u_Name ` set (snd st)) \<subseteq> u_Name ` set (snd st1)"
    using Cons.prems(1) [of u, OF _ 1(1) Cons.prems(3)] by simp
  have "ordered_state um P st' \<and> u_Name ` set us \<union> u_Name ` set (snd st1) \<subseteq> u_Name ` set (snd st')"
  proof (rule Cons.IH [OF _ 1(2)])
    show "ordered_state um P t' \<and> insert (u_Name v) (u_Name ` set (snd t)) \<subseteq> u_Name ` set (snd t')"
      if "v \<in> set us" "visit n um v t = Some t'" "ordered_state um P t" for v t t'
      using Cons.prems(1) [of v t t'] that by simp
  qed (use o1 in blast)
  then have "ordered_state um P st'" "u_Name ` set us \<subseteq> u_Name ` set (snd st')"
    "u_Name ` set (snd st1) \<subseteq> u_Name ` set (snd st')" by auto
  moreover have "insert (u_Name u) (u_Name ` set (snd st)) \<subseteq> u_Name ` set (snd st')"
    using o1 calculation(3) by (blast intro: order_trans)
  ultimately show ?case by simp
qed

lemma visit_ordered:
  assumes "units_ok um" and "acyclic (dep_rel um)" and "u \<in> snd ` set um"
    and "visit n um u st = Some st'" and "ordered_state um P st"
    and "\<forall>x\<in>P. (u_Name u, x) \<in> (dep_rel um)\<^sup>+"
  shows "ordered_state um P st' \<and> insert (u_Name u) (u_Name ` set (snd st)) \<subseteq> u_Name ` set (snd st')"
  using assms(3-6)
proof (induction n arbitrary: u st st' P)
  case 0
  then show ?case by simp
next
  case (Suc n)
  show ?case
  proof (cases "u_Name u \<in> set (fst st)")
    case True
    then have "u_Name u \<notin> P" using Suc.prems(4) assms(2) by (auto simp: acyclic_def)
    with True Suc.prems show ?thesis by (auto simp: ordered_state_def pending_def)
  next
    case False
    let ?st = "(u_Name u # fst st, snd st)" and ?ds = "List.map_filter (map_of um) (u_DependsOn u)"
    obtain st1 where 1: "visit_all n um ?ds (Some ?st) = Some st1" and st': "st' = (fst st1, snd st1 @ [u])"
      using Suc.prems(2) unfolding visit_Suc [OF False] by (auto simp: split_beta)
    have dep: "(u_Name d, u_Name u) \<in> dep_rel um" if "d \<in> set ?ds" for d
    proof -
      obtain k where "k \<in> set (u_DependsOn u)" "map_of um k = Some d" using \<open>d \<in> set ?ds\<close> by (auto simp: map_filter_mem)
      moreover from this have "u_Name d = k" using assms(1) by (blast dest: units_ok_map_of)
      ultimately show ?thesis unfolding dep_rel_def using Suc.prems(1) by blast
    qed
    have o0: "ordered_state um (insert (u_Name u) P) ?st"
      using Suc.prems(3) False by (auto simp: ordered_state_def pending_def)
    have "ordered_state um (insert (u_Name u) P) st1 \<and> u_Name ` set ?ds \<union> u_Name ` set (snd ?st) \<subseteq> u_Name ` set (snd st1)"
    proof (rule visit_all_ordered [OF _ 1 o0])
      fix d s s'
      assume d: "d \<in> set ?ds" "visit n um d s = Some s'" "ordered_state um (insert (u_Name u) P) s"
      have mem: "d \<in> snd ` set um" using d(1) set_map_filter_map_of by (rule rev_subsetD)
      have "\<forall>x\<in>insert (u_Name u) P. (u_Name d, x) \<in> (dep_rel um)\<^sup>+"
        using dep [OF d(1)] Suc.prems(4) by (auto intro: trancl_into_trancl2)
      with Suc.IH [OF mem d(2,3)]
      show "ordered_state um (insert (u_Name u) P) s' \<and> insert (u_Name d) (u_Name ` set (snd s)) \<subseteq> u_Name ` set (snd s')"
        by blast
    qed
    then have o1: "ordered_state um (insert (u_Name u) P) st1"
      and ds: "u_Name ` set ?ds \<subseteq> u_Name ` set (snd st1)" and mono: "u_Name ` set (snd st) \<subseteq> u_Name ` set (snd st1)" by auto
    have "\<forall>d\<in>set (u_DependsOn u). gm_has um d \<longrightarrow> d \<in> u_Name ` set (snd st1)"
    proof (intro ballI impI)
      fix d assume d: "d \<in> set (u_DependsOn u)" "gm_has um d"
      then obtain v where v: "map_of um d = Some v" by auto
      then have "u_Name v = d" using assms(1) by (blast dest: units_ok_map_of)
      moreover have "v \<in> set ?ds" using v d(1) by (auto simp: map_filter_mem)
      ultimately show "d \<in> u_Name ` set (snd st1)" using ds by blast
    qed
    moreover have "u_Name u \<notin> P" using Suc.prems(3) False by (auto simp: ordered_state_def pending_def)
    moreover have "u_Name u \<in> pending st1" using o1 by (simp add: ordered_state_def)
    ultimately have "ordered_state um P st'"
      using o1 by (auto simp: st' ordered_state_def deps_before_snoc pending_def)
    with mono show ?thesis by (auto simp: st')
  qed
qed

lemma units_ok_inj: "units_ok um \<Longrightarrow> u \<in> snd ` set um \<Longrightarrow> v \<in> snd ` set um \<Longrightarrow> u_Name u = u_Name v \<Longrightarrow> u = v"
  by (auto simp: units_ok_def) (metis (mono_tags, lifting) case_prodD eq_key_imp_eq_value)

lemma topoSort_total:
  assumes "units_ok um" and "set us = snd ` set um"
  shows "\<exists>r. topoSort us um = Some r \<and> distinct (map u_Name r) \<and> set r = set us \<and>
    (acyclic (dep_rel um) \<longrightarrow> deps_before um r)"
proof -
  let ?n = "Suc (length um)" and ?us = "sort_key u_Priority us"
  have "card (fst ` set um) \<le> length um" by (metis card_length image_set length_map)
  then have fuel: "card (fst ` set um - set (fst ([] :: string list, [] :: container_unit list))) < ?n" by simp
  obtain st where st: "visit_all ?n um ?us (Some ([], [])) = Some st" "extends um ([], []) st"
    "u_Name ` set ?us \<subseteq> set (fst st)"
    using visit_all_total [OF visit_total [OF assms(1)] assms(1) _ _ fuel, of ?us] assms(2) by force
  have "u \<in> set (snd st)" if "u \<in> set us" for u
  proof -
    have "u_Name u \<in> u_Name ` set (snd st)" "set (snd st) \<subseteq> snd ` set um"
      using that st(2,3) by (auto simp: extends_def)
    then obtain v where "v \<in> snd ` set um" "v \<in> set (snd st)" "u_Name u = u_Name v" by blast
    then show ?thesis using units_ok_inj [OF assms(1)] that assms(2) by blast
  qed
  moreover have "set (snd st) \<subseteq> set us" "distinct (map u_Name (snd st))" using st(2) assms(2) by (auto simp: extends_def)
  moreover have "deps_before um (snd st)" if ac: "acyclic (dep_rel um)"
  proof -
    have o0: "ordered_state um {} ([], [])" by (simp add: ordered_state_def deps_before_def pending_def)
    have "ordered_state um {} t' \<and> insert (u_Name u) (u_Name ` set (snd t)) \<subseteq> u_Name ` set (snd t')"
      if "u \<in> set ?us" "visit ?n um u t = Some t'" "ordered_state um {} t" for u t t'
      using visit_ordered [OF assms(1) ac _ that(2,3)] that(1) assms(2) by simp
    from visit_all_ordered [OF this st(1) o0] have "ordered_state um {} st" by blast
    then show ?thesis by (simp add: ordered_state_def)
  qed
  ultimately show ?thesis using st(1) unfolding topoSort_def by (intro exI [of _ "snd st"]) auto
qed

lemma visit_all_no_deps:
  assumes "\<forall>u\<in>set us. u_DependsOn u = []" and "distinct (map u_Name us)" and "u_Name ` set us \<inter> set vis = {}"
  shows "\<exists>vis'. visit_all (Suc n) um us (Some (vis, res)) = Some (vis', res @ us)"
  using assms
proof (induction us arbitrary: vis res)
  case (Cons a us)
  have "\<exists>vis'. visit_all (Suc n) um us (Some (u_Name a # vis, res @ [a])) = Some (vis', (res @ [a]) @ us)"
    by (rule Cons.IH) (use Cons.prems in auto)
  moreover have "visit (Suc n) um a (vis, res) = Some (u_Name a # vis, res @ [a])" using Cons.prems by simp
  ultimately show ?case by (simp del: visit.simps)
qed simp

lemma BootSequence_eq: "BootSequence m = topoSort (map snd (m_units m)) (m_units m)"
proof -
  have "fold (\<lambda>(k, u) us. us @ [u]) l acc = acc @ map snd l" for l :: "(string, container_unit) gomap" and acc
    by (induction l arbitrary: acc) auto
  then show ?thesis by (simp add: BootSequence_def)
qed

section \<open>What every handler keeps\<close>

definition status_ok :: "container_unit \<Rightarrow> bool" where
  "status_ok u \<longleftrightarrow> u_Status u \<in> {''running'', ''stopped'', ''restarting'', ''failed''}"

definition lc_core :: "lc_manager \<Rightarrow> bool" where
  "lc_core m \<longleftrightarrow> length (m_stateChangeCh m) \<le> 64 \<and> length (m_failedCh m) \<le> 16 \<and>
     (\<forall>n. 0 \<le> recreate_count m n \<and> recreate_count m n \<le> max 0 (max_recreates m))"

definition lc_inv :: "lc_manager \<Rightarrow> bool" where
  "lc_inv m \<longleftrightarrow> lc_core m \<and> units_ok (m_units m) \<and> (\<forall>u\<in>snd ` set (m_units m). status_ok u)"

definition keeps :: "lc_manager \<Rightarrow> container_unit \<Rightarrow> 'w lc_result \<Rightarrow> bool" where
  "keeps m u r \<longleftrightarrow> (case r of (m', u', w) \<Rightarrow>
     m_units m' = m_units m \<and> m_cfg m' = m_cfg m \<and> (lc_core m \<longrightarrow> lc_core m') \<and>
     u_Name u' = u_Name u \<and> (status_ok u \<longrightarrow> status_ok u'))"

lemma fireStateChanged_frame [simp]:
  "m_units (fireStateChanged m a b c) = m_units m" "m_cfg (fireStateChanged m a b c) = m_cfg m"
  "recreate_count (fireStateChanged m a b c) = recreate_count m"
  by (simp_all add: fireStateChanged_def recreate_count_def fun_eq_iff)

lemma send_failed_frame [simp]:
  "m_units (send_failed m a) = m_units m" "m_cfg (send_failed m a) = m_cfg m"
  "recreate_count (send_failed m a) = recreate_count m"
  by (simp_all add: send_failed_def recreate_count_def fun_eq_iff)

lemma max_recreates_cfg: "m_cfg m' = m_cfg m \<Longrightarrow> max_recreates m' = max_recreates m"
  by (simp add: max_recreates_def)

lemma lc_core_fire [simp, intro]: "lc_core m \<Longrightarrow> lc_core (fireStateChanged m a b c)"
  unfolding lc_core_def fireStateChanged_frame max_recreates_cfg [OF fireStateChanged_frame(2)]
  by (simp add: fireStateChanged_def)

lemma lc_core_send [simp, intro]: "lc_core m \<Longrightarrow> lc_core (send_failed m a)"
  unfolding lc_core_def send_failed_frame max_recreates_cfg [OF send_failed_frame(2)]
  by (simp add: send_failed_def)

lemma clearRecreates_frame [simp]:
  "m_units (clearRecreates m n) = m_units m" "m_cfg (clearRecreates m n) = m_cfg m"
  by (simp_all add: clearRecreates_def)

lemma lc_core_clear [simp, intro]: "lc_core m \<Longrightarrow> lc_core (clearRecreates m n)"
  unfolding lc_core_def max_recreates_cfg [OF clearRecreates_frame(2)]
  by (auto simp: clearRecreates_def recreate_count_def)

lemma shouldRecreate_keeps:
  assumes "shouldRecreate env m n w = (g, m', w')"
  shows "m_units m' = m_units m \<and> m_cfg m' = m_cfg m \<and> (lc_core m \<longrightarrow> lc_core m')"
proof (cases g)
  case True
  with assms have y: "shouldRecreate env m n w = (True, m', w')" by simp
  note Y = shouldRecreate_yes [OF y]
  have mr: "max_recreates m' = max_recreates m" by (rule max_recreates_cfg) (use Y(4) in blast)
  have "0 \<le> recreate_count m' k \<and> recreate_count m' k \<le> max 0 (max_recreates m)" if "lc_core m" for k
  proof -
    have k: "0 \<le> recreate_count m k" "recreate_count m k \<le> max 0 (max_recreates m)"
      using that by (auto simp: lc_core_def)
    show ?thesis using Y(1) k unfolding Y(2) by (cases "k = n") simp_all
  qed
  then show ?thesis using Y(4) mr unfolding lc_core_def by simp
next
  case False
  with assms have y: "shouldRecreate env m n w = (False, m', w')" by simp
  note Y = shouldRecreate_no [OF y]
  have mr: "max_recreates m' = max_recreates m" by (rule max_recreates_cfg) (use Y(3) in blast)
  show ?thesis using Y(1,3) mr by (simp add: lc_core_def)
qed

lemma keeps_trans: "keeps m u (m', u', w') \<Longrightarrow> keeps m' u' r \<Longrightarrow> keeps m u r"
  by (auto simp: keeps_def split: prod.splits)

lemma keepsI:
  assumes "m_units m' = m_units m" and "m_cfg m' = m_cfg m" and "lc_core m \<Longrightarrow> lc_core m'"
    and "u_Name u' = u_Name u" and "u_Status u' = u_Status u \<or> status_ok u'"
  shows "keeps m u (m', u', w)"
  using assms by (auto simp: keeps_def status_ok_def)

lemma restartUnit_keeps: "keeps m u (restartUnit env m u w)"
proof -
  obtain g m' w' where s: "shouldRecreate env m (u_Name u) w = (g, m', w')" by (metis prod_cases3)
  note S = shouldRecreate_keeps [OF s]
  show ?thesis
    unfolding restartUnit_def Let_def s split_beta using S
    by (simp add: split_beta) (auto intro!: keepsI simp: status_ok_def)
qed

lemma handleUnhealthy_keeps: "keeps m u (handleUnhealthy env m u w)"
  unfolding handleUnhealthy_def by (auto intro!: restartUnit_keeps keepsI simp: status_ok_def)

lemma keeps_after:
  assumes "\<And>m u w. keeps m u (f m u w)" and "keeps m u (m\<^sub>1, u\<^sub>1, w)"
    and "\<And>u. u_Name (g u) = u_Name u" and "\<And>u. u_Status (g u) = u_Status u"
  shows "keeps m u (let (m, u, w) = f m\<^sub>1 u\<^sub>1 w in (m, g u, w))"
proof -
  obtain m\<^sub>2 u\<^sub>2 w\<^sub>2 where f: "f m\<^sub>1 u\<^sub>1 w = (m\<^sub>2, u\<^sub>2, w\<^sub>2)" by (metis prod_cases3)
  have "keeps m u (m\<^sub>2, u\<^sub>2, w\<^sub>2)" using keeps_trans [OF assms(2) assms(1) [of m\<^sub>1 u\<^sub>1 w]] f by simp
  then have "keeps m u (m\<^sub>2, g u\<^sub>2, w\<^sub>2)" using assms(3,4) by (simp add: keeps_def status_ok_def)
  with f show ?thesis by simp
qed

lemma runLegacyHealthCheck_keeps: "keeps m u (runLegacyHealthCheck env m name u hc now w)"
proof -
  have "keeps m u (handleUnhealthy env (fireStateChanged m name s t) (u\<lparr>u_Healthy := h, u_LastHealthCheck := now\<rparr>) v)" for s t h v
    by (rule keeps_trans [OF keepsI [where w = v] handleUnhealthy_keeps]) auto
  then show ?thesis
    unfolding runLegacyHealthCheck_def Let_def split_beta
    by (simp add: split_beta) (auto intro!: keepsI simp: status_ok_def)
qed

lemma handleKeepalive_keeps: "keeps m u (handleKeepalive env m name u w)"
  unfolding handleKeepalive_def Let_def
  by (auto intro!: keepsI simp: split_beta status_ok_def split: option.splits prod.splits)

lemma check_startup_keeps: "keeps m u (check_startup env m u probe now w)"
proof -
  have "keeps m u (let (m, u, w) = restartUnit env m (u\<lparr>u_StartupState := st\<rparr>) v
      in (m, u\<lparr>u_StartupState := zero_probe_state, u_StartupComplete := False\<rparr>, w))" for st v
    by (rule keeps_after [OF restartUnit_keeps keepsI]) auto
  then show ?thesis
    unfolding check_startup_def Let_def split_beta by (simp add: split_beta) (auto intro!: keepsI)
qed

lemma check_liveness_keeps: "keeps m u (check_liveness env m name u probe now w)"
proof -
  have "keeps m u (let (m, u, w) = handleUnhealthy env (fireStateChanged m name s t)
        (u\<lparr>u_LastHealthCheck := now, u_LivenessState := st, u_Healthy := False\<rparr>) v
      in (m, u\<lparr>u_LivenessState := zero_probe_state\<rparr>, w))" for s t st v
    by (rule keeps_after [OF handleUnhealthy_keeps keepsI]) auto
  then show ?thesis
    unfolding check_liveness_def Let_def split_beta
    by (simp add: split_beta) (auto intro!: keepsI simp: status_ok_def)
qed

lemma check_readiness_keeps:
  "u_Name (fst (check_readiness env u probe now w)) = u_Name u \<and>
   u_Status (fst (check_readiness env u probe now w)) = u_Status u \<and>
   u_RestartCount (fst (check_readiness env u probe now w)) = u_RestartCount u \<and>
   u_LastRestartAt (fst (check_readiness env u probe now w)) = u_LastRestartAt u \<and>
   u_Healthy (fst (check_readiness env u probe now w)) = u_Healthy u"
  by (simp add: check_readiness_def Let_def split_beta)

lemma check_unit_keeps: "keeps m u (check_unit env now m name u w)"
proof -
  let ?k = "if u_StartOnBoot u then handleKeepalive env m name u w else (m, u, w)"
  obtain m1 u1 w1 where k: "?k = (m1, u1, w1)" by (metis prod_cases3)
  have "keeps m u ?k" by (auto intro: handleKeepalive_keeps keepsI)
  then have k1: "keeps m u (m1, u1, w1)" using k by simp
  let ?l = "case (case u_Probes u1 of None \<Rightarrow> None | Some ps \<Rightarrow> ps_Liveness ps) of
      Some probe \<Rightarrow> check_liveness env m1 name u1 probe now w1
    | None \<Rightarrow> (case u_HealthCheck u1 of Some hc \<Rightarrow> runLegacyHealthCheck env m1 name u1 hc now w1 | None \<Rightarrow> (m1, u1, w1))"
  obtain m2 u2 w2 where l: "?l = (m2, u2, w2)" by (metis prod_cases3)
  have "keeps m1 u1 ?l"
    by (auto intro: check_liveness_keeps runLegacyHealthCheck_keeps keepsI split: option.splits)
  then have l1: "keeps m u (m2, u2, w2)" using keeps_trans [OF k1] l by simp
  have "keeps m2 u2 (let (u, w) = check_readiness env u2 p now w2 in (m2, u, w))" for p
    using check_readiness_keeps [of env u2 p now w2]
    by (cases "check_readiness env u2 p now w2") (auto intro!: keepsI)
  then have r: "keeps m u (let (u, w) = check_readiness env u2 p now w2 in (m2, u, w))" for p
    using keeps_trans [OF l1] by blast
  have st: "keeps m u (check_startup env m1 u1 p now w1)" for p
    by (rule keeps_trans [OF k1 check_startup_keeps])
  show ?thesis
    unfolding check_unit_def k Let_def prod.case l using st r l1 by (auto split: option.splits)
qed

lemma units_ok_update: "units_ok um \<Longrightarrow> u_Name u = k \<Longrightarrow> units_ok (AList.update k u um)"
  by (auto simp: units_ok_def set_update_conv)

lemma lc_core_cong:
  "m_recreates m' = m_recreates m \<Longrightarrow> m_cfg m' = m_cfg m \<Longrightarrow> length (m_stateChangeCh m') \<le> length (m_stateChangeCh m) \<Longrightarrow>
   length (m_failedCh m') \<le> length (m_failedCh m) \<Longrightarrow> lc_core m \<Longrightarrow> lc_core m'"
  using max_recreates_cfg [of m' m] by (simp add: lc_core_def recreate_count_def)

lemma lc_inv_update:
  assumes "lc_inv m" and "keeps m u (m', u', w)" and "u_Name u = k" and "status_ok u"
  shows "lc_inv (m'\<lparr>m_units := AList.update k u' (m_units m')\<rparr>)"
proof -
  have m': "m_units m' = m_units m" "lc_core m'" "u_Name u' = k" "status_ok u'"
    using assms by (auto simp: keeps_def lc_inv_def)
  have "lc_core (m'\<lparr>m_units := x\<rparr>)" for x
    by (rule lc_core_cong [OF _ _ _ _ m'(2)]) simp_all
  moreover have "gm_wf (m_units m)" using assms(1) by (simp add: lc_inv_def units_ok_def)
  ultimately show ?thesis
    using assms(1) m' units_ok_update by (auto simp: lc_inv_def set_update_conv)
qed

lemma checkAll_inv:
  assumes "lc_inv m"
  shows "lc_inv (fst (checkAll env m w))"
proof -
  let ?f = "\<lambda>now (name, u) (m, w). let (m, u, w) = check_unit env now m name u w
                in (m\<lparr>m_units := AList.update name u (m_units m)\<rparr>, w)"
  have "lc_inv (fst (fold (?f now) l (m, w)))"
    if "lc_inv m" "\<forall>(k, u)\<in>set l. u_Name u = k \<and> status_ok u" for now l m w
    using that
  proof (induction l arbitrary: m w)
    case (Cons e l)
    obtain k u where e: "e = (k, u)" by (cases e)
    obtain m' u' w' where c: "check_unit env now m k u w = (m', u', w')" by (metis prod_cases3)
    have "lc_inv (m'\<lparr>m_units := AList.update k u' (m_units m')\<rparr>)"
      by (rule lc_inv_update [OF Cons.prems(1), where w = w'])
        (use check_unit_keeps [of m u env now k w] c Cons.prems(2) e in auto)
    from Cons.IH [OF this] Cons.prems(2) show ?case using c e by simp
  qed simp
  moreover have "\<forall>(k, u)\<in>set (m_units m). u_Name u = k \<and> status_ok u"
    using assms by (force simp: lc_inv_def units_ok_def)
  ultimately show ?thesis using assms by (simp add: checkAll_def Let_def split_beta)
qed

lemma fresh_unit_ok [simp]: "u_Name (fresh_unit u) = u_Name u" "status_ok (fresh_unit u)"
  by (simp_all add: fresh_unit_def Let_def status_ok_def)

lemma Register_inv: "lc_inv m \<Longrightarrow> u_Name u = name \<Longrightarrow> lc_inv (Manager_Register m name u)"
  unfolding Manager_Register_def
  by (rule lc_inv_update [where u = "fresh_unit u" and w = "()"]) (auto intro!: keepsI)

lemma Sync_inv: "lc_inv m \<Longrightarrow> lc_inv (SyncDiscoveredContainers m us)"
proof (induction us arbitrary: m)
  case (Cons u us)
  have "lc_inv (m\<lparr>m_units := AList.update (u_Name u) (fresh_unit u) (m_units m)\<rparr>)"
    by (rule lc_inv_update [OF Cons.prems, where u = "fresh_unit u" and w = "()"]) (auto intro!: keepsI)
  with Cons show ?case by (auto simp: SyncDiscoveredContainers_def)
qed (simp add: SyncDiscoveredContainers_def)

lemma Unregister_inv: "lc_inv m \<Longrightarrow> lc_inv (Manager_Unregister m name)"
  using lc_core_cong [of "Manager_Unregister m name" m]
  by (auto simp: lc_inv_def units_ok_def Manager_Unregister_def set_delete_conv)

lemma consume_inv: "lc_inv m \<Longrightarrow> lc_inv (snd (consume_state_change m))" "lc_inv m \<Longrightarrow> lc_inv (snd (consume_failed m))"
  using lc_core_cong [of "snd (consume_state_change m)" m] lc_core_cong [of "snd (consume_failed m)" m]
  by (auto simp: lc_inv_def consume_state_change_def consume_failed_def split: list.splits)

section \<open>Runs of the manager\<close>

inductive lc_step :: "'w lc_env \<Rightarrow> lc_manager \<Rightarrow> lc_manager \<Rightarrow> bool" for env where
  watchdog: "lc_step env m (fst (checkAll env m w))"
| register: "u_Name u = name \<Longrightarrow> lc_step env m (Manager_Register m name u)"
| unregister: "lc_step env m (Manager_Unregister m name)"
| sync: "lc_step env m (SyncDiscoveredContainers m us)"
| state_change: "lc_step env m (snd (consume_state_change m))"
| failed: "lc_step env m (snd (consume_failed m))"
| callbacks: "lc_step env m (m\<lparr>m_OnFailed := f, m_OnStateChanged := s\<rparr>)"

interpretation lc_sys: invariant_system "\<lambda>m. \<exists>cfg. m = NewManager cfg" "lc_step env" lc_inv for env :: "'w lc_env"
proof
  show "lc_inv s" if "\<exists>cfg. s = NewManager cfg" for s
    using that by (auto simp: NewManager_def lc_inv_def lc_core_def units_ok_def recreate_count_def)
  show "lc_inv t" if "lc_inv s" "lc_step env s t" for s t
    using that(2,1)
  proof (cases rule: lc_step.cases)
    case (callbacks f g)
    with that(1) lc_core_cong [of t s] show ?thesis by (simp add: lc_inv_def)
  qed (auto intro: checkAll_inv Register_inv Unregister_inv Sync_inv consume_inv)
qed

section \<open>Properties\<close>

text \<open>
  C6. The boot order is total and correct: for a manager whose units are registered under their own
  names, \<open>BootSequence\<close> returns every unit exactly once; when the dependencies have no cycle, every
  unit comes after all registered units it depends on; and when no unit has dependencies, the
  order is by priority.
\<close>

theorem boot_order:
  assumes "lc_inv m"
  shows "\<exists>r. BootSequence m = Some r \<and> distinct (map u_Name r) \<and> set r = snd ` set (m_units m) \<and>
    (acyclic (dep_rel (m_units m)) \<longrightarrow>
       (\<forall>xs u ys. r = xs @ u # ys \<longrightarrow>
          (\<forall>d\<in>set (u_DependsOn u). Manager_IsRegistered m d \<longrightarrow> d \<in> u_Name ` set xs))) \<and>
    ((\<forall>u\<in>snd ` set (m_units m). u_DependsOn u = []) \<longrightarrow> sorted (map u_Priority r))"
proof -
  let ?um = "m_units m" and ?us = "map snd (m_units m)"
  have ok: "units_ok ?um" using assms by (simp add: lc_inv_def)
  obtain r where r: "topoSort ?us ?um = Some r" "distinct (map u_Name r)" "set r = set ?us"
    "acyclic (dep_rel ?um) \<longrightarrow> deps_before ?um r"
    using topoSort_total [OF ok, of ?us] by auto
  have "sorted (map u_Priority r)" if "\<forall>u\<in>snd ` set ?um. u_DependsOn u = []"
  proof -
    have names: "map u_Name ?us = map fst ?um" using ok by (auto simp: units_ok_def)
    then have d0: "distinct (map u_Name ?us)" using ok by (simp only: units_ok_def)
    have "mset (map u_Name (sort_key u_Priority ?us)) = mset (map u_Name ?us)"
      unfolding mset_map by simp
    then have d: "distinct (map u_Name (sort_key u_Priority ?us))" using d0 by (rule mset_eq_imp_distinct_iff [THEN iffD2])
    have "visit_all (Suc (length ?um)) ?um (sort_key u_Priority ?us) (Some ([], [])) \<noteq> None \<and>
        topoSort ?us ?um = Some (sort_key u_Priority ?us)"
      using visit_all_no_deps [OF _ d, of "[]" "length ?um" ?um "[]"] that
      unfolding topoSort_def by (auto simp del: visit.simps)
    with r(1) have "r = sort_key u_Priority ?us" by simp
    then show ?thesis by (simp only: sorted_sort_key)
  qed
  with r show ?thesis
    unfolding BootSequence_eq Manager_IsRegistered_def by (auto simp: deps_before_def)
qed

definition unit_named :: "string \<Rightarrow> string list \<Rightarrow> int \<Rightarrow> container_unit" where
  "unit_named n deps prio =
     \<lparr>u_Name = n, u_ContainerID = n, u_ContainerIP = ''10.0.0.2'', u_RestartPolicy = ''Always'', u_DependsOn = deps,
      u_Priority = prio, u_StartOnBoot = False, u_Managed = True, u_Probes = None, u_HealthCheck = None,
      u_RestartCount = 0, u_LastRestartAt = zero_time, u_LastHealthCheck = zero_time, u_Healthy = True,
      u_Ready = True, u_StartupComplete = True, u_Status = ''running'', u_StartupState = zero_probe_state,
      u_LivenessState = zero_probe_state, u_ReadinessState = zero_probe_state\<rparr>"

definition cfg0 :: lifecycle_config where
  "cfg0 = \<lparr>BootManifestPath = '''', WatchdogInterval = 5, MaxRestarts = 0, RestartCooldown = 10, RestartBackoffMax = 300, MaxRecreates = 0\<rparr>"

definition boot_example :: lc_manager where
  "boot_example = Manager_Register (Manager_Register (NewManager cfg0) ''web'' (unit_named ''web'' [''dns''] 1))
     ''dns'' (unit_named ''dns'' [] 9)"

lemma boot_example_inv: "lc_inv boot_example"
  unfolding boot_example_def
  by (intro Register_inv) (auto simp: NewManager_def lc_inv_def lc_core_def units_ok_def recreate_count_def unit_named_def)

theorem boot_order_witness:
  "lc_inv boot_example \<and> map_option (map u_Name) (BootSequence boot_example) = Some [''dns'', ''web''] \<and>
   (\<exists>r. BootSequence boot_example = Some r \<and> distinct (map u_Name r))"
proof -
  have "map_option (map u_Name) (BootSequence boot_example) = Some [''dns'', ''web'']" by code_simp
  with boot_order [OF boot_example_inv] boot_example_inv show ?thesis by blast
qed

text \<open>
  The restart delay follows the documented curve: attempt \<open>n\<close> waits the cooldown (10 s when it is
  not configured) times \<open>2^n\<close>, capped at the configured maximum (5 min when it is not configured),
  for every configuration whose durations are not negative and whose cap is below 146 years; so the
  doubling never overflows, the delay never exceeds the cap and never decreases with the attempt.
\<close>

theorem restart_backoff_curve:
  assumes "0 \<le> RestartCooldown (m_cfg m)" and "RestartCooldown (m_cfg m) \<le> 9223372036"
    and "0 \<le> RestartBackoffMax (m_cfg m)" and "RestartBackoffMax (m_cfg m) \<le> 4611686018" and "0 \<le> n"
  shows "restartBackoff m n =
      min ((if RestartCooldown (m_cfg m) = 0 then 10 else RestartCooldown (m_cfg m)) * Second * 2 ^ nat n)
          ((if RestartBackoffMax (m_cfg m) = 0 then 300 else RestartBackoffMax (m_cfg m)) * Second) \<and>
    restartBackoff m n \<le> restartBackoff m (n + 1)"
proof -
  let ?c = "m_cfg m"
  have base: "backoff_base ?c = (if RestartCooldown ?c = 0 then 10 else RestartCooldown ?c) * Second"
    using assms(1,2) by (auto simp: backoff_base_def seconds_small Second_def)
  have mx: "backoff_max ?c = (if RestartBackoffMax ?c = 0 then 300 else RestartBackoffMax ?c) * Second"
    using assms(3,4) by (auto simp: backoff_max_def seconds_small Second_def Minute_def)
  have pos: "0 < backoff_base ?c" unfolding base using assms(1) by (simp add: Second_def)
  have cap: "backoff_max ?c \<le> 2 ^ 62" unfolding mx using assms(4) by (simp add: Second_def)
  note B = restartBackoff_min [OF cap pos]
  have "backoff_base ?c * 2 ^ nat n \<le> backoff_base ?c * 2 ^ nat (n + 1)"
    using pos by (intro mult_left_mono power_increasing) auto
  then have "restartBackoff m n \<le> restartBackoff m (n + 1)" unfolding B by (rule min.mono) simp
  then show ?thesis unfolding B [of n] base mx by simp
qed

theorem restart_backoff_curve_witness:
  "restartBackoff (NewManager cfg0) 3 = 80 * Second \<and> restartBackoff (NewManager cfg0) 9 = 300 * Second"
  using restart_backoff_curve [of "NewManager cfg0" 3] restart_backoff_curve [of "NewManager cfg0" 9]
  by (simp add: NewManager_def cfg0_def Second_def)

text \<open>
  C7. Recreates are bounded: however the units of all containers ask for a pod recreate, and whatever
  the clock says, a container that does not recover in between is granted at most \<open>MaxRecreates\<close>
  recreates (3 when it is not configured), counting those granted before.
\<close>

theorem recreate_budget:
  assumes "lc_inv m" and "recreate_requests env m ns w = (gs, m', w')"
  shows "int (length (filter (\<lambda>e. e = (name, True)) gs)) \<le> max 0 (max_recreates m) - recreate_count m name"
  using recreate_requests_count [OF assms(2), of name] assms(1) by (simp add: lc_inv_def lc_core_def)

definition ticking_env :: "int lc_env" where
  "ticking_env = \<lparr>env_rt = True, env_GetContainer = \<lambda>_ w. (None, w), env_StartContainer = \<lambda>_ w. (True, w),
     env_StopContainer = \<lambda>_ w. (True, w), env_httpGet = \<lambda>_ _ w. (None, w), env_dialTCP = \<lambda>_ _ w. (False, w),
     env_Now = \<lambda>w. (w * Minute, w + 1), env_Sleep = \<lambda>_ w. w\<rparr>"

theorem recreate_budget_witness:
  "fst (recreate_requests ticking_env boot_example (replicate 6 ''web'') 1) =
     [(''web'', True), (''web'', True), (''web'', True), (''web'', False), (''web'', False), (''web'', False)] \<and>
   int (length (filter (\<lambda>e. e = (''web'', True)) (fst (recreate_requests ticking_env boot_example (replicate 6 ''web'') 1)))) \<le> 3"
proof -
  let ?r = "recreate_requests ticking_env boot_example (replicate 6 ''web'') 1"
  have run: "fst ?r = [(''web'', True), (''web'', True), (''web'', True), (''web'', False), (''web'', False), (''web'', False)]"
    by code_simp
  have eq: "?r = (fst ?r, fst (snd ?r), snd (snd ?r))" by simp
  have "max 0 (max_recreates boot_example) - recreate_count boot_example ''web'' = 3" by code_simp
  with recreate_budget [OF boot_example_inv eq, of "''web''"] run show ?thesis by (simp only:)
qed

text \<open>
  C8. What the watchdog never breaks, in any run of any runtime, network and clock: at most 64
  state-change and 16 failure events wait, whatever flaps; the recreate count of a container stays
  within its budget; every unit has one of the four documented states and is filed under its name.
\<close>

theorem watchdog_invariant:
  assumes "(lc_step env)\<^sup>*\<^sup>* (NewManager cfg) m"
  shows "length (m_stateChangeCh m) \<le> 64 \<and> length (m_failedCh m) \<le> 16 \<and>
    recreate_count m n \<le> max 0 (max_recreates m) \<and>
    (\<forall>u. map_of (m_units m) n = Some u \<longrightarrow>
       u_Name u = n \<and> u_Status u \<in> {''running'', ''stopped'', ''restarting'', ''failed''})"
proof -
  have "lc_inv m" using lc_sys.inv_reachable [OF _ assms] by blast
  then show ?thesis
    by (auto simp: lc_inv_def lc_core_def status_ok_def dest: units_ok_map_of) (metis imageI map_of_SomeD snd_conv)+
qed

theorem watchdog_invariant_witness:
  "(lc_step ticking_env)\<^sup>*\<^sup>* (NewManager cfg0) boot_example \<and> Manager_IsRegistered boot_example ''web'' \<and>
   length (m_failedCh boot_example) \<le> 16"
proof -
  have "lc_step ticking_env (NewManager cfg0) (Manager_Register (NewManager cfg0) ''web'' (unit_named ''web'' [''dns''] 1))"
    by (rule lc_step.register) (simp add: unit_named_def)
  moreover have "lc_step ticking_env (Manager_Register (NewManager cfg0) ''web'' (unit_named ''web'' [''dns''] 1)) boot_example"
    unfolding boot_example_def by (rule lc_step.register) (simp add: unit_named_def)
  ultimately have reach: "(lc_step ticking_env)\<^sup>*\<^sup>* (NewManager cfg0) boot_example" by simp
  have "Manager_IsRegistered boot_example ''web''" by code_simp
  with watchdog_invariant [OF reach, of "''web''"] reach show ?thesis by blast
qed

text \<open>
  A probe of type \<open>exec\<close>, which \<open>ProbeConfig\<close> names and pods may declare, is never run: the
  manager takes it as failed, so a liveness probe of that type never makes a unit healthy, and at the
  failure threshold it marks a healthy container unhealthy, whatever the container does.
\<close>

theorem exec_probe_always_fails:
  assumes "pc_Type probe = ''exec''" and "check_liveness env m name u probe now w = (m', u', w')"
    and "shouldRunProbe probe (u_LivenessState u) now"
  shows "(u_Healthy u' \<longrightarrow> u_Healthy u) \<and>
    (or_default (pc_FailureThreshold probe) 3 \<le> ConsecutiveFailures (u_LivenessState u) + 1 \<longrightarrow> \<not> u_Healthy u')"
proof -
  have run: "runProbe env probe (u_ContainerIP u) w = (False, w)"
    using assms(1) by (simp add: runProbe_def Let_def)
  have health: "u_Healthy (fst (snd (handleUnhealthy env a b c))) = u_Healthy b" for a b c
    by (simp add: handleUnhealthy_def restartUnit_def Let_def split_beta)
  show ?thesis
    using assms(2,3) unfolding check_liveness_def run Let_def
    by (auto simp: split_beta health probe_failed_def split: if_splits)
qed

theorem exec_probe_always_fails_witness:
  "\<exists>probe u. pc_Type probe = ''exec'' \<and> u_Healthy u \<and>
     \<not> u_Healthy (fst (snd (check_liveness ticking_env boot_example ''web'' u probe 0 7)))"
proof -
  let ?p = "\<lparr>pc_Type = ''exec'', pc_Path = '''', pc_Port = 0, pc_Command = [''true''], pc_InitialDelaySeconds = 0,
    pc_PeriodSeconds = 10, pc_TimeoutSeconds = 1, pc_FailureThreshold = 1, pc_SuccessThreshold = 1\<rparr>"
  let ?u = "unit_named ''web'' [''dns''] 1"
  let ?r = "check_liveness ticking_env boot_example ''web'' ?u ?p 0 7"
  have eq: "?r = (fst ?r, fst (snd ?r), snd (snd ?r))" by simp
  have run: "shouldRunProbe ?p (u_LivenessState ?u) 0"
    by (simp add: shouldRunProbe_def unit_named_def zero_probe_state_def Let_def)
  have "\<not> u_Healthy (fst (snd ?r))"
    using exec_probe_always_fails [OF _ eq run]
    by (simp add: or_default_def unit_named_def zero_probe_state_def)
  moreover have "u_Healthy ?u" by (simp add: unit_named_def)
  ultimately show ?thesis by (intro exI [of _ ?p] exI [of _ ?u]) simp
qed

end
