(* ===== verification/JobScheduler.thy ===== *)
theory JobScheduler
  imports JobRunner "HOL-Library.Product_Lexorder"
begin

text \<open>
  \<open>job_scheduler.go\<close>: one scheduling cycle (\<open>schedulerTick\<close>) and the deferred store writes
  (\<open>flush\<close>), which the scheduler goroutine runs one after the other. Between the scheduler and the
  request handlers the unit of interleaving is a whole handler or a whole cycle: one definition, one
  step, one reading of the clock \<open>now\<close>. The deferred record keeps pointers; here they are keys, looked
  up when the writes are flushed.
\<close>

section \<open>Constants and deferred writes\<close>

definition provisioningTimeout :: duration where "provisioningTimeout = 10 * Minute"

definition heartbeatTimeout :: duration where "heartbeatTimeout = 90 * Second"

definition jobRetentionDefault :: duration where "jobRetentionDefault = 7 * 24 * Hour"

definition cleanupInterval :: int where "cleanupInterval = 60"

record scheduler_deferred =
  d_jobs :: "string list"
  d_hrs :: "string list"
  d_bmhs :: "string list"
  d_jobDeletes :: "string list"

definition no_deferred :: scheduler_deferred where
  "no_deferred = \<lparr>d_jobs = [], d_hrs = [], d_bmhs = [], d_jobDeletes = []\<rparr>"

type_synonym sched = "provider \<times> scheduler_deferred"

definition arrow :: string where "arrow = [CHR 0xE2, CHR 0x86, CHR 0x92]"

definition em_dash :: string where "em_dash = [CHR 0xE2, CHR 0x80, CHR 0x94]"

text \<open>A key \<open>a/b\<close> as the store key \<open>a.b\<close>; keys without a slash are skipped.\<close>

definition split_key :: "string \<Rightarrow> string option" where
  "split_key key = (case splitN 2 (CHR ''/'') key of [a, b] \<Rightarrow> Some (a @ ''.'' @ b) | _ \<Rightarrow> None)"

definition persistBMH :: "provider \<Rightarrow> string \<Rightarrow> bare_metal_host \<Rightarrow> provider" where
  "persistBMH p key b =
     (case split_key key of
        None \<Rightarrow> p
      | Some sk \<Rightarrow> p\<lparr>store_bareMetalHosts := put_bucket (io_ok p) (store_bareMetalHosts p) sk b\<rparr>)"

definition delete_stored_job :: "provider \<Rightarrow> string \<Rightarrow> provider" where
  "delete_stored_job p key =
     (case split_key key of
        None \<Rightarrow> p
      | Some sk \<Rightarrow> p\<lparr>store_jobs := snd (del_bucket (io_ok p) (store_jobs p) sk),
                     store_jobLogs := snd (del_bucket (io_ok p) (store_jobLogs p) sk)\<rparr>)"

definition sched_flush :: "sched \<Rightarrow> provider" where
  "sched_flush = (\<lambda>(p, d).
     let p = fold (\<lambda>key p. case map_of (jobs p) key of Some j \<Rightarrow> persistJob p j | None \<Rightarrow> p) (d_jobs d) p;
         p = fold (\<lambda>key p. case map_of (hostReservations p) key of Some h \<Rightarrow> persistHostReservation p h | None \<Rightarrow> p) (d_hrs d) p;
         p = fold (\<lambda>key p. case map_of (bareMetalHosts p) key of Some b \<Rightarrow> persistBMH p key b | None \<Rightarrow> p) (d_bmhs d) p
     in fold (\<lambda>key p. delete_stored_job p key) (d_jobDeletes d) p)"

definition deferBMHUpdate :: "sched \<Rightarrow> string \<Rightarrow> (bare_metal_host \<Rightarrow> bare_metal_host) \<Rightarrow> sched" where
  "deferBMHUpdate = (\<lambda>(p, d) key mutate.
     case Map_Get (bareMetalHosts p) key of
       None \<Rightarrow> (p, d)
     | Some b \<Rightarrow> (set_bmh p key (mutate b), d\<lparr>d_bmhs := d_bmhs d @ [key]\<rparr>))"

section \<open>Assigning pending jobs\<close>

text \<open>Jobs of a pool that are scheduling, provisioning or running, and those of one host.\<close>

definition active_in_pool :: "provider \<Rightarrow> string \<Rightarrow> nat" where
  "active_in_pool p pool = length (filter (\<lambda>j. job_pool j = pool \<and> is_active j) (Map_Values (jobs p)))"

definition bmhActive :: "provider \<Rightarrow> string \<Rightarrow> string \<Rightarrow> int" where
  "bmhActive p pool bmh =
     int (length (filter (\<lambda>j. job_pool j = pool \<and> is_active j \<and> st_BMHRef (j_Status j) = bmh) (Map_Values (jobs p))))"

definition findAvailableHost :: "provider \<Rightarrow> string \<Rightarrow> int \<Rightarrow> bool \<Rightarrow> string" where
  "findAvailableHost p pool maxConcurrent allowOverflow =
     (let maxConcurrent = (if maxConcurrent \<le> 0 then 1 else maxConcurrent) in
      case List.find (\<lambda>h. hs_Pool (hr_Spec h) = pool \<and> hst_Phase (hr_Status h) = ''Active'' \<and>
             bmhActive p pool (hs_BMHRef (hr_Spec h)) < maxConcurrent) (Map_Values (hostReservations p)) of
        Some h \<Rightarrow> hs_BMHRef (hr_Spec h)
      | None \<Rightarrow>
          if allowOverflow then
            (case List.find (\<lambda>b. \<not> list_ex (\<lambda>h. hs_BMHRef (hr_Spec h) = bmh_Name b) (Map_Values (hostReservations p)) \<and>
                   bmhActive p pool (bmh_Name b) < maxConcurrent) (Map_Values (bareMetalHosts p)) of
               Some b \<Rightarrow> bmh_Name b
             | None \<Rightarrow> '''')
          else '''')"

text \<open>The first active runner of the pool, in the order in which the map is ranged over.\<close>

definition runner_for :: "provider \<Rightarrow> string \<Rightarrow> job_runner option" where
  "runner_for p pool =
     List.find (\<lambda>r. rs_Pool (jr_Spec r) = pool \<and> rst_Phase (jr_Status r) = ''Active'') (Map_Values (jobRunners p))"

text \<open>The host a job of the pool would be given now: none without an active runner, at the limit of
  the pool, or without a free host.\<close>

definition host_for :: "provider \<Rightarrow> string \<Rightarrow> (job_runner \<times> string) option" where
  "host_for p pool =
     (case runner_for p pool of
        None \<Rightarrow> None
      | Some runner \<Rightarrow>
          (let maxConc = rs_MaxConcurrent (jr_Spec runner) in
           if maxConc > 0 \<and> int (active_in_pool p (rs_Pool (jr_Spec runner))) \<ge> maxConc then None
           else
             (let bmhName = findAvailableHost p pool maxConc (rs_AllowOverflow (jr_Spec runner)) in
              if bmhName = '''' then None else Some (runner, bmhName))))"

text \<open>The reservation of the host, the first that names it, is marked with the job.\<close>

definition mark_reservation :: "sched \<Rightarrow> string \<Rightarrow> string \<Rightarrow> sched" where
  "mark_reservation = (\<lambda>(p, d) bmhName jkey.
     case List.find (\<lambda>(k, h). hs_BMHRef (hr_Spec h) = bmhName) (Map_Snapshot (hostReservations p)) of
       None \<Rightarrow> (p, d)
     | Some (k, h) \<Rightarrow>
         (set_hr p k (h\<lparr>hr_Status := (hr_Status h)\<lparr>hst_ActiveJob := jkey\<rparr>\<rparr>), d\<lparr>d_hrs := d_hrs d @ [k]\<rparr>))"

definition boot_mutation :: "job_runner \<Rightarrow> bare_metal_host \<Rightarrow> bare_metal_host" where
  "boot_mutation runner b =
     (let sp = bmh_Spec b;
          sp = (if rs_Template (jr_Spec runner) \<noteq> '''' then sp\<lparr>bs_Template := rs_Template (jr_Spec runner)\<rparr>
                else sp\<lparr>bs_BootConfigRef := rs_BootConfigRef (jr_Spec runner)\<rparr>);
          sp = (if rs_Image (jr_Spec runner) \<noteq> '''' then sp\<lparr>bs_Image := rs_Image (jr_Spec runner)\<rparr> else sp);
          sp = sp\<lparr>bs_Online := Some True\<rparr>
      in b\<lparr>bmh_Spec := sp, bmh_Annotations := AList.delete ''bmh.mkube.io/manual-power'' (bmh_Annotations b)\<rparr>)"

text \<open>The host's address for the job, and the host with its deferred write and power event.\<close>

definition boot_host :: "sched \<Rightarrow> job_runner \<Rightarrow> string \<Rightarrow> string option \<times> sched" where
  "boot_host = (\<lambda>(p, d) runner bmhName.
     case List.find (\<lambda>(k, b). bmh_Name b = bmhName) (Map_Snapshot (bareMetalHosts p)) of
       None \<Rightarrow> (None, p, d)
     | Some (k, b) \<Rightarrow>
         if bs_Online (bmh_Spec b) = Some True then (Some (bs_IP (bmh_Spec b)), p, d)
         else
           (let (p, d) = deferBMHUpdate (p, d) k (boot_mutation runner)
            in (Some (bs_IP (bmh_Spec b)), enqueueBMCPowerEvent p (boot_mutation runner b) False True, d)))"

text \<open>One turn of the loop over the pending jobs.\<close>

definition schedule_job :: "instant \<Rightarrow> sched \<Rightarrow> string \<Rightarrow> sched" where
  "schedule_job now = (\<lambda>(p, d) key.
     case map_of (jobs p) key of
       None \<Rightarrow> (p, d)
     | Some j \<Rightarrow>
         (case host_for p (job_pool j) of
            None \<Rightarrow> (p, d)
          | Some (runner, bmhName) \<Rightarrow>
              (let st = (j_Status j)\<lparr>st_Phase := ''Scheduling'', st_RunnerRef := jr_Name runner, st_BMHRef := bmhName\<rparr>;
                   p = set_job p key (j\<lparr>j_Status := st\<rparr>);
                   (p, d) = mark_reservation (p, d) bmhName (jobKey j);
                   (o_ip, p, d) = boot_host (p, d) runner bmhName;
                   st = (case o_ip of None \<Rightarrow> st | Some a \<Rightarrow> st\<lparr>st_HostIP := a\<rparr>);
                   j = j\<lparr>j_Status := st\<lparr>st_Phase := ''Provisioning''\<rparr>\<rparr>;
                   p = set_job p key j;
                   d = d\<lparr>d_jobs := d_jobs d @ [key]\<rparr>
               in (appendRunnerEvent now p (jr_Name runner)
                     (''Scheduled '' @ jobKey j @ '' '' @ arrow @ '' '' @ bmhName @
                      '' (priority '' @ Itoa (js_Priority (j_Spec j)) @ '')''), d))))"

definition pending_order :: "job \<Rightarrow> int \<times> int" where
  "pending_order j = (- js_Priority (j_Spec j), j_CreationTimestamp j)"

text \<open>\<open>sort.Slice\<close> is not stable; the order of the map is arbitrary, so a stable sort covers its results.\<close>

definition pending_jobs :: "provider \<Rightarrow> (string \<times> job) list" where
  "pending_jobs p = sort_key (\<lambda>(k, j). pending_order j) (filter (\<lambda>(k, j). phase j = ''Pending'') (Map_Snapshot (jobs p)))"

definition schedulePendingJobs :: "instant \<Rightarrow> sched \<Rightarrow> sched" where
  "schedulePendingJobs now = (\<lambda>(p, d). fold (\<lambda>(k, j) s. schedule_job now s k) (pending_jobs p) (p, d))"

text \<open>
  Ranging over a map starts anywhere, and every job of the pass ranges over fresh snapshots: a pass in which
  the maps are ordered anew before each job. \<open>schedulePendingJobs\<close> is the pass that keeps the order.
\<close>

definition reordered :: "provider \<Rightarrow> provider \<Rightarrow> bool" where
  "reordered p q \<longleftrightarrow> (\<exists>js hs rs bs. mset js = mset (jobs p) \<and> mset hs = mset (hostReservations p) \<and>
     mset rs = mset (jobRunners p) \<and> mset bs = mset (bareMetalHosts p) \<and>
     q = p\<lparr>jobs := js, hostReservations := hs, jobRunners := rs, bareMetalHosts := bs\<rparr>)"

inductive pending_pass :: "instant \<Rightarrow> (string \<times> job) list \<Rightarrow> sched \<Rightarrow> sched \<Rightarrow> bool" for now where
  pass_done: "pending_pass now [] s s"
| pass_job: "reordered p q \<Longrightarrow> pending_pass now L (schedule_job now (q, d) k) s \<Longrightarrow> pending_pass now ((k, j) # L) (p, d) s"

inductive_cases pass_doneE: "pending_pass now [] s t"
inductive_cases pass_jobE: "pending_pass now ((k, j) # L) (p, d) t"

definition pending_in_order :: "provider \<Rightarrow> (string \<times> job) list \<Rightarrow> bool" where
  "pending_in_order p L \<longleftrightarrow> mset L = mset (filter (\<lambda>(k, j). phase j = ''Pending'') (jobs p)) \<and>
     sorted (map (\<lambda>(k, j). pending_order j) L)"

section \<open>Releasing hosts and timeouts\<close>

definition remaining_on_host :: "provider \<Rightarrow> job \<Rightarrow> nat" where
  "remaining_on_host p j =
     length (filter (\<lambda>i. job_pool i = job_pool j \<and> st_BMHRef (j_Status i) = st_BMHRef (j_Status j) \<and>
                         (phase i = ''Provisioning'' \<or> phase i = ''Running'') \<and> jobKey i \<noteq> jobKey j)
              (Map_Values (jobs p)))"

definition reservation_of :: "provider \<Rightarrow> job \<Rightarrow> (string \<times> host_reservation) option" where
  "reservation_of p j =
     List.find (\<lambda>(k, h). hs_BMHRef (hr_Spec h) = st_BMHRef (j_Status j) \<and> hs_Pool (hr_Spec h) = job_pool j)
       (Map_Snapshot (hostReservations p))"

definition clear_if_last :: "nat \<Rightarrow> host_reservation \<Rightarrow> host_reservation" where
  "clear_if_last remaining h =
     (if remaining = 0 then h\<lparr>hr_Status := (hr_Status h)\<lparr>hst_ActiveJob := ''''\<rparr>\<rparr> else h)"

definition releaseJobHostDeferred :: "sched \<Rightarrow> job \<Rightarrow> sched" where
  "releaseJobHostDeferred = (\<lambda>(p, d) j.
     if st_BMHRef (j_Status j) = '''' then (p, d)
     else
       (case reservation_of p j of
          None \<Rightarrow> (p, d)
        | Some (k, h) \<Rightarrow> (set_hr p k (clear_if_last (remaining_on_host p j) h), d\<lparr>d_hrs := d_hrs d @ [k]\<rparr>)))"

text \<open>A job that a timeout ends: its status, the release of its host, the deferred write, the event.\<close>

definition end_job :: "instant \<Rightarrow> sched \<Rightarrow> string \<Rightarrow> job \<Rightarrow> string \<Rightarrow> string \<Rightarrow> string \<Rightarrow> sched" where
  "end_job now = (\<lambda>(p, d) key j ph msg event.
     let j = j\<lparr>j_Status := (j_Status j)\<lparr>st_Phase := ph, st_CompletedAt := format_rfc3339 now, st_ErrorMessage := msg\<rparr>\<rparr>;
         (p, d) = releaseJobHostDeferred (set_job p key j, d) j;
         d = d\<lparr>d_jobs := d_jobs d @ [key]\<rparr>
     in (if st_RunnerRef (j_Status j) \<noteq> '''' then appendRunnerEvent now p (st_RunnerRef (j_Status j)) event else p, d))"

text \<open>The three checks, each for one job of the snapshot: whether it is due, and how it ends.\<close>

definition provisioning_overdue :: "instant \<Rightarrow> job \<Rightarrow> bool" where
  "provisioning_overdue now j \<longleftrightarrow>
     phase j = ''Provisioning'' \<and> time_Sub now (j_CreationTimestamp j) > provisioningTimeout"

definition running_overdue :: "instant \<Rightarrow> job \<Rightarrow> bool" where
  "running_overdue now j \<longleftrightarrow>
     phase j = ''Running'' \<and> js_Timeout (j_Spec j) > 0 \<and>
     (case parse_rfc3339 (st_StartedAt (j_Status j)) of
        None \<Rightarrow> False
      | Some started \<Rightarrow> time_Sub now started > seconds (js_Timeout (j_Spec j)))"

definition heartbeat_overdue :: "instant \<Rightarrow> job \<Rightarrow> bool" where
  "heartbeat_overdue now j \<longleftrightarrow>
     phase j = ''Running'' \<and>
     (case parse_rfc3339 (st_LastHeartbeat (j_Status j)) of
        None \<Rightarrow> False
      | Some lastHB \<Rightarrow> time_Sub now lastHB > heartbeatTimeout)"

definition check_provisioning :: "instant \<Rightarrow> string \<Rightarrow> sched \<Rightarrow> sched" where
  "check_provisioning now key = (\<lambda>(p, d).
     case map_of (jobs p) key of
       None \<Rightarrow> (p, d)
     | Some j \<Rightarrow>
         if provisioning_overdue now j
         then end_job now (p, d) key j ''Failed'' ''provisioning timeout exceeded''
                (''TIMEOUT provisioning '' @ jobKey j @ '' on '' @ st_BMHRef (j_Status j))
         else (p, d))"

definition check_running :: "instant \<Rightarrow> string \<Rightarrow> sched \<Rightarrow> sched" where
  "check_running now key = (\<lambda>(p, d).
     case map_of (jobs p) key of
       None \<Rightarrow> (p, d)
     | Some j \<Rightarrow>
         if running_overdue now j
         then end_job now (p, d) key j ''TimedOut'' (''exceeded timeout of '' @ Itoa (js_Timeout (j_Spec j)) @ ''s'')
                (''TIMEOUT running '' @ jobKey j @ '' after '' @ Itoa (js_Timeout (j_Spec j)) @ ''s'')
         else (p, d))"

definition check_heartbeat :: "instant \<Rightarrow> string \<Rightarrow> sched \<Rightarrow> sched" where
  "check_heartbeat now key = (\<lambda>(p, d).
     case map_of (jobs p) key of
       None \<Rightarrow> (p, d)
     | Some j \<Rightarrow>
         if heartbeat_overdue now j
         then end_job now (p, d) key j ''Failed'' (''heartbeat timeout '' @ em_dash @ '' agent may have crashed'')
                (''HEARTBEAT TIMEOUT '' @ jobKey j @ '' on '' @ st_BMHRef (j_Status j) @ '' '' @ em_dash @ '' agent may have crashed'')
         else (p, d))"

definition checkProvisioningTimeouts :: "instant \<Rightarrow> sched \<Rightarrow> sched" where
  "checkProvisioningTimeouts now s = fold (check_provisioning now) (Map_Keys (jobs (fst s))) s"

definition checkRunningTimeouts :: "instant \<Rightarrow> sched \<Rightarrow> sched" where
  "checkRunningTimeouts now s = fold (check_running now) (Map_Keys (jobs (fst s))) s"

definition checkHeartbeatTimeouts :: "instant \<Rightarrow> sched \<Rightarrow> sched" where
  "checkHeartbeatTimeouts now s = fold (check_heartbeat now) (Map_Keys (jobs (fst s))) s"

section \<open>Power management\<close>

definition has_work :: "provider \<Rightarrow> string \<Rightarrow> bool" where
  "has_work p pool \<longleftrightarrow> list_ex (\<lambda>j. job_pool j = pool \<and> (phase j = ''Pending'' \<or> is_active j)) (Map_Values (jobs p))"

definition lastCompletion :: "provider \<Rightarrow> string \<Rightarrow> instant" where
  "lastCompletion p pool =
     fold (\<lambda>j t. if job_pool j = pool \<and> is_terminal j
                 then (case parse_rfc3339 (st_CompletedAt (j_Status j)) of None \<Rightarrow> t | Some c \<Rightarrow> max t c) else t)
       (Map_Values (jobs p)) zero_time"

text \<open>One host of an idle pool; the loops visit every reservation and every host.\<close>

definition power_off_host :: "instant \<Rightarrow> job_runner \<Rightarrow> string \<Rightarrow> string \<Rightarrow> sched \<Rightarrow> sched" where
  "power_off_host now runner hrKey bmhKey = (\<lambda>(p, d).
     case (map_of (hostReservations p) hrKey, map_of (bareMetalHosts p) bmhKey) of
       (Some h, Some b) \<Rightarrow>
         if hs_Pool (hr_Spec h) \<noteq> rs_Pool (jr_Spec runner) \<or> hst_ActiveJob (hr_Status h) \<noteq> '''' then (p, d)
         else if bmh_Name b = hs_BMHRef (hr_Spec h) \<and> bs_Online (bmh_Spec b) = Some True then
           (if (case map_of (bmh_Annotations b) ''bmh.mkube.io/manual-power'' of Some v \<Rightarrow> v \<noteq> '''' | None \<Rightarrow> False)
            then (p, d)
            else
              (let off = (\<lambda>b. b\<lparr>bmh_Spec := (bmh_Spec b)\<lparr>bs_Online := Some False\<rparr>\<rparr>);
                   (p, d) = deferBMHUpdate (p, d) bmhKey off;
                   p = enqueueBMCPowerEvent p (off b) True False
               in (appendRunnerEvent now p (jr_Name runner)
                     (''Powering off idle host '' @ bmh_Name b @ '' (timeout '' @ Itoa (rs_IdleTimeout (jr_Spec runner)) @ ''s)''), d)))
         else (p, d)
     | _ \<Rightarrow> (p, d))"

definition check_idle_runner :: "tz_env \<Rightarrow> instant \<Rightarrow> job_runner \<Rightarrow> sched \<Rightarrow> sched" where
  "check_idle_runner tz now runner s =
     (let p = fst s; pool = rs_Pool (jr_Spec runner) in
      if rs_IdleTimeout (jr_Spec runner) \<le> 0 \<or> rs_ReclaimPolicy (jr_Spec runner) = ''Retain'' then s
      else if IsActive tz (rs_Schedule (jr_Spec runner)) now then s
      else if has_work p pool \<or> lastCompletion p pool = zero_time then s
      else if time_Sub now (lastCompletion p pool) < seconds (rs_IdleTimeout (jr_Spec runner)) then s
      else fold (\<lambda>hrKey s. fold (\<lambda>bmhKey s. power_off_host now runner hrKey bmhKey s)
                   (Map_Keys (bareMetalHosts (fst s))) s) (Map_Keys (hostReservations p)) s)"

definition checkIdleRunners :: "tz_env \<Rightarrow> instant \<Rightarrow> sched \<Rightarrow> sched" where
  "checkIdleRunners tz now s = fold (check_idle_runner tz now) (Map_Values (jobRunners (fst s))) s"

definition power_on_host :: "instant \<Rightarrow> job_runner \<Rightarrow> string \<Rightarrow> string \<Rightarrow> sched \<Rightarrow> sched" where
  "power_on_host now runner hrKey bmhKey = (\<lambda>(p, d).
     case (map_of (hostReservations p) hrKey, map_of (bareMetalHosts p) bmhKey) of
       (Some h, Some b) \<Rightarrow>
         if hs_Pool (hr_Spec h) \<noteq> rs_Pool (jr_Spec runner) \<or> hst_ActiveJob (hr_Status h) \<noteq> '''' then (p, d)
         else if bmh_Name b \<noteq> hs_BMHRef (hr_Spec h) then (p, d)
         else if bs_Online (bmh_Spec b) \<noteq> Some True then
           (let on = (\<lambda>b. b\<lparr>bmh_Spec := (bmh_Spec b)\<lparr>bs_Online := Some True\<rparr>\<rparr>);
                (p, d) = deferBMHUpdate (p, d) bmhKey on;
                p = enqueueBMCPowerEvent p (on b) False True
            in (appendRunnerEvent now p (jr_Name runner)
                  (''Powering on '' @ bmh_Name b @ '' for scheduled work hours''), d))
         else (p, d)
     | _ \<Rightarrow> (p, d))"

definition ensureScheduledHostsOnline :: "tz_env \<Rightarrow> instant \<Rightarrow> sched \<Rightarrow> sched" where
  "ensureScheduledHostsOnline tz now s =
     fold (\<lambda>runner s.
        if \<not> IsActive tz (rs_Schedule (jr_Spec runner)) now then s
        else fold (\<lambda>hrKey s. fold (\<lambda>bmhKey s. power_on_host now runner hrKey bmhKey s)
                     (Map_Keys (bareMetalHosts (fst s))) s) (Map_Keys (hostReservations (fst s))) s)
       (Map_Values (jobRunners (fst s))) s"

section \<open>Cleaning up\<close>

definition expired_job :: "instant \<Rightarrow> job \<Rightarrow> bool" where
  "expired_job cutoff j \<longleftrightarrow>
     is_terminal j \<and>
     (if st_CompletedAt (j_Status j) \<noteq> NoStamp
      then (case parse_rfc3339 (st_CompletedAt (j_Status j)) of Some t \<Rightarrow> \<not> t > cutoff | None \<Rightarrow> True)
      else \<not> (j_CreationTimestamp j \<noteq> zero_time \<and> j_CreationTimestamp j > cutoff))"

definition autoCleanupOldJobs :: "instant \<Rightarrow> sched \<Rightarrow> sched" where
  "autoCleanupOldJobs now = (\<lambda>(p, d).
     let p = p\<lparr>cleanupTickCounter := cleanupTickCounter p + 1\<rparr> in
     if cleanupTickCounter p < cleanupInterval then (p, d)
     else
       (let p = p\<lparr>cleanupTickCounter := 0\<rparr>;
            cutoff = now - jobRetentionDefault;
            toDelete = map fst (filter (\<lambda>(k, j). expired_job cutoff j) (Map_Snapshot (jobs p)))
        in (fold (\<lambda>key p. let p = deleteJobLogs p key in p\<lparr>jobs := Map_Delete (jobs p) key\<rparr>) toDelete p,
            d\<lparr>d_jobDeletes := d_jobDeletes d @ toDelete\<rparr>)))"

section \<open>One cycle\<close>

definition schedulerTick :: "tz_env \<Rightarrow> instant \<Rightarrow> provider \<Rightarrow> sched" where
  "schedulerTick tz now p =
     autoCleanupOldJobs now (ensureScheduledHostsOnline tz now (checkIdleRunners tz now
       (checkHeartbeatTimeouts now (checkRunningTimeouts now (checkProvisioningTimeouts now
         (schedulePendingJobs now (p, no_deferred)))))))"

text \<open>One turn of \<open>RunJobScheduler\<close>, woken by its ticker or by the one-place channel \<open>kickScheduler\<close>.\<close>

definition run_scheduler :: "tz_env \<Rightarrow> instant \<Rightarrow> bool \<Rightarrow> provider \<Rightarrow> provider" where
  "run_scheduler tz now kicked p =
     sched_flush (schedulerTick tz now (if kicked then p\<lparr>kickScheduler := False\<rparr> else p))"

section \<open>Well-formed providers\<close>

text \<open>Objects are filed under their own keys, and every reservation and host has a name.\<close>

definition prov_wf :: "provider \<Rightarrow> bool" where
  "prov_wf p \<longleftrightarrow> gm_wf (jobs p) \<and> gm_wf (hostReservations p) \<and> gm_wf (bareMetalHosts p) \<and> gm_wf (jobRunners p) \<and>
     (\<forall>k j. map_of (jobs p) k = Some j \<longrightarrow> jobKey j = k) \<and>
     (\<forall>h\<in>snd ` set (hostReservations p). hs_BMHRef (hr_Spec h) \<noteq> '''') \<and>
     (\<forall>b\<in>snd ` set (bareMetalHosts p). bmh_Name b \<noteq> '''')"

text \<open>What the choice of a host reads of reservations and hosts.\<close>

definition hr_view :: "(string, host_reservation) gomap \<Rightarrow> (string \<times> host_reservation_spec \<times> string) list" where
  "hr_view m = map (\<lambda>(k, h). (k, hr_Spec h, hst_Phase (hr_Status h))) m"

definition bmh_view :: "(string, bare_metal_host) gomap \<Rightarrow> (string \<times> string \<times> string) list" where
  "bmh_view m = map (\<lambda>(k, b). (k, bmh_Name b, bs_IP (bmh_Spec b))) m"

definition same_view :: "provider \<Rightarrow> provider \<Rightarrow> bool" where
  "same_view p q \<longleftrightarrow> hr_view (hostReservations q) = hr_view (hostReservations p) \<and>
     bmh_view (bareMetalHosts q) = bmh_view (bareMetalHosts p) \<and> jobRunners q = jobRunners p"

lemma same_view_refl [simp]: "same_view p p"
  by (simp add: same_view_def)

lemma same_view_trans: "same_view p q \<Longrightarrow> same_view q r \<Longrightarrow> same_view p r"
  by (simp add: same_view_def)

lemma view_keys:
  "hr_view m = hr_view m' \<Longrightarrow> map fst m = map fst m'"
  "bmh_view n = bmh_view n' \<Longrightarrow> map fst n = map fst n'"
proof -
  have "map fst (hr_view m) = map fst m" for m by (simp add: hr_view_def split_beta comp_def)
  then show "hr_view m = hr_view m' \<Longrightarrow> map fst m = map fst m'" by metis
  have "map fst (bmh_view m) = map fst m" for m by (simp add: bmh_view_def split_beta comp_def)
  then show "bmh_view n = bmh_view n' \<Longrightarrow> map fst n = map fst n'" by metis
qed

lemma hr_view_ball:
  assumes "set (hr_view m) = set (hr_view m')"
  shows "(\<forall>h\<in>snd ` set m. P (hr_Spec h) (hst_Phase (hr_Status h))) \<longleftrightarrow> (\<forall>h\<in>snd ` set m'. P (hr_Spec h) (hst_Phase (hr_Status h)))"
proof -
  have "(\<forall>h\<in>snd ` set m. P (hr_Spec h) (hst_Phase (hr_Status h))) \<longleftrightarrow> (\<forall>(k, s, f)\<in>set (hr_view m). P s f)" for m
    by (auto simp: hr_view_def)
  then show ?thesis using assms by metis
qed

lemma bmh_view_ball:
  assumes "set (bmh_view m) = set (bmh_view m')"
  shows "(\<forall>b\<in>snd ` set m. P (bmh_Name b)) \<longleftrightarrow> (\<forall>b\<in>snd ` set m'. P (bmh_Name b))"
proof -
  have "(\<forall>b\<in>snd ` set m. P (bmh_Name b)) \<longleftrightarrow> (\<forall>(k, n, i)\<in>set (bmh_view m). P n)" for m
    by (auto simp: bmh_view_def)
  then show ?thesis using assms by metis
qed

lemma prov_wf_same_view:
  assumes "prov_wf p" and "same_view p q" and "jobs q = jobs p"
  shows "prov_wf q"
proof -
  have v: "hr_view (hostReservations q) = hr_view (hostReservations p)" "bmh_view (bareMetalHosts q) = bmh_view (bareMetalHosts p)"
    using assms(2) by (auto simp: same_view_def)
  have "(\<forall>h\<in>snd ` set (hostReservations q). hs_BMHRef (hr_Spec h) \<noteq> '''')"
    using assms(1) hr_view_ball [OF arg_cong [OF v(1), of set], of "\<lambda>s f. hs_BMHRef s \<noteq> ''''"] by (simp add: prov_wf_def)
  moreover have "(\<forall>b\<in>snd ` set (bareMetalHosts q). bmh_Name b \<noteq> '''')"
    using assms(1) bmh_view_ball [OF arg_cong [OF v(2), of set], of "\<lambda>n. n \<noteq> ''''"] by (simp add: prov_wf_def)
  moreover have "gm_wf (hostReservations q)" "gm_wf (bareMetalHosts q)"
    using assms(1) view_keys(1) [OF v(1)] view_keys(2) [OF v(2)] by (auto simp: prov_wf_def)
  ultimately show ?thesis using assms by (simp add: prov_wf_def same_view_def)
qed

section \<open>Effects that leave jobs and views alone\<close>

lemma set_hr_view:
  assumes "map_of (hostReservations p) k = Some h" and "hr_Spec h' = hr_Spec h" and "hst_Phase (hr_Status h') = hst_Phase (hr_Status h)"
  shows "same_view p (set_hr p k h')" and "jobs (set_hr p k h') = jobs p"
  using map_view_update [OF assms(1), of "\<lambda>h. (hr_Spec h, hst_Phase (hr_Status h))" h'] assms(2,3)
  by (simp_all add: same_view_def set_hr_def hr_view_def)

lemma set_bmh_view:
  assumes "map_of (bareMetalHosts p) k = Some b" and "bmh_Name b' = bmh_Name b" and "bs_IP (bmh_Spec b') = bs_IP (bmh_Spec b)"
  shows "same_view p (set_bmh p k b')" and "jobs (set_bmh p k b') = jobs p"
  using map_view_update [OF assms(1), of "\<lambda>b. (bmh_Name b, bs_IP (bmh_Spec b))" b'] assms(2,3)
  by (simp_all add: same_view_def set_bmh_def bmh_view_def)

lemma enqueueBMCPowerEvent_view [simp]:
  "same_view p (enqueueBMCPowerEvent p b x y)" "jobs (enqueueBMCPowerEvent p b x y) = jobs p"
  by (simp_all add: enqueueBMCPowerEvent_def same_view_def)

lemma appendRunnerEvent_view [simp]:
  "same_view p (appendRunnerEvent now p r msg)" "jobs (appendRunnerEvent now p r msg) = jobs p"
  by (simp_all add: appendRunnerEvent_def same_view_def)

text \<open>A step of the scheduler that touches neither jobs nor views.\<close>

definition quiet :: "provider \<Rightarrow> provider \<Rightarrow> bool" where
  "quiet p q \<longleftrightarrow> same_view p q \<and> jobs q = jobs p"

lemma quiet_refl [simp]: "quiet p p"
  by (simp add: quiet_def)

lemma quiet_trans: "quiet p q \<Longrightarrow> quiet q r \<Longrightarrow> quiet p r"
  by (auto simp: quiet_def intro: same_view_trans)

lemma quiet_wf: "prov_wf p \<Longrightarrow> quiet p q \<Longrightarrow> prov_wf q"
  by (auto simp: quiet_def intro: prov_wf_same_view)

lemma find_entry: "gm_wf m \<Longrightarrow> List.find P (Map_Snapshot m) = Some (k, v) \<Longrightarrow> map_of m k = Some v \<and> P (k, v)"
  by (auto dest!: find_SomeD)

lemma mark_reservation_quiet:
  assumes "prov_wf p"
  shows "quiet p (fst (mark_reservation (p, d) b key))"
proof (cases "List.find (\<lambda>(k, h). hs_BMHRef (hr_Spec h) = b) (Map_Snapshot (hostReservations p))")
  case None
  then show ?thesis by (simp add: mark_reservation_def)
next
  case (Some e)
  obtain k h where e: "e = (k, h)" by (cases e)
  have m: "map_of (hostReservations p) k = Some h"
    using find_entry [of "hostReservations p"] Some e assms by (simp add: prov_wf_def)
  from Some e set_hr_view [OF m] show ?thesis by (simp add: mark_reservation_def quiet_def)
qed

lemma deferBMHUpdate_quiet:
  assumes "\<And>b. bmh_Name (f b) = bmh_Name b" and "\<And>b. bs_IP (bmh_Spec (f b)) = bs_IP (bmh_Spec b)"
  shows "quiet p (fst (deferBMHUpdate (p, d) k f))"
proof (cases "map_of (bareMetalHosts p) k")
  case None
  then show ?thesis by (simp add: deferBMHUpdate_def Map_Get_def)
next
  case (Some b)
  then show ?thesis using set_bmh_view [OF Some, of "f b"] assms by (simp add: deferBMHUpdate_def Map_Get_def quiet_def)
qed

lemma boot_mutation_view [simp]:
  "bmh_Name (boot_mutation r b) = bmh_Name b" "bs_IP (bmh_Spec (boot_mutation r b)) = bs_IP (bmh_Spec b)"
  by (simp_all add: boot_mutation_def Let_def)

lemma boot_host_quiet: "quiet p (fst (snd (boot_host (p, d) r b)))"
proof (cases "List.find (\<lambda>(k, x). bmh_Name x = b) (Map_Snapshot (bareMetalHosts p))")
  case None
  then show ?thesis by (simp add: boot_host_def)
next
  case (Some e)
  obtain k x where e: "e = (k, x)" by (cases e)
  obtain q d' where q: "deferBMHUpdate (p, d) k (boot_mutation r) = (q, d')" by (cases "deferBMHUpdate (p, d) k (boot_mutation r)")
  have "quiet p q" using deferBMHUpdate_quiet [of "boot_mutation r" p d k] q by simp
  moreover have "quiet q (enqueueBMCPowerEvent q y u v)" for y u v by (simp add: quiet_def)
  ultimately show ?thesis using Some e q by (auto simp: boot_host_def intro: quiet_trans)
qed

section \<open>One scheduling decision\<close>

text \<open>The job as the scheduler leaves it: same identity and spec, provisioning on the host.\<close>

definition assigned :: "job \<Rightarrow> string \<Rightarrow> job \<Rightarrow> bool" where
  "assigned j b j' \<longleftrightarrow> phase j' = ''Provisioning'' \<and> st_BMHRef (j_Status j') = b \<and> j_Spec j' = j_Spec j \<and>
     j_Namespace j' = j_Namespace j \<and> j_Name j' = j_Name j \<and> j_CreationTimestamp j' = j_CreationTimestamp j"

lemma jobKey_cong: "j_Namespace i = j_Namespace j \<Longrightarrow> j_Name i = j_Name j \<Longrightarrow> jobKey i = jobKey j"
  by (simp add: jobKey_def)

lemma prov_wf_set_job:
  assumes "prov_wf p" and "jobKey j = k"
  shows "prov_wf (set_job p k j)"
  using assms by (auto simp: prov_wf_def set_job_def split: if_splits)

lemma set_job_view [simp]: "same_view p (set_job p k j)" "jobs (set_job p k j) = AList.update k j (jobs p)"
  by (simp_all add: same_view_def set_job_def)

lemma update_update: "AList.update k v (AList.update k u m) = AList.update k v m"
  by (induction m) auto

lemma schedule_job_none:
  "map_of (jobs p) k = Some j \<Longrightarrow> host_for p (job_pool j) = None \<Longrightarrow> schedule_job now (p, d) k = (p, d)"
  by (simp add: schedule_job_def)

lemma schedule_job_some:
  assumes "prov_wf p" and "map_of (jobs p) k = Some j" and "host_for p (job_pool j) = Some (r, b)"
    and "schedule_job now (p, d) k = (p', d')"
  shows "\<exists>j'. assigned j b j' \<and> jobs p' = AList.update k j' (jobs p) \<and> same_view p p' \<and> prov_wf p'"
proof -
  let ?st = "(j_Status j)\<lparr>st_Phase := ''Scheduling'', st_RunnerRef := jr_Name r, st_BMHRef := b\<rparr>"
  let ?p0 = "set_job p k (j\<lparr>j_Status := ?st\<rparr>)"
  have key: "jobKey j = k" using assms(1,2) by (simp add: prov_wf_def)
  have w0: "prov_wf ?p0" by (rule prov_wf_set_job [OF assms(1)]) (use key in \<open>simp add: jobKey_def\<close>)
  obtain p1 d1 where 1: "mark_reservation (?p0, d) b (jobKey j) = (p1, d1)"
    by (cases "mark_reservation (?p0, d) b (jobKey j)")
  have q1: "quiet ?p0 p1" using mark_reservation_quiet [OF w0, of d b "jobKey j"] 1 by simp
  obtain ip p2 d2 where 2: "boot_host (p1, d1) r b = (ip, p2, d2)" by (metis prod_cases3)
  have q2: "quiet p1 p2" using boot_host_quiet [of p1 d1 r b] 2 by simp
  have q: "quiet ?p0 p2" using q1 q2 by (rule quiet_trans)
  let ?st2 = "case ip of None \<Rightarrow> ?st | Some a \<Rightarrow> ?st\<lparr>st_HostIP := a\<rparr>"
  let ?j = "j\<lparr>j_Status := ?st2\<lparr>st_Phase := ''Provisioning''\<rparr>\<rparr>"
  obtain m where p': "p' = appendRunnerEvent now (set_job p2 k ?j) (jr_Name r) m"
    using assms(2-4) 1 2 by (auto simp: schedule_job_def Let_def)
  have jobs': "jobs p' = AList.update k ?j (jobs p2)" unfolding p' by simp
  have v': "same_view p2 p'" unfolding p' by (simp add: same_view_def appendRunnerEvent_def set_job_def)
  have "jobs p' = AList.update k ?j (jobs p)"
    using jobs' q by (simp add: quiet_def update_update)
  moreover have "assigned j b ?j" by (simp add: assigned_def split: option.splits)
  moreover have "same_view p p'"
    using q v' same_view_trans [OF set_job_view(1) [of p k]] by (auto simp: quiet_def intro: same_view_trans)
  moreover have "prov_wf p'"
  proof (rule prov_wf_same_view)
    show "prov_wf (set_job p2 k ?j)"
      by (rule prov_wf_set_job [OF quiet_wf [OF w0 q]]) (use key in \<open>simp add: jobKey_def\<close>)
    show "same_view (set_job p2 k ?j) p'" "jobs p' = jobs (set_job p2 k ?j)" unfolding p' by simp_all
  qed
  ultimately show ?thesis by blast
qed

section \<open>Counting active jobs\<close>

definition pool_host_active :: "string \<Rightarrow> string \<Rightarrow> job \<Rightarrow> bool" where
  "pool_host_active pool b j \<longleftrightarrow> job_pool j = pool \<and> is_active j \<and> st_BMHRef (j_Status j) = b"

lemma bmhActive_eq: "bmhActive p pool b = int (length (filter (pool_host_active pool b) (map snd (jobs p))))"
  unfolding bmhActive_def pool_host_active_def [abs_def] Values_eq by simp

lemma assigned_active: "assigned j b j' \<Longrightarrow> is_active j' \<and> job_pool j' = job_pool j"
  by (simp add: assigned_def is_active_def)

lemma pending_inactive: "phase j = ''Pending'' \<Longrightarrow> \<not> is_active j"
  by (simp add: is_active_def)

lemma counts_after_assign:
  assumes "gm_wf (jobs p)" and "map_of (jobs p) k = Some j" and "phase j = ''Pending''" and "assigned j b j'"
    and "jobs p' = AList.update k j' (jobs p)"
  shows "active_in_pool p' pool = active_in_pool p pool + (if pool = job_pool j then 1 else 0)"
    and "bmhActive p' pool c = bmhActive p pool c + (if pool = job_pool j \<and> c = b then 1 else 0)"
proof -
  have a: "is_active j'" "job_pool j' = job_pool j" "st_BMHRef (j_Status j') = b" "\<not> is_active j"
    using assigned_active [OF assms(4)] assms(3,4) by (auto simp: assigned_def pending_inactive)
  show "active_in_pool p' pool = active_in_pool p pool + (if pool = job_pool j then 1 else 0)"
    using count_update [OF assms(1,2), of "\<lambda>i. job_pool i = pool \<and> is_active i" j'] a
    unfolding active_in_pool_def assms(5) Values_eq by auto
  show "bmhActive p' pool c = bmhActive p pool c + (if pool = job_pool j \<and> c = b then 1 else 0)"
    using count_update [OF assms(1,2), of "pool_host_active pool c" j'] a
    unfolding bmhActive_eq assms(5) by (auto simp: pool_host_active_def)
qed

text \<open>Scheduling only ever adds active jobs, and what it reads of hosts stays.\<close>

definition busier :: "provider \<Rightarrow> provider \<Rightarrow> bool" where
  "busier p q \<longleftrightarrow> set (hr_view (hostReservations q)) = set (hr_view (hostReservations p)) \<and>
     set (bmh_view (bareMetalHosts q)) = set (bmh_view (bareMetalHosts p)) \<and> set (jobRunners q) = set (jobRunners p) \<and>
     (\<forall>pool. active_in_pool p pool \<le> active_in_pool q pool) \<and>
     (\<forall>pool b. bmhActive p pool b \<le> bmhActive q pool b)"

lemma busier_refl [simp]: "busier p p"
  by (simp add: busier_def)

lemma busier_trans: "busier p q \<Longrightarrow> busier q r \<Longrightarrow> busier p r"
  unfolding busier_def by (metis (no_types, lifting) order_trans)

lemma busierD:
  assumes "busier p q"
  shows "set (jobRunners q) = set (jobRunners p)" and "active_in_pool p pool \<le> active_in_pool q pool"
    and "bmhActive p pool b \<le> bmhActive q pool b"
  using assms unfolding busier_def by blast+

lemma busier_view:
  "same_view p q \<Longrightarrow> (\<And>pool. active_in_pool p pool \<le> active_in_pool q pool) \<Longrightarrow>
   (\<And>pool b. bmhActive p pool b \<le> bmhActive q pool b) \<Longrightarrow> busier p q"
  by (simp add: busier_def same_view_def)

text \<open>The runners that may be chosen for a pool.\<close>

definition active_runners :: "provider \<Rightarrow> string \<Rightarrow> job_runner set" where
  "active_runners p pool = {r \<in> snd ` set (jobRunners p). rs_Pool (jr_Spec r) = pool \<and> rst_Phase (jr_Status r) = ''Active''}"

lemma runner_for_mem: "runner_for p pool = Some r \<Longrightarrow> r \<in> active_runners p pool"
  unfolding runner_for_def active_runners_def Values_eq using find_SomeD by fastforce

lemma runner_for_none: "runner_for p pool = None \<longleftrightarrow> active_runners p pool = {}"
  unfolding runner_for_def active_runners_def Values_eq find_None_ball by auto

lemma active_runners_cong: "set (jobRunners q) = set (jobRunners p) \<Longrightarrow> active_runners q pool = active_runners p pool"
  by (simp add: active_runners_def)

definition sole_runner :: "provider \<Rightarrow> string \<Rightarrow> bool" where
  "sole_runner p pool \<longleftrightarrow> (\<forall>r\<in>active_runners p pool. \<forall>r'\<in>active_runners p pool. r = r')"

lemma runner_for_sole:
  assumes "sole_runner p pool" and "set (jobRunners q) = set (jobRunners p)"
  shows "runner_for q pool = runner_for p pool"
proof (cases "runner_for p pool")
  case None
  then have "active_runners q pool = {}" using active_runners_cong [OF assms(2)] runner_for_none [of p pool] by simp
  then show ?thesis using None runner_for_none [of q pool] by simp
next
  case (Some r)
  note r = runner_for_mem [OF Some]
  then have "runner_for q pool \<noteq> None" using active_runners_cong [OF assms(2)] by (auto simp: runner_for_none)
  then obtain r' where r': "runner_for q pool = Some r'" by blast
  have "r' = r"
    using runner_for_mem [OF r'] r assms(1) unfolding active_runners_cong [OF assms(2)] sole_runner_def by blast
  with Some r' show ?thesis by simp
qed

lemma reordered_refl [simp]: "reordered p p"
  unfolding reordered_def by (intro exI [of _ "jobs p"] exI [of _ "hostReservations p"] exI [of _ "jobRunners p"]
      exI [of _ "bareMetalHosts p"]) simp

lemma reordered_facts:
  assumes "prov_wf p" and "reordered p q"
  shows "prov_wf q" and "map_of (jobs q) = map_of (jobs p)" and "busier p q" and "busier q p"
proof -
  obtain js hs rs bs where m: "mset js = mset (jobs p)" "mset hs = mset (hostReservations p)"
    "mset rs = mset (jobRunners p)" "mset bs = mset (bareMetalHosts p)"
    and q: "q = p\<lparr>jobs := js, hostReservations := hs, jobRunners := rs, bareMetalHosts := bs\<rparr>"
    using assms(2) unfolding reordered_def by blast
  have sets: "set js = set (jobs p)" "set hs = set (hostReservations p)" "set rs = set (jobRunners p)" "set bs = set (bareMetalHosts p)"
    using m by (auto dest: mset_eq_setD)
  have keys: "distinct (map fst xs) \<longleftrightarrow> distinct (map fst ys)" if "mset xs = mset ys" for xs ys :: "(string \<times> 'z) list"
    using that by (metis mset_eq_imp_distinct_iff mset_map)
  have gm: "gm_wf js" "gm_wf hs" "gm_wf rs" "gm_wf bs"
    using assms(1) keys [OF m(1)] keys [OF m(2)] keys [OF m(3)] keys [OF m(4)] by (simp_all add: prov_wf_def)
  show jobs: "map_of (jobs q) = map_of (jobs p)"
    using map_of_inject_set [of js "jobs p"] gm(1) sets(1) assms(1) by (simp add: q prov_wf_def)
  show "prov_wf q"
    using assms(1) gm jobs sets unfolding prov_wf_def by (simp add: q del: map_of_eq_Some_iff)
  have count: "length (filter P (map snd js)) = length (filter P (map snd (jobs p)))" for P
    by (metis m(1) mset_filter mset_map size_mset)
  have "active_in_pool q pool = active_in_pool p pool" "bmhActive q pool b = bmhActive p pool b" for pool b
    using count by (simp_all add: active_in_pool_def Values_eq bmhActive_eq q)
  moreover have "set (hr_view hs) = set (hr_view (hostReservations p))" "set (bmh_view bs) = set (bmh_view (bareMetalHosts p))"
    using sets by (simp_all add: hr_view_def bmh_view_def)
  ultimately show "busier p q" "busier q p" using sets by (simp_all add: busier_def q)
qed

definition reserved_host_free :: "provider \<Rightarrow> string \<Rightarrow> int \<Rightarrow> host_reservation \<Rightarrow> bool" where
  "reserved_host_free p pool mc h \<longleftrightarrow> hs_Pool (hr_Spec h) = pool \<and> hst_Phase (hr_Status h) = ''Active'' \<and>
     bmhActive p pool (hs_BMHRef (hr_Spec h)) < mc"

definition overflow_host_free :: "provider \<Rightarrow> string \<Rightarrow> int \<Rightarrow> bare_metal_host \<Rightarrow> bool" where
  "overflow_host_free p pool mc b \<longleftrightarrow>
     \<not> list_ex (\<lambda>h. hs_BMHRef (hr_Spec h) = bmh_Name b) (map snd (hostReservations p)) \<and> bmhActive p pool (bmh_Name b) < mc"

abbreviation host_limit :: "int \<Rightarrow> int" where
  "host_limit mc \<equiv> (if mc \<le> 0 then 1 else mc)"

lemma findAvailableHost_eq:
  "findAvailableHost p pool mc ovf =
     (case List.find (reserved_host_free p pool (host_limit mc)) (map snd (hostReservations p)) of
        Some h \<Rightarrow> hs_BMHRef (hr_Spec h)
      | None \<Rightarrow> if ovf then (case List.find (overflow_host_free p pool (host_limit mc)) (map snd (bareMetalHosts p)) of
                   Some b \<Rightarrow> bmh_Name b | None \<Rightarrow> '''') else '''')"
  unfolding findAvailableHost_def Let_def Values_eq reserved_host_free_def [abs_def] overflow_host_free_def [abs_def]
  by (rule refl)

lemma findAvailableHost_none:
  assumes "prov_wf p"
  shows "findAvailableHost p pool mc ovf = '''' \<longleftrightarrow>
    (\<forall>h\<in>snd ` set (hostReservations p). \<not> reserved_host_free p pool (host_limit mc) h) \<and>
    (ovf \<longrightarrow> (\<forall>b\<in>snd ` set (bareMetalHosts p). \<not> overflow_host_free p pool (host_limit mc) b))"
proof (cases "List.find (reserved_host_free p pool (host_limit mc)) (map snd (hostReservations p))")
  case (Some h)
  then have h: "h \<in> snd ` set (hostReservations p)" "reserved_host_free p pool (host_limit mc) h"
    using find_SomeD [OF Some] by auto
  then have "hs_BMHRef (hr_Spec h) \<noteq> ''''" using assms unfolding prov_wf_def by blast
  with h show ?thesis unfolding findAvailableHost_eq Some option.case by blast
next
  case None
  then have none: "\<forall>h\<in>snd ` set (hostReservations p). \<not> reserved_host_free p pool (host_limit mc) h"
    by (simp add: find_None_ball)
  show ?thesis
  proof (cases "List.find (overflow_host_free p pool (host_limit mc)) (map snd (bareMetalHosts p))")
    case (Some b)
    then have b: "b \<in> snd ` set (bareMetalHosts p)" "overflow_host_free p pool (host_limit mc) b"
      using find_SomeD [OF Some] by auto
    then have "bmh_Name b \<noteq> ''''" using assms unfolding prov_wf_def by blast
    with none b show ?thesis unfolding findAvailableHost_eq None Some option.case
      by (cases ovf) (simp_all only: if_True if_False simp_thms, blast+)
  next
    case o: None
    then have "\<forall>b\<in>snd ` set (bareMetalHosts p). \<not> overflow_host_free p pool (host_limit mc) b"
      by (simp add: find_None_ball)
    with none show ?thesis unfolding findAvailableHost_eq None o option.case by auto
  qed
qed

lemma findAvailableHost_free:
  assumes "findAvailableHost p pool mc ovf = b" and "b \<noteq> ''''"
  shows "bmhActive p pool b < host_limit mc"
proof (cases "List.find (reserved_host_free p pool (host_limit mc)) (map snd (hostReservations p))")
  case (Some h)
  then show ?thesis using find_SomeD [OF Some] assms unfolding findAvailableHost_eq
    by (auto simp: reserved_host_free_def)
next
  case None
  then obtain x where x: "List.find (overflow_host_free p pool (host_limit mc)) (map snd (bareMetalHosts p)) = Some x" "b = bmh_Name x"
    using assms unfolding findAvailableHost_eq by (auto split: option.splits if_splits)
  then show ?thesis using find_SomeD [OF x(1)] by (auto simp: overflow_host_free_def)
qed

lemma host_for_none_mono:
  assumes "prov_wf p" and "prov_wf q" and "busier p q" and "sole_runner p pool" and "host_for p pool = None"
  shows "host_for q pool = None"
proof (cases "runner_for p pool")
  case None
  then have "runner_for q pool = None" using None runner_for_sole [OF assms(4) busierD(1) [OF assms(3)]] by simp
  then show ?thesis by (simp add: host_for_def)
next
  case (Some r)
  have rq: "runner_for q pool = Some r" using Some runner_for_sole [OF assms(4) busierD(1) [OF assms(3)]] by simp
  let ?mc = "rs_MaxConcurrent (jr_Spec r)" and ?ovf = "rs_AllowOverflow (jr_Spec r)"
  have act: "active_in_pool p x \<le> active_in_pool q x" "bmhActive p x b \<le> bmhActive q x b" for x b
    using assms(3) by (auto simp: busier_def)
  show ?thesis
  proof (cases "?mc > 0 \<and> int (active_in_pool p (rs_Pool (jr_Spec r))) \<ge> ?mc")
    case True
    with act(1) [of "rs_Pool (jr_Spec r)"] rq show ?thesis by (simp add: host_for_def Let_def)
  next
    case False
    then have none: "findAvailableHost p pool ?mc ?ovf = ''''"
      using Some assms(5) by (auto simp: host_for_def Let_def split: if_splits)
    have hv: "set (hr_view (hostReservations q)) = set (hr_view (hostReservations p))"
      and bv: "set (bmh_view (bareMetalHosts q)) = set (bmh_view (bareMetalHosts p))"
      using assms(3) by (auto simp: busier_def)
    have h: "\<forall>h\<in>snd ` set (hostReservations q). \<not> reserved_host_free q pool (host_limit ?mc) h"
    proof -
      have "\<forall>h\<in>snd ` set (hostReservations p). \<not> (hs_Pool (hr_Spec h) = pool \<and> hst_Phase (hr_Status h) = ''Active'' \<and>
          bmhActive p pool (hs_BMHRef (hr_Spec h)) < host_limit ?mc)"
        using none findAvailableHost_none [OF assms(1)] unfolding reserved_host_free_def by blast
      then have "\<forall>h\<in>snd ` set (hostReservations q). \<not> (hs_Pool (hr_Spec h) = pool \<and> hst_Phase (hr_Status h) = ''Active'' \<and>
          bmhActive p pool (hs_BMHRef (hr_Spec h)) < host_limit ?mc)"
        using hr_view_ball [OF hv, of "\<lambda>s f. \<not> (hs_Pool s = pool \<and> f = ''Active'' \<and> bmhActive p pool (hs_BMHRef s) < host_limit ?mc)"] by blast
      then show ?thesis unfolding reserved_host_free_def using act(2) by (meson order.strict_trans1)
    qed
    have b: "\<forall>b\<in>snd ` set (bareMetalHosts q). \<not> overflow_host_free q pool (host_limit ?mc) b" if ?ovf
    proof -
      have res: "list_ex (\<lambda>h. hs_BMHRef (hr_Spec h) = n) (map snd (hostReservations q)) \<longleftrightarrow>
          list_ex (\<lambda>h. hs_BMHRef (hr_Spec h) = n) (map snd (hostReservations p))" for n
        using hr_view_ball [OF hv, of "\<lambda>s f. hs_BMHRef s \<noteq> n"] by (auto simp: list_ex_iff)
      have "\<forall>b\<in>snd ` set (bareMetalHosts p). \<not> (\<not> list_ex (\<lambda>h. hs_BMHRef (hr_Spec h) = bmh_Name b) (map snd (hostReservations p)) \<and>
          bmhActive p pool (bmh_Name b) < host_limit ?mc)"
        using none findAvailableHost_none [OF assms(1)] that unfolding overflow_host_free_def by blast
      then have "\<forall>b\<in>snd ` set (bareMetalHosts q). \<not> (\<not> list_ex (\<lambda>h. hs_BMHRef (hr_Spec h) = bmh_Name b) (map snd (hostReservations p)) \<and>
          bmhActive p pool (bmh_Name b) < host_limit ?mc)"
        using bmh_view_ball [OF bv, of "\<lambda>n. \<not> (\<not> list_ex (\<lambda>h. hs_BMHRef (hr_Spec h) = n) (map snd (hostReservations p)) \<and>
          bmhActive p pool n < host_limit ?mc)"] by blast
      then show ?thesis unfolding overflow_host_free_def res using act(2) by (meson order.strict_trans1)
    qed
    have "findAvailableHost q pool ?mc ?ovf = ''''" unfolding findAvailableHost_none [OF assms(2)] using h b by blast
    with rq show ?thesis by (simp add: host_for_def Let_def)
  qed
qed

section \<open>A pass over the pending jobs\<close>

lemma schedule_job_step:
  assumes "prov_wf p" and "map_of (jobs p) k = Some j" and "phase j = ''Pending''" and "schedule_job now (p, d) k = (p', d')"
  shows "prov_wf p'" and "busier p p'" and "\<And>i. i \<noteq> k \<Longrightarrow> map_of (jobs p') i = map_of (jobs p) i"
    and "(host_for p (job_pool j) = None \<and> p' = p) \<or>
         (\<exists>r b j'. host_for p (job_pool j) = Some (r, b) \<and> assigned j b j' \<and> jobs p' = AList.update k j' (jobs p))"
proof -
  have "prov_wf p' \<and> busier p p' \<and> (\<forall>i. i \<noteq> k \<longrightarrow> map_of (jobs p') i = map_of (jobs p) i) \<and>
    ((host_for p (job_pool j) = None \<and> p' = p) \<or>
     (\<exists>r b j'. host_for p (job_pool j) = Some (r, b) \<and> assigned j b j' \<and> jobs p' = AList.update k j' (jobs p)))"
  proof (cases "host_for p (job_pool j)")
    case None
    with schedule_job_none [OF assms(2) None] assms show ?thesis by simp
  next
    case (Some rb)
    obtain r b where rb: "rb = (r, b)" by (cases rb)
    with Some schedule_job_some [OF assms(1,2) _ assms(4)] obtain j' where
      j': "assigned j b j'" "jobs p' = AList.update k j' (jobs p)" "same_view p p'" "prov_wf p'" by blast
    have wf: "gm_wf (jobs p)" using assms(1) by (simp add: prov_wf_def)
    have "busier p p'"
      using counts_after_assign [OF wf assms(2,3) j'(1,2)] by (intro busier_view [OF j'(3)]) simp_all
    with j' Some rb show ?thesis by auto
  qed
  then show "prov_wf p'" "busier p p'" "\<And>i. i \<noteq> k \<Longrightarrow> map_of (jobs p') i = map_of (jobs p) i"
    "(host_for p (job_pool j) = None \<and> p' = p) \<or>
         (\<exists>r b j'. host_for p (job_pool j) = Some (r, b) \<and> assigned j b j' \<and> jobs p' = AList.update k j' (jobs p))"
    by blast+
qed

abbreviation sched_pass :: "instant \<Rightarrow> (string \<times> job) list \<Rightarrow> sched \<Rightarrow> sched" where
  "sched_pass now L \<equiv> fold (\<lambda>(k, j) s. schedule_job now s k) L"

definition pending_list :: "provider \<Rightarrow> (string \<times> job) list \<Rightarrow> bool" where
  "pending_list p L \<longleftrightarrow> distinct (map fst L) \<and> (\<forall>(k, j)\<in>set L. map_of (jobs p) k = Some j \<and> phase j = ''Pending'')"

lemma pending_list_Cons:
  assumes "pending_list p ((k, j) # L)" and "\<And>i. i \<noteq> k \<Longrightarrow> map_of (jobs q) i = map_of (jobs p) i"
  shows "pending_list q L"
proof -
  have "i \<noteq> k" if "(i, v) \<in> set L" for i v using assms(1) that by (force simp: pending_list_def)
  then show ?thesis using assms unfolding pending_list_def by fastforce
qed

lemma pending_list_same: "pending_list p L \<Longrightarrow> map_of (jobs q) = map_of (jobs p) \<Longrightarrow> pending_list q L"
  by (simp add: pending_list_def)

text \<open>The first job of a pass, in an order of the maps of its own.\<close>

lemma pass_first:
  assumes "prov_wf p" and "pending_list p ((k, j) # L)" and "pending_pass now ((k, j) # L) (p, d) t"
  obtains p0 q e where "reordered p p0" and "schedule_job now (p0, d) k = (q, e)" and "pending_pass now L (q, e) t"
    and "prov_wf p0" and "busier p p0" and "map_of (jobs p0) = map_of (jobs p)" and "map_of (jobs p0) k = Some j"
    and "phase j = ''Pending''" and "prov_wf q" and "pending_list q L" and "busier p0 q"
    and "\<And>i. i \<noteq> k \<Longrightarrow> map_of (jobs q) i = map_of (jobs p) i"
proof -
  from assms(3) obtain p0 where p0: "reordered p p0" and rest: "pending_pass now L (schedule_job now (p0, d) k) t"
    by (rule pass_jobE)
  obtain q e where q: "schedule_job now (p0, d) k = (q, e)" by (cases "schedule_job now (p0, d) k")
  note f = reordered_facts [OF assms(1) p0]
  have kj: "map_of (jobs p0) k = Some j" "phase j = ''Pending''" using assms(2) f(2) by (auto simp: pending_list_def)
  note st = schedule_job_step [OF f(1) kj q]
  have "pending_list q L"
    by (rule pending_list_Cons [OF pending_list_same [OF assms(2) f(2)] st(3)])
  then show thesis using that [OF p0 q _ f(1,3,2) kj st(1) _ st(2)] rest q st(3) f(2) by simp
qed

lemma pass_wf:
  assumes "pending_pass now L (p, d) (p', d')" and "prov_wf p" and "pending_list p L"
  shows "prov_wf p' \<and> busier p p' \<and> (\<forall>i. i \<notin> fst ` set L \<longrightarrow> map_of (jobs p') i = map_of (jobs p) i)"
  using assms
proof (induction L arbitrary: p d)
  case Nil
  then show ?case by (auto elim: pass_doneE)
next
  case (Cons e L)
  obtain k j where e: "e = (k, j)" by (cases e)
  obtain p0 q d1 where st: "pending_pass now L (q, d1) (p', d')" "busier p p0" "prov_wf q" "pending_list q L" "busier p0 q"
    "\<And>i. i \<noteq> k \<Longrightarrow> map_of (jobs q) i = map_of (jobs p) i"
    using pass_first [OF Cons.prems(2) Cons.prems(3) [unfolded e] Cons.prems(1) [unfolded e]] by metis
  from Cons.IH [OF st(1,3,4)] st(2,5,6) e show ?case by (auto intro: busier_trans)
qed

lemma fold_pass: "pending_pass now L s (sched_pass now L s)"
proof (induction L arbitrary: s)
  case (Cons e L)
  obtain k j p d where e: "e = (k, j)" "s = (p, d)" by (cases e, cases s)
  have "pending_pass now L (schedule_job now (p, d) k) (sched_pass now L (schedule_job now (p, d) k))" by (rule Cons.IH)
  then show ?case unfolding e by (simp add: pass_job [OF reordered_refl])
qed (simp add: pass_done)

lemma sched_pass_wf:
  assumes "prov_wf p" and "pending_list p L" and "sched_pass now L (p, d) = (p', d')"
  shows "prov_wf p' \<and> busier p p' \<and> (\<forall>i. i \<notin> fst ` set L \<longrightarrow> map_of (jobs p') i = map_of (jobs p) i)"
  using pass_wf [OF _ assms(1,2)] fold_pass [of now L "(p, d)"] assms(3) by simp

lemma pass_limits:
  assumes "pending_pass now L (p, d) (p', d')" and "prov_wf p" and "pending_list p L"
    and "\<And>r. r \<in> active_runners p pool \<Longrightarrow> host_limit (rs_MaxConcurrent (jr_Spec r)) \<le> M"
  shows "((\<forall>r\<in>active_runners p pool. 0 < rs_MaxConcurrent (jr_Spec r)) \<longrightarrow>
      int (active_in_pool p' pool) \<le> max (int (active_in_pool p pool)) M) \<and>
    bmhActive p' pool b \<le> max (bmhActive p pool b) M"
  using assms
proof (induction L arbitrary: p d)
  case Nil
  then show ?case by (auto elim: pass_doneE)
next
  case (Cons e L)
  obtain k j where e: "e = (k, j)" by (cases e)
  obtain p0 q d1 where q: "schedule_job now (p0, d) k = (q, d1)" "pending_pass now L (q, d1) (p', d')"
    and p0: "prov_wf p0" "busier p p0" "map_of (jobs p0) k = Some j" "phase j = ''Pending''" "reordered p p0"
    and st: "prov_wf q" "pending_list q L" "busier p0 q"
    using pass_first [OF Cons.prems(2) Cons.prems(3) [unfolded e] Cons.prems(1) [unfolded e]] by metis
  have runners: "active_runners p0 pool = active_runners p pool" "active_runners q pool = active_runners p pool"
    using active_runners_cong [OF busierD(1) [OF p0(2)]] active_runners_cong [OF busierD(1) [OF st(3)]] by simp_all
  have same: "active_in_pool p0 pool = active_in_pool p pool" "bmhActive p0 pool b = bmhActive p pool b"
    using busierD(2,3) [OF reordered_facts(3) [OF Cons.prems(2) p0(5)]] busierD(2,3) [OF reordered_facts(4) [OF Cons.prems(2) p0(5)]]
    by (simp_all add: antisym)
  have one: "((\<forall>r\<in>active_runners p pool. 0 < rs_MaxConcurrent (jr_Spec r)) \<longrightarrow>
      int (active_in_pool q pool) \<le> max (int (active_in_pool p pool)) M) \<and>
      bmhActive q pool b \<le> max (bmhActive p pool b) M"
    using schedule_job_step(4) [OF p0(1,3,4) q(1)]
  proof
    assume "\<exists>r c j'. host_for p0 (job_pool j) = Some (r, c) \<and> assigned j c j' \<and> jobs q = AList.update k j' (jobs p0)"
    then obtain r c j' where h: "host_for p0 (job_pool j) = Some (r, c)" "assigned j c j'" "jobs q = AList.update k j' (jobs p0)" by blast
    have wf: "gm_wf (jobs p0)" using p0(1) by (simp add: prov_wf_def)
    note cnt = counts_after_assign [OF wf p0(3,4) h(2,3), of pool]
    show ?thesis
    proof (cases "pool = job_pool j")
      case True
      let ?mc = "rs_MaxConcurrent (jr_Spec r)"
      have r: "r \<in> active_runners p pool" and "\<not> (?mc > 0 \<and> int (active_in_pool p0 (rs_Pool (jr_Spec r))) \<ge> ?mc)"
        and host: "findAvailableHost p0 pool ?mc (rs_AllowOverflow (jr_Spec r)) = c" "c \<noteq> []"
        using h(1) True runners(1) by (auto simp: host_for_def Let_def split: option.splits if_splits dest: runner_for_mem)
      moreover have "rs_Pool (jr_Spec r) = pool" using r by (simp add: active_runners_def)
      ultimately have "?mc > 0 \<longrightarrow> int (active_in_pool p pool) < ?mc" using same(1) by auto
      moreover have "bmhActive p pool c < host_limit ?mc"
        using order.strict_trans1 [OF busierD(3) [OF reordered_facts(3) [OF Cons.prems(2) p0(5)]] findAvailableHost_free [OF host]] .
      ultimately show ?thesis
        using cnt(1) cnt(2) [of b] True same Cons.prems(4) [OF r] r by (auto split: if_splits)
    next
      case False
      with cnt(1) cnt(2) [of b] same show ?thesis by simp
    qed
  qed (use same in simp)
  have "((\<forall>r\<in>active_runners p pool. 0 < rs_MaxConcurrent (jr_Spec r)) \<longrightarrow>
      int (active_in_pool p' pool) \<le> max (int (active_in_pool q pool)) M) \<and>
    bmhActive p' pool b \<le> max (bmhActive q pool b) M"
    using Cons.IH [OF q(2) st(1,2)] Cons.prems(4) unfolding runners(2) by blast
  with one show ?case by linarith
qed

text \<open>A pass in two parts.\<close>

lemma pass_append:
  "pending_pass now (L @ M) s t \<longleftrightarrow> (\<exists>u. pending_pass now L s u \<and> pending_pass now M u t)"
proof (induction L arbitrary: s)
  case Nil
  show ?case using pass_done [of now s] by (auto elim: pass_doneE simp del: split_paired_Ex)
next
  case (Cons e L)
  obtain k j p d where e: "e = (k, j)" "s = (p, d)" by (cases e, cases s)
  show ?case
  proof
    assume "pending_pass now ((e # L) @ M) s t"
    then have "pending_pass now ((k, j) # (L @ M)) (p, d) t" by (simp add: e)
    then obtain q where "reordered p q" "pending_pass now (L @ M) (schedule_job now (q, d) k) t" by (rule pass_jobE)
    with Cons.IH show "\<exists>u. pending_pass now (e # L) s u \<and> pending_pass now M u t" unfolding e by (blast intro: pass_job)
  next
    assume "\<exists>u. pending_pass now (e # L) s u \<and> pending_pass now M u t"
    then obtain u where u: "pending_pass now ((k, j) # L) (p, d) u" "pending_pass now M u t" unfolding e by blast
    from u(1) obtain q where "reordered p q" "pending_pass now L (schedule_job now (q, d) k) u" by (rule pass_jobE)
    then have "pending_pass now (L @ M) (schedule_job now (q, d) k) t" using Cons.IH u(2) by blast
    with \<open>reordered p q\<close> show "pending_pass now ((e # L) @ M) s t" unfolding e append_Cons by (rule pass_job)
  qed
qed

lemma pending_jobs_list: "prov_wf p \<Longrightarrow> pending_list p (pending_jobs p)"
proof -
  assume wf: "prov_wf p"
  let ?F = "filter (\<lambda>(k, j). phase j = ''Pending'') (jobs p)"
  have g: "gm_wf (jobs p)" using wf by (simp add: prov_wf_def)
  have eq: "pending_jobs p = sort_key (\<lambda>(k, j). pending_order j) ?F" using g by (simp add: pending_jobs_def)
  have "mset (map fst (sort_key (\<lambda>(k, j). pending_order j) ?F)) = mset (map fst ?F)" unfolding mset_map by simp
  moreover have "distinct (map fst ?F)" using g by (rule distinct_map_filter)
  ultimately have "distinct (map fst (pending_jobs p))" unfolding eq by (metis mset_eq_imp_distinct_iff)
  moreover have "map_of (jobs p) k = Some j \<and> phase j = ''Pending''" if "(k, j) \<in> set (pending_jobs p)" for k j
    using that g unfolding eq by auto
  ultimately show ?thesis unfolding pending_list_def by blast
qed

lemma sorted_before:
  assumes "sorted (map f L)" and "x \<in> set L" and "y \<in> set L" and "f x < f y"
  shows "\<exists>xs ys zs. L = xs @ x # ys @ y # zs"
proof -
  obtain xs r where L: "L = xs @ x # r" using assms(2) by (auto simp: in_set_conv_decomp)
  have "f z \<le> f x" if "z \<in> set xs" for z using assms(1) that unfolding L by (auto simp: sorted_append)
  then have "y \<notin> set xs" "y \<noteq> x" using assms(4) by (meson leD, auto)
  then have "y \<in> set r" using assms(3) L by auto
  then obtain ys zs where "r = ys @ y # zs" by (auto simp: in_set_conv_decomp)
  with L show ?thesis by blast
qed

lemma pending_list_append:
  assumes "prov_wf p" and "pending_list p (L @ M)" and "pending_pass now L (p, d) (q, e)"
  shows "pending_list q M"
proof -
  have pl: "pending_list p L" using assms(2) by (auto simp: pending_list_def)
  have "i \<notin> fst ` set L" if "(i, v) \<in> set M" for i v using assms(2) that by (force simp: pending_list_def)
  with pass_wf [OF assms(3,1) pl] assms(2) show ?thesis unfolding pending_list_def by fastforce
qed

lemma pending_in_order_list: "prov_wf p \<Longrightarrow> pending_in_order p L \<Longrightarrow> pending_list p L"
proof -
  assume wf: "prov_wf p" and L: "pending_in_order p L"
  let ?F = "filter (\<lambda>(k, j). phase j = ''Pending'') (jobs p)"
  have m: "mset L = mset ?F" using L by (simp add: pending_in_order_def)
  have g: "gm_wf (jobs p)" using wf by (simp add: prov_wf_def)
  then have "distinct (map fst ?F)" by (rule distinct_map_filter)
  moreover have "mset (map fst L) = mset (map fst ?F)" using m by (simp only: mset_map)
  ultimately have "distinct (map fst L)" by (metis mset_eq_imp_distinct_iff)
  moreover have "set L = set ?F" using m by (rule mset_eq_setD)
  ultimately show ?thesis using g by (auto simp: pending_list_def)
qed

lemma pending_jobs_in_order: "gm_wf (jobs p) \<Longrightarrow> pending_in_order p (pending_jobs p)"
  by (simp add: pending_in_order_def pending_jobs_def)

section \<open>Timeouts\<close>

lemma releaseJobHostDeferred_quiet:
  assumes "prov_wf p"
  shows "quiet p (fst (releaseJobHostDeferred (p, d) j))"
proof (cases "reservation_of p j")
  case None
  then show ?thesis by (simp add: releaseJobHostDeferred_def)
next
  case (Some e)
  obtain k h where e: "e = (k, h)" by (cases e)
  have m: "map_of (hostReservations p) k = Some h"
    using find_entry [of "hostReservations p"] Some e assms unfolding reservation_of_def by (simp add: prov_wf_def)
  from set_hr_view [OF m, of "clear_if_last n h" for n] Some e show ?thesis
    by (auto simp: releaseJobHostDeferred_def quiet_def clear_if_last_def)
qed

definition ended :: "instant \<Rightarrow> string \<Rightarrow> string \<Rightarrow> job \<Rightarrow> job" where
  "ended now ph msg j = j\<lparr>j_Status := (j_Status j)\<lparr>st_Phase := ph, st_CompletedAt := format_rfc3339 now, st_ErrorMessage := msg\<rparr>\<rparr>"

lemma end_job_effect:
  assumes "prov_wf p" and "jobKey j = k"
  shows "jobs (fst (end_job now (p, d) k j ph msg ev)) = AList.update k (ended now ph msg j) (jobs p) \<and>
    same_view p (fst (end_job now (p, d) k j ph msg ev)) \<and> prov_wf (fst (end_job now (p, d) k j ph msg ev))"
proof -
  let ?j = "ended now ph msg j"
  have w: "prov_wf (set_job p k ?j)"
    by (rule prov_wf_set_job [OF assms(1)]) (use assms(2) in \<open>simp add: ended_def jobKey_def\<close>)
  obtain q e where q: "releaseJobHostDeferred (set_job p k ?j, d) ?j = (q, e)" by (cases "releaseJobHostDeferred (set_job p k ?j, d) ?j")
  have qq: "quiet (set_job p k ?j) q" using releaseJobHostDeferred_quiet [OF w, of d ?j] q by simp
  let ?r = "fst (end_job now (p, d) k j ph msg ev)"
  have r: "?r = (if st_RunnerRef (j_Status ?j) \<noteq> '''' then appendRunnerEvent now q (st_RunnerRef (j_Status ?j)) ev else q)"
    using q by (simp add: end_job_def Let_def ended_def)
  have "quiet q ?r" unfolding r by (simp add: quiet_def)
  then have "quiet (set_job p k ?j) ?r" using qq by (rule quiet_trans [rotated])
  then show ?thesis
    using quiet_wf [OF w] same_view_trans [OF set_job_view(1)] by (auto simp: quiet_def)
qed

text \<open>What one of the three checks does to the jobs: it ends those that are due, nothing else.\<close>

locale timeout_check =
  fixes check :: "instant \<Rightarrow> string \<Rightarrow> sched \<Rightarrow> sched"
    and due :: "instant \<Rightarrow> job \<Rightarrow> bool"
    and ph :: string
    and msg :: "job \<Rightarrow> string"
  assumes check_due: "prov_wf p \<Longrightarrow> map_of (jobs p) k = Some j \<Longrightarrow> due now j \<Longrightarrow>
      jobs (fst (check now k (p, d))) = AList.update k (ended now ph (msg j) j) (jobs p) \<and>
      same_view p (fst (check now k (p, d))) \<and> prov_wf (fst (check now k (p, d)))"
    and check_not_due: "map_of (jobs p) k = Some j \<Longrightarrow> \<not> due now j \<Longrightarrow> check now k (p, d) = (p, d)"
    and check_missing: "map_of (jobs p) k = None \<Longrightarrow> check now k (p, d) = (p, d)"
begin

lemma check_one:
  assumes "prov_wf p"
  shows "prov_wf (fst (check now k (p, d))) \<and> same_view p (fst (check now k (p, d))) \<and>
    map_of (jobs (fst (check now k (p, d)))) i =
      (if i = k then map_option (\<lambda>j. if due now j then ended now ph (msg j) j else j) (map_of (jobs p) k) else map_of (jobs p) i)"
proof (cases "map_of (jobs p) k")
  case None
  with assms show ?thesis by (simp add: check_missing)
next
  case (Some j)
  show ?thesis
  proof (cases "due now j")
    case True
    from check_due [OF assms Some this] Some True show ?thesis by simp
  next
    case False
    from check_not_due [OF Some this] Some False assms show ?thesis by simp
  qed
qed

lemma check_all:
  assumes "prov_wf p" and "distinct ks"
  shows "prov_wf (fst (fold (check now) ks (p, d))) \<and> same_view p (fst (fold (check now) ks (p, d))) \<and>
    map_of (jobs (fst (fold (check now) ks (p, d)))) i =
      (if i \<in> set ks then map_option (\<lambda>j. if due now j then ended now ph (msg j) j else j) (map_of (jobs p) i) else map_of (jobs p) i)"
  using assms
proof (induction ks arbitrary: p d)
  case (Cons k ks)
  obtain q e where q: "check now k (p, d) = (q, e)" by (cases "check now k (p, d)")
  have one: "prov_wf q" "same_view p q"
    "\<And>i. map_of (jobs q) i = (if i = k then map_option (\<lambda>j. if due now j then ended now ph (msg j) j else j) (map_of (jobs p) k) else map_of (jobs p) i)"
    using check_one [OF Cons.prems(1), of now k d] q by auto
  have "distinct ks" "k \<notin> set ks" using Cons.prems(2) by auto
  from Cons.IH [OF one(1) this(1), of e] one this(2) q show ?case by (auto intro: same_view_trans)
qed simp

lemma check_jobs:
  assumes "prov_wf p"
  shows "prov_wf (fst (fold (check now) (Map_Keys (jobs p)) (p, d))) \<and>
    same_view p (fst (fold (check now) (Map_Keys (jobs p)) (p, d))) \<and>
    map_of (jobs (fst (fold (check now) (Map_Keys (jobs p)) (p, d)))) i =
      map_option (\<lambda>j. if due now j then ended now ph (msg j) j else j) (map_of (jobs p) i)"
proof -
  have d: "distinct (map fst (jobs p))" using assms by (simp add: prov_wf_def)
  have "map_of (jobs p) i = None" if "i \<notin> set (map fst (jobs p))"
    using that by (simp add: map_of_eq_None_iff)
  with check_all [OF assms d, of now _ i] show ?thesis by auto
qed

end

interpretation prov_to: timeout_check check_provisioning provisioning_overdue "''Failed''" "\<lambda>_. ''provisioning timeout exceeded''"
proof
  fix p k j now d
  assume a: "prov_wf p" "map_of (jobs p) k = Some j" "provisioning_overdue now j"
  then have "jobKey j = k" by (simp add: prov_wf_def)
  from end_job_effect [OF a(1) this] a show "jobs (fst (check_provisioning now k (p, d))) =
      AList.update k (ended now ''Failed'' ''provisioning timeout exceeded'' j) (jobs p) \<and>
      same_view p (fst (check_provisioning now k (p, d))) \<and> prov_wf (fst (check_provisioning now k (p, d)))"
    by (simp add: check_provisioning_def)
qed (simp_all add: check_provisioning_def)

interpretation run_to: timeout_check check_running running_overdue "''TimedOut''"
  "\<lambda>j. ''exceeded timeout of '' @ Itoa (js_Timeout (j_Spec j)) @ ''s''"
proof
  fix p k j now d
  assume a: "prov_wf p" "map_of (jobs p) k = Some j" "running_overdue now j"
  then have "jobKey j = k" by (simp add: prov_wf_def)
  from end_job_effect [OF a(1) this] a show "jobs (fst (check_running now k (p, d))) =
      AList.update k (ended now ''TimedOut'' (''exceeded timeout of '' @ Itoa (js_Timeout (j_Spec j)) @ ''s'') j) (jobs p) \<and>
      same_view p (fst (check_running now k (p, d))) \<and> prov_wf (fst (check_running now k (p, d)))"
    by (simp add: check_running_def)
qed (simp_all add: check_running_def)

interpretation hb_to: timeout_check check_heartbeat heartbeat_overdue "''Failed''"
  "\<lambda>_. ''heartbeat timeout '' @ em_dash @ '' agent may have crashed''"
proof
  fix p k j now d
  assume a: "prov_wf p" "map_of (jobs p) k = Some j" "heartbeat_overdue now j"
  then have "jobKey j = k" by (simp add: prov_wf_def)
  from end_job_effect [OF a(1) this] a show "jobs (fst (check_heartbeat now k (p, d))) =
      AList.update k (ended now ''Failed'' (''heartbeat timeout '' @ em_dash @ '' agent may have crashed'') j) (jobs p) \<and>
      same_view p (fst (check_heartbeat now k (p, d))) \<and> prov_wf (fst (check_heartbeat now k (p, d)))"
    by (simp add: check_heartbeat_def)
qed (simp_all add: check_heartbeat_def)

section \<open>Power management and cleanup\<close>

lemma fold_quiet:
  assumes "\<And>x s. x \<in> set xs \<Longrightarrow> quiet (fst s) (fst (f x s))"
  shows "quiet (fst s) (fst (fold f xs s))"
  using assms
proof (induction xs arbitrary: s)
  case (Cons x xs)
  have "quiet (fst s) (fst (f x s))" using Cons.prems by simp
  moreover have "quiet (fst (f x s)) (fst (fold f xs (f x s)))" using Cons by simp
  ultimately show ?case using quiet_trans by auto
qed simp

lemma power_event_quiet:
  assumes "\<And>b. bmh_Name (f b) = bmh_Name b" and "\<And>b. bs_IP (bmh_Spec (f b)) = bs_IP (bmh_Spec b)"
    and "deferBMHUpdate (p, d) k f = (q, e)"
  shows "quiet p (appendRunnerEvent now (enqueueBMCPowerEvent q b x y) r msg)"
proof -
  have "quiet p q" using deferBMHUpdate_quiet [OF assms(1,2), of p d k] assms(3) by simp
  moreover have "quiet q (enqueueBMCPowerEvent q b x y)" by (simp add: quiet_def)
  moreover have "quiet s (appendRunnerEvent now s r msg)" for s by (simp add: quiet_def)
  ultimately show ?thesis by (blast intro: quiet_trans)
qed

lemma power_off_host_quiet: "quiet (fst s) (fst (power_off_host now r hk bk s))"
proof -
  obtain p d where s: "s = (p, d)" by (cases s)
  let ?off = "\<lambda>b. b\<lparr>bmh_Spec := (bmh_Spec b)\<lparr>bs_Online := Some False\<rparr>\<rparr>"
  obtain q e where q: "deferBMHUpdate (p, d) bk ?off = (q, e)" by (cases "deferBMHUpdate (p, d) bk ?off")
  have "quiet p (appendRunnerEvent now (enqueueBMCPowerEvent q b x y) rn msg)" for b x y rn msg
    by (rule power_event_quiet [OF _ _ q]) simp_all
  then show ?thesis unfolding s power_off_host_def using q
    by (auto simp: Let_def split: option.splits)
qed

lemma power_on_host_quiet: "quiet (fst s) (fst (power_on_host now r hk bk s))"
proof -
  obtain p d where s: "s = (p, d)" by (cases s)
  let ?on = "\<lambda>b. b\<lparr>bmh_Spec := (bmh_Spec b)\<lparr>bs_Online := Some True\<rparr>\<rparr>"
  obtain q e where q: "deferBMHUpdate (p, d) bk ?on = (q, e)" by (cases "deferBMHUpdate (p, d) bk ?on")
  have "quiet p (appendRunnerEvent now (enqueueBMCPowerEvent q b x y) rn msg)" for b x y rn msg
    by (rule power_event_quiet [OF _ _ q]) simp_all
  then show ?thesis unfolding s power_on_host_def using q
    by (auto simp: Let_def split: option.splits)
qed

lemma checkIdleRunners_quiet: "quiet (fst s) (fst (checkIdleRunners tz now s))"
proof -
  have "quiet (fst s) (fst (check_idle_runner tz now r s))" for r s
    unfolding check_idle_runner_def Let_def by (auto intro!: fold_quiet power_off_host_quiet)
  then show ?thesis unfolding checkIdleRunners_def by (rule fold_quiet)
qed

lemma ensureScheduledHostsOnline_quiet: "quiet (fst s) (fst (ensureScheduledHostsOnline tz now s))"
  unfolding ensureScheduledHostsOnline_def by (rule fold_quiet) (auto intro!: fold_quiet power_on_host_quiet)

lemma fold_delete_jobs:
  "jobs (fold (\<lambda>key p. let p = deleteJobLogs p key in p\<lparr>jobs := Map_Delete (jobs p) key\<rparr>) ks p) =
     fold AList.delete ks (jobs p) \<and>
   same_view p (fold (\<lambda>key p. let p = deleteJobLogs p key in p\<lparr>jobs := Map_Delete (jobs p) key\<rparr>) ks p)"
proof (induction ks arbitrary: p)
  case (Cons k ks)
  let ?q = "(deleteJobLogs p k)\<lparr>jobs := Map_Delete (jobs (deleteJobLogs p k)) k\<rparr>"
  have "same_view p ?q" "jobs ?q = AList.delete k (jobs p)" by (simp_all add: same_view_def deleteJobLogs_def Map_Delete_def)
  with Cons.IH [of ?q] show ?case by (auto simp: Let_def intro: same_view_trans)
qed simp

lemma map_of_fold_delete: "map_of (fold AList.delete ks m) i = (if i \<in> set ks then None else map_of m i)"
  by (induction ks arbitrary: m) auto

lemma gm_wf_fold_delete: "gm_wf m \<Longrightarrow> gm_wf (fold AList.delete ks m)"
  by (induction ks arbitrary: m) auto

lemma autoCleanup_jobs:
  assumes "prov_wf p"
  shows "prov_wf (fst (autoCleanupOldJobs now (p, d))) \<and> same_view p (fst (autoCleanupOldJobs now (p, d))) \<and>
    map_of (jobs (fst (autoCleanupOldJobs now (p, d)))) i =
      (case map_of (jobs p) i of
         None \<Rightarrow> None
       | Some j \<Rightarrow> if cleanupTickCounter p + 1 \<ge> cleanupInterval \<and> expired_job (now - jobRetentionDefault) j then None else Some j)"
proof (cases "cleanupTickCounter p + 1 < cleanupInterval")
  case True
  then have e: "fst (autoCleanupOldJobs now (p, d)) = p\<lparr>cleanupTickCounter := cleanupTickCounter p + 1\<rparr>"
    by (simp add: autoCleanupOldJobs_def Let_def)
  have "quiet p (p\<lparr>cleanupTickCounter := cleanupTickCounter p + 1\<rparr>)" by (simp add: quiet_def same_view_def)
  then show ?thesis unfolding e using True quiet_wf [OF assms] by (auto simp: quiet_def split: option.splits)
next
  case False
  let ?q = "p\<lparr>cleanupTickCounter := 0\<rparr>"
  let ?ks = "map fst (filter (\<lambda>(k, j). expired_job (now - jobRetentionDefault) j) (jobs p))"
  let ?r = "fold (\<lambda>key p. let p = deleteJobLogs p key in p\<lparr>jobs := Map_Delete (jobs p) key\<rparr>) ?ks ?q"
  have wf: "gm_wf (jobs p)" using assms by (simp add: prov_wf_def)
  have e: "fst (autoCleanupOldJobs now (p, d)) = ?r" using False wf by (simp add: autoCleanupOldJobs_def Let_def)
  have j: "jobs ?r = fold AList.delete ?ks (jobs p)" and v: "same_view ?q ?r" using fold_delete_jobs [of ?ks ?q] by simp_all
  have v': "same_view p ?r" using v by (simp add: same_view_def)
  have mem: "i \<in> set ?ks \<longleftrightarrow> (\<exists>j. map_of (jobs p) i = Some j \<and> expired_job (now - jobRetentionDefault) j)" for i
    using wf by (force simp: image_iff)
  have m: "map_of (jobs ?r) i = (if i \<in> set ?ks then None else map_of (jobs p) i)" for i
    unfolding j by (rule map_of_fold_delete)
  have "prov_wf (?r\<lparr>jobs := jobs p\<rparr>)"
    by (rule prov_wf_same_view [OF assms]) (use v' in \<open>simp_all add: same_view_def\<close>)
  then have "prov_wf ?r"
    using m gm_wf_fold_delete [OF wf, of ?ks] j assms unfolding prov_wf_def by (simp split: if_splits)
  with v' m mem False show ?thesis unfolding e by (auto split: option.splits)
qed

section \<open>A whole cycle\<close>

text \<open>What the three checks make of a job.\<close>

definition timed_out :: "instant \<Rightarrow> job \<Rightarrow> job" where
  "timed_out now j =
     (let j = (if provisioning_overdue now j then ended now ''Failed'' ''provisioning timeout exceeded'' j else j);
          j = (if running_overdue now j
               then ended now ''TimedOut'' (''exceeded timeout of '' @ Itoa (js_Timeout (j_Spec j)) @ ''s'') j else j)
      in if heartbeat_overdue now j then ended now ''Failed'' (''heartbeat timeout '' @ em_dash @ '' agent may have crashed'') j else j)"

lemma ended_simps [simp]:
  "phase (ended now ph msg j) = ph" "j_Spec (ended now ph msg j) = j_Spec j"
  "j_CreationTimestamp (ended now ph msg j) = j_CreationTimestamp j"
  "st_CompletedAt (j_Status (ended now ph msg j)) = format_rfc3339 now"
  by (simp_all add: ended_def)

lemma overdue_phase:
  "provisioning_overdue now j \<Longrightarrow> phase j = ''Provisioning''" "running_overdue now j \<Longrightarrow> phase j = ''Running''"
  "heartbeat_overdue now j \<Longrightarrow> phase j = ''Running''"
  by (auto simp: provisioning_overdue_def running_overdue_def heartbeat_overdue_def)

lemma timed_out_cases:
  "timed_out now j = j \<or>
   (phase j \<in> {''Provisioning'', ''Running''} \<and> phase (timed_out now j) \<in> {''Failed'', ''TimedOut''} \<and>
    st_CompletedAt (j_Status (timed_out now j)) = format_rfc3339 now \<and> jobKey (timed_out now j) = jobKey j)"
proof -
  have "\<not> running_overdue now (ended now ph msg i)" "\<not> heartbeat_overdue now (ended now ph msg i)"
    if "ph \<noteq> ''Running''" for ph msg i
    using that overdue_phase(2,3) by fastforce+
  then show ?thesis
    using overdue_phase [of now j] unfolding timed_out_def Let_def by (auto simp: jobKey_def ended_def)
qed

lemma schedulePendingJobs_eq: "schedulePendingJobs now (p, d) = sched_pass now (pending_jobs p) (p, d)"
  by (simp add: schedulePendingJobs_def)

lemma schedulePendingJobs_wf:
  assumes "prov_wf p" and "schedulePendingJobs now (p, d) = (p', d')"
  shows "prov_wf p'" and "busier p p'" and "\<And>i. i \<notin> fst ` set (pending_jobs p) \<Longrightarrow> map_of (jobs p') i = map_of (jobs p) i"
  using sched_pass_wf [OF assms(1) pending_jobs_list [OF assms(1)]] assms(2) unfolding schedulePendingJobs_eq by blast+

lemma pending_mem: "prov_wf p \<Longrightarrow> (k, j) \<in> set (pending_jobs p) \<longleftrightarrow> map_of (jobs p) k = Some j \<and> phase j = ''Pending''"
  by (auto simp: pending_jobs_def prov_wf_def)

lemma sched_pass_job:
  assumes "prov_wf p" and "pending_list p L" and "sched_pass now L (p, d) = (p', d')" and "(k, j) \<in> set L"
  shows "map_of (jobs p') k = Some j \<or> (\<exists>b j'. assigned j b j' \<and> map_of (jobs p') k = Some j')"
  using assms
proof (induction L arbitrary: p d)
  case (Cons e L)
  obtain k' i where e: "e = (k', i)" by (cases e)
  obtain q d1 where q: "schedule_job now (p, d) k' = (q, d1)" by (cases "schedule_job now (p, d) k'")
  have ki: "map_of (jobs p) k' = Some i" "phase i = ''Pending''" using Cons.prems(2) e by (auto simp: pending_list_def)
  note st = schedule_job_step [OF Cons.prems(1) ki q]
  have pl: "pending_list q L" using pending_list_Cons Cons.prems(2) e st(3) by blast
  have run: "sched_pass now L (q, d1) = (p', d')" using Cons.prems(3) e q by simp
  show ?case
  proof (cases "(k, j) \<in> set L")
    case True
    from Cons.IH [OF st(1) pl run this] show ?thesis .
  next
    case False
    then have k: "k = k'" "j = i" using Cons.prems(4) e by auto
    have "k \<notin> fst ` set L" using Cons.prems(2) e k by (auto simp: pending_list_def)
    then have "map_of (jobs p') k = map_of (jobs q) k" using sched_pass_wf [OF st(1) pl run] by blast
    moreover have "map_of (jobs q) k = Some j \<or> (\<exists>b j'. assigned j b j' \<and> map_of (jobs q) k = Some j')"
      using st(4) ki k by auto
    ultimately show ?thesis by simp
  qed
qed simp

lemma schedulePendingJobs_job:
  assumes "prov_wf p" and "schedulePendingJobs now (p, d) = (p', d')" and "map_of (jobs p) k = Some j"
  shows "map_of (jobs p') k = Some j \<or> phase j = ''Pending'' \<and> (\<exists>b j'. assigned j b j' \<and> map_of (jobs p') k = Some j')"
proof (cases "phase j = ''Pending''")
  case True
  then have "(k, j) \<in> set (pending_jobs p)" using pending_mem [OF assms(1)] assms(3) by simp
  from sched_pass_job [OF assms(1) pending_jobs_list [OF assms(1)] _ this] assms(2) True show ?thesis
    unfolding schedulePendingJobs_eq by blast
next
  case False
  have "k \<notin> fst ` set (pending_jobs p)"
  proof
    assume "k \<in> fst ` set (pending_jobs p)"
    then obtain i where "(k, i) \<in> set (pending_jobs p)" by auto
    with pending_mem [OF assms(1)] assms(3) False show False by simp
  qed
  with schedulePendingJobs_wf(3) [OF assms(1,2)] assms(3) show ?thesis by simp
qed

lemma tick_jobs:
  assumes "prov_wf p" and "schedulePendingJobs now (p, no_deferred) = (p1, d1)"
  shows "prov_wf (fst (schedulerTick tz now p)) \<and>
    (map_of (jobs (fst (schedulerTick tz now p))) i = map_option (timed_out now) (map_of (jobs p1) i) \<or>
     map_of (jobs (fst (schedulerTick tz now p))) i = None \<and>
       (\<exists>j. map_of (jobs p1) i = Some j \<and> expired_job (now - jobRetentionDefault) (timed_out now j)))"
proof -
  have w1: "prov_wf p1" using schedulePendingJobs_wf(1) [OF assms] .
  obtain p2 d2 where 2: "checkProvisioningTimeouts now (p1, d1) = (p2, d2)" by (cases "checkProvisioningTimeouts now (p1, d1)")
  have c2: "prov_wf p2" "\<And>i. map_of (jobs p2) i = map_option (\<lambda>j. if provisioning_overdue now j then ended now ''Failed'' ''provisioning timeout exceeded'' j else j) (map_of (jobs p1) i)"
    using prov_to.check_jobs [OF w1, of now d1] 2 by (simp_all add: checkProvisioningTimeouts_def)
  obtain p3 d3 where 3: "checkRunningTimeouts now (p2, d2) = (p3, d3)" by (cases "checkRunningTimeouts now (p2, d2)")
  have c3: "prov_wf p3" "\<And>i. map_of (jobs p3) i = map_option (\<lambda>j. if running_overdue now j then ended now ''TimedOut'' (''exceeded timeout of '' @ Itoa (js_Timeout (j_Spec j)) @ ''s'') j else j) (map_of (jobs p2) i)"
    using run_to.check_jobs [OF c2(1), of now d2] 3 by (simp_all add: checkRunningTimeouts_def)
  obtain p4 d4 where 4: "checkHeartbeatTimeouts now (p3, d3) = (p4, d4)" by (cases "checkHeartbeatTimeouts now (p3, d3)")
  have c4: "prov_wf p4" "\<And>i. map_of (jobs p4) i = map_option (\<lambda>j. if heartbeat_overdue now j then ended now ''Failed'' (''heartbeat timeout '' @ em_dash @ '' agent may have crashed'') j else j) (map_of (jobs p3) i)"
    using hb_to.check_jobs [OF c3(1), of now d3] 4 by (simp_all add: checkHeartbeatTimeouts_def)
  have j4: "map_of (jobs p4) i = map_option (timed_out now) (map_of (jobs p1) i)"
    unfolding c4(2) c3(2) c2(2) by (cases "map_of (jobs p1) i") (simp_all add: timed_out_def Let_def)
  obtain p5 d5 where 5: "ensureScheduledHostsOnline tz now (checkIdleRunners tz now (p4, d4)) = (p5, d5)"
    by (cases "ensureScheduledHostsOnline tz now (checkIdleRunners tz now (p4, d4))")
  have "quiet p4 p5"
    using quiet_trans [OF checkIdleRunners_quiet [of "(p4, d4)" tz now] ensureScheduledHostsOnline_quiet [of _ tz now]] 5 by simp
  then have w5: "prov_wf p5" and j5: "jobs p5 = jobs p4" using quiet_wf [OF c4(1)] by (auto simp: quiet_def)
  have t: "schedulerTick tz now p = autoCleanupOldJobs now (p5, d5)"
    unfolding schedulerTick_def assms(2) 2 3 4 5 by simp
  show ?thesis
    unfolding t using autoCleanup_jobs [OF w5, of now d5 i] j4 j5
    by (auto split: option.splits if_splits)
qed

section \<open>Example objects\<close>

definition mk_job :: "string \<Rightarrow> string \<Rightarrow> int \<Rightarrow> instant \<Rightarrow> string \<Rightarrow> string \<Rightarrow> job" where
  "mk_job name pool prio created ph bmh =
     \<lparr>j_Namespace = ''ci'', j_Name = name, j_CreationTimestamp = created,
      j_Spec = \<lparr>js_Pool = pool, js_Priority = prio, js_Repo = '''', js_BuildScript = '''', js_BuildImage = '''',
        js_Script = ''make'', js_Image = '''', js_Env = [], js_Timeout = 0, js_Labels = [], js_Artifacts = []\<rparr>,
      j_Status = \<lparr>st_Phase = ph, st_BMHRef = bmh, st_RunnerRef = '''', st_HostIP = '''', st_StartedAt = NoStamp,
        st_CompletedAt = NoStamp, st_ExitCode = None, st_ErrorMessage = '''', st_LogLines = 0, st_LastHeartbeat = NoStamp\<rparr>\<rparr>"

definition mk_runner :: "string \<Rightarrow> string \<Rightarrow> int \<Rightarrow> bool \<Rightarrow> job_runner" where
  "mk_runner name pool mc ovf =
     \<lparr>jr_Name = name, jr_CreationTimestamp = 1,
      jr_Spec = \<lparr>rs_Pool = pool, rs_BootConfigRef = '''', rs_Template = ''agent.ign'', rs_Image = '''', rs_IdleTimeout = 0,
        rs_ReclaimPolicy = ''PowerOff'', rs_AllowOverflow = ovf, rs_MaxConcurrent = mc, rs_Labels = [], rs_Schedule = None\<rparr>,
      jr_Status = \<lparr>rst_Phase = ''Active'', rst_ReservedHosts = 0, rst_ActiveJobs = 0, rst_TotalCompleted = 0, rst_TotalFailed = 0\<rparr>\<rparr>"

definition mk_reservation :: "string \<Rightarrow> string \<Rightarrow> string \<Rightarrow> host_reservation" where
  "mk_reservation name bmh pool =
     \<lparr>hr_Namespace = ''ci'', hr_Name = name, hr_CreationTimestamp = 1,
      hr_Spec = \<lparr>hs_BMHRef = bmh, hs_Pool = pool, hs_Owner = '''', hs_Purpose = '''', hs_ExpiresAt = NoStamp\<rparr>,
      hr_Status = \<lparr>hst_Phase = ''Active'', hst_BMHNetwork = '''', hst_BMHIP = '''', hst_ActiveJob = '''',
        hst_ReservedAt = NoStamp, hst_AgentEnv = None\<rparr>\<rparr>"

definition mk_host :: "string \<Rightarrow> string \<Rightarrow> bare_metal_host" where
  "mk_host name addr =
     \<lparr>bmh_Namespace = ''bm'', bmh_Name = name, bmh_Annotations = [],
      bmh_Spec = \<lparr>bs_BMC = \<lparr>bmc_Address = '''', bmc_Username = '''', bmc_Password = ''''\<rparr>, bs_BootMACAddress = '''',
        bs_Online = Some True, bs_Image = '''', bs_Network = ''g10'', bs_IP = addr, bs_BootConfigRef = '''', bs_Template = ''''\<rparr>\<rparr>"

definition mk_provider ::
  "job list \<Rightarrow> job_runner list \<Rightarrow> host_reservation list \<Rightarrow> bare_metal_host list \<Rightarrow> provider" where
  "mk_provider js rs hs bs =
     \<lparr>jobs = map (\<lambda>j. (jobKey j, j)) js, hostReservations = map (\<lambda>h. (hr_Namespace h @ ''/'' @ hr_Name h, h)) hs,
      jobRunners = map (\<lambda>r. (jr_Name r, r)) rs, bareMetalHosts = map (\<lambda>b. (bmh_Namespace b @ ''/'' @ bmh_Name b, b)) bs,
      bootConfigs = [], cleanupTickCounter = 0, jobLogBuf = newJobLogStore, runnerLogBuf = newJobLogStore,
      kickScheduler = False, bmcController = False, bmc_events = [], store_jobs = Some [], store_jobLogs = Some [],
      store_hostReservations = Some [], store_jobRunners = Some [], store_bareMetalHosts = Some [], io_ok = \<lambda>_. True\<rparr>"

lemma keyed_keys: "map fst (map (\<lambda>x. (f x, x)) xs) = map f xs"
  by (induction xs) simp_all

lemma keyed_snd: "snd ` set (map (\<lambda>x. (f x, x)) xs) = set xs"
  by force

lemma keyed_map_of: "map_of (map (\<lambda>x. (f x, x)) xs) k = Some x \<Longrightarrow> f x = k"
  using map_of_SomeD [of "map (\<lambda>x. (f x, x)) xs" k x] by force

lemma mk_provider_wf:
  assumes "distinct (map jobKey js)" and "distinct (map (\<lambda>h. hr_Namespace h @ ''/'' @ hr_Name h) hs)"
    and "distinct (map (\<lambda>b. bmh_Namespace b @ ''/'' @ bmh_Name b) bs)" and "distinct (map jr_Name rs)"
    and "\<forall>h\<in>set hs. hs_BMHRef (hr_Spec h) \<noteq> ''''" and "\<forall>b\<in>set bs. bmh_Name b \<noteq> ''''"
  shows "prov_wf (mk_provider js rs hs bs)"
  unfolding prov_wf_def mk_provider_def provider.select_convs keyed_keys keyed_snd
  using assms keyed_map_of [of jobKey js] by blast

section \<open>Properties\<close>


definition two_jobs :: provider where
  "two_jobs = mk_provider [mk_job ''low'' ''build'' 1 5 ''Pending'' '''', mk_job ''high'' ''build'' 7 9 ''Pending'' '''']
     [mk_runner ''r'' ''build'' 2 False] [mk_reservation ''h'' ''s1'' ''build''] [mk_host ''s1'' ''10.0.0.5'']"

lemma two_jobs_wf: "prov_wf two_jobs"
  unfolding two_jobs_def
  by (rule mk_provider_wf) (simp_all add: mk_job_def jobKey_def mk_reservation_def mk_host_def)


text \<open>
  With two active runners of different limits the order does matter: a job of high priority may meet the
  runner with the smaller limit and stay, and a later one the runner with the larger limit and start.
\<close>

definition two_runners :: provider where
  "two_runners = mk_provider
     [mk_job ''run'' ''build'' 1 1 ''Running'' ''s1'', mk_job ''low'' ''build'' 1 5 ''Pending'' [],
      mk_job ''high'' ''build'' 7 9 ''Pending'' []]
     [mk_runner ''small'' ''build'' 1 False, mk_runner ''big'' ''build'' 2 False]
     [mk_reservation ''h'' ''s1'' ''build''] [mk_host ''s1'' ''10.0.0.5'']"

lemma two_runners_invert:
  "\<exists>p' d'. pending_pass 20 (pending_jobs two_runners) (two_runners, no_deferred) (p', d') \<and>
     map_option phase (map_of (jobs p') ''ci/high'') = Some ''Pending'' \<and>
     map_option phase (map_of (jobs p') ''ci/low'') = Some ''Provisioning''"
proof -
  let ?high = "mk_job ''high'' ''build'' 7 9 ''Pending'' []" and ?low = "mk_job ''low'' ''build'' 1 5 ''Pending'' []"
  let ?q = "two_runners\<lparr>jobRunners := rev (jobRunners two_runners)\<rparr>"
  let ?s = "schedule_job 20 (?q, no_deferred) ''ci/low''"
  have L: "map fst (pending_jobs two_runners) = [''ci/high'', ''ci/low'']" by code_simp
  then obtain i j where L': "pending_jobs two_runners = [(''ci/high'', i), (''ci/low'', j)]" by auto
  have m: "map_of (jobs two_runners) ''ci/high'' = Some ?high"
    by (simp add: two_runners_def mk_provider_def jobKey_def mk_job_def)
  have "host_for two_runners ''build'' = None" by code_simp
  then have first: "schedule_job 20 (two_runners, no_deferred) ''ci/high'' = (two_runners, no_deferred)"
    using schedule_job_none [OF m] by (simp add: mk_job_def)
  have q: "reordered two_runners ?q"
    unfolding reordered_def
    by (intro exI [of _ "jobs two_runners"] exI [of _ "hostReservations two_runners"]
        exI [of _ "rev (jobRunners two_runners)"] exI [of _ "bareMetalHosts two_runners"]) simp
  have "pending_pass 20 [(''ci/low'', j)] (two_runners, no_deferred) ?s"
    by (rule pass_job [OF q pass_done])
  then have "pending_pass 20 (pending_jobs two_runners) (two_runners, no_deferred) (fst ?s, snd ?s)"
    unfolding L' using pass_job [OF reordered_refl] first by simp
  moreover have "map_option phase (map_of (jobs (fst ?s)) ''ci/high'') = Some ''Pending''" by code_simp
  moreover have "map_option phase (map_of (jobs (fst ?s)) ''ci/low'') = Some ''Provisioning''" by code_simp
  ultimately show ?thesis by blast
qed

text \<open>
  C18. The concurrency limits hold, in whatever order the maps are ranged over for each job: if the limits
  of all active runners of a pool (\<open>maxConcurrent\<close>, or one when it is not set) are at most \<open>M\<close>, a scheduling
  pass never raises the number of active jobs of that pool on one host above \<open>M\<close>, nor, when every one of these
  runners sets \<open>maxConcurrent\<close>, the number of active jobs of the pool; a count that is already above \<open>M\<close> does
  not grow.
\<close>

theorem scheduler_limits:
  assumes "prov_wf p" and "pending_in_order p L" and "pending_pass now L (p, d) (p', d')"
    and "\<forall>r\<in>active_runners p pool. (if rs_MaxConcurrent (jr_Spec r) \<le> 0 then 1 else rs_MaxConcurrent (jr_Spec r)) \<le> M"
  shows "((\<forall>r\<in>active_runners p pool. 0 < rs_MaxConcurrent (jr_Spec r)) \<longrightarrow>
      int (active_in_pool p' pool) \<le> max (int (active_in_pool p pool)) M) \<and>
    bmhActive p' pool b \<le> max (bmhActive p pool b) M"
  by (rule pass_limits [OF assms(3,1) pending_in_order_list [OF assms(1,2)]]) (use assms(4) in blast)

theorem scheduler_limits_witness:
  "active_runners two_jobs ''build'' = {mk_runner ''r'' ''build'' 2 False} \<and>
   active_in_pool (fst (schedulePendingJobs 20 (two_jobs, no_deferred))) ''build'' \<le> 2"
proof -
  have r: "active_runners two_jobs ''build'' = {mk_runner ''r'' ''build'' 2 False}"
    by (auto simp: active_runners_def two_jobs_def mk_provider_def mk_runner_def)
  have g: "gm_wf (jobs two_jobs)" using two_jobs_wf by (simp add: prov_wf_def)
  have pass: "pending_pass 20 (pending_jobs two_jobs) (two_jobs, no_deferred)
      (fst (schedulePendingJobs 20 (two_jobs, no_deferred)), snd (schedulePendingJobs 20 (two_jobs, no_deferred)))"
    using fold_pass [of 20 "pending_jobs two_jobs" "(two_jobs, no_deferred)"] by (simp add: schedulePendingJobs_eq)
  have "active_in_pool two_jobs ''build'' = 0" by code_simp
  with scheduler_limits [OF two_jobs_wf pending_jobs_in_order [OF g] pass, of "''build''" 2] r show ?thesis
    by (simp add: mk_runner_def)
qed

text \<open>
  The limit of a host counts the jobs of one pool only: when two pools allow overflow, an
  unreserved host that already runs a job of another pool is still handed out, so the host ends up
  with more active jobs than either pool's limit.
\<close>

theorem overflow_host_shared_by_pools:
  assumes "bmh_Name b \<noteq> ''''" and "map snd (bareMetalHosts p) = [b]" and "hostReservations p = []"
    and "runner_for p pool = Some r" and "rs_AllowOverflow (jr_Spec r)"
    and "active_in_pool p pool = 0"
  shows "host_for p pool = Some (r, bmh_Name b)"
proof -
  have pool: "rs_Pool (jr_Spec r) = pool" using runner_for_mem [OF assms(4)] by (simp add: active_runners_def)
  have "filter (\<lambda>j. job_pool j = pool \<and> is_active j) (map snd (jobs p)) = []"
    using assms(6) unfolding active_in_pool_def Values_eq by (simp only: length_0_conv)
  then have "filter (pool_host_active pool (bmh_Name b)) (map snd (jobs p)) = []"
    by (auto simp: filter_empty_conv pool_host_active_def)
  then have "bmhActive p pool (bmh_Name b) = 0" by (simp only: bmhActive_eq list.size)
  then have "findAvailableHost p pool (rs_MaxConcurrent (jr_Spec r)) True = bmh_Name b"
    using assms(2,3) by (simp add: findAvailableHost_eq overflow_host_free_def)
  then show ?thesis using assms pool by (simp add: host_for_def Let_def)
qed

definition two_pools :: provider where
  "two_pools = mk_provider [mk_job ''a'' ''p1'' 1 5 ''Running'' ''s1'', mk_job ''b'' ''p2'' 1 6 ''Pending'' '''']
     [mk_runner ''r1'' ''p1'' 1 True, mk_runner ''r2'' ''p2'' 1 True] [] [mk_host ''s1'' ''10.0.0.5'']"

theorem overflow_host_shared_by_pools_witness:
  "host_for two_pools ''p2'' = Some (mk_runner ''r2'' ''p2'' 1 True, ''s1'') \<and>
   map_option (\<lambda>j. (phase j, st_BMHRef (j_Status j))) (map_of (jobs (fst (schedulePendingJobs 20 (two_pools, no_deferred)))) ''ci/b'') =
     Some (''Provisioning'', ''s1'') \<and>
   map_option (\<lambda>j. (phase j, st_BMHRef (j_Status j))) (map_of (jobs (fst (schedulePendingJobs 20 (two_pools, no_deferred)))) ''ci/a'') =
     Some (''Running'', ''s1'')"
proof -
  have r: "runner_for two_pools ''p2'' = Some (mk_runner ''r2'' ''p2'' 1 True)"
    by (simp add: runner_for_def two_pools_def mk_provider_def mk_runner_def)
  have a: "active_in_pool two_pools ''p2'' = 0" by code_simp
  have "host_for two_pools ''p2'' = Some (mk_runner ''r2'' ''p2'' 1 True, bmh_Name (mk_host ''s1'' ''10.0.0.5''))"
    by (rule overflow_host_shared_by_pools [OF _ _ _ r _ a])
      (simp_all add: two_pools_def mk_provider_def mk_host_def mk_runner_def)
  moreover have "map_option (\<lambda>j. (phase j, st_BMHRef (j_Status j))) (map_of (jobs (fst (schedulePendingJobs 20 (two_pools, no_deferred)))) ''ci/b'') =
     Some (''Provisioning'', ''s1'')" by code_simp
  moreover have "map_option (\<lambda>j. (phase j, st_BMHRef (j_Status j))) (map_of (jobs (fst (schedulePendingJobs 20 (two_pools, no_deferred)))) ''ci/a'') =
     Some (''Running'', ''s1'')" by code_simp
  ultimately show ?thesis by (simp add: mk_host_def)
qed

end
