(* ===== verification/JobApi.thy ===== *)
theory JobApi
  imports JobScheduler
begin

text \<open>
  The job handlers of \<open>job_crd.go\<close>: create, update, patch, delete, cancel, cleanup, the queue, and the
  four endpoints of the agents. An agent is known by its source address, which \<open>net.SplitHostPort\<close>
  has cut from the connection; bodies and patches are as in the theory \<open>JobRunner\<close>.
\<close>

section \<open>Reading\<close>

definition handleListAllJobs :: "provider \<Rightarrow> job list response" where
  "handleListAllJobs p = HttpOk 200 (Map_Values (jobs p))"

definition handleListNamespacedJobs :: "provider \<Rightarrow> string \<Rightarrow> job list response" where
  "handleListNamespacedJobs p ns = HttpOk 200 (filter (\<lambda>j. j_Namespace j = ns) (Map_Values (jobs p)))"

definition handleGetJob :: "provider \<Rightarrow> string \<Rightarrow> string \<Rightarrow> job response" where
  "handleGetJob p ns name =
     (case Map_Get (jobs p) (ns @ ''/'' @ name) of None \<Rightarrow> HttpError 404 | Some j \<Rightarrow> HttpOk 200 j)"

definition handleGetJobQueue :: "provider \<Rightarrow> job list response" where
  "handleGetJobQueue p =
     HttpOk 200 (sort_key pending_order (filter (\<lambda>j. phase j = ''Pending'') (Map_Values (jobs p))))"

definition handleGetJobLogs :: "provider \<Rightarrow> string \<Rightarrow> string \<Rightarrow> string list response" where
  "handleGetJobLogs p ns name =
     (if \<not> Map_Has (jobs p) (ns @ ''/'' @ name) then HttpError 404
      else HttpOk 200 (getJobLogs p (ns @ ''/'' @ name)))"

section \<open>Creating, changing, deleting\<close>

definition handleCreateJob :: "instant \<Rightarrow> provider \<Rightarrow> string \<Rightarrow> job option \<Rightarrow> job response \<times> provider" where
  "handleCreateJob now p ns body =
     (case body of
        None \<Rightarrow> (HttpError 400, p)
      | Some j \<Rightarrow>
          if j_Name j = '''' then (HttpError 400, p)
          else
            (let j = j\<lparr>j_Namespace := ns\<rparr>;
                 key = ns @ ''/'' @ j_Name j;
                 hasBuild = (js_Repo (j_Spec j) \<noteq> '''' \<and> js_BuildScript (j_Spec j) \<noteq> '''');
                 hasScript = (js_Script (j_Spec j) \<noteq> '''')
             in if Map_Has (jobs p) key then (HttpError 409, p)
                else if job_pool j = '''' then (HttpError 400, p)
                else if \<not> hasBuild \<and> \<not> hasScript then (HttpError 400, p)
                else if hasBuild \<and> js_Repo (j_Spec j) \<noteq> '''' \<and> js_BuildScript (j_Spec j) = '''' then (HttpError 400, p)
                else if \<not> list_ex (\<lambda>r. rs_Pool (jr_Spec r) = job_pool j) (Map_Values (jobRunners p)) then (HttpError 400, p)
                else
                  (let j = (if j_CreationTimestamp j = zero_time then j\<lparr>j_CreationTimestamp := now\<rparr> else j);
                       j = (if phase j = '''' then j\<lparr>j_Status := (j_Status j)\<lparr>st_Phase := ''Pending''\<rparr>\<rparr> else j)
                   in (HttpOk 201 j, triggerScheduler (set_job (persistJob p j) key j)))))"

text \<open>A job reset to Pending loses its log buffer and its stored log.\<close>

definition clear_logs_on_reset :: "provider \<Rightarrow> string \<Rightarrow> job \<Rightarrow> job \<Rightarrow> provider" where
  "clear_logs_on_reset p key old j =
     (if phase j = ''Pending'' \<and> phase old \<noteq> ''Pending''
      then (let p = deleteJobLogs p key
            in p\<lparr>store_jobLogs := snd (del_bucket (io_ok p) (store_jobLogs p) (slash_to_dot key))\<rparr>)
      else p)"

definition handleUpdateJob :: "provider \<Rightarrow> string \<Rightarrow> string \<Rightarrow> job option \<Rightarrow> job response \<times> provider" where
  "handleUpdateJob p ns name body =
     (let key = ns @ ''/'' @ name in
      case Map_Get (jobs p) key of
        None \<Rightarrow> (HttpError 404, p)
      | Some old \<Rightarrow>
          (case body of
             None \<Rightarrow> (HttpError 400, p)
           | Some j \<Rightarrow>
               (let j = j\<lparr>j_Name := name, j_Namespace := ns\<rparr>;
                    j = (if j_CreationTimestamp j = zero_time then j\<lparr>j_CreationTimestamp := j_CreationTimestamp old\<rparr> else j);
                    j = (if phase j = '''' then j\<lparr>j_Status := j_Status old\<rparr> else j);
                    p = clear_logs_on_reset p key old j
                in (HttpOk 200 j, triggerScheduler (set_job (persistJob p j) key j)))))"

definition handlePatchJob :: "provider \<Rightarrow> string \<Rightarrow> string \<Rightarrow> (job \<Rightarrow> job option) \<Rightarrow> job response \<times> provider" where
  "handlePatchJob p ns name patch =
     (let key = ns @ ''/'' @ name in
      case Map_Get (jobs p) key of
        None \<Rightarrow> (HttpError 404, p)
      | Some existing \<Rightarrow>
          (case patch existing of
             None \<Rightarrow> (HttpError 400, p)
           | Some merged \<Rightarrow>
               (let merged = merged\<lparr>j_Name := name, j_Namespace := ns, j_CreationTimestamp := j_CreationTimestamp existing\<rparr>;
                    p = clear_logs_on_reset p key existing merged
                in (HttpOk 200 merged, triggerScheduler (set_job (persistJob p merged) key merged)))))"

definition handleDeleteJob :: "provider \<Rightarrow> string \<Rightarrow> string \<Rightarrow> unit response \<times> provider" where
  "handleDeleteJob p ns name =
     (let key = ns @ ''/'' @ name in
      case Map_Get (jobs p) key of
        None \<Rightarrow> (HttpError 404, p)
      | Some j \<Rightarrow>
          if phase j = ''Running'' \<or> phase j = ''Provisioning'' \<or> phase j = ''Scheduling'' then (HttpError 409, p)
          else
            (let p = deleteJobLogs p key in
             case del_bucket (io_ok p) (store_jobs p) (store_key ns name) of
               (False, b) \<Rightarrow> (HttpError 500, p)
             | (True, b) \<Rightarrow>
                 (HttpOk 200 (),
                  p\<lparr>store_jobs := b, store_jobLogs := snd (del_bucket (io_ok p) (store_jobLogs p) (store_key ns name)),
                    jobs := Map_Delete (jobs p) key\<rparr>)))"

definition releaseJobHost :: "provider \<Rightarrow> job \<Rightarrow> provider" where
  "releaseJobHost p j =
     (if st_BMHRef (j_Status j) = '''' then p
      else
        (case reservation_of p j of
           None \<Rightarrow> p
         | Some (k, h) \<Rightarrow>
             (let h = clear_if_last (remaining_on_host p j) h in persistHostReservation (set_hr p k h) h)))"

definition handleCancelJob :: "instant \<Rightarrow> provider \<Rightarrow> string \<Rightarrow> string \<Rightarrow> job response \<times> provider" where
  "handleCancelJob now p ns name =
     (let key = ns @ ''/'' @ name in
      case Map_Get (jobs p) key of
        None \<Rightarrow> (HttpError 404, p)
      | Some j \<Rightarrow>
          if is_terminal j then (HttpError 409, p)
          else
            (let j = j\<lparr>j_Status := (j_Status j)\<lparr>st_Phase := ''Cancelled'', st_CompletedAt := format_rfc3339 now,
                                               st_ErrorMessage := ''cancelled by user''\<rparr>\<rparr>;
                 p = releaseJobHost (set_job p key j) j
             in (HttpOk 200 j, persistJob p j)))"

text \<open>
  Bulk cleanup. \<open>threshold\<close> is what \<open>parseDuration\<close> makes of the query (\<open>None\<close>: an error); days are
  parsed by \<open>Sscanf\<close>, other units by \<open>time.ParseDuration\<close>, which is the argument \<open>pd\<close>.
\<close>

definition parseDuration :: "(string \<Rightarrow> duration option) \<Rightarrow> string \<Rightarrow> duration option" where
  "parseDuration pd s =
     (if s \<noteq> [] \<and> last s = CHR ''d''
      then (case Sscanf_d (butlast s) of None \<Rightarrow> None | Some n \<Rightarrow> Some (wrap64 (wrap64 (n * 24) * Hour)))
      else pd s)"

definition cleanup_matches :: "instant \<Rightarrow> string \<Rightarrow> job \<Rightarrow> bool" where
  "cleanup_matches cutoff pool j \<longleftrightarrow> (pool = '''' \<or> job_pool j = pool) \<and> expired_job cutoff j"

definition handleCleanupJobs ::
  "instant \<Rightarrow> (string \<Rightarrow> duration option) \<Rightarrow> provider \<Rightarrow> string \<Rightarrow> string \<Rightarrow> bool \<Rightarrow> string list response \<times> provider" where
  "handleCleanupJobs now pd p olderThan pool dryRun =
     (case parseDuration pd (if olderThan = '''' then ''7d'' else olderThan) of
        None \<Rightarrow> (HttpError 400, p)
      | Some threshold \<Rightarrow>
          (let cutoff = now - threshold;
               toDelete = map fst (filter (\<lambda>(k, j). cleanup_matches cutoff pool j) (Map_Snapshot (jobs p)))
           in if dryRun then (HttpOk 200 toDelete, p)
              else (HttpOk 200 toDelete,
                    fold (\<lambda>key p. let p = delete_stored_job (deleteJobLogs p key) key
                                  in p\<lparr>jobs := Map_Delete (jobs p) key\<rparr>) toDelete p)))"

section \<open>Agents\<close>

definition bmh_by_ip :: "provider \<Rightarrow> string \<Rightarrow> bare_metal_host option" where
  "bmh_by_ip p sourceIP = List.find (\<lambda>b. bs_IP (bmh_Spec b) = sourceIP) (Map_Values (bareMetalHosts p))"

definition handleAgentWork :: "instant \<Rightarrow> provider \<Rightarrow> string \<Rightarrow> job response \<times> provider" where
  "handleAgentWork now p sourceIP =
     (case bmh_by_ip p sourceIP of
        None \<Rightarrow> (HttpError 404, p)
      | Some b \<Rightarrow>
          (case List.find (\<lambda>(k, j). st_BMHRef (j_Status j) = bmh_Name b \<and> phase j = ''Provisioning'') (Map_Snapshot (jobs p)) of
             None \<Rightarrow> (HttpNoContent, p)
           | Some (key, j) \<Rightarrow>
               (let j = j\<lparr>j_Status := (j_Status j)\<lparr>st_Phase := ''Running'', st_StartedAt := format_rfc3339 now,
                                                  st_LastHeartbeat := format_rfc3339 now\<rparr>\<rparr>;
                    p = persistJob (set_job p key j) j;
                    p = (if st_RunnerRef (j_Status j) \<noteq> ''''
                         then appendRunnerEvent now p (st_RunnerRef (j_Status j))
                                (''Agent started '' @ jobKey j @ '' on '' @ bmh_Name b @ '' ('' @ sourceIP @ '')'') else p)
                in (HttpOk 200 j, p))))"

record heartbeat_request =
  hb_Job :: string
  hb_Status :: string
  hb_Env :: "agent_environment option"

datatype heartbeat_answer = HbOk | HbCancel

definition store_agent_env :: "instant \<Rightarrow> provider \<Rightarrow> bare_metal_host \<Rightarrow> agent_environment option \<Rightarrow> provider" where
  "store_agent_env now p b e =
     (case e of
        None \<Rightarrow> p
      | Some env \<Rightarrow>
          (case List.find (\<lambda>(k, h). hs_BMHRef (hr_Spec h) = bmh_Name b) (Map_Snapshot (hostReservations p)) of
             None \<Rightarrow> p
           | Some (k, h) \<Rightarrow>
               (let h = h\<lparr>hr_Status := (hr_Status h)\<lparr>hst_AgentEnv := Some (env\<lparr>ae_ReportedAt := format_rfc3339 now\<rparr>)\<rparr>\<rparr>
                in persistHostReservation (set_hr p k h) h)))"

definition beats :: "bare_metal_host \<Rightarrow> heartbeat_request \<Rightarrow> job \<Rightarrow> bool" where
  "beats b req j \<longleftrightarrow> st_BMHRef (j_Status j) = bmh_Name b \<and> phase j = ''Running'' \<and>
     (hb_Job req = '''' \<or> jobKey j = hb_Job req)"

definition beat :: "instant \<Rightarrow> job \<Rightarrow> job" where
  "beat now j = j\<lparr>j_Status := (j_Status j)\<lparr>st_LastHeartbeat := format_rfc3339 now\<rparr>\<rparr>"

definition handleAgentHeartbeat ::
  "instant \<Rightarrow> provider \<Rightarrow> string \<Rightarrow> heartbeat_request \<Rightarrow> heartbeat_answer response \<times> provider" where
  "handleAgentHeartbeat now p sourceIP req =
     (case bmh_by_ip p sourceIP of
        None \<Rightarrow> (HttpError 404, p)
      | Some b \<Rightarrow>
          (let p = store_agent_env now p b (hb_Env req);
               beating = filter (\<lambda>(k, j). beats b req j) (Map_Snapshot (jobs p));
               p = fold (\<lambda>(k, j) p. persistJob (set_job p k (beat now j)) (beat now j)) beating p;
               p = (if hb_Status req \<noteq> '''' \<and> hb_Job req \<noteq> '''' then
                      (case Map_Get (jobs p) (hb_Job req) of
                         Some j \<Rightarrow>
                           if st_RunnerRef (j_Status j) \<noteq> ''''
                           then appendRunnerEvent now p (st_RunnerRef (j_Status j)) (hb_Job req @ '': '' @ hb_Status req) else p
                       | None \<Rightarrow> p)
                    else p)
           in if hb_Job req \<noteq> '''' \<and>
                 (case Map_Get (jobs p) (hb_Job req) of
                    Some j \<Rightarrow> phase j = ''Cancelled'' \<or> phase j = ''TimedOut'' | None \<Rightarrow> False)
              then (HttpOk 200 HbCancel, p)
              else if beating = [] \<and> hb_Env req = None then (HttpError 404, p)
              else (HttpOk 200 HbOk, p)))"

definition handleAgentLogs :: "instant \<Rightarrow> provider \<Rightarrow> string \<Rightarrow> string \<Rightarrow> string \<Rightarrow> (unit response \<times> provider) option" where
  "handleAgentLogs now p sourceIP jobRef body =
     (case bmh_by_ip p sourceIP of
        None \<Rightarrow> Some (HttpError 404, p)
      | Some b \<Rightarrow>
          (case List.find (\<lambda>(k, j). st_BMHRef (j_Status j) = bmh_Name b \<and> phase j = ''Running'' \<and>
                                    (jobRef = '''' \<or> jobKey j = jobRef)) (Map_Snapshot (jobs p)) of
             None \<Rightarrow> Some (HttpError 404, p)
           | Some (key, j) \<Rightarrow>
               (let lines = split_lines [] (TrimSpace body) in
                case appendJobLogs p (jobKey j) lines of
                  None \<Rightarrow> None
                | Some p \<Rightarrow>
                    Some (HttpOk 200 (),
                      set_job p key (j\<lparr>j_Status := (j_Status j)\<lparr>
                        st_LogLines := st_LogLines (j_Status j) + int (length lines),
                        st_LastHeartbeat := format_rfc3339 now\<rparr>\<rparr>)))))"

record complete_request =
  cr_ExitCode :: int
  cr_ErrorMessage :: string
  cr_JobName :: string
  cr_JobNamespace :: string

definition completes :: "bare_metal_host \<Rightarrow> complete_request \<Rightarrow> job \<Rightarrow> bool" where
  "completes b req j \<longleftrightarrow> st_BMHRef (j_Status j) = bmh_Name b \<and> phase j = ''Running'' \<and>
     (cr_JobName req = '''' \<or> j_Name j = cr_JobName req \<and> j_Namespace j = cr_JobNamespace req)"

definition handleAgentComplete ::
  "instant \<Rightarrow> provider \<Rightarrow> string \<Rightarrow> complete_request option \<Rightarrow> job response \<times> provider" where
  "handleAgentComplete now p sourceIP body =
     (case bmh_by_ip p sourceIP of
        None \<Rightarrow> (HttpError 404, p)
      | Some b \<Rightarrow>
          (case body of
             None \<Rightarrow> (HttpError 400, p)
           | Some req \<Rightarrow>
               (case List.find (\<lambda>(k, j). completes b req j) (Map_Snapshot (jobs p)) of
                  None \<Rightarrow> (HttpError 404, p)
                | Some (key, j) \<Rightarrow>
                    (let j = j\<lparr>j_Status := (j_Status j)\<lparr>st_ExitCode := Some (cr_ExitCode req),
                                st_CompletedAt := format_rfc3339 now, st_ErrorMessage := cr_ErrorMessage req,
                                st_Phase := (if cr_ExitCode req = 0 then ''Completed'' else ''Failed'')\<rparr>\<rparr>;
                         p = triggerScheduler (persistJob (releaseJobHost (set_job p key j) j) j);
                         msg = (if cr_ExitCode req = 0 then ''COMPLETED '' @ jobKey j @ '' (exit 0)''
                                else ''FAILED '' @ jobKey j @ '' (exit '' @ Itoa (cr_ExitCode req) @ '')'' @
                                  (if cr_ErrorMessage req \<noteq> '''' then '': '' @ cr_ErrorMessage req else ''''));
                         p = (if st_RunnerRef (j_Status j) \<noteq> '''' then appendRunnerEvent now p (st_RunnerRef (j_Status j)) msg else p)
                     in (HttpOk 200 j, p)))))"

end
