(* ===== verification/JobTick.thy ===== *)
theory JobTick
  imports JobScheduler
begin

text \<open>
  What one whole cycle of the scheduler (\<open>schedulerTick\<close>: assign, time out, power, clean up) does to
  a job, and which hosts the idle check may switch off.
\<close>

section \<open>The life of a job in one cycle\<close>

definition cycle_edges :: "(string \<times> string) set" where
  "cycle_edges = {(''Pending'', ''Provisioning''), (''Pending'', ''Failed''), (''Provisioning'', ''Failed''),
     (''Running'', ''TimedOut''), (''Running'', ''Failed'')}"

lemma timed_out_edge:
  "timed_out now j = j \<or>
   (phase j = ''Provisioning'' \<and> phase (timed_out now j) = ''Failed'' \<or>
    phase j = ''Running'' \<and> phase (timed_out now j) \<in> {''TimedOut'', ''Failed''}) \<and>
   st_CompletedAt (j_Status (timed_out now j)) = format_rfc3339 now"
proof -
  have fin: "\<not> running_overdue now (ended now ph msg i)" "\<not> heartbeat_overdue now (ended now ph msg i)"
    if "ph \<noteq> ''Running''" for ph msg i
    using that overdue_phase(2,3) by fastforce+
  consider "provisioning_overdue now j" | "\<not> provisioning_overdue now j" "running_overdue now j"
    | "\<not> provisioning_overdue now j" "\<not> running_overdue now j" "heartbeat_overdue now j"
    | "\<not> provisioning_overdue now j" "\<not> running_overdue now j" "\<not> heartbeat_overdue now j" by blast
  then show ?thesis
  proof cases
    case 1 then show ?thesis using fin overdue_phase(1) [OF 1] by (simp add: timed_out_def Let_def)
  next
    case 2 then show ?thesis using fin overdue_phase(2) [OF 2(2)] by (simp add: timed_out_def Let_def)
  next
    case 3 then show ?thesis using overdue_phase(3) [OF 3(3)] by (simp add: timed_out_def Let_def)
  next
    case 4 then show ?thesis by (simp add: timed_out_def Let_def)
  qed
qed

lemma timed_out_keeps: "j_Spec (timed_out now j) = j_Spec j" "jobKey (timed_out now j) = jobKey j"
  "j_CreationTimestamp (timed_out now j) = j_CreationTimestamp j"
  by (simp_all add: timed_out_def Let_def ended_def jobKey_def)

lemma recent_not_expired:
  assumes "st_CompletedAt (j_Status j) = format_rfc3339 now"
  shows "\<not> expired_job (now - jobRetentionDefault) j"
proof -
  have "now - jobRetentionDefault < now div Second * Second"
    using div_mult_mod_eq [of now Second] pos_mod_bound [of Second now]
    by (simp add: jobRetentionDefault_def Hour_def Minute_def Second_def)
  then show ?thesis using assms by (simp add: expired_job_def parse_format)
qed

lemma timed_out_expired: "expired_job (now - jobRetentionDefault) (timed_out now j) \<Longrightarrow> timed_out now j = j"
  using timed_out_edge [of now j] recent_not_expired [of "timed_out now j" now] by blast

lemma pending_not_terminal: "phase j \<in> {''Pending'', ''Provisioning''} \<Longrightarrow> \<not> is_terminal j"
  by (auto simp: is_terminal_def)

lemma tick_job_cases:
  assumes "prov_wf p" and "map_of (jobs p) k = Some j"
  obtains (kept) "map_of (jobs (fst (schedulerTick tz now p))) k = Some (timed_out now j)"
  | (started) b j' where "phase j = ''Pending''" "assigned j b j'"
      "map_of (jobs (fst (schedulerTick tz now p))) k = Some (timed_out now j')"
  | (dropped) "map_of (jobs (fst (schedulerTick tz now p))) k = None" "expired_job (now - jobRetentionDefault) j"
proof -
  obtain p1 d1 where 1: "schedulePendingJobs now (p, no_deferred) = (p1, d1)"
    by (cases "schedulePendingJobs now (p, no_deferred)")
  note t = tick_jobs [OF assms(1) 1, of tz k] and s = schedulePendingJobs_job [OF assms(1) 1 assms(2)]
  from s show ?thesis
  proof (elim disjE conjE exE)
    assume "map_of (jobs p1) k = Some j"
    with t kept dropped timed_out_expired [of now j] show ?thesis by auto
  next
    fix b j' assume j': "phase j = ''Pending''" "assigned j b j'" "map_of (jobs p1) k = Some j'"
    have "\<not> expired_job (now - jobRetentionDefault) (timed_out now j')"
    proof
      assume e: "expired_job (now - jobRetentionDefault) (timed_out now j')"
      then have "is_terminal j'" using timed_out_expired by (metis expired_job_def)
      then show False using j'(2) pending_not_terminal by (auto simp: assigned_def)
    qed
    with t j' started show ?thesis by auto
  qed
qed

lemma tick_lifecycle_lemma:
  assumes "prov_wf p"
  shows "prov_wf (fst (schedulerTick tz now p)) \<and>
    (case map_of (jobs p) k of
       None \<Rightarrow> map_of (jobs (fst (schedulerTick tz now p))) k = None
     | Some j \<Rightarrow>
         (case map_of (jobs (fst (schedulerTick tz now p))) k of
            None \<Rightarrow> expired_job (now - jobRetentionDefault) j
          | Some j' \<Rightarrow> j' = j \<or> ((phase j, phase j') \<in> cycle_edges \<and> j_Spec j' = j_Spec j \<and> jobKey j' = jobKey j \<and> j_CreationTimestamp j' = j_CreationTimestamp j)))"
proof -
  obtain p1 d1 where 1: "schedulePendingJobs now (p, no_deferred) = (p1, d1)"
    by (cases "schedulePendingJobs now (p, no_deferred)")
  note t = tick_jobs [OF assms 1, of tz k]
  show ?thesis
  proof (cases "map_of (jobs p) k")
    case None
    then have "k \<notin> fst ` set (pending_jobs p)" using pending_mem [OF assms] by fastforce
    then have "map_of (jobs p1) k = None" using schedulePendingJobs_wf(3) [OF assms 1] None by simp
    with t None show ?thesis by simp
  next
    case (Some j)
    from assms Some have "case map_of (jobs (fst (schedulerTick tz now p))) k of
        None \<Rightarrow> expired_job (now - jobRetentionDefault) j
      | Some j' \<Rightarrow> j' = j \<or> ((phase j, phase j') \<in> cycle_edges \<and> j_Spec j' = j_Spec j \<and> jobKey j' = jobKey j \<and> j_CreationTimestamp j' = j_CreationTimestamp j)"
    proof (cases rule: tick_job_cases [where tz = tz and now = now])
      case kept
      then show ?thesis using timed_out_edge [of now j] timed_out_keeps [of now j]
        by (auto simp: cycle_edges_def)
    next
      case (started b j')
      then show ?thesis using timed_out_edge [of now j'] timed_out_keeps [of now j']
        by (auto simp: cycle_edges_def assigned_def jobKey_def)
    next
      case dropped
      then show ?thesis by simp
    qed
    with t Some show ?thesis by simp
  qed
qed

text \<open>
  C19. One cycle moves a job along the edges of its life only: a job that is still there either is
  untouched or went from Pending to Provisioning or Failed, from Provisioning to Failed, or from
  Running to TimedOut or Failed, with its spec, key and creation time kept; a job that is gone was terminal and had
  been so for the retention time; no job appears.
\<close>

theorem tick_lifecycle:
  assumes "prov_wf p"
  shows "prov_wf (fst (schedulerTick tz now p)) \<and>
    (case map_of (jobs p) k of
       None \<Rightarrow> map_of (jobs (fst (schedulerTick tz now p))) k = None
     | Some j \<Rightarrow>
         (case map_of (jobs (fst (schedulerTick tz now p))) k of
            None \<Rightarrow> expired_job (now - jobRetentionDefault) j
          | Some j' \<Rightarrow> j' = j \<or> ((phase j, phase j') \<in> cycle_edges \<and> j_Spec j' = j_Spec j \<and> jobKey j' = jobKey j \<and> j_CreationTimestamp j' = j_CreationTimestamp j)))"
  using tick_lifecycle_lemma [OF assms] .

theorem tick_lifecycle_witness:
  "prov_wf (fst (schedulerTick \<lparr>tz_Local = (\<lambda>_. 0), tz_Load = (\<lambda>_. None)\<rparr> 20 two_jobs))"
  using tick_lifecycle [OF two_jobs_wf] by blast

text \<open>
  The provisioning timeout is measured from the creation of the job: a job that has waited in the
  queue for more than ten minutes is failed by the very cycle that assigns it a host.
\<close>

theorem stale_pending_job_fails:
  assumes "prov_wf p" and "map_of (jobs p) k = Some j" and "phase j = ''Pending''"
    and "now - j_CreationTimestamp j > 10 * Minute"
    and "map_of (jobs (fst (schedulerTick tz now p))) k \<noteq> Some j"
  shows "\<exists>j'. map_of (jobs (fst (schedulerTick tz now p))) k = Some j' \<and> phase j' = ''Failed'' \<and>
    st_ErrorMessage (j_Status j') = ''provisioning timeout exceeded''"
  using assms(1,2)
proof (cases rule: tick_job_cases [where tz = tz and now = now])
  case kept
  then show ?thesis using timed_out_edge [of now j] assms(3,5) by auto
next
  case (started b j')
  have "time_Sub now (j_CreationTimestamp j) > provisioningTimeout"
    using assms(4) by (simp add: provisioningTimeout_def Minute_def Second_def time_Sub_def)
  then have po: "provisioning_overdue now j'" using started(2) by (simp add: provisioning_overdue_def assigned_def)
  have "\<not> running_overdue now (ended now ''Failed'' m j')" "\<not> heartbeat_overdue now (ended now ''Failed'' m j')" for m
    using overdue_phase(2,3) by fastforce+
  with po have "timed_out now j' = ended now ''Failed'' ''provisioning timeout exceeded'' j'"
    by (simp add: timed_out_def Let_def)
  with started(3) show ?thesis by (simp add: ended_def)
next
  case dropped
  then show ?thesis using pending_not_terminal [of j] assms(3) by (simp add: expired_job_def)
qed

definition utc :: tz_env where
  "utc = \<lparr>tz_Local = (\<lambda>_. 0), tz_Load = (\<lambda>_. None)\<rparr>"

theorem stale_pending_job_fails_witness:
  "\<exists>j'. map_of (jobs (fst (schedulerTick utc (11 * Minute) two_jobs))) ''ci/high'' = Some j' \<and> phase j' = ''Failed'' \<and>
     st_ErrorMessage (j_Status j') = ''provisioning timeout exceeded''"
proof -
  have ph: "map_option phase (map_of (jobs (fst (schedulerTick utc (11 * Minute) two_jobs))) ''ci/high'') = Some ''Failed''"
    by code_simp
  have ne: "map_of (jobs (fst (schedulerTick utc (11 * Minute) two_jobs))) ''ci/high'' \<noteq> Some (mk_job ''high'' ''build'' 7 9 ''Pending'' '''')"
  proof
    assume "map_of (jobs (fst (schedulerTick utc (11 * Minute) two_jobs))) ''ci/high'' = Some (mk_job ''high'' ''build'' 7 9 ''Pending'' '''')"
    with ph show False by (simp add: mk_job_def)
  qed
  have m: "map_of (jobs two_jobs) ''ci/high'' = Some (mk_job ''high'' ''build'' 7 9 ''Pending'' '''')"
    by (simp add: two_jobs_def mk_provider_def jobKey_def mk_job_def)
  show ?thesis
    by (rule stale_pending_job_fails [OF two_jobs_wf m _ _ ne]) (simp_all add: mk_job_def Minute_def Second_def)
qed

text \<open>
  A running job is judged by its own timeout first and by the age of its last heartbeat (90
  seconds) second; within both bounds the cycle leaves it as it is.
\<close>

theorem tick_running_job:
  assumes "prov_wf p" and "map_of (jobs p) k = Some j" and "phase j = ''Running''"
    and "0 < js_Timeout (j_Spec j)" and "js_Timeout (j_Spec j) \<le> 9223372035"
    and "st_StartedAt (j_Status j) = Stamp s" and "st_LastHeartbeat (j_Status j) = Stamp h"
  shows "map_option phase (map_of (jobs (fst (schedulerTick tz now p))) k) =
      Some (if now - s > js_Timeout (j_Spec j) * Second then ''TimedOut''
            else if now - h > 90 * Second then ''Failed'' else ''Running'') \<and>
    (now - s \<le> js_Timeout (j_Spec j) * Second \<and> now - h \<le> 90 * Second \<longrightarrow>
      map_of (jobs (fst (schedulerTick tz now p))) k = Some j)"
proof -
  have "map_of (jobs (fst (schedulerTick tz now p))) k = Some (timed_out now j)"
    using assms(1,2)
  proof (cases rule: tick_job_cases [where tz = tz and now = now])
    case dropped
    then show ?thesis using assms(3) by (simp add: expired_job_def is_terminal_def)
  qed (use assms(3) in simp_all)
  moreover have "\<not> provisioning_overdue now j" using assms(3) by (simp add: provisioning_overdue_def)
  moreover have "running_overdue now j \<longleftrightarrow> now - s > js_Timeout (j_Spec j) * Second"
  proof -
    have "seconds (js_Timeout (j_Spec j)) = js_Timeout (j_Spec j) * Second" using assms(4,5) by (simp add: seconds_small)
    moreover have "0 < js_Timeout (j_Spec j) * Second" "js_Timeout (j_Spec j) * Second < 2 ^ 63 - 1"
      using assms(4,5) by (simp_all add: Second_def)
    ultimately show ?thesis using assms(3,4,6) time_Sub_gt_iff [of "js_Timeout (j_Spec j) * Second" now s]
      by (simp add: running_overdue_def)
  qed
  moreover have "heartbeat_overdue now j \<longleftrightarrow> now - h > 90 * Second"
    using assms(3,7) time_Sub_gt_iff [of "90 * Second" now h]
    by (simp add: heartbeat_overdue_def heartbeatTimeout_def Second_def)
  moreover have "\<not> heartbeat_overdue now (ended now ''TimedOut'' m j)" for m
    using overdue_phase(3) by fastforce
  ultimately show ?thesis using assms(3) by (auto simp: timed_out_def Let_def)
qed

definition running_job :: job where
  "running_job = (mk_job ''a'' ''p1'' 1 5 ''Running'' ''s1'')\<lparr>
     j_Spec := (j_Spec (mk_job ''a'' ''p1'' 1 5 ''Running'' ''s1''))\<lparr>js_Timeout := 600\<rparr>,
     j_Status := (j_Status (mk_job ''a'' ''p1'' 1 5 ''Running'' ''s1''))\<lparr>st_StartedAt := Stamp 0, st_LastHeartbeat := Stamp (60 * Second)\<rparr>\<rparr>"

definition one_running :: provider where
  "one_running = mk_provider [running_job] [mk_runner ''r1'' ''p1'' 1 False] [] [mk_host ''s1'' ''10.0.0.5'']"

theorem tick_running_job_witness:
  "map_of (jobs (fst (schedulerTick utc (100 * Second) one_running))) ''ci/a'' = Some running_job \<and>
   map_option phase (map_of (jobs (fst (schedulerTick utc (200 * Second) one_running))) ''ci/a'') = Some ''Failed''"
proof -
  have w: "prov_wf one_running"
    unfolding one_running_def by (rule mk_provider_wf) (simp_all add: mk_host_def)
  have m: "map_of (jobs one_running) ''ci/a'' = Some running_job"
    by (simp add: one_running_def mk_provider_def running_job_def jobKey_def mk_job_def)
  have f: "phase running_job = ''Running''" "js_Timeout (j_Spec running_job) = 600"
    "st_StartedAt (j_Status running_job) = Stamp 0" "st_LastHeartbeat (j_Status running_job) = Stamp (60 * Second)"
    by (simp_all add: running_job_def mk_job_def)
  show ?thesis
    using tick_running_job [OF w m f(1) _ _ f(3,4), of utc "100 * Second"]
      tick_running_job [OF w m f(1) _ _ f(3,4), of utc "200 * Second"] f(2)
    by (simp add: Second_def)
qed

section \<open>Idle hosts\<close>

text \<open>
  A pool has been idle for some seconds: no job of it waits or is active, some job of it has ended at a
  time that can be read, and none ended less than those seconds ago.
\<close>

definition completed_at :: "string \<Rightarrow> job \<Rightarrow> instant option" where
  "completed_at pool j = (if job_pool j = pool \<and> is_terminal j then parse_rfc3339 (st_CompletedAt (j_Status j)) else None)"

definition pool_idle :: "instant \<Rightarrow> provider \<Rightarrow> string \<Rightarrow> int \<Rightarrow> bool" where
  "pool_idle now p pool secs \<longleftrightarrow>
     (\<forall>j\<in>snd ` set (jobs p). job_pool j = pool \<longrightarrow> phase j \<noteq> ''Pending'' \<and> \<not> is_active j) \<and>
     (\<exists>j\<in>snd ` set (jobs p). case completed_at pool j of Some c \<Rightarrow> zero_time < c | None \<Rightarrow> False) \<and>
     (\<forall>j\<in>snd ` set (jobs p). case completed_at pool j of Some c \<Rightarrow> seconds secs \<le> time_Sub now c | None \<Rightarrow> True)"

text \<open>When the idle check has to switch a host off.\<close>

definition must_power_off :: "tz_env \<Rightarrow> instant \<Rightarrow> provider \<Rightarrow> bare_metal_host \<Rightarrow> bool" where
  "must_power_off tz now p b \<longleftrightarrow> bs_Online (bmh_Spec b) = Some True \<and>
     (case map_of (bmh_Annotations b) ''bmh.mkube.io/manual-power'' of Some v \<Rightarrow> v = '''' | None \<Rightarrow> True) \<and>
     (\<exists>r\<in>snd ` set (jobRunners p). rs_IdleTimeout (jr_Spec r) > 0 \<and> rs_ReclaimPolicy (jr_Spec r) \<noteq> ''Retain'' \<and>
        \<not> IsActive tz (rs_Schedule (jr_Spec r)) now \<and> pool_idle now p (rs_Pool (jr_Spec r)) (rs_IdleTimeout (jr_Spec r)) \<and>
        (\<exists>hk\<in>fst ` set (hostReservations p). case map_of (hostReservations p) hk of
           Some h \<Rightarrow> hs_Pool (hr_Spec h) = rs_Pool (jr_Spec r) \<and> hs_BMHRef (hr_Spec h) = bmh_Name b \<and>
                     hst_ActiveJob (hr_Status h) = ''''
         | None \<Rightarrow> False))"

definition switched_off :: "bare_metal_host \<Rightarrow> bare_metal_host" where
  "switched_off b = b\<lparr>bmh_Spec := (bmh_Spec b)\<lparr>bs_Online := Some False\<rparr>\<rparr>"

text \<open>The scan for the last completion finds the latest one.\<close>

lemma completion_scan:
  fixes P :: "job \<Rightarrow> instant option"
  defines "m \<equiv> \<lambda>js t. fold (\<lambda>j t. case P j of None \<Rightarrow> t | Some c \<Rightarrow> max t c) js t"
  shows "t \<le> m js t" and "j \<in> set js \<Longrightarrow> P j = Some c \<Longrightarrow> c \<le> m js t"
    and "m js t = t \<or> (\<exists>j\<in>set js. P j = Some (m js t))"
proof -
  show ge: "t \<le> m js t" for t js
  proof (induction js arbitrary: t)
    case (Cons i js)
    show ?case
    proof (cases "P i")
      case None
      then show ?thesis using Cons.IH [of t] by (simp add: m_def)
    next
      case (Some c)
      then have "m (i # js) t = m js (max t c)" by (simp add: m_def)
      then show ?thesis using Cons.IH [of "max t c"] by simp
    qed
  qed (simp add: m_def)
  show "j \<in> set js \<Longrightarrow> P j = Some c \<Longrightarrow> c \<le> m js t"
  proof (induction js arbitrary: t)
    case (Cons i js)
    then show ?case
    proof (cases "i = j")
      case True
      with Cons.prems have "m (i # js) t = m js (max t c)" by (simp add: m_def)
      then show ?thesis using ge [of "max t c" js] by simp
    next
      case False
      with Cons.prems Cons.IH show ?thesis by (simp add: m_def)
    qed
  qed (simp add: m_def)
  show "m js t = t \<or> (\<exists>j\<in>set js. P j = Some (m js t))"
  proof (induction js arbitrary: t)
    case (Cons i js)
    show ?case
    proof (cases "P i")
      case None
      then show ?thesis using Cons.IH [of t] by (auto simp: m_def)
    next
      case (Some c)
      then have e: "m (i # js) t = m js (max t c)" by (simp add: m_def)
      from Cons.IH [of "max t c"] show ?thesis unfolding e using Some by (auto simp: max_def)
    qed
  qed (simp add: m_def)
qed

lemma lastCompletion_eq:
  "lastCompletion p pool = fold (\<lambda>j t. case completed_at pool j of None \<Rightarrow> t | Some c \<Rightarrow> max t c) (map snd (jobs p)) zero_time"
  unfolding lastCompletion_def Values_eq
  by (intro fold_cong) (auto simp: completed_at_def fun_eq_iff split: option.splits)

lemma time_Sub_antimono: "c \<le> e \<Longrightarrow> time_Sub now e \<le> time_Sub now c"
  by (simp add: time_Sub_def min_def max_def)

lemma pool_idle_iff:
  "pool_idle now p pool secs \<longleftrightarrow> \<not> has_work p pool \<and> lastCompletion p pool \<noteq> zero_time \<and>
     \<not> time_Sub now (lastCompletion p pool) < seconds secs"
proof -
  note scan = completion_scan [where P = "completed_at pool" and js = "map snd (jobs p)" and t = zero_time, folded lastCompletion_eq]
  have ex: "(\<exists>j\<in>snd ` set (jobs p). case completed_at pool j of Some c \<Rightarrow> zero_time < c | None \<Rightarrow> False) \<longleftrightarrow> lastCompletion p pool \<noteq> zero_time"
    (is "?E \<longleftrightarrow> ?N")
  proof
    assume ?E
    then obtain j c where "j \<in> snd ` set (jobs p)" "completed_at pool j = Some c" "zero_time < c" by (auto split: option.splits)
    then have "c \<le> lastCompletion p pool" using scan(2) [of j c] by simp
    with \<open>zero_time < c\<close> show ?N by simp
  next
    assume ?N
    with scan(1,3) obtain j where "j \<in> snd ` set (jobs p)" "completed_at pool j = Some (lastCompletion p pool)" "zero_time < lastCompletion p pool"
      by auto
    then show ?E by (intro bexI [of _ j]) simp_all
  qed
  have all: "(\<forall>j\<in>snd ` set (jobs p). case completed_at pool j of Some c \<Rightarrow> seconds secs \<le> time_Sub now c | None \<Rightarrow> True) \<longleftrightarrow>
    \<not> time_Sub now (lastCompletion p pool) < seconds secs" (is "?A \<longleftrightarrow> ?B") if "lastCompletion p pool \<noteq> zero_time"
  proof
    assume ?A
    with scan(3) that show ?B by fastforce
  next
    assume b: ?B
    show ?A
    proof
      fix j assume j: "j \<in> snd ` set (jobs p)"
      show "case completed_at pool j of Some c \<Rightarrow> seconds secs \<le> time_Sub now c | None \<Rightarrow> True"
      proof (cases "completed_at pool j")
        case (Some c)
        with j have "c \<le> lastCompletion p pool" using scan(2) [of j c] by simp
        from time_Sub_antimono [OF this, of now] b Some show ?thesis by simp
      qed simp
    qed
  qed
  have work: "(\<forall>j\<in>snd ` set (jobs p). job_pool j = pool \<longrightarrow> phase j \<noteq> ''Pending'' \<and> \<not> is_active j) \<longleftrightarrow> \<not> has_work p pool"
    by (auto simp: has_work_def list_ex_iff)
  show ?thesis unfolding pool_idle_def work ex using all by blast
qed

text \<open>Two states that differ in hosts, runner logs and power events only, each host being as before or switched off with reason.\<close>

definition idle_rel :: "tz_env \<Rightarrow> instant \<Rightarrow> provider \<Rightarrow> provider \<Rightarrow> bool" where
  "idle_rel tz now p q \<longleftrightarrow> jobs q = jobs p \<and> hostReservations q = hostReservations p \<and> jobRunners q = jobRunners p \<and>
     (\<forall>k. map_of (bareMetalHosts q) k = map_of (bareMetalHosts p) k \<or>
        (\<exists>b. map_of (bareMetalHosts p) k = Some b \<and> must_power_off tz now p b \<and>
             map_of (bareMetalHosts q) k = Some (switched_off b)))"

lemma idle_rel_refl: "idle_rel tz now p p"
  by (simp add: idle_rel_def)

lemma off_stays: "\<not> must_power_off tz now p (switched_off b)"
  by (simp add: must_power_off_def switched_off_def)

lemma idle_rel_trans:
  assumes "idle_rel tz now p q" and "idle_rel tz now q r"
  shows "idle_rel tz now p r"
proof -
  have m: "must_power_off tz now q b = must_power_off tz now p b" for b
    using assms(1) by (simp add: idle_rel_def must_power_off_def pool_idle_def)
  show ?thesis
    using assms unfolding idle_rel_def m by (metis off_stays option.inject)
qed

text \<open>A host once switched off is off at the end.\<close>

lemma idle_rel_off:
  assumes "idle_rel tz now p q" and "map_of (bareMetalHosts p) k = Some (switched_off b)"
  shows "map_of (bareMetalHosts q) k = Some (switched_off b)"
  using assms off_stays unfolding idle_rel_def by (metis option.inject)

lemma enqueueBMCPowerEvent_maps [simp]:
  "jobs (enqueueBMCPowerEvent p b w i) = jobs p" "hostReservations (enqueueBMCPowerEvent p b w i) = hostReservations p"
  "jobRunners (enqueueBMCPowerEvent p b w i) = jobRunners p" "bareMetalHosts (enqueueBMCPowerEvent p b w i) = bareMetalHosts p"
  by (simp_all add: enqueueBMCPowerEvent_def)

lemma appendRunnerEvent_maps [simp]:
  "jobs (appendRunnerEvent now p r m) = jobs p" "hostReservations (appendRunnerEvent now p r m) = hostReservations p"
  "jobRunners (appendRunnerEvent now p r m) = jobRunners p" "bareMetalHosts (appendRunnerEvent now p r m) = bareMetalHosts p"
  by (simp_all add: appendRunnerEvent_def)

text \<open>The conditions the loop has established before it visits the hosts of a runner.\<close>

definition idle_runner :: "tz_env \<Rightarrow> instant \<Rightarrow> provider \<Rightarrow> job_runner \<Rightarrow> bool" where
  "idle_runner tz now p r \<longleftrightarrow> r \<in> snd ` set (jobRunners p) \<and> rs_IdleTimeout (jr_Spec r) > 0 \<and>
     rs_ReclaimPolicy (jr_Spec r) \<noteq> ''Retain'' \<and> \<not> IsActive tz (rs_Schedule (jr_Spec r)) now \<and>
     pool_idle now p (rs_Pool (jr_Spec r)) (rs_IdleTimeout (jr_Spec r))"

definition host_of_runner :: "provider \<Rightarrow> job_runner \<Rightarrow> string \<Rightarrow> bare_metal_host \<Rightarrow> bool" where
  "host_of_runner p r hk b \<longleftrightarrow> (case map_of (hostReservations p) hk of
     Some h \<Rightarrow> hs_Pool (hr_Spec h) = rs_Pool (jr_Spec r) \<and> hs_BMHRef (hr_Spec h) = bmh_Name b \<and> hst_ActiveJob (hr_Status h) = ''''
   | None \<Rightarrow> False)"

definition by_hand :: "bare_metal_host \<Rightarrow> bool" where
  "by_hand b \<longleftrightarrow> (case map_of (bmh_Annotations b) ''bmh.mkube.io/manual-power'' of Some v \<Rightarrow> v \<noteq> '''' | None \<Rightarrow> False)"

lemma must_power_off_iff:
  "must_power_off tz now p b \<longleftrightarrow> bs_Online (bmh_Spec b) = Some True \<and> \<not> by_hand b \<and>
     (\<exists>r hk. idle_runner tz now p r \<and> hk \<in> fst ` set (hostReservations p) \<and> host_of_runner p r hk b)"
  unfolding must_power_off_def by_hand_def idle_runner_def host_of_runner_def by (auto split: option.splits)

lemma power_off_host_state:
  assumes "map_of (bareMetalHosts p) bk = Some b"
    and q_def: "q = fst (power_off_host now r hk bk (p, d))"
  shows "jobs q = jobs p" and "hostReservations q = hostReservations p" and "jobRunners q = jobRunners p"
    and "bareMetalHosts q = (if bs_Online (bmh_Spec b) = Some True \<and> \<not> by_hand b \<and> host_of_runner p r hk b
           then AList.update bk (switched_off b) (bareMetalHosts p) else bareMetalHosts p)"
  using assms(1) unfolding q_def by_hand_def host_of_runner_def switched_off_def
  by (auto simp: power_off_host_def deferBMHUpdate_def Map_Get_def set_bmh_def Let_def split: option.splits)

lemma power_off_none: "map_of (bareMetalHosts p) bk = None \<Longrightarrow> power_off_host now r hk bk (p, d) = (p, d)"
  by (simp add: power_off_host_def split: option.splits)

lemma power_off_idle:
  assumes "idle_runner tz now p r" and "hk \<in> fst ` set (hostReservations p)"
  shows "idle_rel tz now p (fst (power_off_host now r hk bk (p, d)))"
proof (cases "map_of (bareMetalHosts p) bk")
  case None
  then show ?thesis by (simp add: power_off_none idle_rel_refl)
next
  case (Some b)
  from power_off_host_state [OF this refl] assms show ?thesis
    unfolding idle_rel_def must_power_off_iff using Some by (auto simp: update_conv')
qed

lemma idle_runner_cong: "idle_rel tz now p q \<Longrightarrow> idle_runner tz now q r = idle_runner tz now p r"
  by (simp add: idle_rel_def idle_runner_def pool_idle_def)

text \<open>A loop whose every step is such a change makes such a change, and reaches what one of its steps reaches.\<close>

lemma fold_idle:
  assumes "\<And>x s. idle_rel tz now p (fst s) \<Longrightarrow> x \<in> set xs \<Longrightarrow> idle_rel tz now (fst s) (fst (f x s))" and "idle_rel tz now p (fst s)"
  shows "idle_rel tz now p (fst (fold f xs s))"
  using assms
proof (induction xs arbitrary: s)
  case (Cons x xs)
  have "idle_rel tz now p (fst (f x s))" using Cons.prems(1) [OF Cons.prems(2), of x] idle_rel_trans [OF Cons.prems(2)] by simp
  from Cons.IH [OF _ this] Cons.prems(1) show ?case by simp
qed simp

lemma fold_switches:
  assumes "\<And>x s. idle_rel tz now p (fst s) \<Longrightarrow> x \<in> set xs \<Longrightarrow> idle_rel tz now (fst s) (fst (f x s))" and "idle_rel tz now p (fst s)"
    and "x \<in> set xs" and "\<And>s. idle_rel tz now p (fst s) \<Longrightarrow> map_of (bareMetalHosts (fst (f x s))) k = Some (switched_off b)"
  shows "map_of (bareMetalHosts (fst (fold f xs s))) k = Some (switched_off b)"
proof -
  from assms(3) obtain ys zs where xs: "xs = ys @ x # zs" by (auto dest: split_list)
  have pre: "idle_rel tz now p (fst (fold f ys s))" using assms(1,2) by (intro fold_idle) (simp_all add: xs)
  let ?u = "f x (fold f ys s)"
  have pu: "idle_rel tz now p (fst ?u)" using idle_rel_trans [OF pre] assms(1) [OF pre, of x] by (simp add: xs)
  have "idle_rel tz now (fst ?u) (fst (fold f zs ?u))"
    using assms(1) idle_rel_trans [OF pu] by (intro fold_idle) (auto simp: xs idle_rel_refl)
  from idle_rel_off [OF this assms(4) [OF pre]] show ?thesis by (simp add: xs)
qed

lemma power_off_switches:
  assumes "idle_rel tz now p (fst u)" and "map_of (bareMetalHosts p) bk = Some b"
    and "bs_Online (bmh_Spec b) = Some True" and "\<not> by_hand b" and "host_of_runner p r hk b"
  shows "map_of (bareMetalHosts (fst (power_off_host now r hk bk u))) bk = Some (switched_off b)"
proof -
  obtain c where c: "map_of (bareMetalHosts (fst u)) bk = Some c" and bc: "c = b \<or> c = switched_off b"
    using assms(1,2) unfolding idle_rel_def by (metis option.inject)
  have "host_of_runner (fst u) r hk b" using assms(1,5) by (simp add: host_of_runner_def idle_rel_def)
  then show ?thesis
    using power_off_host_state(4) [OF c refl, of now r hk "snd u"] bc c assms(3,4) by (auto simp: update_conv' switched_off_def)
qed

lemma check_idle_runner_alt:
  assumes "r \<in> snd ` set (jobRunners (fst s))"
  shows "check_idle_runner tz now r s =
    (if idle_runner tz now (fst s) r
     then fold (\<lambda>hk u. fold (\<lambda>bk. power_off_host now r hk bk) (map fst (bareMetalHosts (fst u))) u) (map fst (hostReservations (fst s))) s
     else s)"
  using assms by (auto simp: check_idle_runner_def idle_runner_def pool_idle_iff Let_def)

lemma hosts_loop_rel:
  assumes "idle_runner tz now p r" and "idle_rel tz now p (fst u)" and "hk \<in> fst ` set (hostReservations p)"
  shows "idle_rel tz now (fst u) (fst (fold (\<lambda>bk. power_off_host now r hk bk) bks u))"
proof (rule fold_idle)
  fix bk and v :: sched assume v: "idle_rel tz now (fst u) (fst v)"
  from idle_rel_trans [OF assms(2) this] have "idle_rel tz now p (fst v)" .
  with power_off_idle [of tz now "fst v" r hk bk "snd v"] assms(1,3) idle_runner_cong [OF this]
  show "idle_rel tz now (fst v) (fst (power_off_host now r hk bk v))" by (simp add: idle_rel_def)
qed (rule idle_rel_refl)

lemma check_idle_runner_rel:
  assumes "r \<in> snd ` set (jobRunners (fst s))"
  shows "idle_rel tz now (fst s) (fst (check_idle_runner tz now r s))"
proof (cases "idle_runner tz now (fst s) r")
  case True
  have "idle_rel tz now (fst s) (fst (fold (\<lambda>hk u. fold (\<lambda>bk. power_off_host now r hk bk) (map fst (bareMetalHosts (fst u))) u)
      (map fst (hostReservations (fst s))) s))"
    by (rule fold_idle [OF hosts_loop_rel [OF True]]) (simp_all add: idle_rel_refl)
  with True show ?thesis by (simp add: check_idle_runner_alt [OF assms])
qed (simp add: check_idle_runner_alt [OF assms] idle_rel_refl)

lemma check_idle_runner_switches:
  assumes "idle_runner tz now p r" and "idle_rel tz now p (fst s)" and "map_of (bareMetalHosts p) k = Some b"
    and "bs_Online (bmh_Spec b) = Some True" and "\<not> by_hand b" and "host_of_runner p r hk b" and "hk \<in> fst ` set (hostReservations p)"
  shows "map_of (bareMetalHosts (fst (check_idle_runner tz now r s))) k = Some (switched_off b)"
proof -
  have r: "r \<in> snd ` set (jobRunners (fst s))" and i: "idle_runner tz now (fst s) r" and hk: "hk \<in> set (map fst (hostReservations (fst s)))"
    using assms(1,2,7) idle_runner_cong [OF assms(2), of r] by (simp add: idle_rel_def idle_runner_def, simp, simp add: idle_rel_def)
  have loop: "map_of (bareMetalHosts (fst (fold (\<lambda>bk. power_off_host now r hk bk) (map fst (bareMetalHosts (fst u))) u))) k = Some (switched_off b)"
    if u: "idle_rel tz now p (fst u)" for u
  proof (rule fold_switches [OF _ u])
    have "map_of (bareMetalHosts (fst u)) k \<noteq> None" using u assms(3) unfolding idle_rel_def by (metis option.distinct(1))
    then show "k \<in> set (map fst (bareMetalHosts (fst u)))" by (simp add: map_of_eq_None_iff)
    show "map_of (bareMetalHosts (fst (power_off_host now r hk k v))) k = Some (switched_off b)" if "idle_rel tz now p (fst v)" for v
      by (rule power_off_switches [OF that assms(3-6)])
    show "idle_rel tz now (fst v) (fst (power_off_host now r hk x v))" if "idle_rel tz now p (fst v)" for x v
      using hosts_loop_rel [OF assms(1) that assms(7), of "[x]"] by simp
  qed
  have "map_of (bareMetalHosts (fst (fold (\<lambda>hk u. fold (\<lambda>bk. power_off_host now r hk bk) (map fst (bareMetalHosts (fst u))) u)
      (map fst (hostReservations (fst s))) s))) k = Some (switched_off b)"
  proof (rule fold_switches [where x = hk])
    show "idle_rel tz now (fst u) (fst (fold (\<lambda>bk. power_off_host now r x bk) (map fst (bareMetalHosts (fst u))) u))"
      if "idle_rel tz now p (fst u)" "x \<in> set (map fst (hostReservations (fst s)))" for x u
      using that assms(2) by (intro hosts_loop_rel [OF assms(1)]) (simp_all add: idle_rel_def)
  qed (use assms(2) hk loop in simp_all)
  with i show ?thesis by (simp add: check_idle_runner_alt [OF r])
qed

lemma runners_loop_rel:
  assumes "idle_rel tz now p (fst u)" and "r \<in> set (map snd (jobRunners p))"
  shows "idle_rel tz now (fst u) (fst (check_idle_runner tz now r u))"
  using assms by (intro check_idle_runner_rel) (simp add: idle_rel_def)

lemma checkIdleRunners_rel: "idle_rel tz now (fst s) (fst (checkIdleRunners tz now s))"
  unfolding checkIdleRunners_def Values_eq by (intro fold_idle runners_loop_rel idle_rel_refl)

lemma checkIdleRunners_switches:
  assumes "map_of (bareMetalHosts p) k = Some b" and "must_power_off tz now p b"
  shows "map_of (bareMetalHosts (fst (checkIdleRunners tz now (p, d)))) k = Some (switched_off b)"
proof -
  obtain r hk where r: "idle_runner tz now p r" and hk: "hk \<in> fst ` set (hostReservations p)" "host_of_runner p r hk b"
    and b: "bs_Online (bmh_Spec b) = Some True" "\<not> by_hand b"
    using assms(2) unfolding must_power_off_iff by blast
  then have "r \<in> set (map snd (jobRunners p))" by (simp add: idle_runner_def)
  then show ?thesis
    unfolding checkIdleRunners_def Values_eq fst_conv
    by (rule fold_switches [OF runners_loop_rel, rotated 3])
      (auto intro: check_idle_runner_switches [OF r _ assms(1) b hk(2,1)] simp: idle_rel_refl)
qed

text \<open>
  C20. The idle check switches off exactly the hosts it should. A host is switched off if and only if it
  is online, was not switched on by hand (its manual-power annotation is missing or empty), and some
  runner with a positive idle timeout and another policy than Retain, outside its work hours, has a
  reservation of it (of the runner's pool, with no active job), while the pool has been idle for the
  timeout: no job of it waits or is active, at least one job of it has ended at a readable time (later
  than Go's zero time), and the timeout has passed since each of them ended. Both spans are 64-bit
  nanosecond counts as Go computes them: the timeout wraps beyond 292 years. Being switched off sets the
  host's Online to false and nothing else of it; every other host, and the jobs, the reservations and the
  runners stay as they were. (Beside these tables the check queues a power event, a line of the runner's
  log and a deferred write for each host it switches off.)
\<close>

theorem idle_power_off_safe:
  "jobs (fst (checkIdleRunners tz now (p, d))) = jobs p \<and>
   hostReservations (fst (checkIdleRunners tz now (p, d))) = hostReservations p \<and>
   jobRunners (fst (checkIdleRunners tz now (p, d))) = jobRunners p \<and>
   map_of (bareMetalHosts (fst (checkIdleRunners tz now (p, d)))) k =
     (case map_of (bareMetalHosts p) k of
        None \<Rightarrow> None
      | Some b \<Rightarrow> Some (if must_power_off tz now p b then b\<lparr>bmh_Spec := (bmh_Spec b)\<lparr>bs_Online := Some False\<rparr>\<rparr> else b))"
proof (cases "map_of (bareMetalHosts p) k")
  case None
  then show ?thesis using checkIdleRunners_rel [of tz now "(p, d)"] unfolding idle_rel_def fst_conv by (metis (no_types, lifting) option.distinct(1) option.simps(4))
next
  case (Some b)
  then show ?thesis
    using checkIdleRunners_rel [of tz now "(p, d)"] checkIdleRunners_switches [OF Some, of tz now d]
    unfolding idle_rel_def fst_conv by (cases "must_power_off tz now p b") (auto simp: switched_off_def dest: spec [of _ k])
qed

text \<open>A pool whose only job ended at second 100, with a timeout of 60 seconds: the host is off at second 160, not at 159.\<close>

definition idle_pool :: provider where
  "idle_pool = mk_provider
     [(mk_job ''done'' ''build'' 1 5 ''Completed'' ''s1'')
        \<lparr>j_Status := (j_Status (mk_job ''done'' ''build'' 1 5 ''Completed'' ''s1''))\<lparr>st_CompletedAt := Stamp (100 * Second)\<rparr>\<rparr>]
     [(mk_runner ''r'' ''build'' 1 False)\<lparr>jr_Spec := (jr_Spec (mk_runner ''r'' ''build'' 1 False))\<lparr>rs_IdleTimeout := 60\<rparr>\<rparr>]
     [mk_reservation ''h'' ''s1'' ''build''] [mk_host ''s1'' ''10.0.0.5'']"

theorem idle_power_off_safe_witness:
  "map_option (bs_Online \<circ> bmh_Spec) (map_of (bareMetalHosts (fst (checkIdleRunners utc (160 * Second) (idle_pool, no_deferred)))) ''bm/s1'') = Some (Some False) \<and>
   map_option (bs_Online \<circ> bmh_Spec) (map_of (bareMetalHosts (fst (checkIdleRunners utc (159 * Second) (idle_pool, no_deferred)))) ''bm/s1'') = Some (Some True)"
proof -
  let ?b = "mk_host ''s1'' ''10.0.0.5''"
  have b: "map_of (bareMetalHosts idle_pool) ''bm/s1'' = Some ?b" by (simp add: idle_pool_def mk_provider_def mk_host_def)
  have off: "must_power_off utc (160 * Second) idle_pool ?b" by code_simp
  have on: "\<not> must_power_off utc (159 * Second) idle_pool ?b" by code_simp
  show ?thesis
    using idle_power_off_safe [of utc "160 * Second" idle_pool no_deferred "''bm/s1''"]
      idle_power_off_safe [of utc "159 * Second" idle_pool no_deferred "''bm/s1''"] b off on by (simp add: mk_host_def)
qed

end
