(* ===== verification/JobLife.thy ===== *)
theory JobLife
  imports JobApi JobTick
begin

text \<open>
  The job subsystem as a transition system: a step is a scheduler cycle, a call of a job handler or of an
  agent endpoint, or a change of anything but the jobs (runners, reservations, hosts, stores) that leaves
  the maps well formed. A step carries the keys of the jobs it may overwrite: updating or patching a job
  replaces its spec and its status, also to reset it, and what is shown of a job's history is shown of runs
  that do neither to it. Requests are handled one at a time.
\<close>

section \<open>Phases in order\<close>

definition rank :: "job \<Rightarrow> nat" where
  "rank j = (if is_terminal j then 4 else if phase j = ''Running'' then 3 else if phase j = ''Provisioning'' then 2
             else if phase j = ''Scheduling'' then 1 else 0)"

text \<open>
  How a job may move: a terminal job not at all, another one forward with its spec, key and creation time;
  a job that stays Running keeps the time at which it started.
\<close>

definition moves :: "job \<Rightarrow> job \<Rightarrow> bool" where
  "moves j j' \<longleftrightarrow> j' = j \<or> \<not> is_terminal j \<and> j_Spec j' = j_Spec j \<and> jobKey j' = jobKey j \<and> rank j \<le> rank j' \<and>
     j_CreationTimestamp j' = j_CreationTimestamp j \<and>
     (phase j = ''Running'' \<and> phase j' = ''Running'' \<longrightarrow> st_StartedAt (j_Status j') = st_StartedAt (j_Status j))"

lemma moves_refl [simp]: "moves j j"
  by (simp add: moves_def)

lemma moves_key: "moves j j' \<Longrightarrow> jobKey j' = jobKey j"
  by (auto simp: moves_def)

lemma rank_terminal: "is_terminal j \<longleftrightarrow> rank j = 4"
  by (simp add: rank_def)

lemma rank_running: "phase j = ''Running'' \<longleftrightarrow> rank j = 3"
  by (simp add: rank_def is_terminal_def)

lemma moves_trans: "moves i j \<Longrightarrow> moves j k \<Longrightarrow> moves i k"
  unfolding moves_def rank_running rank_terminal by auto

lemma cycle_edge_rank: "(phase j, phase j') \<in> cycle_edges \<Longrightarrow> \<not> is_terminal j \<and> rank j \<le> rank j' \<and> phase j' \<noteq> ''Running''"
  by (auto simp: cycle_edges_def rank_def is_terminal_def)

section \<open>Steps that keep every job in place\<close>

definition advances :: "provider \<Rightarrow> provider \<Rightarrow> bool" where
  "advances p q \<longleftrightarrow> (prov_wf p \<longrightarrow> prov_wf q \<and> rel_fun (=) (rel_option moves) (map_of (jobs p)) (map_of (jobs q)))"

lemma rel_option_moves_refl [simp]: "rel_option moves x x"
  by (cases x) simp_all

lemma advances_refl [simp]: "advances p p"
  by (simp add: advances_def rel_fun_def)

lemma advances_trans:
  assumes "advances p q" and "advances q r"
  shows "advances p r"
  unfolding advances_def
proof
  assume "prov_wf p"
  with assms have w: "prov_wf r" and
    "rel_fun (=) (rel_option moves) (map_of (jobs p)) (map_of (jobs q))" "rel_fun (=) (rel_option moves) (map_of (jobs q)) (map_of (jobs r))"
    by (auto simp: advances_def)
  then have "rel_option (moves OO moves) (map_of (jobs p) k) (map_of (jobs r) k)" for k
    unfolding option.rel_compp by (auto simp: rel_fun_def)
  moreover have "moves OO moves \<le> moves" by (auto intro: moves_trans)
  ultimately have "rel_option moves (map_of (jobs p) k) (map_of (jobs r) k)" for k
    using option.rel_mono by (metis predicate2D)
  with w show "prov_wf r \<and> rel_fun (=) (rel_option moves) (map_of (jobs p)) (map_of (jobs r))" by (simp add: rel_fun_def)
qed

lemma quiet_advances: "quiet p q \<Longrightarrow> advances p q"
  by (auto simp: advances_def rel_fun_def quiet_def intro: prov_wf_same_view)

lemma set_job_advances:
  assumes "map_of (jobs p) k = Some j" and "moves j j'"
  shows "advances p (set_job p k j')"
  unfolding advances_def
proof
  assume w: "prov_wf p"
  then have "jobKey j = k" using assms(1) unfolding prov_wf_def by blast
  then have "prov_wf (set_job p k j')" using prov_wf_set_job [OF w, of j' k] moves_key [OF assms(2)] by simp
  then show "prov_wf (set_job p k j') \<and> rel_fun (=) (rel_option moves) (map_of (jobs p)) (map_of (jobs (set_job p k j')))"
    using assms by (auto simp: rel_fun_def set_job_def update_conv' simp del: map_of_eq_Some_iff)
qed

lemma store_quiet [simp]:
  "quiet p (persistJob p j)" "quiet p (persistHostReservation p h)" "quiet p (persistBMH p k b)"
  "quiet p (delete_stored_job p k)" "quiet p (triggerScheduler p)" "quiet p (deleteJobLogs p k)"
  "quiet p (appendRunnerEvent now p r m)" "quiet p (p\<lparr>io_ok := f\<rparr>)" "quiet p (p\<lparr>kickScheduler := b'\<rparr>)"
  "quiet p (p\<lparr>store_jobLogs := l\<rparr>)" "quiet p (p\<lparr>store_jobs := sj\<rparr>)" "quiet p (p\<lparr>jobLogBuf := lb\<rparr>)"
  by (simp_all add: quiet_def same_view_def persistJob_def persistHostReservation_def persistBMH_def delete_stored_job_def
      triggerScheduler_def deleteJobLogs_def appendRunnerEvent_def split: option.splits)

lemma releaseJobHost_quiet:
  assumes "prov_wf p"
  shows "quiet p (releaseJobHost p j)"
proof (cases "reservation_of p j")
  case None
  then show ?thesis by (simp add: releaseJobHost_def)
next
  case (Some e)
  obtain k h where e: "e = (k, h)" by (cases e)
  have m: "map_of (hostReservations p) k = Some h"
    using find_entry [of "hostReservations p"] Some e assms unfolding reservation_of_def by (simp add: prov_wf_def)
  have "quiet p (set_hr p k (clear_if_last n h))" for n
    using set_hr_view [OF m, of "clear_if_last n h"] by (simp add: quiet_def clear_if_last_def)
  from quiet_trans [OF this store_quiet(2)] Some e show ?thesis by (simp add: releaseJobHost_def Let_def)
qed

lemma fold_quiet_all: "(\<And>x p. quiet p (f x p)) \<Longrightarrow> quiet p (fold f xs p)"
  by (induction xs arbitrary: p) (auto intro: quiet_trans)

lemma sched_flush_quiet: "quiet p (sched_flush (p, d))"
proof -
  have 1: "quiet q (fold (\<lambda>key p. case map_of (jobs p) key of Some j \<Rightarrow> persistJob p j | None \<Rightarrow> p) ks q)" for ks q
    by (rule fold_quiet_all) (auto split: option.splits)
  have 2: "quiet q (fold (\<lambda>key p. case map_of (hostReservations p) key of Some h \<Rightarrow> persistHostReservation p h | None \<Rightarrow> p) ks q)" for ks q
    by (rule fold_quiet_all) (auto split: option.splits)
  have 3: "quiet q (fold (\<lambda>key p. case map_of (bareMetalHosts p) key of Some b \<Rightarrow> persistBMH p key b | None \<Rightarrow> p) ks q)" for ks q
    by (rule fold_quiet_all) (auto split: option.splits)
  have 4: "quiet q (fold (\<lambda>key p. delete_stored_job p key) ks q)" for ks q
    by (rule fold_quiet_all) simp
  show ?thesis
    unfolding sched_flush_def split_conv Let_def
    by (rule quiet_trans [OF quiet_trans [OF quiet_trans [OF 1 2] 3] 4])
qed

section \<open>The agents' endpoints, cancelling, the scheduler\<close>

lemma running_moves:
  assumes "phase j = ''Running''" and "j_Spec j' = j_Spec j" and "j_Name j' = j_Name j" and "j_Namespace j' = j_Namespace j"
    and "j_CreationTimestamp j' = j_CreationTimestamp j"
    and "is_terminal j' \<or> phase j' = ''Running'' \<and> st_StartedAt (j_Status j') = st_StartedAt (j_Status j)"
  shows "moves j j'"
  using assms by (auto simp: moves_def rank_def is_terminal_def jobKey_def)

lemma find_job:
  assumes "prov_wf p" and "List.find P (Map_Snapshot (jobs p)) = Some (k, j)"
  shows "map_of (jobs p) k = Some j" and "P (k, j)"
  using find_entry [OF _ assms(2)] assms(1) by (auto simp: prov_wf_def)

lemma advancesI: "(prov_wf p \<Longrightarrow> advances p q) \<Longrightarrow> advances p q"
  by (simp add: advances_def)

lemma handleAgentWork_advances: "advances p (snd (handleAgentWork now p ip))"
proof (rule advancesI)
  assume w: "prov_wf p"
  show ?thesis
  proof (cases "bmh_by_ip p ip")
    case None
    then show ?thesis by (simp add: handleAgentWork_def)
  next
    case b: (Some b)
    let ?find = "List.find (\<lambda>(k, j). st_BMHRef (j_Status j) = bmh_Name b \<and> phase j = ''Provisioning'') (Map_Snapshot (jobs p))"
    show ?thesis
    proof (cases ?find)
      case None
      with b show ?thesis by (simp add: handleAgentWork_def)
    next
      case (Some e)
      obtain k j where e: "e = (k, j)" by (cases e)
      let ?j = "j\<lparr>j_Status := (j_Status j)\<lparr>st_Phase := ''Running'', st_StartedAt := format_rfc3339 now, st_LastHeartbeat := format_rfc3339 now\<rparr>\<rparr>"
      have m: "map_of (jobs p) k = Some j" "phase j = ''Provisioning''" using find_job [OF w Some [unfolded e]] by auto
      then have "moves j ?j" by (simp add: moves_def is_terminal_def rank_def jobKey_def)
      from advances_trans [OF set_job_advances [OF m(1) this] quiet_advances [OF store_quiet(1)]]
      have "advances p (persistJob (set_job p k ?j) ?j)" .
      with b Some e show ?thesis
        using advances_trans [OF _ quiet_advances [OF store_quiet(7)]] by (simp add: handleAgentWork_def Let_def)
    qed
  qed
qed

lemma terminate_advances:
  assumes "map_of (jobs p) k = Some j" and "moves j j'"
  shows "advances p (persistJob (releaseJobHost (set_job p k j') j') j')"
proof (rule advancesI)
  assume "prov_wf p"
  then have "prov_wf (set_job p k j')" using set_job_advances [OF assms] by (simp add: advances_def)
  then have "quiet (set_job p k j') (persistJob (releaseJobHost (set_job p k j') j') j')"
    using quiet_trans [OF releaseJobHost_quiet store_quiet(1)] by blast
  from advances_trans [OF set_job_advances [OF assms] quiet_advances [OF this]] show ?thesis .
qed

lemma handleAgentComplete_advances: "advances p (snd (handleAgentComplete now p ip body))"
proof (rule advancesI)
  assume w: "prov_wf p"
  show ?thesis
  proof (cases "bmh_by_ip p ip")
    case None
    then show ?thesis by (simp add: handleAgentComplete_def)
  next
    case b: (Some b)
    show ?thesis
    proof (cases body)
      case None
      with b show ?thesis by (simp add: handleAgentComplete_def)
    next
      case req: (Some req)
      show ?thesis
      proof (cases "List.find (\<lambda>(k, j). completes b req j) (Map_Snapshot (jobs p))")
        case None
        with b req show ?thesis by (simp add: handleAgentComplete_def)
      next
        case (Some e)
        obtain k j where e: "e = (k, j)" by (cases e)
        let ?j = "j\<lparr>j_Status := (j_Status j)\<lparr>st_ExitCode := Some (cr_ExitCode req),
                      st_CompletedAt := format_rfc3339 now, st_ErrorMessage := cr_ErrorMessage req,
                      st_Phase := (if cr_ExitCode req = 0 then ''Completed'' else ''Failed'')\<rparr>\<rparr>"
        have m: "map_of (jobs p) k = Some j" "phase j = ''Running''"
          using find_job [OF w Some [unfolded e]] by (auto simp: completes_def)
        then have "moves j ?j" by (intro running_moves) (auto simp: is_terminal_def)
        from advances_trans [OF terminate_advances [OF m(1) this] quiet_advances [OF store_quiet(5)]]
        have "advances p (triggerScheduler (persistJob (releaseJobHost (set_job p k ?j) ?j) ?j))" .
        with b req Some e show ?thesis
          using advances_trans [OF _ quiet_advances [OF store_quiet(7)]] by (simp add: handleAgentComplete_def Let_def)
      qed
    qed
  qed
qed

lemma handleCancelJob_advances: "advances p (snd (handleCancelJob now p ns name))"
proof (cases "map_of (jobs p) (ns @ ''/'' @ name)")
  case None
  then show ?thesis by (simp add: handleCancelJob_def Map_Get_def)
next
  case (Some j)
  let ?j = "j\<lparr>j_Status := (j_Status j)\<lparr>st_Phase := ''Cancelled'', st_CompletedAt := format_rfc3339 now, st_ErrorMessage := ''cancelled by user''\<rparr>\<rparr>"
  have "moves j ?j" if "\<not> is_terminal j" using that by (simp add: moves_def rank_def is_terminal_def jobKey_def)
  then show ?thesis
    using Some terminate_advances [OF Some] by (simp add: handleCancelJob_def Map_Get_def Let_def)
qed

lemma appendJobLogs_quiet: "appendJobLogs p k ls = Some q \<Longrightarrow> quiet p q"
  by (auto simp: appendJobLogs_def Let_def quiet_def same_view_def split: option.splits)

lemma handleAgentLogs_advances:
  assumes "handleAgentLogs now p ip ref body = Some (r, q)"
  shows "advances p q"
proof (rule advancesI)
  assume w: "prov_wf p"
  show ?thesis
  proof (cases "bmh_by_ip p ip")
    case None
    with assms show ?thesis by (simp add: handleAgentLogs_def)
  next
    case b: (Some b)
    show ?thesis
    proof (cases "List.find (\<lambda>(k, j). st_BMHRef (j_Status j) = bmh_Name b \<and> phase j = ''Running'' \<and> (ref = '''' \<or> jobKey j = ref)) (Map_Snapshot (jobs p))")
      case None
      with assms b show ?thesis by (simp add: handleAgentLogs_def)
    next
      case (Some e)
      obtain k j where e: "e = (k, j)" by (cases e)
      have m: "map_of (jobs p) k = Some j" "phase j = ''Running''" using find_job [OF w Some [unfolded e]] by auto
      let ?ls = "split_lines [] (TrimSpace body)"
      obtain p1 where p1: "appendJobLogs p (jobKey j) ?ls = Some p1"
        using assms b Some e by (auto simp: handleAgentLogs_def Let_def split: option.splits)
      let ?j = "j\<lparr>j_Status := (j_Status j)\<lparr>st_LogLines := st_LogLines (j_Status j) + int (length ?ls), st_LastHeartbeat := format_rfc3339 now\<rparr>\<rparr>"
      have q: "q = set_job p1 k ?j" using assms b Some e p1 by (simp add: handleAgentLogs_def Let_def)
      have m1: "map_of (jobs p1) k = Some j" using appendJobLogs_quiet [OF p1] m(1) by (simp add: quiet_def)
      have "moves j ?j" using m(2) by (intro running_moves) simp_all
      from advances_trans [OF quiet_advances [OF appendJobLogs_quiet [OF p1]] set_job_advances [OF m1 this]] show ?thesis unfolding q .
    qed
  qed
qed

lemma run_scheduler_jobs:
  "jobs (run_scheduler tz now kicked p) = jobs (fst (schedulerTick tz now (if kicked then p\<lparr>kickScheduler := False\<rparr> else p)))"
  using sched_flush_quiet [of "fst s" "snd s" for s] unfolding run_scheduler_def by (simp add: quiet_def)

lemma store_agent_env_quiet:
  assumes "prov_wf p"
  shows "quiet p (store_agent_env now p b e)"
proof (cases e)
  case None
  then show ?thesis by (simp add: store_agent_env_def)
next
  case env: (Some env)
  show ?thesis
  proof (cases "List.find (\<lambda>(k, h). hs_BMHRef (hr_Spec h) = bmh_Name b) (Map_Snapshot (hostReservations p))")
    case None
    with env show ?thesis by (simp add: store_agent_env_def)
  next
    case (Some e)
    obtain k h where e: "e = (k, h)" by (cases e)
    have m: "map_of (hostReservations p) k = Some h"
      using find_entry [of "hostReservations p"] Some e assms by (simp add: prov_wf_def)
    let ?h = "h\<lparr>hr_Status := (hr_Status h)\<lparr>hst_AgentEnv := Some (env\<lparr>ae_ReportedAt := format_rfc3339 now\<rparr>)\<rparr>\<rparr>"
    have "quiet p (set_hr p k ?h)" using set_hr_view [OF m, of ?h] by (simp add: quiet_def)
    from quiet_trans [OF this store_quiet(2)] env Some e show ?thesis by (simp add: store_agent_env_def Let_def)
  qed
qed

lemma beat_all_advances:
  assumes "distinct (map fst L)" and "\<And>k j. (k, j) \<in> set L \<Longrightarrow> map_of (jobs p) k = Some j \<and> phase j = ''Running''"
  shows "advances p (fold (\<lambda>(k, j) p. persistJob (set_job p k (beat now j)) (beat now j)) L p)"
  using assms
proof (induction L arbitrary: p)
  case (Cons e L)
  obtain k j where e: "e = (k, j)" by (cases e)
  let ?q = "persistJob (set_job p k (beat now j)) (beat now j)"
  have m: "map_of (jobs p) k = Some j" "phase j = ''Running''" using Cons.prems(2) e by auto
  have "moves j (beat now j)" using m(2) by (intro running_moves) (simp_all add: beat_def)
  from advances_trans [OF set_job_advances [OF m(1) this] quiet_advances [OF store_quiet(1)]] have 1: "advances p ?q" .
  have jq: "jobs ?q = AList.update k (beat now j) (jobs p)" by (simp add: persistJob_def set_job_def)
  have "map_of (jobs ?q) k' = Some j' \<and> phase j' = ''Running''" if "(k', j') \<in> set L" for k' j'
  proof -
    have "k' \<noteq> k" using Cons.prems(1) e that by force
    then show ?thesis using Cons.prems(2) [of k' j'] that unfolding jq update_conv' by (simp del: map_of_eq_Some_iff)
  qed
  with Cons.IH [of ?q] Cons.prems(1) e have "advances ?q (fold (\<lambda>(k, j) p. persistJob (set_job p k (beat now j)) (beat now j)) L ?q)"
    by simp
  from advances_trans [OF 1 this] e show ?case by simp
qed simp

lemma handleAgentHeartbeat_advances: "advances p (snd (handleAgentHeartbeat now p ip req))"
proof (rule advancesI)
  assume w: "prov_wf p"
  show ?thesis
  proof (cases "bmh_by_ip p ip")
    case None
    then show ?thesis by (simp add: handleAgentHeartbeat_def)
  next
    case b: (Some b)
    let ?p1 = "store_agent_env now p b (hb_Env req)"
    let ?L = "filter (\<lambda>(k, j). beats b req j) (Map_Snapshot (jobs ?p1))"
    let ?p2 = "fold (\<lambda>(k, j) p. persistJob (set_job p k (beat now j)) (beat now j)) ?L ?p1"
    have w1: "gm_wf (jobs ?p1)" using quiet_wf [OF w store_agent_env_quiet [OF w]] unfolding prov_wf_def by blast
    have L: "distinct (map fst ?L)" "\<And>k j. (k, j) \<in> set ?L \<Longrightarrow> map_of (jobs ?p1) k = Some j \<and> phase j = ''Running''"
      using w1 by (simp_all add: Snapshot_eq beats_def)
    have 2: "advances p ?p2"
      using advances_trans [OF quiet_advances [OF store_agent_env_quiet [OF w]] beat_all_advances [OF L]] .
    have q: "snd (handleAgentHeartbeat now p ip req) = ?p2 \<or>
        (\<exists>r m. snd (handleAgentHeartbeat now p ip req) = appendRunnerEvent now ?p2 r m)"
    proof -
      have "snd (handleAgentHeartbeat now p ip req) =
          (if hb_Status req \<noteq> [] \<and> hb_Job req \<noteq> [] then
             (case Map_Get (jobs ?p2) (hb_Job req) of
                Some j \<Rightarrow> if st_RunnerRef (j_Status j) \<noteq> []
                  then appendRunnerEvent now ?p2 (st_RunnerRef (j_Status j)) (hb_Job req @ '': '' @ hb_Status req) else ?p2
              | None \<Rightarrow> ?p2)
           else ?p2)"
        unfolding handleAgentHeartbeat_def b option.case Let_def if_distrib [of snd] snd_conv if_cancel ..
      then show ?thesis by (cases "Map_Get (jobs ?p2) (hb_Job req)") (auto split: if_splits)
    qed
    then show ?thesis using 2 advances_trans [OF 2 quiet_advances [OF store_quiet(7)]] by auto
  qed
qed

lemma run_scheduler_advances:
  assumes "prov_wf p"
  shows "prov_wf (run_scheduler tz now kicked p)" and
    "map_of (jobs (run_scheduler tz now kicked p)) k = None \<and> (\<exists>j. map_of (jobs p) k = Some j \<and> is_terminal j) \<or>
     rel_option moves (map_of (jobs p) k) (map_of (jobs (run_scheduler tz now kicked p)) k)"
proof -
  let ?p = "if kicked then p\<lparr>kickScheduler := False\<rparr> else p"
  have w: "prov_wf ?p" and j: "jobs ?p = jobs p" using assms by (simp_all add: prov_wf_def)
  note t = tick_lifecycle_lemma [OF w, of tz now k]
  show "prov_wf (run_scheduler tz now kicked p)"
    unfolding run_scheduler_def using quiet_wf [OF _ sched_flush_quiet] t by (metis prod.collapse)
  show "map_of (jobs (run_scheduler tz now kicked p)) k = None \<and> (\<exists>j. map_of (jobs p) k = Some j \<and> is_terminal j) \<or>
     rel_option moves (map_of (jobs p) k) (map_of (jobs (run_scheduler tz now kicked p)) k)"
    using t unfolding run_scheduler_jobs j
    by (auto simp: expired_job_def moves_def dest!: cycle_edge_rank split: option.splits simp del: map_of_eq_Some_iff)
qed

section \<open>Creating and deleting\<close>

text \<open>What any step may do to one entry of the job map: create it, remove it when it is not active, or move it.\<close>

fun job_change :: "job option \<Rightarrow> job option \<Rightarrow> bool" where
  "job_change None x = True"
| "job_change (Some j) None = (\<not> is_active j)"
| "job_change (Some j) (Some j') = moves j j'"

definition evolves :: "provider \<Rightarrow> provider \<Rightarrow> bool" where
  "evolves p q \<longleftrightarrow> (prov_wf p \<longrightarrow> prov_wf q \<and> (\<forall>k. job_change (map_of (jobs p) k) (map_of (jobs q) k)))"

text \<open>The same but for the jobs under some keys.\<close>

definition evolves_but :: "string set \<Rightarrow> provider \<Rightarrow> provider \<Rightarrow> bool" where
  "evolves_but K p q \<longleftrightarrow>
     (prov_wf p \<longrightarrow> prov_wf q \<and> (\<forall>k. k \<notin> K \<longrightarrow> job_change (map_of (jobs p) k) (map_of (jobs q) k)))"

lemma evolves_none: "evolves p q \<Longrightarrow> evolves_but {} p q"
  by (simp add: evolves_def evolves_but_def)

lemma rel_option_job_change: "rel_option moves x y \<Longrightarrow> job_change x y"
  by (cases x; cases y) simp_all

lemma advances_evolves: "advances p q \<Longrightarrow> evolves p q"
  by (auto simp: advances_def evolves_def rel_fun_def intro: rel_option_job_change)

lemma job_change_refl [simp]: "job_change x x"
  by (cases x) simp_all

lemma terminal_not_active: "is_terminal j \<Longrightarrow> \<not> is_active j"
  by (auto simp: is_terminal_def is_active_def)

lemma run_scheduler_evolves: "evolves p (run_scheduler tz now kicked p)"
  unfolding evolves_def
proof (intro impI conjI allI)
  assume w: "prov_wf p"
  show "prov_wf (run_scheduler tz now kicked p)" by (rule run_scheduler_advances(1) [OF w])
  fix k
  from run_scheduler_advances(2) [OF w, of tz now kicked k]
  show "job_change (map_of (jobs p) k) (map_of (jobs (run_scheduler tz now kicked p)) k)"
    by (auto intro: rel_option_job_change simp: terminal_not_active)
qed

lemma create_evolves:
  assumes "map_of (jobs p) k = None" and "jobKey j = k" and "quiet (set_job p k j) q"
  shows "evolves p q"
  unfolding evolves_def
proof (intro impI conjI allI)
  assume w: "prov_wf p"
  show "prov_wf q" using quiet_wf [OF prov_wf_set_job [OF w assms(2)] assms(3)] .
  fix i show "job_change (map_of (jobs p) i) (map_of (jobs q) i)"
    using assms(1,3) by (cases "i = k") (auto simp: quiet_def set_job_def update_conv' simp del: map_of_eq_Some_iff)
qed

lemma handleCreateJob_state:
  "snd (handleCreateJob now p ns body) = p \<or>
   (\<exists>j. snd (handleCreateJob now p ns body) = triggerScheduler (set_job (persistJob p j) (jobKey j) j) \<and>
        map_of (jobs p) (jobKey j) = None \<and> j_Namespace j = ns)"
proof (cases body)
  case None
  then show ?thesis by (simp add: handleCreateJob_def)
next
  case (Some b)
  let ?j0 = "b\<lparr>j_Namespace := ns\<rparr>"
  let ?j1 = "if j_CreationTimestamp ?j0 = zero_time then ?j0\<lparr>j_CreationTimestamp := now\<rparr> else ?j0"
  let ?j = "if phase ?j1 = '''' then ?j1\<lparr>j_Status := (j_Status ?j1)\<lparr>st_Phase := ''Pending''\<rparr>\<rparr> else ?j1"
  have k: "jobKey ?j = ns @ ''/'' @ j_Name b" and n: "j_Namespace ?j = ns" by (simp_all add: jobKey_def)
  show ?thesis
  proof (cases "snd (handleCreateJob now p ns body) = p")
    case False
    then have "snd (handleCreateJob now p ns body) = triggerScheduler (set_job (persistJob p ?j) (ns @ ''/'' @ j_Name b) ?j) \<and>
        map_of (jobs p) (ns @ ''/'' @ j_Name b) = None"
      unfolding handleCreateJob_def Some Let_def Map_Has_def
      by (simp only: option.case job.simps snd_conv split: if_splits) (auto simp: option.disc_eq_case split: option.splits)
    then show ?thesis unfolding k [symmetric] using n by blast
  qed simp
qed

lemma handleCreateJob_evolves: "evolves p (snd (handleCreateJob now p ns body))"
proof (cases "snd (handleCreateJob now p ns body) = p")
  case True
  then show ?thesis by (simp add: evolves_def)
next
  case False
  then obtain j where j: "snd (handleCreateJob now p ns body) = triggerScheduler (set_job (persistJob p j) (jobKey j) j)"
    "map_of (jobs p) (jobKey j) = None"
    using handleCreateJob_state [of now p ns body] by blast
  have "quiet (set_job p (jobKey j) j) (triggerScheduler (set_job (persistJob p j) (jobKey j) j))"
    by (simp add: quiet_def same_view_def set_job_def persistJob_def triggerScheduler_def)
  then show ?thesis unfolding j(1) by (rule create_evolves [OF j(2) refl])
qed

lemma prov_wf_delete:
  assumes "prov_wf p" and "jobs q = fold AList.delete ks (jobs p)" and "same_view p q"
  shows "prov_wf q"
proof -
  have "prov_wf (p\<lparr>jobs := fold AList.delete ks (jobs p)\<rparr>)"
    using assms(1) gm_wf_fold_delete [of "jobs p" ks] unfolding prov_wf_def
    by (auto simp: map_of_fold_delete simp del: map_of_eq_Some_iff split: if_splits)
  then show ?thesis using prov_wf_same_view assms(2,3) by (auto simp: same_view_def)
qed

lemma delete_evolves:
  assumes "\<And>k j. k \<in> set ks \<Longrightarrow> map_of (jobs p) k = Some j \<Longrightarrow> \<not> is_active j"
    and "jobs q = fold AList.delete ks (jobs p)" and "same_view p q"
  shows "evolves p q"
  unfolding evolves_def
proof (intro impI conjI allI)
  assume "prov_wf p"
  then show "prov_wf q" using prov_wf_delete assms(2,3) by blast
  fix k show "job_change (map_of (jobs p) k) (map_of (jobs q) k)"
    using assms(1) unfolding assms(2) map_of_fold_delete
    by (cases "map_of (jobs p) k") (auto simp del: map_of_eq_Some_iff)
qed

lemma handleDeleteJob_evolves: "evolves p (snd (handleDeleteJob p ns name))"
proof (cases "snd (handleDeleteJob p ns name) \<in> {p, deleteJobLogs p (ns @ ''/'' @ name)}")
  case True
  then show ?thesis using quiet_advances [OF store_quiet(6)] by (auto intro: advances_evolves)
next
  case False
  then obtain j where j: "map_of (jobs p) (ns @ ''/'' @ name) = Some j" "\<not> is_active j"
    by (auto simp: handleDeleteJob_def Let_def Map_Get_def is_active_def split: option.splits if_splits prod.splits bool.splits
        simp del: map_of_eq_Some_iff)
  have "same_view p (snd (handleDeleteJob p ns name))" "jobs (snd (handleDeleteJob p ns name)) = fold AList.delete [ns @ ''/'' @ name] (jobs p)"
    using False j by (auto simp: handleDeleteJob_def Let_def Map_Get_def Map_Delete_def same_view_def deleteJobLogs_def is_active_def
        split: option.splits if_splits prod.splits bool.splits simp del: map_of_eq_Some_iff)
  then show ?thesis using delete_evolves [of "[ns @ ''/'' @ name]" p "snd (handleDeleteJob p ns name)"] j by force
qed

lemma fold_cleanup:
  "jobs (fold (\<lambda>key p. let p = delete_stored_job (deleteJobLogs p key) key in p\<lparr>jobs := Map_Delete (jobs p) key\<rparr>) ks p) =
     fold AList.delete ks (jobs p) \<and>
   same_view p (fold (\<lambda>key p. let p = delete_stored_job (deleteJobLogs p key) key in p\<lparr>jobs := Map_Delete (jobs p) key\<rparr>) ks p)"
proof (induction ks arbitrary: p)
  case (Cons k ks)
  let ?q = "(delete_stored_job (deleteJobLogs p k) k)\<lparr>jobs := Map_Delete (jobs (delete_stored_job (deleteJobLogs p k) k)) k\<rparr>"
  have "same_view p ?q" "jobs ?q = AList.delete k (jobs p)"
    by (simp_all add: same_view_def deleteJobLogs_def Map_Delete_def delete_stored_job_def split: option.splits)
  with Cons.IH [of ?q] show ?case by (auto simp: Let_def intro: same_view_trans)
qed simp

lemma handleCleanupJobs_evolves: "evolves p (snd (handleCleanupJobs now pd p olderThan pool dryRun))"
proof (cases "snd (handleCleanupJobs now pd p olderThan pool dryRun) = p")
  case True
  then show ?thesis by (simp add: evolves_def)
next
  case False
  then obtain th where th: "parseDuration pd (if olderThan = '''' then ''7d'' else olderThan) = Some th" "\<not> dryRun"
    by (auto simp: handleCleanupJobs_def Let_def split: option.splits if_splits)
  let ?ks = "map fst (filter (\<lambda>(k, j). cleanup_matches (now - th) pool j) (Map_Snapshot (jobs p)))"
  have q: "snd (handleCleanupJobs now pd p olderThan pool dryRun) =
      fold (\<lambda>key p. let p = delete_stored_job (deleteJobLogs p key) key in p\<lparr>jobs := Map_Delete (jobs p) key\<rparr>) ?ks p"
    using th by (simp add: handleCleanupJobs_def Let_def)
  show ?thesis
  proof (cases "prov_wf p")
    case True
    then have g: "gm_wf (jobs p)" unfolding prov_wf_def by blast
    have "\<not> is_active j" if "k \<in> set ?ks" "map_of (jobs p) k = Some j" for k j
    proof -
      from that(1) obtain i where "(k, i) \<in> set (jobs p)" "cleanup_matches (now - th) pool i" using g by auto
      moreover have "i = j" using map_of_is_SomeI [OF g calculation(1)] that(2) by simp
      ultimately show ?thesis by (auto simp: cleanup_matches_def expired_job_def terminal_not_active)
    qed
    moreover have "jobs (snd (handleCleanupJobs now pd p olderThan pool dryRun)) = fold AList.delete ?ks (jobs p)"
      "same_view p (snd (handleCleanupJobs now pd p olderThan pool dryRun))"
      unfolding q using fold_cleanup [of ?ks p] by (rule conjunct1, rule conjunct2)
    ultimately show ?thesis by (rule delete_evolves [where ks = ?ks])
  qed (simp add: evolves_def)
qed

section \<open>The transition system\<close>

lemma overwrite_evolves:
  assumes "jobKey j = k" and "quiet (set_job p k j) q"
  shows "evolves_but {k} p q"
  unfolding evolves_but_def
proof (intro impI conjI allI)
  assume w: "prov_wf p"
  show "prov_wf q" using quiet_wf [OF prov_wf_set_job [OF w assms(1)] assms(2)] .
  fix i assume "i \<notin> {k}"
  then show "job_change (map_of (jobs p) i) (map_of (jobs q) i)"
    using assms(2) by (simp add: quiet_def set_job_def update_conv' del: map_of_eq_Some_iff)
qed

lemma clear_logs_on_reset_quiet: "quiet p (clear_logs_on_reset p key old j)"
  by (simp add: clear_logs_on_reset_def Let_def quiet_def same_view_def deleteJobLogs_def)

lemma set_job_quiet: "quiet p q \<Longrightarrow> quiet (set_job p k j) (set_job q k j)"
  by (simp add: quiet_def same_view_def set_job_def)

lemma stored_overwrite:
  assumes "jobKey j = k" and "quiet p p'"
  shows "evolves_but {k} p (triggerScheduler (set_job (persistJob p' j) k j))"
  by (rule overwrite_evolves [OF assms(1)])
    (rule quiet_trans [OF set_job_quiet [OF quiet_trans [OF assms(2) store_quiet(1)]] store_quiet(5)])

lemma handleUpdateJob_state:
  "snd (handleUpdateJob p ns name body) = p \<or>
   (\<exists>old j. snd (handleUpdateJob p ns name body) =
        triggerScheduler (set_job (persistJob (clear_logs_on_reset p (ns @ ''/'' @ name) old j) j) (ns @ ''/'' @ name) j) \<and>
      j_Name j = name \<and> j_Namespace j = ns)"
proof (cases "snd (handleUpdateJob p ns name body) = p")
  case False
  then obtain old b where "map_of (jobs p) (ns @ ''/'' @ name) = Some old" "body = Some b"
    by (auto simp: handleUpdateJob_def Let_def Map_Get_def split: option.splits)
  then obtain j where "snd (handleUpdateJob p ns name body) =
      triggerScheduler (set_job (persistJob (clear_logs_on_reset p (ns @ ''/'' @ name) old j) j) (ns @ ''/'' @ name) j)"
    and "j_Name j = name" "j_Namespace j = ns"
    by (auto simp: handleUpdateJob_def Let_def Map_Get_def)
  then show ?thesis by blast
qed simp

lemma handleUpdateJob_evolves: "evolves_but {ns @ ''/'' @ name} p (snd (handleUpdateJob p ns name body))"
  using handleUpdateJob_state [of p ns name body]
proof (elim disjE exE conjE)
  fix old j
  assume q: "snd (handleUpdateJob p ns name body) =
      triggerScheduler (set_job (persistJob (clear_logs_on_reset p (ns @ ''/'' @ name) old j) j) (ns @ ''/'' @ name) j)"
    and "j_Name j = name" "j_Namespace j = ns"
  then have "jobKey j = ns @ ''/'' @ name" by (simp add: jobKey_def)
  from stored_overwrite [OF this clear_logs_on_reset_quiet] show ?thesis unfolding q .
qed (simp add: evolves_but_def)

lemma handlePatchJob_state:
  "snd (handlePatchJob p ns name patch) = p \<or>
   (\<exists>old j. snd (handlePatchJob p ns name patch) =
        triggerScheduler (set_job (persistJob (clear_logs_on_reset p (ns @ ''/'' @ name) old j) j) (ns @ ''/'' @ name) j) \<and>
      j_Name j = name \<and> j_Namespace j = ns)"
proof (cases "snd (handlePatchJob p ns name patch) = p")
  case False
  then obtain old b where "map_of (jobs p) (ns @ ''/'' @ name) = Some old" "patch old = Some b"
    by (auto simp: handlePatchJob_def Let_def Map_Get_def split: option.splits)
  then obtain j where "snd (handlePatchJob p ns name patch) =
      triggerScheduler (set_job (persistJob (clear_logs_on_reset p (ns @ ''/'' @ name) old j) j) (ns @ ''/'' @ name) j)"
    and "j_Name j = name" "j_Namespace j = ns"
    by (auto simp: handlePatchJob_def Let_def Map_Get_def)
  then show ?thesis by blast
qed simp

lemma handlePatchJob_evolves: "evolves_but {ns @ ''/'' @ name} p (snd (handlePatchJob p ns name patch))"
  using handlePatchJob_state [of p ns name patch]
proof (elim disjE exE conjE)
  fix old j
  assume q: "snd (handlePatchJob p ns name patch) =
      triggerScheduler (set_job (persistJob (clear_logs_on_reset p (ns @ ''/'' @ name) old j) j) (ns @ ''/'' @ name) j)"
    and "j_Name j = name" "j_Namespace j = ns"
  then have "jobKey j = ns @ ''/'' @ name" by (simp add: jobKey_def)
  from stored_overwrite [OF this clear_logs_on_reset_quiet] show ?thesis unfolding q .
qed (simp add: evolves_but_def)

inductive job_step :: "string set \<Rightarrow> provider \<Rightarrow> provider \<Rightarrow> bool" where
  st_cycle: "job_step {} p (run_scheduler tz now kicked p)"
| st_create: "job_step {} p (snd (handleCreateJob now p ns body))"
| st_update: "job_step {ns @ ''/'' @ name} p (snd (handleUpdateJob p ns name body))"
| st_patch: "job_step {ns @ ''/'' @ name} p (snd (handlePatchJob p ns name patch))"
| st_delete: "job_step {} p (snd (handleDeleteJob p ns name))"
| st_cancel: "job_step {} p (snd (handleCancelJob now p ns name))"
| st_cleanup: "job_step {} p (snd (handleCleanupJobs now pd p olderThan pool dryRun))"
| st_work: "job_step {} p (snd (handleAgentWork now p ip))"
| st_heartbeat: "job_step {} p (snd (handleAgentHeartbeat now p ip req))"
| st_logs: "handleAgentLogs now p ip ref text = Some (r, q) \<Longrightarrow> job_step {} p q"
| st_complete: "job_step {} p (snd (handleAgentComplete now p ip report))"
| st_other: "jobs q = jobs p \<Longrightarrow> prov_wf q \<Longrightarrow> job_step {} p q"

lemma other_evolves: "jobs q = jobs p \<Longrightarrow> prov_wf q \<Longrightarrow> evolves p q"
  by (simp add: evolves_def)

lemma job_step_evolves: "job_step K p q \<Longrightarrow> evolves_but K p q"
  by (induction rule: job_step.induct)
    (use handleUpdateJob_evolves handlePatchJob_evolves in \<open>auto intro!: evolves_none
      intro: run_scheduler_evolves handleCreateJob_evolves handleDeleteJob_evolves handleCleanupJobs_evolves
      advances_evolves handleCancelJob_advances handleAgentWork_advances handleAgentHeartbeat_advances
      handleAgentLogs_advances handleAgentComplete_advances other_evolves\<close>)

text \<open>Runs during which the job under a key is never missing and is neither updated nor patched.\<close>

inductive live_run :: "string \<Rightarrow> provider \<Rightarrow> provider \<Rightarrow> bool" for key where
  live_start: "map_of (jobs p) key \<noteq> None \<Longrightarrow> live_run key p p"
| live_step: "live_run key p q \<Longrightarrow> job_step K q r \<Longrightarrow> key \<notin> K \<Longrightarrow> map_of (jobs r) key \<noteq> None \<Longrightarrow> live_run key p r"

lemma live_run_moves:
  assumes "live_run key p q" and "prov_wf p" and "map_of (jobs p) key = Some j"
  shows "prov_wf q \<and> (\<exists>j'. map_of (jobs q) key = Some j' \<and> moves j j')"
  using assms
proof (induction rule: live_run.induct)
  case (live_step p q K r)
  then obtain i where q: "prov_wf q" "map_of (jobs q) key = Some i" "moves j i" by blast
  obtain j' where r: "map_of (jobs r) key = Some j'" using live_step.hyps by blast
  have "prov_wf r \<and> job_change (map_of (jobs q) key) (map_of (jobs r) key)"
    using job_step_evolves [OF live_step.hyps(2)] q(1) live_step.hyps(3) by (simp add: evolves_but_def)
  with q r show ?case using moves_trans [OF q(3)] by (auto simp del: map_of_eq_Some_iff)
qed auto

section \<open>Properties\<close>



text \<open>What a cycle makes of a job, its parameters as they are in the scheduler's loop.\<close>

lemma run_scheduler_job:
  assumes "prov_wf p" and "map_of (jobs p) k = Some j" and "phase j \<noteq> ''Pending''"
  shows "map_of (jobs (run_scheduler tz now kicked p)) k = None \<and> is_terminal j \<or>
    map_of (jobs (run_scheduler tz now kicked p)) k = Some (timed_out now j)"
proof -
  let ?p = "if kicked then p\<lparr>kickScheduler := False\<rparr> else p"
  have w: "prov_wf ?p" and m: "map_of (jobs ?p) k = Some j" using assms(1,2) by (simp_all add: prov_wf_def)
  from w m show ?thesis
    unfolding run_scheduler_jobs
    by (cases rule: tick_job_cases [where tz = tz and now = now]) (use assms(3) in \<open>auto simp: expired_job_def\<close>)
qed



lemma handleAgentWork_ok:
  assumes "prov_wf p" and "handleAgentWork now p ip = (HttpOk 200 j, q)"
  shows "\<exists>b i. bmh_by_ip p ip = Some b \<and> map_of (jobs p) (jobKey j) = Some i \<and> phase i = ''Provisioning'' \<and>
    st_BMHRef (j_Status i) = bmh_Name b \<and> map_of (jobs q) (jobKey j) = Some j \<and> phase j = ''Running''"
proof -
  obtain b where b: "bmh_by_ip p ip = Some b" using assms(2) by (auto simp: handleAgentWork_def split: option.splits)
  obtain k i where f: "List.find (\<lambda>(k, j). st_BMHRef (j_Status j) = bmh_Name b \<and> phase j = ''Provisioning'') (Map_Snapshot (jobs p)) = Some (k, i)"
    using assms(2) b by (auto simp: handleAgentWork_def split: option.splits)
  note i = find_job [OF assms(1) f]
  have j: "j = i\<lparr>j_Status := (j_Status i)\<lparr>st_Phase := ''Running'', st_StartedAt := format_rfc3339 now, st_LastHeartbeat := format_rfc3339 now\<rparr>\<rparr>"
    and q: "jobs q = AList.update k j (jobs p)"
    using assms(2) b f by (auto simp: handleAgentWork_def Let_def persistJob_def set_job_def)
  have "jobKey i = k" using assms(1) i(1) unfolding prov_wf_def by blast
  then have "jobKey j = k" by (simp add: j jobKey_def)
  with b i q show ?thesis by (simp add: j update_conv' del: map_of_eq_Some_iff)
qed

text \<open>
  The handler takes no lock between finding a job and marking it: its two halves, the first of which reads
  a snapshot of the jobs and the second of which writes the one that was found.
\<close>

definition agent_claim :: "provider \<Rightarrow> string \<Rightarrow> (bare_metal_host \<times> string \<times> job) option" where
  "agent_claim p sourceIP =
     (case bmh_by_ip p sourceIP of
        None \<Rightarrow> None
      | Some b \<Rightarrow>
          map_option (\<lambda>(key, j). (b, key, j))
            (List.find (\<lambda>(k, j). st_BMHRef (j_Status j) = bmh_Name b \<and> phase j = ''Provisioning'') (Map_Snapshot (jobs p))))"

definition agent_start :: "instant \<Rightarrow> provider \<Rightarrow> string \<Rightarrow> bare_metal_host \<times> string \<times> job \<Rightarrow> job response \<times> provider" where
  "agent_start now p sourceIP = (\<lambda>(b, key, j).
     (let j = j\<lparr>j_Status := (j_Status j)\<lparr>st_Phase := ''Running'', st_StartedAt := format_rfc3339 now,
                                        st_LastHeartbeat := format_rfc3339 now\<rparr>\<rparr>;
          p = persistJob (set_job p key j) j;
          p = (if st_RunnerRef (j_Status j) \<noteq> []
               then appendRunnerEvent now p (st_RunnerRef (j_Status j))
                      (''Agent started '' @ jobKey j @ '' on '' @ bmh_Name b @ '' ('' @ sourceIP @ '')'') else p)
      in (HttpOk 200 j, p)))"

lemma handleAgentWork_halves:
  "handleAgentWork now p ip =
     (case agent_claim p ip of
        Some c \<Rightarrow> agent_start now p ip c
      | None \<Rightarrow> (if bmh_by_ip p ip = None then HttpError 404 else HttpNoContent, p))"
proof (cases "bmh_by_ip p ip")
  case (Some b)
  show ?thesis
  proof (cases "List.find (\<lambda>(k, j). st_BMHRef (j_Status j) = bmh_Name b \<and> phase j = ''Provisioning'') (Map_Snapshot (jobs p))")
    case None
    with Some show ?thesis by (simp add: handleAgentWork_def agent_claim_def)
  next
    case (Some e)
    with \<open>bmh_by_ip p ip = Some b\<close> show ?thesis
      by (cases e) (simp add: handleAgentWork_def agent_claim_def agent_start_def Let_def)
  qed
qed (simp add: handleAgentWork_def agent_claim_def)

text \<open>Two requests of one host whose first halves both come first are both given the same job.\<close>

lemma simultaneous_requests_share_work:
  assumes "agent_claim p ip = Some c" and "agent_start now p ip c = (r, q)" and "agent_start now' q ip c = (r', q')"
  shows "\<exists>j j'. r = HttpOk 200 j \<and> r' = HttpOk 200 j' \<and> jobKey j' = jobKey j"
  using assms by (auto simp: agent_start_def Let_def jobKey_def split: prod.splits)



end
