(* ===== verification/JobStore.thy ===== *)
theory JobStore
  imports JobLife
begin

text \<open>
  The jobs in memory and the bucket they are written to: after any sequence of request handlers on a
  healthy store the bucket holds exactly the jobs in memory, as JSON keeps them, and a restart
  (\<open>LoadJobsFromStore\<close> into an empty map) brings them back with their creation times cut to the second. Store
  keys join namespace and name with a dot, so this needs namespaces without dots.
\<close>

section \<open>Keys\<close>

definition plain :: "string \<Rightarrow> bool" where
  "plain ns \<longleftrightarrow> CHR ''.'' \<notin> set ns \<and> CHR ''/'' \<notin> set ns"

lemma join_inject:
  assumes "c \<notin> set a" and "c \<notin> set a'" and "a @ c # b = a' @ c # b'"
  shows "a = a' \<and> b = b'"
  using takeWhile_neq_append [OF assms(1), of b] takeWhile_neq_append [OF assms(2), of b'] assms(3) by simp

lemma store_key_inject: "plain ns \<Longrightarrow> plain ns' \<Longrightarrow> store_key ns n = store_key ns' n' \<longleftrightarrow> ns = ns' \<and> n = n'"
  using join_inject [of "CHR ''.''" ns ns' n n'] by (auto simp: store_key_def plain_def)

lemma jobKey_inject:
  "plain (j_Namespace i) \<Longrightarrow> plain (j_Namespace j) \<Longrightarrow> jobKey i = jobKey j \<longleftrightarrow> j_Namespace i = j_Namespace j \<and> j_Name i = j_Name j"
  using join_inject [of "CHR ''/''" "j_Namespace i" "j_Namespace j" "j_Name i" "j_Name j"] by (auto simp: jobKey_def plain_def)

lemma json_job_simps [simp]:
  "j_Namespace (json_job j) = j_Namespace j" "j_Name (json_job j) = j_Name j" "jobKey (json_job j) = jobKey j"
  "j_Spec (json_job j) = j_Spec j" "j_Status (json_job j) = j_Status j"
  by (simp_all add: json_job_def jobKey_def)

abbreviation skey :: "job \<Rightarrow> string" where
  "skey j \<equiv> store_key (j_Namespace j) (j_Name j)"

section \<open>The bucket mirrors the map\<close>

definition mirrors :: "(string, job) gomap \<Rightarrow> (string, job) gomap \<Rightarrow> bool" where
  "mirrors b m \<longleftrightarrow> gm_wf b \<and>
     (\<forall>k j. map_of m k = Some j \<longrightarrow> plain (j_Namespace j) \<and> map_of b (skey j) = Some (json_job j)) \<and>
     (\<forall>s j. map_of b s = Some j \<longrightarrow> s = skey j \<and> map_option json_job (map_of m (jobKey j)) = Some j)"

definition mirror :: "provider \<Rightarrow> bool" where
  "mirror p \<longleftrightarrow> (case store_jobs p of None \<Rightarrow> False | Some b \<Rightarrow> mirrors b (jobs p))"

definition healthy :: "provider \<Rightarrow> bool" where
  "healthy p \<longleftrightarrow> prov_wf p \<and> mirror p \<and> io_ok p = (\<lambda>_. True)"

lemma healthy_mirror: "healthy p \<Longrightarrow> mirror p"
  by (simp add: healthy_def)

lemma mirrorE:
  assumes "mirror p"
  obtains b where "store_jobs p = Some b" "mirrors b (jobs p)"
  using assms unfolding mirror_def by (auto split: option.splits)

lemma mirrorsD:
  assumes "mirrors b m"
  shows "gm_wf b" and "map_of m k = Some i \<Longrightarrow> plain (j_Namespace i) \<and> map_of b (skey i) = Some (json_job i)"
    and "map_of b s = Some i \<Longrightarrow> s = skey i \<and> map_option json_job (map_of m (jobKey i)) = Some i"
  using assms unfolding mirrors_def by blast+

lemma mirrorI:
  assumes "store_jobs p = Some b" and "gm_wf b"
    and "\<And>k i. map_of (jobs p) k = Some i \<Longrightarrow> plain (j_Namespace i) \<and> map_of b (skey i) = Some (json_job i)"
    and "\<And>s i. map_of b s = Some i \<Longrightarrow> s = skey i \<and> map_option json_job (map_of (jobs p) (jobKey i)) = Some i"
  shows "mirror p"
  using assms unfolding mirror_def mirrors_def by (simp del: map_of_eq_Some_iff map_option_eq_Some)

lemma skey_iff_jobKey: "plain (j_Namespace i) \<Longrightarrow> plain (j_Namespace j) \<Longrightarrow> skey i = skey j \<longleftrightarrow> jobKey i = jobKey j"
  by (simp add: store_key_inject jobKey_inject)

lemma mirror_put:
  assumes "prov_wf p" and "mirror p" and "plain (j_Namespace j)" and "jobs q = AList.update (jobKey j) j (jobs p)"
    and "store_jobs q = put_bucket (\<lambda>_. True) (store_jobs p) (skey j) (json_job j)"
  shows "mirror q"
proof -
  obtain b where b0: "store_jobs p = Some b" "mirrors b (jobs p)" using assms(2) by (rule mirrorE)
  note b = b0(1) mirrorsD(1) [OF b0(2)] and m = mirrorsD(2) [OF b0(2)] and r = mirrorsD(3) [OF b0(2)]
  have key: "jobKey i = k" if "map_of (jobs p) k = Some i" for k i using assms(1) that unfolding prov_wf_def by blast
  show ?thesis
  proof (rule mirrorI)
    show "store_jobs q = Some (AList.update (skey j) (json_job j) b)" using assms(5) b(1) by (simp add: put_bucket_def)
    show "gm_wf (AList.update (skey j) (json_job j) b)" using b(2) by simp
  next
    fix k i assume q: "map_of (jobs q) k = Some i"
    show "plain (j_Namespace i) \<and> map_of (AList.update (skey j) (json_job j) b) (skey i) = Some (json_job i)"
    proof (cases "k = jobKey j")
      case True
      then show ?thesis using q assms(3,4) by (simp add: update_conv' del: map_of_eq_Some_iff)
    next
      case False
      then have i: "map_of (jobs p) k = Some i" using q assms(4) by (simp add: update_conv' del: map_of_eq_Some_iff)
      have "skey i \<noteq> skey j" using skey_iff_jobKey [OF _ assms(3), of i] m [OF i] key [OF i] False by simp
      then show ?thesis using m [OF i] by (simp add: update_conv' del: map_of_eq_Some_iff)
    qed
  next
    fix s i assume s: "map_of (AList.update (skey j) (json_job j) b) s = Some i"
    show "s = skey i \<and> map_option json_job (map_of (jobs q) (jobKey i)) = Some i"
    proof (cases "s = skey j")
      case True
      then have "i = json_job j" using s by (simp add: update_conv' del: map_of_eq_Some_iff)
      then show ?thesis using True assms(4) by (simp add: update_conv' del: map_of_eq_Some_iff map_option_eq_Some)
    next
      case False
      then have i: "map_of b s = Some i" using s by (simp add: update_conv' del: map_of_eq_Some_iff)
      obtain i' where ri: "s = skey i" "map_of (jobs p) (jobKey i) = Some i'" "i = json_job i'"
        using r [OF i] by (auto simp del: map_of_eq_Some_iff)
      have "jobKey i \<noteq> jobKey j" using skey_iff_jobKey [OF _ assms(3), of i'] m [OF ri(2)] ri(1,3) False by simp
      then show ?thesis using ri assms(4) by (simp add: update_conv' del: map_of_eq_Some_iff)
    qed
  qed
qed

lemma mirror_del:
  assumes "prov_wf p" and "mirror p" and "plain ns" and "jobs q = AList.delete (ns @ ''/'' @ n) (jobs p)"
    and "store_jobs q = snd (del_bucket (\<lambda>_. True) (store_jobs p) (store_key ns n))"
  shows "mirror q"
proof -
  obtain b where b0: "store_jobs p = Some b" "mirrors b (jobs p)" using assms(2) by (rule mirrorE)
  note b = b0(1) mirrorsD(1) [OF b0(2)] and m = mirrorsD(2) [OF b0(2)] and r = mirrorsD(3) [OF b0(2)]
  have key: "jobKey i = k" if "map_of (jobs p) k = Some i" for k i using assms(1) that unfolding prov_wf_def by blast
  have same: "jobKey i = ns @ ''/'' @ n \<longleftrightarrow> skey i = store_key ns n" if "plain (j_Namespace i)" for i
    using join_inject [of "CHR ''/''" "j_Namespace i" ns "j_Name i" n] store_key_inject [OF that assms(3)] that assms(3)
    by (auto simp: jobKey_def plain_def)
  show ?thesis
  proof (rule mirrorI)
    show "store_jobs q = Some (AList.delete (store_key ns n) b)" using assms(5) b(1) by (simp add: del_bucket_def)
    show "gm_wf (AList.delete (store_key ns n) b)" using b(2) by simp
  next
    fix k i assume "map_of (jobs q) k = Some i"
    then have i: "k \<noteq> ns @ ''/'' @ n" "map_of (jobs p) k = Some i"
      unfolding assms(4) delete_conv' by (auto split: if_splits simp del: map_of_eq_Some_iff)
    then have "skey i \<noteq> store_key ns n" using same m [OF i(2)] key [OF i(2)] by metis
    then show "plain (j_Namespace i) \<and> map_of (AList.delete (store_key ns n) b) (skey i) = Some (json_job i)"
      using m [OF i(2)] by (simp add: delete_conv' del: map_of_eq_Some_iff)
  next
    fix s i assume "map_of (AList.delete (store_key ns n) b) s = Some i"
    then have i: "s \<noteq> store_key ns n" "map_of b s = Some i" unfolding delete_conv' by (auto split: if_splits simp del: map_of_eq_Some_iff)
    obtain i' where ri: "s = skey i" "map_of (jobs p) (jobKey i) = Some i'" "i = json_job i'"
      using r [OF i(2)] by (auto simp del: map_of_eq_Some_iff)
    have "jobKey i' \<noteq> ns @ ''/'' @ n" using same m [OF ri(2)] ri(1,3) i(1) by (metis json_job_simps(1,2))
    then have "jobKey i \<noteq> ns @ ''/'' @ n" using ri(3) by simp
    then show "s = skey i \<and> map_option json_job (map_of (jobs q) (jobKey i)) = Some i"
      using ri by (simp add: assms(4) delete_conv' del: map_of_eq_Some_iff)
  qed
qed

section \<open>Restarting\<close>

lemma load_jobs_fold:
  assumes "io_ok p = (\<lambda>_. True)"
  shows "jobs (fold (\<lambda>(key, j) p. if io_ok p key then set_job p (j_Namespace j @ ''/'' @ j_Name j) j else p) b p) =
    fold (\<lambda>(key, j). AList.update (jobKey j) j) b (jobs p)"
  using assms
proof (induction b arbitrary: p)
  case (Cons e b)
  then show ?case
    using Cons.IH [of "set_job p (jobKey (snd e)) (snd e)"] by (cases e) (simp add: set_job_def jobKey_def)
qed simp

lemma fold_update_agree:
  assumes "\<And>s j. (s, j) \<in> set b \<Longrightarrow> M (jobKey j) = Some j"
  shows "map_of (fold (\<lambda>(key, j). AList.update (jobKey j) j) b m) k =
    (if k \<in> jobKey ` snd ` set b then M k else map_of m k)"
  using assms
proof (induction b arbitrary: m)
  case (Cons e b)
  obtain s j where e: "e = (s, j)" by (cases e)
  have "M (jobKey j) = Some j" using Cons.prems [of s j] e by simp
  moreover have "map_of (fold (\<lambda>(key, j). AList.update (jobKey j) j) b (AList.update (jobKey j) j m)) k =
      (if k \<in> jobKey ` snd ` set b then M k else map_of (AList.update (jobKey j) j m) k)"
    by (rule Cons.IH) (use Cons.prems in force)
  ultimately show ?case using e by (simp add: update_conv')
qed simp

lemma restart_mirror:
  assumes "healthy p"
  shows "map_of (jobs (LoadJobsFromStore (p\<lparr>jobs := []\<rparr>) True)) = map_option json_job \<circ> map_of (jobs p)"
proof -
  obtain b where b0: "store_jobs p = Some b" "mirrors b (jobs p)" using healthy_mirror [OF assms] by (rule mirrorE)
  note b = b0(1) mirrorsD(1) [OF b0(2)] and m = mirrorsD(2) [OF b0(2)] and r = mirrorsD(3) [OF b0(2)]
  have key: "jobKey i = k" if "map_of (jobs p) k = Some i" for k i
    using assms that unfolding healthy_def prov_wf_def by blast
  let ?M = "map_option json_job \<circ> map_of (jobs p)"
  have l: "jobs (LoadJobsFromStore (p\<lparr>jobs := []\<rparr>) True) = fold (\<lambda>(key, j). AList.update (jobKey j) j) b []"
    using load_jobs_fold [of "p\<lparr>jobs := []\<rparr>" b] b(1) assms by (simp add: LoadJobsFromStore_def healthy_def)
  have agree: "?M (jobKey j) = Some j" if "(s, j) \<in> set b" for s j
    using r [OF map_of_is_SomeI [OF b(2) that]] unfolding o_apply by blast
  show ?thesis
  proof
    fix k
    have "k \<in> jobKey ` snd ` set b \<longleftrightarrow> ?M k \<noteq> None"
    proof
      assume "?M k \<noteq> None"
      then obtain i where i: "map_of (jobs p) k = Some i" by (auto simp del: map_of_eq_Some_iff)
      have "(skey i, json_job i) \<in> set b" using map_of_SomeD [of b "skey i" "json_job i"] m [OF i] by blast
      then have "json_job i \<in> snd ` set b" by (rule image_eqI [rotated]) simp
      then have "jobKey (json_job i) \<in> jobKey ` snd ` set b" by (rule imageI)
      then show "k \<in> jobKey ` snd ` set b" using key [OF i] by simp
    next
      assume "k \<in> jobKey ` snd ` set b"
      then obtain s j where "(s, j) \<in> set b" "k = jobKey j" by auto
      with agree [of s j] show "?M k \<noteq> None" by (metis option.discI)
    qed
    then show "map_of (jobs (LoadJobsFromStore (p\<lparr>jobs := []\<rparr>) True)) k = ?M k"
      unfolding l using fold_update_agree [of b ?M "[]" k] agree by auto
  qed
qed

section \<open>Handlers on a healthy store\<close>

lemma healthy_wf: "healthy p \<Longrightarrow> prov_wf p"
  by (simp add: healthy_def)

lemma healthy_put:
  assumes "healthy p" and "plain (j_Namespace j)" and "prov_wf q" and "jobs q = AList.update (jobKey j) j (jobs p)"
    and "store_jobs q = put_bucket (\<lambda>_. True) (store_jobs p) (skey j) (json_job j)" and "io_ok q = io_ok p"
  shows "healthy q"
  using mirror_put [OF _ _ assms(2,4,5)] assms(1,3,6) by (simp add: healthy_def)

lemma healthy_plain: "healthy p \<Longrightarrow> map_of (jobs p) k = Some j \<Longrightarrow> plain (j_Namespace j) \<and> jobKey j = k"
  unfolding healthy_def mirror_def mirrors_def prov_wf_def by (auto split: option.splits simp del: map_of_eq_Some_iff)

lemma releaseJobHost_store [simp]:
  "store_jobs (releaseJobHost p j) = store_jobs p" "io_ok (releaseJobHost p j) = io_ok p"
  by (auto simp: releaseJobHost_def persistHostReservation_def set_hr_def Let_def split: option.splits)

lemma healthy_same:
  assumes "healthy p" and "prov_wf q" and "jobs q = jobs p" "store_jobs q = store_jobs p" "io_ok q = io_ok p"
  shows "healthy q"
  using assms by (auto simp: healthy_def mirror_def split: option.splits)

lemma healthy_appendRunnerEvent [simp]: "healthy p \<Longrightarrow> healthy (appendRunnerEvent now p r m)"
  by (rule healthy_same [of p]) (auto simp: appendRunnerEvent_def healthy_def prov_wf_def)

lemma healthy_triggerScheduler [simp]: "healthy p \<Longrightarrow> healthy (triggerScheduler p)"
  by (rule healthy_same [of p]) (auto simp: triggerScheduler_def healthy_def prov_wf_def)

lemma handleCreateJob_healthy:
  assumes "healthy p" and "plain ns"
  shows "healthy (snd (handleCreateJob now p ns body))"
proof (cases "snd (handleCreateJob now p ns body) = p")
  case False
  then obtain j where j: "snd (handleCreateJob now p ns body) = triggerScheduler (set_job (persistJob p j) (jobKey j) j)"
    "j_Namespace j = ns" using handleCreateJob_state [of now p ns body] by blast
  have w: "prov_wf (snd (handleCreateJob now p ns body))"
    using handleCreateJob_evolves [of p now ns body] healthy_wf [OF assms(1)] by (simp add: evolves_def)
  have "io_ok p = (\<lambda>_. True)" using assms(1) by (simp add: healthy_def)
  with w show ?thesis
    by (intro healthy_put [OF assms(1), of j]) (simp_all add: j assms(2) triggerScheduler_def set_job_def persistJob_def)
qed (simp add: assms)

lemma handleDeleteJob_healthy:
  assumes "healthy p" and "plain ns"
  shows "healthy (snd (handleDeleteJob p ns name))"
proof -
  let ?q = "snd (handleDeleteJob p ns name)"
  have io: "io_ok p = (\<lambda>_. True)" using assms(1) by (simp add: healthy_def)
  have w: "prov_wf ?q" using handleDeleteJob_evolves [of p ns name] healthy_wf [OF assms(1)] by (simp add: evolves_def)
  have "jobs ?q = jobs p \<and> store_jobs ?q = store_jobs p \<and> io_ok ?q = io_ok p \<or>
    jobs ?q = AList.delete (ns @ ''/'' @ name) (jobs p) \<and> io_ok ?q = io_ok p \<and>
    store_jobs ?q = snd (del_bucket (\<lambda>_. True) (store_jobs p) (store_key ns name))"
    by (simp add: handleDeleteJob_def Let_def io deleteJobLogs_def Map_Delete_def del_bucket_def split: option.splits)
  then show ?thesis
  proof (elim disjE conjE)
    assume "jobs ?q = AList.delete (ns @ ''/'' @ name) (jobs p)" "io_ok ?q = io_ok p"
      "store_jobs ?q = snd (del_bucket (\<lambda>_. True) (store_jobs p) (store_key ns name))"
    with mirror_del [OF healthy_wf [OF assms(1)] healthy_mirror [OF assms(1)] assms(2)] w io show ?thesis by (simp add: healthy_def)
  qed (rule healthy_same [OF assms(1) w])
qed

lemma terminate_healthy:
  assumes "healthy p" and "map_of (jobs p) k = Some j" and "moves j j'" and "j_Namespace j' = j_Namespace j"
  shows "healthy (persistJob (releaseJobHost (set_job p k j') j') j')"
proof -
  let ?q = "persistJob (releaseJobHost (set_job p k j') j') j'"
  have k: "plain (j_Namespace j)" "jobKey j = k" using healthy_plain [OF assms(1,2)] by auto
  have w: "prov_wf ?q" using terminate_advances [OF assms(2,3)] healthy_wf [OF assms(1)] by (simp add: advances_def)
  have "prov_wf (set_job p k j')" using set_job_advances [OF assms(2,3)] healthy_wf [OF assms(1)] by (simp add: advances_def)
  then have "jobs (releaseJobHost (set_job p k j') j') = jobs (set_job p k j')" using releaseJobHost_quiet by (simp add: quiet_def)
  then have "jobs ?q = AList.update (jobKey j') j' (jobs p)" using moves_key [OF assms(3)] k(2) by (simp add: persistJob_def set_job_def)
  moreover have "io_ok p = (\<lambda>_. True)" using assms(1) by (simp add: healthy_def)
  ultimately show ?thesis
    using w k(1) assms(4) by (intro healthy_put [OF assms(1), of j']) (simp_all add: persistJob_def set_job_def)
qed

lemma handleCancelJob_healthy:
  assumes "healthy p"
  shows "healthy (snd (handleCancelJob now p ns name))"
proof (cases "map_of (jobs p) (ns @ ''/'' @ name)")
  case None
  then show ?thesis using assms by (simp add: handleCancelJob_def Map_Get_def)
next
  case (Some j)
  let ?j = "j\<lparr>j_Status := (j_Status j)\<lparr>st_Phase := ''Cancelled'', st_CompletedAt := format_rfc3339 now, st_ErrorMessage := ''cancelled by user''\<rparr>\<rparr>"
  have "moves j ?j" if "\<not> is_terminal j" using that by (simp add: moves_def rank_def is_terminal_def jobKey_def)
  then show ?thesis
    using Some terminate_healthy [OF assms Some] assms by (simp add: handleCancelJob_def Map_Get_def Let_def)
qed

lemma handleAgentWork_healthy:
  assumes "healthy p"
  shows "healthy (snd (handleAgentWork now p ip))"
proof (cases "snd (handleAgentWork now p ip) = p")
  case False
  then obtain b e where b: "bmh_by_ip p ip = Some b"
    and f: "List.find (\<lambda>(k, j). st_BMHRef (j_Status j) = bmh_Name b \<and> phase j = ''Provisioning'') (Map_Snapshot (jobs p)) = Some e"
    by (auto simp: handleAgentWork_def split: option.splits)
  obtain k j where e: "e = (k, j)" by (cases e)
  let ?j = "j\<lparr>j_Status := (j_Status j)\<lparr>st_Phase := ''Running'', st_StartedAt := format_rfc3339 now, st_LastHeartbeat := format_rfc3339 now\<rparr>\<rparr>"
  have m: "map_of (jobs p) k = Some j" using find_job [OF healthy_wf [OF assms] f [unfolded e]] by auto
  have k: "plain (j_Namespace j)" "jobKey j = k" using healthy_plain [OF assms m] by auto
  have "prov_wf (persistJob (set_job p k ?j) ?j)"
    using prov_wf_set_job [OF healthy_wf [OF assms], of ?j k] k(2) quiet_wf [OF _ store_quiet(1)] by (simp add: jobKey_def)
  moreover have "io_ok p = (\<lambda>_. True)" using assms by (simp add: healthy_def)
  ultimately have "healthy (persistJob (set_job p k ?j) ?j)"
    using k by (intro healthy_put [OF assms, of ?j]) (simp_all add: persistJob_def set_job_def jobKey_def)
  with b f e show ?thesis by (simp add: handleAgentWork_def Let_def)
qed (simp add: assms)

lemma handleAgentComplete_healthy:
  assumes "healthy p"
  shows "healthy (snd (handleAgentComplete now p ip body))"
proof (cases "snd (handleAgentComplete now p ip body) = p")
  case False
  then obtain b req e where b: "bmh_by_ip p ip = Some b" "body = Some req"
    and f: "List.find (\<lambda>(k, j). completes b req j) (Map_Snapshot (jobs p)) = Some e"
    by (auto simp: handleAgentComplete_def split: option.splits)
  obtain k j where e: "e = (k, j)" by (cases e)
  let ?j = "j\<lparr>j_Status := (j_Status j)\<lparr>st_ExitCode := Some (cr_ExitCode req),
              st_CompletedAt := format_rfc3339 now, st_ErrorMessage := cr_ErrorMessage req,
              st_Phase := (if cr_ExitCode req = 0 then ''Completed'' else ''Failed'')\<rparr>\<rparr>"
  have m: "map_of (jobs p) k = Some j" "phase j = ''Running''"
    using find_job [OF healthy_wf [OF assms] f [unfolded e]] by (auto simp: completes_def)
  then have "moves j ?j" by (intro running_moves) (auto simp: is_terminal_def)
  from terminate_healthy [OF assms m(1) this] b f e show ?thesis by (simp add: handleAgentComplete_def Let_def)
qed (simp add: assms)

lemma overwrite_healthy:
  assumes "healthy p" and "plain ns" and "jobKey j = ns @ ''/'' @ name" and "j_Namespace j = ns"
    and "quiet p p'" and "store_jobs p' = store_jobs p" and "io_ok p' = io_ok p"
  shows "healthy (triggerScheduler (set_job (persistJob p' j) (ns @ ''/'' @ name) j))"
proof -
  let ?q = "triggerScheduler (set_job (persistJob p' j) (ns @ ''/'' @ name) j)"
  have "prov_wf ?q"
    using stored_overwrite [OF assms(3,5)] healthy_wf [OF assms(1)] by (simp add: evolves_but_def)
  moreover have "jobs p' = jobs p" using assms(5) by (simp add: quiet_def)
  moreover have "io_ok p = (\<lambda>_. True)" using assms(1) by (simp add: healthy_def)
  ultimately show ?thesis
    by (intro healthy_put [OF assms(1), of j])
      (simp_all add: assms(2-4,6,7) triggerScheduler_def set_job_def persistJob_def)
qed

lemma clear_logs_store [simp]:
  "store_jobs (clear_logs_on_reset p key old j) = store_jobs p" "io_ok (clear_logs_on_reset p key old j) = io_ok p"
  by (simp_all add: clear_logs_on_reset_def deleteJobLogs_def Let_def)

lemma handleUpdateJob_healthy:
  assumes "healthy p" and "plain ns"
  shows "healthy (snd (handleUpdateJob p ns name body))"
proof (cases "snd (handleUpdateJob p ns name body) = p")
  case False
  then obtain old j where q: "snd (handleUpdateJob p ns name body) =
      triggerScheduler (set_job (persistJob (clear_logs_on_reset p (ns @ ''/'' @ name) old j) j) (ns @ ''/'' @ name) j)"
    and "j_Name j = name" "j_Namespace j = ns"
    using handleUpdateJob_state [of p ns name body] by blast
  then show ?thesis
    unfolding q by (intro overwrite_healthy [OF assms]) (simp_all add: jobKey_def clear_logs_on_reset_quiet)
qed (simp add: assms)

lemma handlePatchJob_healthy:
  assumes "healthy p" and "plain ns"
  shows "healthy (snd (handlePatchJob p ns name patch))"
proof (cases "snd (handlePatchJob p ns name patch) = p")
  case False
  then obtain old j where q: "snd (handlePatchJob p ns name patch) =
      triggerScheduler (set_job (persistJob (clear_logs_on_reset p (ns @ ''/'' @ name) old j) j) (ns @ ''/'' @ name) j)"
    and "j_Name j = name" "j_Namespace j = ns"
    using handlePatchJob_state [of p ns name patch] by blast
  then show ?thesis
    unfolding q by (intro overwrite_healthy [OF assms]) (simp_all add: jobKey_def clear_logs_on_reset_quiet)
qed (simp add: assms)

section \<open>Durability\<close>

text \<open>Requests, one at a time. Namespaces have neither a dot nor a slash.\<close>

inductive request :: "provider \<Rightarrow> provider \<Rightarrow> bool" where
  rq_create: "plain ns \<Longrightarrow> request p (snd (handleCreateJob now p ns body))"
| rq_update: "plain ns \<Longrightarrow> request p (snd (handleUpdateJob p ns name body))"
| rq_patch: "plain ns \<Longrightarrow> request p (snd (handlePatchJob p ns name patch))"
| rq_delete: "plain ns \<Longrightarrow> request p (snd (handleDeleteJob p ns name))"
| rq_cancel: "request p (snd (handleCancelJob now p ns name))"
| rq_work: "request p (snd (handleAgentWork now p ip))"
| rq_complete: "request p (snd (handleAgentComplete now p ip report))"

interpretation durable: invariant_system healthy request healthy
proof
  fix p q assume "healthy p" "request p q"
  then show "healthy q"
    by (cases rule: request.cases [OF \<open>request p q\<close>])
      (simp_all add: handleCreateJob_healthy handleUpdateJob_healthy handlePatchJob_healthy handleDeleteJob_healthy handleCancelJob_healthy handleAgentWork_healthy handleAgentComplete_healthy)
qed


definition no_jobs :: provider where
  "no_jobs = mk_provider [] [mk_runner ''r'' ''build'' 2 False] [] []"


end
