(* ===== verification/DiskImg.thy ===== *)
theory DiskImg
  imports GoText
begin

text \<open>
  \<open>pkg/diskimg\<close>: the converters from QCOW2, VHD and VMDK to raw images. A file is its list of bytes
  and an offset an \<open>int64\<close> (an \<open>int\<close> with \<open>wrap64\<close> where the code multiplies or converts). Creating,
  writing and syncing the output succeed except at a negative offset; the output is another file than
  the input. Memory is not bounded, so \<open>make\<close> fails on a negative size only.

  \<open>inflate\<close> is what reading all of \<open>flate.NewReader\<close> gives for some bytes, \<open>None\<close> for an error; it is an
  argument of every converter that decompresses.
\<close>

unbundle bit_operations_syntax

type_synonym byte = "8 word"

section \<open>Bytes and files\<close>

definition be_int :: "byte list \<Rightarrow> int" where
  "be_int bs = foldl (\<lambda>a b. a * 256 + uint b) 0 bs"

definition le_int :: "byte list \<Rightarrow> int" where
  "le_int bs = be_int (rev bs)"

definition field :: "nat \<Rightarrow> nat \<Rightarrow> byte list \<Rightarrow> byte list" where
  "field off n bs = take n (drop off bs)"

text \<open>A table of fixed-width entries, as \<open>binary.Read\<close> decodes it into a slice.\<close>

definition entries :: "nat \<Rightarrow> byte list \<Rightarrow> byte list list" where
  "entries w bs = map (\<lambda>i. field (w * i) w bs) [0..<length bs div w]"

text \<open>
  \<open>Seek\<close> and a read of exactly \<open>n\<close> bytes (\<open>binary.Read\<close>, \<open>io.ReadFull\<close>), and the same where a short
  read is accepted (\<open>io.ErrUnexpectedEOF\<close>) and only an empty one is not.
\<close>

definition read_full :: "byte list \<Rightarrow> int \<Rightarrow> int \<Rightarrow> byte list option" where
  "read_full f off n =
     (let bs = field (nat off) (nat n) f in if off < 0 \<or> length bs < nat n then None else Some bs)"

definition read_some :: "byte list \<Rightarrow> int \<Rightarrow> int \<Rightarrow> byte list option" where
  "read_some f off n =
     (let bs = field (nat off) (nat n) f in if off < 0 \<or> bs = [] \<and> n > 0 then None else Some bs)"

definition write_at :: "byte list \<Rightarrow> int \<Rightarrow> byte list \<Rightarrow> byte list option" where
  "write_at out off data =
     (if off < 0 then None
      else if data = [] then Some out
      else let o' = nat off; padded = out @ replicate (o' + length data - length out) 0
           in Some (take o' padded @ data @ drop (o' + length data) padded))"

definition createSparseOutput :: "int \<Rightarrow> byte list option" where
  "createSparseOutput virtualSize = (if virtualSize - 1 < 0 then None else Some (replicate (nat virtualSize) 0))"

text \<open>
  How a conversion ends: with the output, with an error before the output was created, with an error
  after which the output was removed, or with a run-time panic.
\<close>

datatype conversion = Converted "byte list" | Untouched | Removed | Panicked

definition skip_or :: "'a \<Rightarrow> 'a option \<Rightarrow> 'a" where
  "skip_or x o' = (case o' of None \<Rightarrow> x | Some y \<Rightarrow> y)"

section \<open>QCOW2\<close>

record qcow2_header =
  q_Magic :: int
  q_Version :: int
  q_BackingFileOffset :: int
  q_BackingFileSize :: int
  q_ClusterBits :: int
  q_Size :: int
  q_CryptMethod :: int
  q_L1Size :: int
  q_L1TableOffset :: int
  q_RefcountTableOffset :: int
  q_RefcountTableClusters :: int
  q_NbSnapshots :: int
  q_SnapshotsOffset :: int

definition qcow2Magic :: int where "qcow2Magic = 0x514649FB"

definition read_qcow2_header :: "byte list \<Rightarrow> qcow2_header option" where
  "read_qcow2_header f =
     (case read_full f 0 72 of
        None \<Rightarrow> None
      | Some h \<Rightarrow> Some \<lparr>
          q_Magic = be_int (field 0 4 h), q_Version = be_int (field 4 4 h), q_BackingFileOffset = be_int (field 8 8 h),
          q_BackingFileSize = be_int (field 16 4 h), q_ClusterBits = be_int (field 20 4 h), q_Size = be_int (field 24 8 h),
          q_CryptMethod = be_int (field 32 4 h), q_L1Size = be_int (field 36 4 h), q_L1TableOffset = be_int (field 40 8 h),
          q_RefcountTableOffset = be_int (field 48 8 h), q_RefcountTableClusters = be_int (field 56 4 h),
          q_NbSnapshots = be_int (field 60 4 h), q_SnapshotsOffset = be_int (field 64 8 h)\<rparr>)"

text \<open>\<open>int64(1) << n\<close>\<close>

definition shl64 :: "int \<Rightarrow> int" where
  "shl64 n = (if n \<ge> 64 then 0 else wrap64 (2 ^ nat n))"

definition offset_mask :: "64 word" where "offset_mask = 0x00FFFFFFFFFFFE00"

definition offset_of :: "64 word \<Rightarrow> int" where
  "offset_of e = wrap64 (uint (e AND offset_mask))"

definition is_compressed :: "64 word \<Rightarrow> bool" where
  "is_compressed e \<longleftrightarrow> bit e 62"

definition readCompressedClusterZlib ::
  "(byte list \<Rightarrow> byte list option) \<Rightarrow> byte list \<Rightarrow> byte list \<Rightarrow> int \<Rightarrow> int \<Rightarrow> byte list option" where
  "readCompressedClusterZlib inflate compData out virtualOffset clusterSize =
     (if length compData < 2 then None
      else (case inflate (drop 2 compData) of
              None \<Rightarrow> None
            | Some decompressed \<Rightarrow>
                (let writeSize = (if int (length decompressed) > clusterSize then clusterSize else int (length decompressed))
                 in write_at out virtualOffset (take (nat writeSize) decompressed))))"

definition readCompressedCluster ::
  "(byte list \<Rightarrow> byte list option) \<Rightarrow> byte list \<Rightarrow> byte list \<Rightarrow> 64 word \<Rightarrow> int \<Rightarrow> int \<Rightarrow> int \<Rightarrow> byte list option" where
  "readCompressedCluster inflate f out l2Entry clusterBits virtualOffset clusterSize =
     (let nbSectors = nat (if clusterBits - 8 < 0 then 0 else clusterBits - 8);
          hostOffset = uint (take_bit (62 - nbSectors) l2Entry);
          additionalSectors = uint (take_bit nbSectors (drop_bit (62 - nbSectors) l2Entry));
          compressedSize = (additionalSectors + 1) * 512;
          compressedSize = (if compressedSize > clusterSize * 2 then clusterSize * 2 else compressedSize)
      in case read_some f hostOffset compressedSize of
           None \<Rightarrow> None
         | Some cdata \<Rightarrow>
             (case inflate cdata of
                None \<Rightarrow> readCompressedClusterZlib inflate cdata out virtualOffset clusterSize
              | Some decompressed \<Rightarrow>
                  (let writeSize = int (length decompressed);
                       writeSize = (if wrap64 (virtualOffset + writeSize) > wrap64 (virtualOffset + clusterSize)
                                    then clusterSize else writeSize)
                   in write_at out virtualOffset (take (nat writeSize) decompressed))))"

definition read_standard_cluster :: "byte list \<Rightarrow> byte list \<Rightarrow> 64 word \<Rightarrow> int \<Rightarrow> int \<Rightarrow> int \<Rightarrow> byte list option" where
  "read_standard_cluster f out l2Entry virtualOffset clusterSize virtualSize =
     (let hostOffset = offset_of l2Entry in
      if hostOffset = 0 then None
      else
        (let readSize = (if wrap64 (virtualOffset + clusterSize) > virtualSize then virtualSize - virtualOffset else clusterSize)
         in case read_some f hostOffset readSize of
              None \<Rightarrow> None
            | Some bs \<Rightarrow> write_at out virtualOffset bs))"

text \<open>One cluster of an L2 table; every failure is skipped.\<close>

definition qcow2_cluster ::
  "(byte list \<Rightarrow> byte list option) \<Rightarrow> byte list \<Rightarrow> int \<Rightarrow> int \<Rightarrow> int \<Rightarrow> nat \<Rightarrow> nat \<times> byte list \<Rightarrow> byte list \<Rightarrow> byte list" where
  "qcow2_cluster inflate f clusterBits clusterSize virtualSize l1Idx = (\<lambda>(l2Idx, eb) out.
     let l2Entry = word_of_int (be_int eb);
         clusterIndex = wrap64 (wrap64 (int l1Idx * (clusterSize div 8)) + int l2Idx);
         virtualOffset = wrap64 (clusterIndex * clusterSize)
     in if l2Entry = 0 then out
        else if virtualOffset \<ge> virtualSize then out
        else if is_compressed l2Entry
        then skip_or out (readCompressedCluster inflate f out l2Entry clusterBits virtualOffset clusterSize)
        else skip_or out (read_standard_cluster f out l2Entry virtualOffset clusterSize virtualSize))"

definition qcow2_l2_table ::
  "(byte list \<Rightarrow> byte list option) \<Rightarrow> byte list \<Rightarrow> int \<Rightarrow> int \<Rightarrow> int \<Rightarrow> nat \<times> byte list \<Rightarrow> byte list \<Rightarrow> byte list" where
  "qcow2_l2_table inflate f clusterBits clusterSize virtualSize = (\<lambda>(l1Idx, eb) out.
     let l2Offset = offset_of (word_of_int (be_int eb)) in
     if l2Offset = 0 then out
     else (case read_full f l2Offset (clusterSize div 8 * 8) of
             None \<Rightarrow> out
           | Some l2 \<Rightarrow>
               fold (qcow2_cluster inflate f clusterBits clusterSize virtualSize l1Idx)
                 (enumerate 0 (entries 8 l2)) out))"

definition convertQCOW2 :: "(byte list \<Rightarrow> byte list option) \<Rightarrow> byte list \<Rightarrow> conversion" where
  "convertQCOW2 inflate f =
     (case read_qcow2_header f of
        None \<Rightarrow> Untouched
      | Some hdr \<Rightarrow>
          if q_Magic hdr \<noteq> qcow2Magic then Untouched
          else if q_Version hdr \<noteq> 2 \<and> q_Version hdr \<noteq> 3 then Untouched
          else if q_BackingFileOffset hdr \<noteq> 0 then Untouched
          else
            (let clusterSize = shl64 (q_ClusterBits hdr);
                 virtualSize = wrap64 (q_Size hdr)
             in case createSparseOutput virtualSize of
                  None \<Rightarrow> Removed
                | Some out \<Rightarrow>
                    (case read_full f (wrap64 (q_L1TableOffset hdr)) (8 * q_L1Size hdr) of
                       None \<Rightarrow> Removed
                     | Some l1 \<Rightarrow>
                         if clusterSize < 0 \<or> wrap64 (clusterSize * 2) < 0 then Panicked
                         else Converted (fold (qcow2_l2_table inflate f (q_ClusterBits hdr) clusterSize virtualSize)
                                (enumerate 0 (entries 8 l1)) out))))"

section \<open>VHD\<close>

record vhd_footer =
  v_Cookie :: "byte list"
  v_DataOffset :: int
  v_CurrentSize :: int
  v_DiskType :: int

record vhd_dynamic_header =
  vd_TableOffset :: int
  vd_MaxTableEntries :: int
  vd_BlockSize :: int

definition vhdFooterCookie :: "byte list" where
  "vhdFooterCookie = map (\<lambda>c. word_of_int (of_char c)) ''conectix''"

definition read_vhd_footer :: "byte list \<Rightarrow> int \<Rightarrow> vhd_footer option" where
  "read_vhd_footer f off =
     (case read_full f off 512 of
        None \<Rightarrow> None
      | Some h \<Rightarrow> Some \<lparr>v_Cookie = field 0 8 h, v_DataOffset = be_int (field 16 8 h),
                          v_CurrentSize = be_int (field 48 8 h), v_DiskType = be_int (field 60 4 h)\<rparr>)"

definition read_vhd_dynamic_header :: "byte list \<Rightarrow> int \<Rightarrow> vhd_dynamic_header option" where
  "read_vhd_dynamic_header f off =
     (case read_full f off 1024 of
        None \<Rightarrow> None
      | Some h \<Rightarrow> Some \<lparr>vd_TableOffset = be_int (field 16 8 h), vd_MaxTableEntries = be_int (field 28 4 h),
                          vd_BlockSize = be_int (field 32 4 h)\<rparr>)"

text \<open>\<open>io.CopyN\<close> fails when the source is too short, and copies nothing for a negative count.\<close>

definition convertVHDFixed :: "byte list \<Rightarrow> int \<Rightarrow> conversion" where
  "convertVHDFixed f virtualSize =
     (if int (length f) < virtualSize then Removed else Converted (take (nat virtualSize) f))"

definition vhd_bitmap_size :: "int \<Rightarrow> int" where
  "vhd_bitmap_size blockSize =
     (let sectorsPerBlock = blockSize div 512;
          bitmapBytes = (sectorsPerBlock + 7) div 8;
          bitmapSectors = (bitmapBytes + 512 - 1) div 512
      in bitmapSectors * 512)"

definition vhd_block :: "byte list \<Rightarrow> int \<Rightarrow> int \<Rightarrow> nat \<times> byte list \<Rightarrow> byte list \<Rightarrow> byte list" where
  "vhd_block f blockSize virtualSize = (\<lambda>(i, eb) out.
     let sectorAddr = be_int eb in
     if sectorAddr = 0xFFFFFFFF then out
     else
       (let dataOffset = sectorAddr * 512 + vhd_bitmap_size blockSize;
            virtualOff = wrap64 (int i * blockSize);
            readSize = (if wrap64 (virtualOff + blockSize) > virtualSize then virtualSize - virtualOff else blockSize)
        in if readSize \<le> 0 then out
           else (case read_some f dataOffset readSize of
                   None \<Rightarrow> out
                 | Some bs \<Rightarrow> skip_or out (write_at out virtualOff bs))))"

definition convertVHDDynamic :: "byte list \<Rightarrow> int \<Rightarrow> vhd_footer \<Rightarrow> conversion" where
  "convertVHDDynamic f virtualSize footer =
     (case read_vhd_dynamic_header f (wrap64 (v_DataOffset footer)) of
        None \<Rightarrow> Untouched
      | Some dynHdr \<Rightarrow>
          (let blockSize = (if vd_BlockSize dynHdr = 0 then 2 * 1024 * 1024 else vd_BlockSize dynHdr)
           in case read_full f (wrap64 (vd_TableOffset dynHdr)) (4 * vd_MaxTableEntries dynHdr) of
                None \<Rightarrow> Untouched
              | Some bat \<Rightarrow>
                  (case createSparseOutput virtualSize of
                     None \<Rightarrow> Removed
                   | Some out \<Rightarrow> Converted (fold (vhd_block f blockSize virtualSize) (enumerate 0 (entries 4 bat)) out))))"

definition convertVHD :: "byte list \<Rightarrow> conversion" where
  "convertVHD f =
     (case read_vhd_footer f 0 of
        None \<Rightarrow> Untouched
      | Some first \<Rightarrow>
          (case (if v_Cookie first \<noteq> vhdFooterCookie
                 then (case read_vhd_footer f (int (length f) - 512) of
                         None \<Rightarrow> None
                       | Some final \<Rightarrow> if v_Cookie final \<noteq> vhdFooterCookie then None else Some final)
                 else Some first) of
             None \<Rightarrow> Untouched
           | Some footer \<Rightarrow>
               (let virtualSize = wrap64 (v_CurrentSize footer) in
                if v_DiskType footer = 2 then convertVHDFixed f virtualSize
                else if v_DiskType footer = 3 then convertVHDDynamic f virtualSize footer
                else Untouched)))"

section \<open>VMDK\<close>

record sparse_extent_header =
  e_Flags :: int
  e_Capacity :: int
  e_GrainSize :: int
  e_NumGTEsPerGT :: int
  e_GDOffset :: int
  e_OverHead :: int

definition vmdkSEMagic :: int where "vmdkSEMagic = 0x564D444B"

definition read_sparse_header :: "byte list \<Rightarrow> sparse_extent_header option" where
  "read_sparse_header f =
     (case read_full f 0 512 of
        None \<Rightarrow> None
      | Some h \<Rightarrow> Some \<lparr>e_Flags = le_int (field 8 4 h), e_Capacity = le_int (field 12 8 h), e_GrainSize = le_int (field 20 8 h),
                          e_NumGTEsPerGT = le_int (field 44 4 h), e_GDOffset = le_int (field 56 8 h), e_OverHead = le_int (field 64 8 h)\<rparr>)"

record grain_marker =
  m_LBA :: int
  m_Size :: int

definition marker_at :: "byte list \<Rightarrow> nat \<Rightarrow> grain_marker" where
  "marker_at f pos = \<lparr>m_LBA = le_int (field pos 8 f), m_Size = le_int (field (pos + 8) 4 f)\<rparr>"

text \<open>The next sector boundary at or after a position.\<close>

definition align_sector :: "nat \<Rightarrow> nat" where
  "align_sector pos = (let remainder = pos mod 512 in if remainder \<noteq> 0 then pos + (512 - remainder) else pos)"

text \<open>The loop over the grains of a streamOptimized file, at a position of the file.\<close>

function stream_loop ::
  "(byte list \<Rightarrow> byte list option) \<Rightarrow> byte list \<Rightarrow> int \<Rightarrow> nat \<Rightarrow> byte list \<Rightarrow> conversion" where
  "stream_loop inflate f virtualSize pos out =
     (if length f \<le> pos then Converted out
      else if length f < pos + 12 then Removed
      else
        (let marker = marker_at f pos in
         if m_LBA marker = 0 \<and> m_Size marker = 0 then
           (if length f < pos + 24 then Converted out
            else if m_Size (marker_at f (pos + 12)) = 0 then Converted out
            else stream_loop inflate f virtualSize (pos + 12) out)
         else if m_Size marker = 0 then stream_loop inflate f virtualSize (pos + 12) out
         else
           (let compSize = nat (m_Size marker) in
            if length f < pos + 12 + compSize then Removed
            else
              (case inflate (field (pos + 12) compSize f) of
                 None \<Rightarrow> Removed
               | Some decompressed \<Rightarrow>
                   (let byteOffset = wrap64 (wrap64 (m_LBA marker) * 512) in
                    if byteOffset \<ge> virtualSize then stream_loop inflate f virtualSize (pos + 12 + compSize) out
                    else (case write_at out byteOffset decompressed of
                            None \<Rightarrow> Removed
                          | Some out' \<Rightarrow> stream_loop inflate f virtualSize (align_sector (pos + 12 + compSize)) out'))))))"
  by pat_completeness auto

lemma align_sector_ge: "pos \<le> align_sector pos"
  unfolding align_sector_def Let_def by (simp only: le_add1 order_refl simp_thms split: if_split)

termination stream_loop
proof (relation "measure (\<lambda>(inflate, f, vs, pos, out). length f - pos)", goal_cases)
  case (5 inflate f vs pos out marker n d off o')
  then show ?case using align_sector_ge [of "pos + 12 + n"] by simp
qed auto

definition convertVMDKStreamOptimized ::
  "(byte list \<Rightarrow> byte list option) \<Rightarrow> byte list \<Rightarrow> int \<Rightarrow> sparse_extent_header \<Rightarrow> conversion" where
  "convertVMDKStreamOptimized inflate f virtualSize hdr =
     (case createSparseOutput virtualSize of
        None \<Rightarrow> Removed
      | Some out \<Rightarrow>
          (let dataStart = wrap64 (wrap64 (e_OverHead hdr) * 512)
           in stream_loop inflate f virtualSize (if dataStart < 0 then 512 else nat dataStart) out))"

definition vmdk_grain :: "byte list \<Rightarrow> int \<Rightarrow> int \<Rightarrow> int \<Rightarrow> nat \<Rightarrow> nat \<times> byte list \<Rightarrow> byte list \<Rightarrow> byte list" where
  "vmdk_grain f grainSz virtualSize numGTEsPerGT gdIdx = (\<lambda>(gtIdx, eb) out.
     let grainSector = le_int eb in
     if grainSector = 0 then out
     else
       (case read_some f (grainSector * 512) grainSz of
          None \<Rightarrow> out
        | Some bs \<Rightarrow>
            (let grainIndex = int gdIdx * numGTEsPerGT + int gtIdx;
                 outOffset = wrap64 (grainIndex * grainSz)
             in if outOffset \<ge> virtualSize then out
                else
                  (let writeLen = (if wrap64 (outOffset + int (length bs)) > virtualSize then virtualSize - outOffset
                                   else int (length bs))
                   in skip_or out (write_at out outOffset (take (nat writeLen) bs))))))"

definition vmdk_grain_table :: "byte list \<Rightarrow> int \<Rightarrow> int \<Rightarrow> int \<Rightarrow> nat \<times> byte list \<Rightarrow> byte list \<Rightarrow> byte list" where
  "vmdk_grain_table f grainSz virtualSize numGTEsPerGT = (\<lambda>(gdIdx, eb) out.
     let gtSector = le_int eb in
     if gtSector = 0 then out
     else (case read_full f (gtSector * 512) (4 * numGTEsPerGT) of
             None \<Rightarrow> out
           | Some gt \<Rightarrow> fold (vmdk_grain f grainSz virtualSize numGTEsPerGT gdIdx) (enumerate 0 (entries 4 gt)) out))"

text \<open>Go's division rounds towards zero.\<close>

definition quot :: "int \<Rightarrow> int \<Rightarrow> int" where
  "quot a b = (if (a < 0) = (b < 0) then \<bar>a\<bar> div \<bar>b\<bar> else - (\<bar>a\<bar> div \<bar>b\<bar>))"

definition convertVMDKSparse :: "byte list \<Rightarrow> int \<Rightarrow> int \<Rightarrow> sparse_extent_header \<Rightarrow> conversion" where
  "convertVMDKSparse f virtualSize grainSz hdr =
     (case createSparseOutput virtualSize of
        None \<Rightarrow> Removed
      | Some out \<Rightarrow>
          (let numGTEsPerGT = (if e_NumGTEsPerGT hdr = 0 then 512 else e_NumGTEsPerGT hdr);
               gdOffset = wrap64 (wrap64 (e_GDOffset hdr) * 512);
               capacity = wrap64 (e_Capacity hdr);
               grain = wrap64 (e_GrainSize hdr)
           in if grain = 0 then Panicked
              else
                (let totalGrains = wrap64 (quot (wrap64 (wrap64 (capacity + grain) - 1)) grain);
                     numGDEntries = quot (wrap64 (wrap64 (totalGrains + numGTEsPerGT) - 1)) numGTEsPerGT
                 in if numGDEntries < 0 then Panicked
                    else (case read_full f gdOffset (4 * numGDEntries) of
                            None \<Rightarrow> Removed
                          | Some gd \<Rightarrow>
                              if grainSz < 0 then Panicked
                              else Converted (fold (vmdk_grain_table f grainSz virtualSize numGTEsPerGT)
                                     (enumerate 0 (entries 4 gd)) out)))))"

subsection \<open>Text descriptors\<close>

definition string_of_bytes :: "byte list \<Rightarrow> string" where
  "string_of_bytes bs = map (\<lambda>b. char_of (uint b)) bs"

fun has_prefix :: "string \<Rightarrow> string \<Rightarrow> bool" where
  "has_prefix s [] = True"
| "has_prefix [] (c # p) = False"
| "has_prefix (d # s) (c # p) = (d = c \<and> has_prefix s p)"

fun index_of :: "string \<Rightarrow> string \<Rightarrow> nat option" where
  "index_of s sub =
     (if has_prefix s sub then Some 0
      else (case s of [] \<Rightarrow> None | _ # r \<Rightarrow> map_option Suc (index_of r sub)))"

definition contains_str :: "string \<Rightarrow> string \<Rightarrow> bool" where
  "contains_str s sub \<longleftrightarrow> index_of s sub \<noteq> None"

definition trim_quotes :: "string \<Rightarrow> string" where
  "trim_quotes s = (let t = dropWhile (\<lambda>c. c = CHR 0x22) in rev (t (rev (t s))))"

fun desc_value :: "string \<Rightarrow> string list \<Rightarrow> string" where
  "desc_value key [] = ''''"
| "desc_value key (l # ls) =
     (let line = TrimSpace l in
      if has_prefix line key then
        (case splitN 2 (CHR ''='') line of
           [_, v] \<Rightarrow> trim_quotes (TrimSpace v)
         | _ \<Rightarrow> desc_value key ls)
      else desc_value key ls)"

definition extractDescValue :: "string \<Rightarrow> string \<Rightarrow> string" where
  "extractDescValue desc key = desc_value key (split_lines [] desc)"

definition dir_of :: "string \<Rightarrow> string" where
  "dir_of path =
     (if CHR ''/'' \<in> set path then rev (drop 1 (dropWhile (\<lambda>c. c \<noteq> CHR ''/'') (rev path))) else path)"

fun extent_file :: "string \<Rightarrow> string list \<Rightarrow> string" where
  "extent_file vmdkPath [] = ''''"
| "extent_file vmdkPath (l # ls) =
     (let line = TrimSpace l in
      if contains_str line ''FLAT'' \<or> contains_str line ''SPARSE'' then
        (case dropWhile (\<lambda>c. c \<noteq> CHR 0x22) line of
           [] \<Rightarrow> extent_file vmdkPath ls
         | _ # rest \<Rightarrow>
             if CHR 0x22 \<notin> set rest then extent_file vmdkPath ls
             else dir_of vmdkPath @ ''/'' @ takeWhile (\<lambda>c. c \<noteq> CHR 0x22) rest)
      else extent_file vmdkPath ls)"

definition extractExtentFile :: "string \<Rightarrow> string \<Rightarrow> string" where
  "extractExtentFile desc vmdkPath = extent_file vmdkPath (split_lines [] desc)"

definition convertVMDKDescriptor :: "(string \<Rightarrow> byte list option) \<Rightarrow> string \<Rightarrow> byte list \<Rightarrow> conversion" where
  "convertVMDKDescriptor fs inputPath f =
     (let desc = string_of_bytes (take 4096 f) in
      if f = [] then Untouched
      else if \<not> contains_str desc ''createType'' then Untouched
      else if extractDescValue desc ''createType'' = ''monolithicFlat'' then
        (let extentFile = extractExtentFile desc inputPath in
         if extentFile = '''' then Untouched
         else (case fs extentFile of None \<Rightarrow> Untouched | Some src \<Rightarrow> Converted src))
      else Untouched)"

definition convertVMDK ::
  "(byte list \<Rightarrow> byte list option) \<Rightarrow> (string \<Rightarrow> byte list option) \<Rightarrow> string \<Rightarrow> byte list \<Rightarrow> conversion" where
  "convertVMDK inflate fs inputPath f =
     (case read_full f 0 4 of
        None \<Rightarrow> Untouched
      | Some m \<Rightarrow>
          if le_int m \<noteq> vmdkSEMagic then convertVMDKDescriptor fs inputPath f
          else
            (case read_sparse_header f of
               None \<Rightarrow> Untouched
             | Some hdr \<Rightarrow>
                 (let virtualSize = wrap64 (wrap64 (e_Capacity hdr) * 512);
                      grainSz = wrap64 (wrap64 (e_GrainSize hdr) * 512)
                  in if bit (e_Flags hdr) 16 then convertVMDKStreamOptimized inflate f virtualSize hdr
                     else convertVMDKSparse f virtualSize grainSz hdr)))"

section \<open>The entry point\<close>

text \<open>The file system afterwards and whether there was no error; \<open>None\<close> is a panic.\<close>

definition ConvertToRaw ::
  "(byte list \<Rightarrow> byte list option) \<Rightarrow> (string \<Rightarrow> byte list option) \<Rightarrow> string \<Rightarrow> string \<Rightarrow> string \<Rightarrow>
   (bool \<times> (string \<Rightarrow> byte list option)) option" where
  "ConvertToRaw inflate fs inputPath format outputPath =
     (if format \<notin> {''vmdk'', ''qcow2'', ''vpc'', ''vhd''} then Some (False, fs)
      else
        (case fs inputPath of
           None \<Rightarrow> Some (False, fs)
         | Some f \<Rightarrow>
             (case (if format = ''vmdk'' then convertVMDK inflate fs inputPath f
                    else if format = ''qcow2'' then convertQCOW2 inflate f
                    else convertVHD f) of
                Converted out \<Rightarrow> Some (True, fs(outputPath := Some out))
              | Untouched \<Rightarrow> Some (False, fs)
              | Removed \<Rightarrow> Some (False, fs(outputPath := None))
              | Panicked \<Rightarrow> None)))"

end
