(* ===== verification/DiskConv.thy ===== *)
theory DiskConv
  imports DiskImg
begin

text \<open>
  The converters against what the formats say a guest reads. Each format maps blocks of the virtual
  disk to places of the file; the converter walks its tables and copies block by block into a file of
  zeros. The locale \<open>block_copy\<close> holds that argument once; the three formats interpret it.
\<close>

section \<open>Fields and tables\<close>

lemma length_field: "length (field a n f) = min n (length f - a)"
  by (simp add: field_def)

lemma field_nth: "i < n \<Longrightarrow> a + i < length f \<Longrightarrow> field a n f ! i = f ! (a + i)"
  by (simp add: field_def)

lemma field_field: "a + b \<le> n \<Longrightarrow> field a b (field off n f) = field (off + a) b f"
  by (simp add: field_def take_drop add.commute min_def)

lemma length_entries [simp]: "length (entries w bs) = length bs div w"
  by (simp add: entries_def)

lemma entries_nth: "i < length bs div w \<Longrightarrow> entries w bs ! i = field (w * i) w bs"
  by (simp add: entries_def)

lemma read_full_ok:
  assumes "0 \<le> off" and "0 \<le> n" and "off + n \<le> int (length f)"
  shows "read_full f off n = Some (field (nat off) (nat n) f)"
  using assms by (auto simp: read_full_def Let_def length_field min_def nat_less_iff zless_nat_eq_int_zless)

lemma read_full_nat: "off + n \<le> length f \<Longrightarrow> read_full f (int off) (int n) = Some (field off n f)"
  using read_full_ok [of "int off" "int n" f] by simp

lemma read_some_ok:
  assumes "0 \<le> off" and "0 < n" and "off + n \<le> int (length f)"
  shows "read_some f off n = Some (field (nat off) (nat n) f)"
proof -
  have "length (field (nat off) (nat n) f) = nat n" using assms by (simp add: length_field)
  then have "field (nat off) (nat n) f \<noteq> []" using assms(2) by auto
  then show ?thesis using assms(1) by (simp add: read_some_def Let_def)
qed

lemma fold_enumerate: "fold f (enumerate 0 xs) s = fold (\<lambda>i. f (i, xs ! i)) [0..<length xs] s"
proof -
  have "enumerate 0 xs = map (\<lambda>i. (i, xs ! i)) [0..<length xs]"
    by (rule nth_equalityI) (simp_all add: nth_enumerate_eq)
  then show ?thesis by (simp add: fold_map comp_def)
qed

lemma fold_idle_list: "fold (\<lambda>k x. x) xs out = out"
  by (induction xs) simp_all

lemma fold_nested:
  "fold (\<lambda>i. fold (\<lambda>k. s (i * per + k)) [0..<per]) [0..<n] x = fold s [0..<n * per] x"
proof (induction n)
  case (Suc n)
  have "[0..<Suc n * per] = [0..<n * per] @ [n * per..<n * per + per]"
    using upt_add_eq_append [of 0 "n * per" per] by (simp add: add.commute)
  also have "[n * per..<n * per + per] = map (\<lambda>k. n * per + k) [0..<per]"
    by (rule nth_equalityI) simp_all
  finally have "[0..<Suc n * per] = [0..<n * per] @ map (\<lambda>k. n * per + k) [0..<per]" .
  with Suc show ?case by (simp add: fold_map comp_def)
qed simp

section \<open>Writing inside a file\<close>

definition splice :: "byte list \<Rightarrow> nat \<Rightarrow> byte list \<Rightarrow> byte list" where
  "splice out pos d = take pos out @ d @ drop (pos + length d) out"

lemma write_at_inside:
  assumes "0 \<le> off" and "nat off + length d \<le> length out"
  shows "write_at out off d = Some (splice out (nat off) d)"
  using assms by (auto simp: write_at_def splice_def Let_def)

lemma write_at_nat: "pos + length d \<le> length out \<Longrightarrow> write_at out (int pos) d = Some (splice out pos d)"
  using write_at_inside [of "int pos" d out] by simp

lemma length_splice: "pos + length d \<le> length out \<Longrightarrow> length (splice out pos d) = length out"
  by (simp add: splice_def)

lemma nth_splice:
  assumes "pos + length d \<le> length out" and "v < length out"
  shows "splice out pos d ! v = (if pos \<le> v \<and> v < pos + length d then d ! (v - pos) else out ! v)"
  using assms by (auto simp: splice_def nth_append)

section \<open>Copying block by block\<close>

definition block_byte :: "byte list option \<Rightarrow> nat \<Rightarrow> byte" where
  "block_byte d i = (case d of None \<Rightarrow> 0 | Some bs \<Rightarrow> if i < length bs then bs ! i else 0)"

locale block_copy =
  fixes ok :: "'i \<Rightarrow> bool"
    and step :: "'i \<Rightarrow> nat \<Rightarrow> byte list \<Rightarrow> byte list"
    and data :: "'i \<Rightarrow> nat \<Rightarrow> byte list option"
    and bsize :: "'i \<Rightarrow> nat"
    and vsize :: "'i \<Rightarrow> nat"
    and blocks :: "'i \<Rightarrow> nat"
  assumes bsize_pos: "ok i \<Longrightarrow> 0 < bsize i"
    and data_fits: "ok i \<Longrightarrow> g < blocks i \<Longrightarrow> data i g = Some d \<Longrightarrow> g * bsize i + length d \<le> vsize i \<and> length d \<le> bsize i"
    and step_data: "ok i \<Longrightarrow> g < blocks i \<Longrightarrow> length out = vsize i \<Longrightarrow>
      step i g out = (case data i g of None \<Rightarrow> out | Some d \<Rightarrow> splice out (g * bsize i) d)"
begin

lemma step_bytes:
  assumes "ok i" and "g < blocks i" and "length out = vsize i"
  shows "length (step i g out) = vsize i \<and>
    (\<forall>v<vsize i. step i g out ! v =
       (if v div bsize i = g \<and> (\<exists>d. data i g = Some d \<and> v mod bsize i < length d)
        then block_byte (data i g) (v mod bsize i) else out ! v))"
proof (cases "data i g")
  case None
  then show ?thesis using step_data [OF assms] assms(3) by simp
next
  case (Some d)
  have fit: "g * bsize i + length d \<le> length out" "length d \<le> bsize i" using data_fits [OF assms(1,2) Some] assms(3) by auto
  have e: "step i g out = splice out (g * bsize i) d" using step_data [OF assms] Some by simp
  have "(g * bsize i \<le> v \<and> v < g * bsize i + length d) = (v div bsize i = g \<and> v mod bsize i < length d)" for v
  proof
    assume a: "g * bsize i \<le> v \<and> v < g * bsize i + length d"
    then obtain k where k: "v = g * bsize i + k" "k < length d" using le_Suc_ex by auto
    then show "v div bsize i = g \<and> v mod bsize i < length d" using fit(2) bsize_pos [OF assms(1)] by simp
  next
    assume "v div bsize i = g \<and> v mod bsize i < length d"
    then show "g * bsize i \<le> v \<and> v < g * bsize i + length d" using div_mult_mod_eq [of v "bsize i"] by auto
  qed
  moreover have "v - g * bsize i = v mod bsize i" if "v div bsize i = g" for v
    using that div_mult_mod_eq [of v "bsize i"] by auto
  ultimately show ?thesis
    unfolding e using length_splice [OF fit(1)] nth_splice [OF fit(1)] assms(3) Some by (auto simp: block_byte_def)
qed

lemma copied:
  assumes "ok i" and "n \<le> blocks i"
  shows "length (fold (step i) [0..<n] (replicate (vsize i) 0)) = vsize i \<and>
    (\<forall>v<vsize i. fold (step i) [0..<n] (replicate (vsize i) 0) ! v =
       (if v div bsize i < n then block_byte (data i (v div bsize i)) (v mod bsize i) else 0))"
  using assms(2)
proof (induction n)
  case (Suc n)
  let ?out = "fold (step i) [0..<n] (replicate (vsize i) 0)"
  have IH: "length ?out = vsize i" "\<And>v. v < vsize i \<Longrightarrow> ?out ! v =
      (if v div bsize i < n then block_byte (data i (v div bsize i)) (v mod bsize i) else 0)"
    using Suc by auto
  have n: "n < blocks i" using Suc.prems by simp
  note st = step_bytes [OF assms(1) n IH(1)]
  have "block_byte (data i n) k = 0" if "\<not> (\<exists>d. data i n = Some d \<and> k < length d)" for k
    using that by (auto simp: block_byte_def split: option.splits)
  then show ?case using st IH(2) by (auto simp: less_Suc_eq)
qed simp

end

lemma be_int_nonneg: "0 \<le> be_int bs"
proof -
  have "0 \<le> a \<Longrightarrow> 0 \<le> foldl (\<lambda>a b. a * 256 + uint b) a (bs :: byte list)" for a :: int
    by (induction bs arbitrary: a) simp_all
  then show ?thesis by (simp add: be_int_def)
qed

lemma le_int_nonneg: "0 \<le> le_int bs"
  by (simp add: le_int_def be_int_nonneg)

section \<open>VHD\<close>

text \<open>A dynamic image: the file, block size, virtual size, and place and length of the block allocation table.\<close>

record vhd_image =
  vi_file :: "byte list"
  vi_bs :: nat
  vi_vs :: nat
  vi_table :: nat
  vi_entries :: nat

definition vhd_sector :: "vhd_image \<Rightarrow> nat \<Rightarrow> int" where
  "vhd_sector i g = be_int (field (vi_table i + 4 * g) 4 (vi_file i))"

text \<open>Where the data of an allocated block starts, and what a guest reads.\<close>

definition vhd_host :: "vhd_image \<Rightarrow> nat \<Rightarrow> nat" where
  "vhd_host i g = nat (vhd_sector i g * 512 + vhd_bitmap_size (int (vi_bs i)))"

definition vhd_guest :: "vhd_image \<Rightarrow> nat \<Rightarrow> byte" where
  "vhd_guest i v =
     (let g = v div vi_bs i in
      if g < vi_entries i \<and> vhd_sector i g \<noteq> 0xFFFFFFFF then vi_file i ! (vhd_host i g + v mod vi_bs i) else 0)"

definition vhd_ok :: "vhd_image \<Rightarrow> bool" where
  "vhd_ok i \<longleftrightarrow> 0 < vi_bs i \<and> 0 < vi_vs i \<and> int (vi_vs i) < 2 ^ 62 \<and> int (vi_bs i) < 2 ^ 32 \<and> vi_entries i * vi_bs i < 2 ^ 62 \<and>
     vi_table i + 4 * vi_entries i \<le> length (vi_file i) \<and>
     (\<forall>g<vi_entries i. vhd_sector i g \<noteq> 0xFFFFFFFF \<and> g * vi_bs i < vi_vs i \<longrightarrow>
        vhd_host i g + min (vi_bs i) (vi_vs i - g * vi_bs i) \<le> length (vi_file i))"

definition vhd_step :: "vhd_image \<Rightarrow> nat \<Rightarrow> byte list \<Rightarrow> byte list" where
  "vhd_step i g = vhd_block (vi_file i) (int (vi_bs i)) (int (vi_vs i)) (g, field (vi_table i + 4 * g) 4 (vi_file i))"

definition vhd_data :: "vhd_image \<Rightarrow> nat \<Rightarrow> byte list option" where
  "vhd_data i g =
     (if vhd_sector i g = 0xFFFFFFFF \<or> vi_vs i \<le> g * vi_bs i then None
      else Some (field (vhd_host i g) (min (vi_bs i) (vi_vs i - g * vi_bs i)) (vi_file i)))"

lemma block_offset_small:
  assumes "n * bs < 2 ^ 62" and "g < n"
  shows "int g * int bs < 2 ^ 62"
proof -
  have "g * bs \<le> n * bs" using assms(2) by simp
  then have "int (g * bs) < int (2 ^ 62)" using assms(1) by linarith
  then show ?thesis by simp
qed

lemma wrap_offsets:
  assumes "0 \<le> a" and "a < 2 ^ 62" and "0 \<le> b" and "b < 2 ^ 62"
  shows "wrap64 a = a" and "wrap64 (a + b) = a + b"
  using assms by (auto intro!: wrap64_id)

lemma bitmap_nonneg: "0 \<le> bs \<Longrightarrow> 0 \<le> vhd_bitmap_size bs"
  unfolding vhd_bitmap_size_def Let_def by (simp add: pos_imp_zdiv_nonneg_iff)

lemma vhd_step_data:
  assumes "vhd_ok i" and "g < vi_entries i" and "length out = vi_vs i"
  shows "vhd_step i g out = (case vhd_data i g of None \<Rightarrow> out | Some d \<Rightarrow> splice out (g * vi_bs i) d)"
proof (cases "vhd_sector i g = 0xFFFFFFFF")
  case True
  then show ?thesis by (simp add: vhd_step_def vhd_block_def vhd_data_def vhd_sector_def)
next
  case alloc: False
  have off: "wrap64 (int g * int (vi_bs i)) = int g * int (vi_bs i)"
    "wrap64 (int g * int (vi_bs i) + int (vi_bs i)) = int g * int (vi_bs i) + int (vi_bs i)"
    using wrap_offsets [of "int g * int (vi_bs i)" "int (vi_bs i)"] block_offset_small [of "vi_entries i" "vi_bs i" g] assms(1,2)
    by (simp_all add: vhd_ok_def)
  let ?d = "vhd_sector i g * 512 + vhd_bitmap_size (int (vi_bs i))"
  have d: "0 \<le> ?d" using be_int_nonneg bitmap_nonneg [of "int (vi_bs i)"] by (simp add: vhd_sector_def)
  show ?thesis
  proof (cases "g * vi_bs i < vi_vs i")
    case True
    define n where "n = min (vi_bs i) (vi_vs i - g * vi_bs i)"
    have nn: "(if int g * int (vi_bs i) + int (vi_bs i) > int (vi_vs i) then int (vi_vs i) - int g * int (vi_bs i) else int (vi_bs i)) = int n"
      using True by (auto simp: n_def min_def of_nat_diff simp flip: of_nat_mult)
    have pos: "0 < n" using True assms(1) by (simp add: vhd_ok_def n_def)
    have fit: "vhd_host i g + n \<le> length (vi_file i)" using assms alloc True by (simp add: vhd_ok_def n_def)
    have r: "read_some (vi_file i) ?d (int n) = Some (field (vhd_host i g) n (vi_file i))"
      using read_some_ok [OF d, of "int n" "vi_file i"] pos fit d unfolding vhd_host_def by simp
    have w: "write_at out (int g * int (vi_bs i)) (field (vhd_host i g) n (vi_file i)) =
        Some (splice out (g * vi_bs i) (field (vhd_host i g) n (vi_file i)))"
    proof -
      have "nat (int g * int (vi_bs i)) = g * vi_bs i" by (simp flip: of_nat_mult)
      moreover have "g * vi_bs i + length (field (vhd_host i g) n (vi_file i)) \<le> length out"
        using True assms(3) by (simp add: length_field n_def)
      ultimately show ?thesis using write_at_inside [of "int g * int (vi_bs i)"] by simp
    qed
    have "vhd_step i g out = splice out (g * vi_bs i) (field (vhd_host i g) n (vi_file i))"
      unfolding vhd_step_def vhd_block_def split_conv Let_def off nn vhd_sector_def [symmetric]
      using alloc pos r w by (simp add: skip_or_def)
    then show ?thesis using alloc True by (simp add: vhd_data_def n_def)
  next
    case False
    then have "int (vi_vs i) \<le> int g * int (vi_bs i)" by (simp flip: of_nat_mult)
    then have "(if int g * int (vi_bs i) + int (vi_bs i) > int (vi_vs i) then int (vi_vs i) - int g * int (vi_bs i) else int (vi_bs i)) \<le> 0"
      using assms(1) by (simp add: vhd_ok_def)
    then have "vhd_step i g out = out"
      unfolding vhd_step_def vhd_block_def split_conv Let_def off vhd_sector_def [symmetric] using alloc by simp
    then show ?thesis using False by (simp add: vhd_data_def)
  qed
qed

interpretation vhd: block_copy vhd_ok vhd_step vhd_data vi_bs vi_vs vi_entries
proof
  show "vhd_ok i \<Longrightarrow> 0 < vi_bs i" for i by (simp add: vhd_ok_def)
  show "vhd_ok i \<Longrightarrow> g < vi_entries i \<Longrightarrow> vhd_data i g = Some d \<Longrightarrow> g * vi_bs i + length d \<le> vi_vs i \<and> length d \<le> vi_bs i" for i g d
    by (auto simp: vhd_data_def length_field split: if_splits)
qed (rule vhd_step_data)

lemma vhd_block_guest:
  assumes "vhd_ok i" and "v < vi_vs i"
  shows "(if v div vi_bs i < vi_entries i then block_byte (vhd_data i (v div vi_bs i)) (v mod vi_bs i) else 0) = vhd_guest i v"
proof (cases "v div vi_bs i < vi_entries i \<and> vhd_sector i (v div vi_bs i) \<noteq> 0xFFFFFFFF")
  case True
  let ?g = "v div vi_bs i" and ?k = "v mod vi_bs i"
  have v: "v = ?g * vi_bs i + ?k" and k: "?k < vi_bs i" using assms(1) by (simp_all add: vhd_ok_def)
  define n where "n = min (vi_bs i) (vi_vs i - ?g * vi_bs i)"
  have g: "?g * vi_bs i < vi_vs i" and kn: "?k < n" using v k assms(2) unfolding n_def by linarith+
  have fit: "vhd_host i ?g + n \<le> length (vi_file i)" using assms(1) True g unfolding vhd_ok_def n_def by blast
  have "field (vhd_host i ?g) n (vi_file i) ! ?k = vi_file i ! (vhd_host i ?g + ?k)" "?k < length (field (vhd_host i ?g) n (vi_file i))"
    using kn fit by (simp_all add: field_nth length_field)
  then show ?thesis using True g by (simp add: vhd_guest_def vhd_data_def block_byte_def n_def)
qed (auto simp: vhd_guest_def vhd_data_def block_byte_def Let_def)

lemma vhd_fold:
  assumes "vhd_ok i"
  shows "fold (vhd_block (vi_file i) (int (vi_bs i)) (int (vi_vs i)))
      (enumerate 0 (entries 4 (field (vi_table i) (4 * vi_entries i) (vi_file i)))) out = fold (vhd_step i) [0..<vi_entries i] out"
proof -
  let ?t = "field (vi_table i) (4 * vi_entries i) (vi_file i)"
  have l: "length ?t = 4 * vi_entries i" using assms unfolding vhd_ok_def length_field by linarith
  have "entries 4 ?t ! g = field (vi_table i + 4 * g) 4 (vi_file i)" if "g < vi_entries i" for g
    using that l by (simp add: entries_nth field_field)
  then show ?thesis unfolding fold_enumerate using l by (intro fold_cong) (simp_all add: vhd_step_def)
qed


text \<open>A small image: two blocks of one sector, the second one allocated, the disk 1000 bytes long.\<close>

fun be_bytes :: "nat \<Rightarrow> int \<Rightarrow> byte list" where
  "be_bytes 0 n = []"
| "be_bytes (Suc w) n = be_bytes w (n div 256) @ [word_of_int (n mod 256)]"

lemma length_be_bytes [simp]: "length (be_bytes w n) = w"
  by (induction w arbitrary: n) simp_all

lemma be_int_snoc: "be_int (bs @ [b]) = be_int bs * 256 + uint b"
  by (simp add: be_int_def)

lemma be_int_bytes: "0 \<le> n \<Longrightarrow> n < 256 ^ w \<Longrightarrow> be_int (be_bytes w n) = n"
proof (induction w arbitrary: n)
  case 0
  then show ?case by (simp add: be_int_def)
next
  case (Suc w)
  have "n div 256 < 256 ^ w" using Suc.prems by (simp add: div_less_iff_less_mult mult.commute)
  moreover have "uint (word_of_int (n mod 256) :: byte) = n mod 256" by (simp add: uint_word_of_int)
  ultimately show ?case using Suc.IH [of "n div 256"] Suc.prems(1)
    by (simp add: be_int_snoc pos_imp_zdiv_nonneg_iff)
qed

definition tiny_vhd :: "byte list" where
  "tiny_vhd =
     vhdFooterCookie @ replicate 8 0 @ be_bytes 8 512 @ replicate 24 0 @ be_bytes 8 1000 @ replicate 4 0 @ be_bytes 4 3 @ replicate 448 0 @
     replicate 16 0 @ be_bytes 8 1536 @ replicate 4 0 @ be_bytes 4 2 @ be_bytes 4 512 @ replicate 988 0 @
     be_bytes 4 0xFFFFFFFF @ be_bytes 4 4 @ replicate 504 0 @
     replicate 512 0 @ replicate 511 7 @ [9]"

definition tiny_vhd_image :: vhd_image where
  "tiny_vhd_image = \<lparr>vi_file = tiny_vhd, vi_bs = 512, vi_vs = 1000, vi_table = 1536, vi_entries = 2\<rparr>"


section \<open>Sparse VMDK\<close>

text \<open>
  A monolithicSparse image: the file, capacity and grain size in sectors, entries per grain table and
  the sector of the grain directory.
\<close>

record vmdk_image =
  x_file :: "byte list"
  x_cap :: nat
  x_grain :: nat
  x_per :: nat
  x_gd :: nat

definition vm_gs :: "vmdk_image \<Rightarrow> nat" where "vm_gs i = x_grain i * 512"

definition vm_vs :: "vmdk_image \<Rightarrow> nat" where "vm_vs i = x_cap i * 512"

definition vm_tables :: "vmdk_image \<Rightarrow> nat" where
  "vm_tables i = ((x_cap i + x_grain i - 1) div x_grain i + x_per i - 1) div x_per i"

definition vm_blocks :: "vmdk_image \<Rightarrow> nat" where "vm_blocks i = vm_tables i * x_per i"

definition vm_table_sector :: "vmdk_image \<Rightarrow> nat \<Rightarrow> nat" where
  "vm_table_sector i t = nat (le_int (field (x_gd i * 512 + 4 * t) 4 (x_file i)))"

definition vm_grain_sector :: "vmdk_image \<Rightarrow> nat \<Rightarrow> nat" where
  "vm_grain_sector i g =
     (let t = vm_table_sector i (g div x_per i)
      in if t = 0 then 0 else nat (le_int (field (t * 512 + 4 * (g mod x_per i)) 4 (x_file i))))"

definition vmdk_guest :: "vmdk_image \<Rightarrow> nat \<Rightarrow> byte" where
  "vmdk_guest i v =
     (let g = v div vm_gs i; s = vm_grain_sector i g
      in if g < vm_blocks i \<and> s \<noteq> 0 then x_file i ! (s * 512 + v mod vm_gs i) else 0)"

definition vmdk_ok :: "vmdk_image \<Rightarrow> bool" where
  "vmdk_ok i \<longleftrightarrow> 0 < x_grain i \<and> 0 < x_cap i \<and> 0 < x_per i \<and> x_per i < 2 ^ 32 \<and> vm_gs i < 2 ^ 62 \<and> vm_vs i < 2 ^ 62 \<and>
     vm_blocks i * vm_gs i < 2 ^ 62 \<and> x_gd i * 512 + 4 * vm_tables i \<le> length (x_file i) \<and> x_gd i * 512 < 2 ^ 62 \<and>
     (\<forall>t<vm_tables i. vm_table_sector i t \<noteq> 0 \<longrightarrow> vm_table_sector i t * 512 + 4 * x_per i \<le> length (x_file i)) \<and>
     (\<forall>g<vm_blocks i. vm_grain_sector i g \<noteq> 0 \<and> g * vm_gs i < vm_vs i \<longrightarrow>
        vm_grain_sector i g * 512 + min (vm_gs i) (vm_vs i - g * vm_gs i) \<le> length (x_file i))"

definition vmdk_step :: "vmdk_image \<Rightarrow> nat \<Rightarrow> byte list \<Rightarrow> byte list" where
  "vmdk_step i g out =
     (let t = vm_table_sector i (g div x_per i) in
      if t = 0 then out
      else vmdk_grain (x_file i) (int (vm_gs i)) (int (vm_vs i)) (int (x_per i)) (g div x_per i)
             (g mod x_per i, field (t * 512 + 4 * (g mod x_per i)) 4 (x_file i)) out)"

definition vmdk_data :: "vmdk_image \<Rightarrow> nat \<Rightarrow> byte list option" where
  "vmdk_data i g =
     (if vm_grain_sector i g = 0 \<or> vm_vs i \<le> g * vm_gs i then None
      else Some (field (vm_grain_sector i g * 512) (min (vm_gs i) (vm_vs i - g * vm_gs i)) (x_file i)))"

lemma take_field: "m \<le> n \<Longrightarrow> take m (field a n f) = field a m f"
  by (simp add: field_def min_def)

lemma read_some_part:
  assumes "0 < n" and "n \<le> m" and "h + n \<le> length f"
  shows "read_some f (int h) (int m) = Some (field h m f)"
proof -
  have "field h m f \<noteq> []" using assms by (auto simp: field_def)
  then show ?thesis by (simp add: read_some_def Let_def)
qed

text \<open>The grain as the code cuts it: as much as was read, and not past the end of the disk.\<close>

lemma cut_block:
  assumes "n = min gs (vs - off)" and "off < vs" and "0 < n" and "h + n \<le> length f" and "off + gs < 2 ^ 63" and "vs < 2 ^ 63"
  shows "take (nat (if wrap64 (int off + int (length (field h gs f))) > int vs then int vs - int off else int (length (field h gs f))))
      (field h gs f) = field h n f"
proof -
  let ?b = "field h gs f"
  have l: "length ?b \<le> gs" "n \<le> length ?b" using assms by (auto simp: length_field)
  have w: "wrap64 (int off + int (length ?b)) = int (off + length ?b)"
  proof -
    have "off + length ?b < 2 ^ 63" using l(1) assms(5) by linarith
    then have "int (off + length ?b) < int (2 ^ 63)" by (simp only: of_nat_less_iff)
    then show ?thesis using wrap64_id [of "int (off + length ?b)"] by simp
  qed
  show ?thesis
  proof (cases "vs < off + length ?b")
    case True
    then have "n = vs - off" using l(1) assms(1) by simp
    moreover have "nat (int vs - int off) = vs - off" using assms(2) by (simp add: nat_diff_distrib)
    ultimately show ?thesis unfolding w using True take_field [of n gs h f] assms(1) by simp
  next
    case False
    then have "length ?b = n" using l assms(1) by simp
    then show ?thesis unfolding w using False take_field [of n gs h f] assms(1) by (simp add: field_def)
  qed
qed

lemma vmdk_step_data:
  assumes "vmdk_ok i" and "g < vm_blocks i" and "length out = vm_vs i"
  shows "vmdk_step i g out = (case vmdk_data i g of None \<Rightarrow> out | Some d \<Rightarrow> splice out (g * vm_gs i) d)"
proof (cases "vm_grain_sector i g = 0")
  case True
  then show ?thesis
    using le_int_nonneg [of "field (vm_table_sector i (g div x_per i) * 512 + 4 * (g mod x_per i)) 4 (x_file i)"]
    by (auto simp: vmdk_step_def vmdk_grain_def vmdk_data_def vm_grain_sector_def Let_def split: if_splits)
next
  case alloc: False
  let ?t = "vm_table_sector i (g div x_per i)" and ?s = "vm_grain_sector i g"
  have t: "?t \<noteq> 0" and s: "le_int (field (?t * 512 + 4 * (g mod x_per i)) 4 (x_file i)) = int ?s"
    using alloc le_int_nonneg by (auto simp: vm_grain_sector_def Let_def split: if_splits)
  have ok: "0 < vm_gs i" "vm_gs i < 2 ^ 62" "vm_vs i < 2 ^ 62" "vm_blocks i * vm_gs i < 2 ^ 62"
    using assms(1) by (auto simp: vmdk_ok_def vm_gs_def)
  have idx: "int (g div x_per i) * int (x_per i) + int (g mod x_per i) = int g"
    by (simp flip: of_nat_mult of_nat_add)
  have off: "wrap64 (int g * int (vm_gs i)) = int (g * vm_gs i)"
    using wrap_offsets(1) [of "int g * int (vm_gs i)" 0] block_offset_small [OF ok(4) assms(2)] by simp
  have step: "vmdk_step i g out = (case read_some (x_file i) (int (?s * 512)) (int (vm_gs i)) of None \<Rightarrow> out
      | Some bs \<Rightarrow> if int (g * vm_gs i) \<ge> int (vm_vs i) then out
         else skip_or out (write_at out (int (g * vm_gs i))
           (take (nat (if wrap64 (int (g * vm_gs i) + int (length bs)) > int (vm_vs i) then int (vm_vs i) - int (g * vm_gs i) else int (length bs))) bs)))"
    unfolding vmdk_step_def vmdk_grain_def split_conv Let_def s idx off using t alloc by simp
  show ?thesis
  proof (cases "g * vm_gs i < vm_vs i")
    case True
    define n where "n = min (vm_gs i) (vm_vs i - g * vm_gs i)"
    have n: "0 < n" "n \<le> vm_gs i" using ok(1) True by (auto simp: n_def)
    have fit: "?s * 512 + n \<le> length (x_file i)" using assms(1,2) alloc True unfolding vmdk_ok_def n_def by blast
    have "g * vm_gs i + vm_gs i < 2 ^ 63" using ok(2,3) True by simp
    then have cut: "take (nat (if wrap64 (int (g * vm_gs i) + int (length (field (?s * 512) (vm_gs i) (x_file i)))) > int (vm_vs i)
          then int (vm_vs i) - int (g * vm_gs i) else int (length (field (?s * 512) (vm_gs i) (x_file i)))))
        (field (?s * 512) (vm_gs i) (x_file i)) = field (?s * 512) n (x_file i)"
      using cut_block [OF n_def True n(1) fit] ok(3) by simp
    have "g * vm_gs i + length (field (?s * 512) n (x_file i)) \<le> length out" using True assms(3) by (simp add: length_field n_def)
    then have w: "write_at out (int (g * vm_gs i)) (field (?s * 512) n (x_file i)) = Some (splice out (g * vm_gs i) (field (?s * 512) n (x_file i)))"
      by (rule write_at_nat)
    have "vmdk_step i g out = splice out (g * vm_gs i) (field (?s * 512) n (x_file i))"
      unfolding step read_some_part [OF n fit] option.case cut w of_nat_le_iff using True by (simp only: not_le [symmetric] if_False skip_or_def option.case)
    then show ?thesis using alloc True by (simp add: vmdk_data_def n_def)
  next
    case False
    then have "vmdk_step i g out = out"
      unfolding step of_nat_le_iff by (simp only: not_less if_True split: option.split) simp
    then show ?thesis using False by (simp add: vmdk_data_def)
  qed
qed

interpretation vmdk: block_copy vmdk_ok vmdk_step vmdk_data vm_gs vm_vs vm_blocks
proof
  show "vmdk_ok i \<Longrightarrow> 0 < vm_gs i" for i by (simp add: vmdk_ok_def vm_gs_def)
  show "vmdk_ok i \<Longrightarrow> g < vm_blocks i \<Longrightarrow> vmdk_data i g = Some d \<Longrightarrow> g * vm_gs i + length d \<le> vm_vs i \<and> length d \<le> vm_gs i" for i g d
    by (auto simp: vmdk_data_def length_field split: if_splits)
qed (rule vmdk_step_data)

lemma vmdk_block_guest:
  assumes "vmdk_ok i" and "v < vm_vs i"
  shows "(if v div vm_gs i < vm_blocks i then block_byte (vmdk_data i (v div vm_gs i)) (v mod vm_gs i) else 0) = vmdk_guest i v"
proof (cases "v div vm_gs i < vm_blocks i \<and> vm_grain_sector i (v div vm_gs i) \<noteq> 0")
  case True
  let ?g = "v div vm_gs i" and ?k = "v mod vm_gs i"
  have v: "v = ?g * vm_gs i + ?k" by simp
  have k: "?k < vm_gs i" using vmdk.bsize_pos [OF assms(1)] by simp
  define n where "n = min (vm_gs i) (vm_vs i - ?g * vm_gs i)"
  have g: "?g * vm_gs i < vm_vs i" and kn: "?k < n" using v k assms(2) unfolding n_def by linarith+
  have fit: "vm_grain_sector i ?g * 512 + n \<le> length (x_file i)" using assms(1) True g unfolding vmdk_ok_def n_def by blast
  have "field (vm_grain_sector i ?g * 512) n (x_file i) ! ?k = x_file i ! (vm_grain_sector i ?g * 512 + ?k)"
    "?k < length (field (vm_grain_sector i ?g * 512) n (x_file i))"
    using kn fit by (simp_all add: field_nth length_field)
  then show ?thesis using True g by (simp add: vmdk_guest_def vmdk_data_def block_byte_def n_def Let_def)
qed (auto simp: vmdk_guest_def vmdk_data_def block_byte_def Let_def)

lemma field_entries:
  assumes "off + w * n \<le> length f" and "0 < w" and "i < n"
  shows "entries w (field off (w * n) f) ! i = field (off + w * i) w f" and "length (entries w (field off (w * n) f)) = n"
proof -
  have l: "length (field off (w * n) f) = w * n" using assms(1) unfolding length_field by linarith
  then show "length (entries w (field off (w * n) f)) = n" using assms(2) by simp
  have "w * i + w \<le> w * n" using mult_le_mono2 [of "Suc i" n w] assms(3) by simp
  then show "entries w (field off (w * n) f) ! i = field (off + w * i) w f"
    using l assms(2,3) by (simp add: entries_nth field_field)
qed

lemma vmdk_table_fold:
  assumes "vmdk_ok i" and "t < vm_tables i"
  shows "vmdk_grain_table (x_file i) (int (vm_gs i)) (int (vm_vs i)) (int (x_per i)) (t, field (x_gd i * 512 + 4 * t) 4 (x_file i)) out =
    fold (\<lambda>k. vmdk_step i (t * x_per i + k)) [0..<x_per i] out"
proof -
  have per: "0 < x_per i" using assms(1) by (simp add: vmdk_ok_def)
  have sec: "le_int (field (x_gd i * 512 + 4 * t) 4 (x_file i)) = int (vm_table_sector i t)"
    using le_int_nonneg by (simp add: vm_table_sector_def)
  have dm: "(t * x_per i + k) div x_per i = t" "(t * x_per i + k) mod x_per i = k" if "k < x_per i" for k using that by simp_all
  show ?thesis
  proof (cases "vm_table_sector i t = 0")
    case True
    then have "fold (\<lambda>k. vmdk_step i (t * x_per i + k)) [0..<x_per i] out = fold (\<lambda>k x. x) [0..<x_per i] out"
      by (intro fold_cong) (auto simp: vmdk_step_def dm Let_def)
    also have "\<dots> = out" by (rule fold_idle_list)
    finally show ?thesis using True sec by (simp add: vmdk_grain_table_def)
  next
    case False
    then have fit: "vm_table_sector i t * 512 + 4 * x_per i \<le> length (x_file i)" using assms by (auto simp: vmdk_ok_def)
    have r: "read_full (x_file i) (int (vm_table_sector i t) * 512) (4 * int (x_per i)) =
        Some (field (vm_table_sector i t * 512) (4 * x_per i) (x_file i))"
      using read_full_nat [OF fit] by simp
    have l: "length (entries 4 (field (vm_table_sector i t * 512) (4 * x_per i) (x_file i))) = x_per i"
      using field_entries(2) [OF fit _ per] by simp
    show ?thesis
      unfolding vmdk_grain_table_def split_conv Let_def sec r option.case fold_enumerate l
      using False field_entries(1) [OF fit] by (auto simp: vmdk_step_def dm Let_def intro!: fold_cong)
  qed
qed

lemma vmdk_fold:
  assumes "vmdk_ok i"
  shows "fold (vmdk_grain_table (x_file i) (int (vm_gs i)) (int (vm_vs i)) (int (x_per i)))
      (enumerate 0 (entries 4 (field (x_gd i * 512) (4 * vm_tables i) (x_file i)))) out = fold (vmdk_step i) [0..<vm_blocks i] out"
proof -
  have fit: "x_gd i * 512 + 4 * vm_tables i \<le> length (x_file i)" using assms by (simp add: vmdk_ok_def)
  have l: "length (entries 4 (field (x_gd i * 512) (4 * vm_tables i) (x_file i))) = vm_tables i"
    using fit by (simp add: length_field)
  have "fold (vmdk_grain_table (x_file i) (int (vm_gs i)) (int (vm_vs i)) (int (x_per i)))
      (enumerate 0 (entries 4 (field (x_gd i * 512) (4 * vm_tables i) (x_file i)))) out =
    fold (\<lambda>t. fold (\<lambda>k. vmdk_step i (t * x_per i + k)) [0..<x_per i]) [0..<vm_tables i] out"
    unfolding fold_enumerate l using field_entries(1) [OF fit] vmdk_table_fold [OF assms]
    by (intro fold_cong) (auto simp: fun_eq_iff)
  then show ?thesis unfolding vm_blocks_def fold_nested .
qed

lemma quot_pos: "0 \<le> a \<Longrightarrow> 0 < b \<Longrightarrow> quot a b = a div b"
  by (simp add: quot_def)


definition le_bytes :: "nat \<Rightarrow> int \<Rightarrow> byte list" where
  "le_bytes w n = rev (be_bytes w n)"

lemma length_le_bytes [simp]: "length (le_bytes w n) = w"
  by (simp add: le_bytes_def)

lemma le_int_bytes: "0 \<le> n \<Longrightarrow> n < 256 ^ w \<Longrightarrow> le_int (le_bytes w n) = n"
  by (simp add: le_int_def le_bytes_def be_int_bytes)

text \<open>The header of a sparse extent with the fields the converter reads.\<close>

definition vmdk_header :: "int \<Rightarrow> int \<Rightarrow> int \<Rightarrow> int \<Rightarrow> int \<Rightarrow> int \<Rightarrow> byte list" where
  "vmdk_header flags cap grain per gd over =
     le_bytes 4 vmdkSEMagic @ le_bytes 4 1 @ le_bytes 4 flags @ le_bytes 8 cap @ le_bytes 8 grain @ replicate 16 0 @
     le_bytes 4 per @ replicate 8 0 @ le_bytes 8 gd @ le_bytes 8 over @ replicate 440 0"

lemma length_vmdk_header [simp]: "length (vmdk_header flags cap grain per gd over) = 512"
  by (simp add: vmdk_header_def)

lemma read_vmdk_header:
  assumes "0 \<le> flags" "flags < 2 ^ 32" "0 \<le> cap" "cap < 2 ^ 64" "0 \<le> grain" "grain < 2 ^ 64" "0 \<le> per" "per < 2 ^ 32"
    "0 \<le> gd" "gd < 2 ^ 64" "0 \<le> over" "over < 2 ^ 64"
  shows "read_sparse_header (vmdk_header flags cap grain per gd over @ rest) =
      Some \<lparr>e_Flags = flags, e_Capacity = cap, e_GrainSize = grain, e_NumGTEsPerGT = per, e_GDOffset = gd, e_OverHead = over\<rparr>"
    and "read_full (vmdk_header flags cap grain per gd over @ rest) 0 4 = Some (le_bytes 4 vmdkSEMagic)"
    and "le_int (le_bytes 4 vmdkSEMagic) = vmdkSEMagic"
  using assms by (simp_all add: read_sparse_header_def read_full_def vmdk_header_def field_def le_int_bytes vmdkSEMagic_def)

text \<open>Three grains of one sector, two per table; only the second one is allocated.\<close>

definition tiny_vmdk :: "byte list" where
  "tiny_vmdk = vmdk_header 0 3 1 2 1 4 @ le_bytes 4 2 @ le_bytes 4 0 @ replicate 504 0 @
     le_bytes 4 0 @ le_bytes 4 3 @ replicate 504 0 @ replicate 512 7"

definition tiny_vmdk_image :: vmdk_image where
  "tiny_vmdk_image = \<lparr>x_file = tiny_vmdk, x_cap = 3, x_grain = 1, x_per = 2, x_gd = 1\<rparr>"


end
