(* ===== verification/Qcow2Conv.thy ===== *)
theory Qcow2Conv
  imports DiskConv
begin

text \<open>
  The QCOW2 converter against what a guest reads: two levels of tables, clusters stored as they are
  or compressed.
\<close>

section \<open>Images\<close>

record qcow2_image =
  qi_inflate :: "byte list \<Rightarrow> byte list option"
  qi_file :: "byte list"
  qi_bits :: nat
  qi_vs :: nat
  qi_l1 :: nat
  qi_l1n :: nat

definition q_cs :: "qcow2_image \<Rightarrow> nat" where "q_cs i = 2 ^ qi_bits i"

definition q_per :: "qcow2_image \<Rightarrow> nat" where "q_per i = q_cs i div 8"

definition q_blocks :: "qcow2_image \<Rightarrow> nat" where "q_blocks i = qi_l1n i * q_per i"

definition q_table :: "qcow2_image \<Rightarrow> nat \<Rightarrow> nat" where
  "q_table i t = nat (offset_of (word_of_int (be_int (field (qi_l1 i + 8 * t) 8 (qi_file i)))))"

definition q_entry :: "qcow2_image \<Rightarrow> nat \<Rightarrow> 64 word" where
  "q_entry i g =
     (let t = q_table i (g div q_per i)
      in if t = 0 then 0 else word_of_int (be_int (field (t + 8 * (g mod q_per i)) 8 (qi_file i))))"

text \<open>The decompressed content of a compressed cluster: raw deflate, or behind a two-byte header.\<close>

definition q_comp :: "qcow2_image \<Rightarrow> 64 word \<Rightarrow> byte list option" where
  "q_comp i e =
     (let nb = qi_bits i - 8;
          host = uint (take_bit (62 - nb) e);
          size = (uint (take_bit nb (drop_bit (62 - nb) e)) + 1) * 512
      in case read_some (qi_file i) host (min size (2 * int (q_cs i))) of
           None \<Rightarrow> None
         | Some c \<Rightarrow> (case qi_inflate i c of Some d \<Rightarrow> Some d | None \<Rightarrow> if length c < 2 then None else qi_inflate i (drop 2 c)))"

definition q_data :: "qcow2_image \<Rightarrow> nat \<Rightarrow> byte list option" where
  "q_data i g =
     (let e = q_entry i g in
      if e = 0 \<or> qi_vs i \<le> g * q_cs i then None
      else if is_compressed e then q_comp i e
      else if offset_of e = 0 then None
      else Some (field (nat (offset_of e)) (min (q_cs i) (qi_vs i - g * q_cs i)) (qi_file i)))"

definition qcow2_guest :: "qcow2_image \<Rightarrow> nat \<Rightarrow> byte" where
  "qcow2_guest i v =
     (let g = v div q_cs i; k = v mod q_cs i; e = q_entry i g in
      if q_blocks i \<le> g \<or> e = 0 then 0
      else if is_compressed e then (case q_comp i e of None \<Rightarrow> 0 | Some d \<Rightarrow> d ! k)
      else if offset_of e = 0 then 0 else qi_file i ! (nat (offset_of e) + k))"

text \<open>
  What the theorem asks of an image: sizes the code can count, tables inside the file, clusters inside
  the file, and compressed clusters that decompress to one cluster that fits the disk.
\<close>

definition cluster_ok :: "qcow2_image \<Rightarrow> nat \<Rightarrow> bool" where
  "cluster_ok i g \<longleftrightarrow>
     (let e = q_entry i g in
      e = 0 \<or> qi_vs i \<le> g * q_cs i \<or>
      (if is_compressed e
       then (case q_comp i e of None \<Rightarrow> False | Some d \<Rightarrow> length d = q_cs i) \<and> g * q_cs i + q_cs i \<le> qi_vs i
       else offset_of e = 0 \<or> nat (offset_of e) + min (q_cs i) (qi_vs i - g * q_cs i) \<le> length (qi_file i)))"

definition qcow2_ok :: "qcow2_image \<Rightarrow> bool" where
  "qcow2_ok i \<longleftrightarrow> 9 \<le> qi_bits i \<and> qi_bits i \<le> 21 \<and> 0 < qi_vs i \<and> qi_vs i < 2 ^ 62 \<and> q_blocks i * q_cs i < 2 ^ 62 \<and>
     qi_l1 i < 2 ^ 62 \<and> qi_l1 i + 8 * qi_l1n i \<le> length (qi_file i) \<and>
     (\<forall>t<qi_l1n i. q_table i t \<noteq> 0 \<longrightarrow> q_table i t + q_cs i \<le> length (qi_file i)) \<and>
     (\<forall>g<q_blocks i. cluster_ok i g)"

definition q_step :: "qcow2_image \<Rightarrow> nat \<Rightarrow> byte list \<Rightarrow> byte list" where
  "q_step i g out =
     (let t = q_table i (g div q_per i) in
      if t = 0 then out
      else qcow2_cluster (qi_inflate i) (qi_file i) (int (qi_bits i)) (int (q_cs i)) (int (qi_vs i)) (g div q_per i)
             (g mod q_per i, field (t + 8 * (g mod q_per i)) 8 (qi_file i)) out)"

section \<open>Offsets\<close>

lemma offset_of_range: "0 \<le> offset_of e" "offset_of e < 2 ^ 56"
proof -
  have "e AND offset_mask \<le> offset_mask" by (rule word_and_le1)
  then have "uint (e AND offset_mask) \<le> 0x00FFFFFFFFFFFE00"
    by (simp add: word_le_def offset_mask_def)
  moreover have "0 \<le> uint (e AND offset_mask)" by simp
  ultimately show "0 \<le> offset_of e" "offset_of e < 2 ^ 56" unfolding offset_of_def by (simp_all add: wrap64_def)
qed

lemma wrap64_nat: "n < 2 ^ 63 \<Longrightarrow> wrap64 (int n) = int n"
  by (simp add: wrap64_def)

lemma q_sizes:
  assumes "qcow2_ok i"
  shows "q_cs i = 8 * q_per i" "0 < q_per i" "0 < q_cs i" "q_cs i \<le> 2 ^ 21"
proof -
  have b: "3 \<le> qi_bits i" "qi_bits i \<le> 21" using assms by (auto simp: qcow2_ok_def)
  have "q_cs i = 2 ^ (qi_bits i - 3) * 8" unfolding q_cs_def using b(1) power_add [of "2 :: nat" "qi_bits i - 3" 3] by simp
  then show "q_cs i = 8 * q_per i" "0 < q_per i" "0 < q_cs i" by (simp_all add: q_per_def)
  show "q_cs i \<le> 2 ^ 21" unfolding q_cs_def using b(2) by (intro power_increasing) simp_all
qed

lemma standard_cluster:
  assumes "qcow2_ok i" and "g < q_blocks i" and "g * q_cs i < qi_vs i" and "length out = qi_vs i" and "offset_of e \<noteq> 0"
    and "nat (offset_of e) + min (q_cs i) (qi_vs i - g * q_cs i) \<le> length (qi_file i)"
  shows "read_standard_cluster (qi_file i) out e (int (g * q_cs i)) (int (q_cs i)) (int (qi_vs i)) =
    Some (splice out (g * q_cs i) (field (nat (offset_of e)) (min (q_cs i) (qi_vs i - g * q_cs i)) (qi_file i)))"
proof -
  define n where "n = min (q_cs i) (qi_vs i - g * q_cs i)"
  have n: "0 < n" using q_sizes(3) [OF assms(1)] assms(3) by (simp add: n_def)
  have "g * q_cs i + q_cs i < 2 ^ 63" using assms(1,3) q_sizes(4) [OF assms(1)] unfolding qcow2_ok_def by simp
  then have w: "wrap64 (int (g * q_cs i) + int (q_cs i)) = int (g * q_cs i) + int (q_cs i)"
    unfolding of_nat_add [symmetric] by (rule wrap64_nat)
  have rs: "(if int (g * q_cs i) + int (q_cs i) > int (qi_vs i) then int (qi_vs i) - int (g * q_cs i) else int (q_cs i)) = int n"
    using assms(3) by (auto simp: n_def min_def of_nat_diff simp flip: of_nat_mult of_nat_add)
  have r: "read_some (qi_file i) (offset_of e) (int n) = Some (field (nat (offset_of e)) n (qi_file i))"
    using read_some_part [OF n order_refl assms(6) [folded n_def]] offset_of_range(1) [of e] by simp
  have "g * q_cs i + length (field (nat (offset_of e)) n (qi_file i)) \<le> length out"
    using assms(3,4) by (simp add: length_field n_def)
  from write_at_nat [OF this] show ?thesis
    unfolding read_standard_cluster_def Let_def w rs r option.case n_def [symmetric] using assms(5) by (simp only: if_False)
qed

lemma compressed_cluster:
  assumes "qcow2_ok i" and "q_comp i e = Some d" and "length d = q_cs i" and "pos + q_cs i \<le> length out"
  shows "readCompressedCluster (qi_inflate i) (qi_file i) out e (int (qi_bits i)) (int pos) (int (q_cs i)) = Some (splice out pos d)"
proof -
  have b: "8 \<le> qi_bits i" using assms(1) by (simp add: qcow2_ok_def)
  have nb: "nat (if int (qi_bits i) - 8 < 0 then 0 else int (qi_bits i) - 8) = qi_bits i - 8" using b by (simp add: nat_diff_distrib)
  have m: "(if a > int (q_cs i) * 2 then int (q_cs i) * 2 else a) = min a (2 * int (q_cs i))" for a by simp
  obtain c where c: "read_some (qi_file i) (uint (take_bit (62 - (qi_bits i - 8)) e))
      (min ((uint (take_bit (qi_bits i - 8) (drop_bit (62 - (qi_bits i - 8)) e)) + 1) * 512) (2 * int (q_cs i))) = Some c"
    "qi_inflate i c = Some d \<or> qi_inflate i c = None \<and> 2 \<le> length c \<and> qi_inflate i (drop 2 c) = Some d"
    using assms(2) unfolding q_comp_def Let_def by (auto split: option.splits if_splits)
  have w: "write_at out (int pos) d = Some (splice out pos d)" using write_at_nat assms(3,4) by simp
  show ?thesis
    unfolding readCompressedCluster_def Let_def nb m c(1) option.case
    using c(2) w assms(3) by (auto simp: readCompressedClusterZlib_def Let_def)
qed

lemma q_step_data:
  assumes "qcow2_ok i" and "g < q_blocks i" and "length out = qi_vs i"
  shows "q_step i g out = (case q_data i g of None \<Rightarrow> out | Some d \<Rightarrow> splice out (g * q_cs i) d)"
proof -
  let ?t = "q_table i (g div q_per i)" and ?e = "q_entry i g"
  have per: "int (q_cs i) div 8 = int (q_per i)" using q_sizes(1) [OF assms(1)] by simp
  have idx: "int (g div q_per i) * int (q_per i) + int (g mod q_per i) = int g"
    by (simp flip: of_nat_mult of_nat_add)
  have gcs: "g * q_cs i < 2 ^ 62" using assms(1,2) mult_le_mono1 [of g "q_blocks i" "q_cs i"] unfolding qcow2_ok_def by linarith
  have "g \<le> g * q_cs i" using q_sizes(3) [OF assms(1)] by simp
  moreover have "(2 :: nat) ^ 62 < 2 ^ 63" by simp
  ultimately have g: "g < 2 ^ 63" "g * q_cs i < 2 ^ 63" using gcs by linarith+
  have "g div q_per i * q_per i \<le> g" by simp
  then have a: "g div q_per i * q_per i < 2 ^ 63" using g(1) by linarith
  have ci: "wrap64 (wrap64 (int (g div q_per i) * int (q_per i)) + int (g mod q_per i)) = int g"
    using wrap64_nat [OF a] wrap64_nat [OF g(1)] idx by simp
  have vo: "wrap64 (int g * int (q_cs i)) = int (g * q_cs i)" using wrap64_nat [OF g(2)] by simp
  have step: "q_step i g out = (if ?e = 0 then out else if int (g * q_cs i) \<ge> int (qi_vs i) then out
      else if is_compressed ?e
      then skip_or out (readCompressedCluster (qi_inflate i) (qi_file i) out ?e (int (qi_bits i)) (int (g * q_cs i)) (int (q_cs i)))
      else skip_or out (read_standard_cluster (qi_file i) out ?e (int (g * q_cs i)) (int (q_cs i)) (int (qi_vs i))))"
    unfolding q_step_def qcow2_cluster_def split_conv Let_def per ci vo q_entry_def by simp
  show ?thesis
  proof (cases "?e = 0 \<or> qi_vs i \<le> g * q_cs i")
    case True
    then show ?thesis unfolding step of_nat_le_iff by (auto simp: q_data_def Let_def)
  next
    case False
    have ok: "cluster_ok i g" using assms(1,2) by (simp add: qcow2_ok_def)
    show ?thesis
    proof (cases "is_compressed ?e")
      case True
      then obtain d where d: "q_comp i ?e = Some d" "length d = q_cs i" "g * q_cs i + q_cs i \<le> length out"
        using ok False assms(3) by (auto simp: cluster_ok_def Let_def split: option.splits)
      show ?thesis
        unfolding step of_nat_le_iff compressed_cluster [OF assms(1) d]
        using False True d(1) by (simp add: q_data_def Let_def skip_or_def)
    next
      case std: False
      show ?thesis
      proof (cases "offset_of ?e = 0")
        case True
        then have "read_standard_cluster (qi_file i) out ?e (int (g * q_cs i)) (int (q_cs i)) (int (qi_vs i)) = None"
          by (simp add: read_standard_cluster_def)
        then show ?thesis unfolding step of_nat_le_iff using False std True by (simp add: q_data_def Let_def skip_or_def)
      next
        case nz: False
        then have fit: "nat (offset_of ?e) + min (q_cs i) (qi_vs i - g * q_cs i) \<le> length (qi_file i)"
          using ok False std by (auto simp: cluster_ok_def Let_def)
        have gv: "g * q_cs i < qi_vs i" using False by simp
        show ?thesis
          unfolding step of_nat_le_iff standard_cluster [OF assms(1,2) gv assms(3) nz fit]
          using False std nz by (simp add: q_data_def Let_def skip_or_def)
      qed
    qed
  qed
qed

lemma q_data_fits:
  assumes "qcow2_ok i" and "g < q_blocks i" and "q_data i g = Some d"
  shows "g * q_cs i + length d \<le> qi_vs i \<and> length d \<le> q_cs i"
proof -
  have ok: "cluster_ok i g" using assms(1,2) by (simp add: qcow2_ok_def)
  have ne: "q_entry i g \<noteq> 0" "g * q_cs i < qi_vs i" using assms(3) by (auto simp: q_data_def Let_def split: if_splits)
  show ?thesis
  proof (cases "is_compressed (q_entry i g)")
    case True
    then have "q_comp i (q_entry i g) = Some d" using assms(3) ne by (simp add: q_data_def Let_def)
    then show ?thesis using ok True ne by (simp add: cluster_ok_def Let_def)
  next
    case False
    then have "d = field (nat (offset_of (q_entry i g))) (min (q_cs i) (qi_vs i - g * q_cs i)) (qi_file i)"
      using assms(3) ne by (simp add: q_data_def Let_def split: if_splits)
    then show ?thesis using ne(2) unfolding length_field by (auto simp: length_field)
  qed
qed

interpretation qcow2: block_copy qcow2_ok q_step q_data q_cs qi_vs q_blocks
  by unfold_locales (simp_all add: q_sizes(3) q_data_fits q_step_data)

lemma qcow2_block_guest:
  assumes "qcow2_ok i" and "v < qi_vs i"
  shows "(if v div q_cs i < q_blocks i then block_byte (q_data i (v div q_cs i)) (v mod q_cs i) else 0) = qcow2_guest i v"
proof (cases "v div q_cs i < q_blocks i \<and> q_entry i (v div q_cs i) \<noteq> 0")
  case True
  let ?g = "v div q_cs i" and ?k = "v mod q_cs i" and ?e = "q_entry i (v div q_cs i)"
  have v: "v = ?g * q_cs i + ?k" by simp
  have k: "?k < q_cs i" using q_sizes(3) [OF assms(1)] by simp
  have g: "?g * q_cs i < qi_vs i" using v assms(2) by linarith
  have ok: "cluster_ok i ?g" using assms(1) True by (simp add: qcow2_ok_def)
  show ?thesis
  proof (cases "is_compressed ?e")
    case c: True
    then obtain d where "q_comp i ?e = Some d" "length d = q_cs i"
      using ok True g by (auto simp: cluster_ok_def Let_def split: option.splits)
    then show ?thesis using True c g k by (simp add: qcow2_guest_def q_data_def block_byte_def Let_def)
  next
    case std: False
    define n where "n = min (q_cs i) (qi_vs i - ?g * q_cs i)"
    have kn: "?k < n" using v k assms(2) unfolding n_def by linarith
    show ?thesis
    proof (cases "offset_of ?e = 0")
      case False
      then have fit: "nat (offset_of ?e) + n \<le> length (qi_file i)" using ok True std g by (auto simp: cluster_ok_def Let_def n_def)
      have "field (nat (offset_of ?e)) n (qi_file i) ! ?k = qi_file i ! (nat (offset_of ?e) + ?k)"
        "?k < length (field (nat (offset_of ?e)) n (qi_file i))"
        using kn fit by (simp_all add: field_nth length_field)
      then show ?thesis using True std g False by (simp add: qcow2_guest_def q_data_def block_byte_def n_def Let_def)
    qed (use True std g in \<open>simp add: qcow2_guest_def q_data_def block_byte_def Let_def\<close>)
  qed
qed (auto simp: qcow2_guest_def q_data_def block_byte_def Let_def)

lemma q_table_fold:
  assumes "qcow2_ok i" and "t < qi_l1n i"
  shows "qcow2_l2_table (qi_inflate i) (qi_file i) (int (qi_bits i)) (int (q_cs i)) (int (qi_vs i)) (t, field (qi_l1 i + 8 * t) 8 (qi_file i)) out =
    fold (\<lambda>k. q_step i (t * q_per i + k)) [0..<q_per i] out"
proof -
  note sz = q_sizes [OF assms(1)]
  have off: "offset_of (word_of_int (be_int (field (qi_l1 i + 8 * t) 8 (qi_file i)))) = int (q_table i t)"
    using offset_of_range(1) by (simp add: q_table_def)
  have dm: "(t * q_per i + k) div q_per i = t" "(t * q_per i + k) mod q_per i = k" if "k < q_per i" for k using that by simp_all
  show ?thesis
  proof (cases "q_table i t = 0")
    case True
    then have "fold (\<lambda>k. q_step i (t * q_per i + k)) [0..<q_per i] out = fold (\<lambda>k x. x) [0..<q_per i] out"
      by (intro fold_cong) (auto simp: q_step_def dm Let_def)
    then show ?thesis using True off by (simp add: qcow2_l2_table_def fold_idle_list)
  next
    case False
    then have fit: "q_table i t + 8 * q_per i \<le> length (qi_file i)" using assms sz(1) by (auto simp: qcow2_ok_def)
    have r: "read_full (qi_file i) (int (q_table i t)) (int (q_cs i) div 8 * 8) = Some (field (q_table i t) (8 * q_per i) (qi_file i))"
      using read_full_nat [OF fit] sz(1) by (simp add: mult.commute)
    have l: "length (entries 8 (field (q_table i t) (8 * q_per i) (qi_file i))) = q_per i"
      using field_entries(2) [OF fit _ sz(2)] by simp
    show ?thesis
      unfolding qcow2_l2_table_def split_conv Let_def off r option.case fold_enumerate l
      using False field_entries(1) [OF fit] by (auto simp: q_step_def dm Let_def intro!: fold_cong)
  qed
qed

lemma q_fold:
  assumes "qcow2_ok i"
  shows "fold (qcow2_l2_table (qi_inflate i) (qi_file i) (int (qi_bits i)) (int (q_cs i)) (int (qi_vs i)))
      (enumerate 0 (entries 8 (field (qi_l1 i) (8 * qi_l1n i) (qi_file i)))) out = fold (q_step i) [0..<q_blocks i] out"
proof -
  have fit: "qi_l1 i + 8 * qi_l1n i \<le> length (qi_file i)" using assms by (simp add: qcow2_ok_def)
  have l: "length (entries 8 (field (qi_l1 i) (8 * qi_l1n i) (qi_file i))) = qi_l1n i" using fit by (simp add: length_field)
  have "fold (qcow2_l2_table (qi_inflate i) (qi_file i) (int (qi_bits i)) (int (q_cs i)) (int (qi_vs i)))
      (enumerate 0 (entries 8 (field (qi_l1 i) (8 * qi_l1n i) (qi_file i)))) out =
    fold (\<lambda>t. fold (\<lambda>k. q_step i (t * q_per i + k)) [0..<q_per i]) [0..<qi_l1n i] out"
    unfolding fold_enumerate l using field_entries(1) [OF fit] q_table_fold [OF assms]
    by (intro fold_cong) (auto simp: fun_eq_iff)
  then show ?thesis unfolding q_blocks_def fold_nested .
qed


text \<open>A decompressor for the witnesses: one final stored block of RFC 1951.\<close>

definition inflate_stored :: "byte list \<Rightarrow> byte list option" where
  "inflate_stored c =
     (let n = nat (le_int (field 1 2 c)) in
      if 5 \<le> length c \<and> c ! 0 = 1 \<and> n + 5 \<le> length c then Some (field 5 n c) else None)"

definition stored :: "byte list \<Rightarrow> byte list" where
  "stored d = [1] @ le_bytes 2 (int (length d)) @ map (\<lambda>b. NOT b) (le_bytes 2 (int (length d))) @ d"

lemma inflate_stored: "length d < 2 ^ 16 \<Longrightarrow> inflate_stored (stored d @ rest) = Some d"
  by (simp add: inflate_stored_def stored_def field_def le_int_bytes)

lemma length_stored [simp]: "length (stored d) = length d + 5"
  by (simp add: stored_def)

text \<open>Three clusters of 512 bytes: the first unallocated, the second plain, the third compressed.\<close>

definition tiny_qcow2 :: "byte list" where
  "tiny_qcow2 =
     be_bytes 4 qcow2Magic @ be_bytes 4 2 @ be_bytes 8 0 @ replicate 4 0 @ be_bytes 4 9 @ be_bytes 8 1536 @ replicate 4 0 @ be_bytes 4 1 @ be_bytes 8 512 @
     replicate 464 0 @ be_bytes 8 1024 @ replicate 504 0 @
     be_bytes 8 0 @ be_bytes 8 1536 @ be_bytes 8 (0x6000000000000800) @ replicate 488 0 @
     replicate 512 7 @ stored (replicate 512 9)"

definition tiny_qcow2_image :: qcow2_image where
  "tiny_qcow2_image = \<lparr>qi_inflate = inflate_stored, qi_file = tiny_qcow2, qi_bits = 9, qi_vs = 1536, qi_l1 = 512, qi_l1n = 1\<rparr>"

lemma tiny_qcow2_fields:
  "qi_inflate tiny_qcow2_image = inflate_stored" "qi_file tiny_qcow2_image = tiny_qcow2" "qi_bits tiny_qcow2_image = 9"
  "qi_vs tiny_qcow2_image = 1536" "qi_l1 tiny_qcow2_image = 512" "qi_l1n tiny_qcow2_image = 1" "q_cs tiny_qcow2_image = 512"
  "q_per tiny_qcow2_image = 64" "q_blocks tiny_qcow2_image = 64" "length tiny_qcow2 = 2565"
  by (simp_all add: tiny_qcow2_image_def q_cs_def q_per_def q_blocks_def tiny_qcow2_def)

lemma tiny_qcow2_tables:
  "q_table tiny_qcow2_image 0 = 1024" "q_entry tiny_qcow2_image 0 = 0" "q_entry tiny_qcow2_image (Suc 0) = 1536"
  "q_entry tiny_qcow2_image 2 = 0x6000000000000800"
proof -
  show t: "q_table tiny_qcow2_image 0 = 1024"
    unfolding q_table_def tiny_qcow2_fields
    by (simp add: tiny_qcow2_def field_def be_int_bytes offset_of_def offset_mask_def wrap64_def)
  show "q_entry tiny_qcow2_image 0 = 0" "q_entry tiny_qcow2_image (Suc 0) = 1536" "q_entry tiny_qcow2_image 2 = 0x6000000000000800"
    unfolding q_entry_def tiny_qcow2_fields
    by (simp_all add: t tiny_qcow2_def field_def be_int_bytes)
qed

lemma tiny_qcow2_comp: "q_comp tiny_qcow2_image (0x6000000000000800) = Some (replicate 512 9)"
proof -
  have "field 2048 1024 tiny_qcow2 = stored (replicate 512 9)" by (simp add: tiny_qcow2_def field_def)
  then have "read_some tiny_qcow2 2048 1024 = Some (stored (replicate 512 9))"
    by (simp add: read_some_def stored_def)
  moreover have "inflate_stored (stored (replicate 512 9)) = Some (replicate 512 9)"
    using inflate_stored [of "replicate 512 9" "[]"] by simp
  ultimately show ?thesis unfolding q_comp_def tiny_qcow2_fields by simp
qed

lemma tiny_qcow2_offsets:
  "offset_of 1536 = 1536" "\<not> is_compressed 1536" "is_compressed (0x6000000000000800)"
  by (simp_all add: offset_of_def offset_mask_def wrap64_def is_compressed_def)


end
