(* ===== verification/VmdkStream.thy ===== *)
theory VmdkStream
  imports Qcow2Conv
begin

text \<open>
  StreamOptimized VMDK files: an encoder as the format describes it, that the converter inverts, and
  what the converter does at the first metadata marker. The compressor is any function that the
  decompressor inverts.
\<close>

section \<open>Encoding\<close>

text \<open>A grain: its marker (sector number and compressed size), the compressed data, and padding to a sector.\<close>

definition encode_grain :: "nat \<Rightarrow> byte list \<Rightarrow> byte list" where
  "encode_grain lba c =
     le_bytes 8 (int lba) @ le_bytes 4 (int (length c)) @ c @ replicate (align_sector (12 + length c) - (12 + length c)) 0"

definition end_of_stream :: "byte list" where
  "end_of_stream = replicate 512 0"

definition grain_of :: "nat \<Rightarrow> nat \<Rightarrow> byte list \<Rightarrow> byte list" where
  "grain_of grain k disk = field (k * (grain * 512)) (grain * 512) disk"

definition encode_stream :: "(byte list \<Rightarrow> byte list) \<Rightarrow> nat \<Rightarrow> nat \<Rightarrow> byte list \<Rightarrow> byte list" where
  "encode_stream deflate grain n disk =
     vmdk_header 0x10000 (int (n * grain)) (int grain) 512 0 1 @
     concat (map (\<lambda>k. encode_grain (k * grain) (deflate (grain_of grain k disk))) [0..<n]) @ end_of_stream"

section \<open>The loop\<close>

lemma align_sector_add: "512 dvd a \<Longrightarrow> align_sector (a + b) = a + align_sector b"
proof -
  assume "512 dvd a"
  then have "(a + b) mod 512 = b mod 512" by (metis dvd_def mod_mult_self4)
  then show ?thesis unfolding align_sector_def Let_def by (simp only: add.assoc split: if_split) simp
qed

lemma length_encode_grain: "length (encode_grain lba c) = align_sector (12 + length c)"
  using align_sector_ge [of "12 + length c"] by (simp add: encode_grain_def)

lemma align_sector_dvd: "512 dvd align_sector a"
proof (cases "a mod 512 = 0")
  case True
  then show ?thesis by (auto simp: align_sector_def)
next
  case False
  define q r where "q = a div 512" and "r = a mod 512"
  have "a = q * 512 + r" "r < 512" by (simp_all add: q_def r_def)
  then have "a + (512 - r) = (q + 1) * 512" by simp
  then have "a + (512 - a mod 512) = (a div 512 + 1) * 512" unfolding q_def r_def .
  then have "align_sector a = (a div 512 + 1) * 512" using False unfolding align_sector_def Let_def by simp
  then show ?thesis by simp
qed

lemma stream_step:
  assumes "512 dvd length pre" and "c \<noteq> []" and "length c < 2 ^ 32" and "lba < 2 ^ 53" and "int lba * 512 < vs"
    and "inflate c = Some d" and "lba * 512 + length d \<le> length out"
  shows "stream_loop inflate (pre @ encode_grain lba c @ rest) vs (length pre) out =
    stream_loop inflate (pre @ encode_grain lba c @ rest) vs (length (pre @ encode_grain lba c)) (splice out (lba * 512) d)"
proof -
  let ?f = "pre @ encode_grain lba c @ rest"
  have mk: "marker_at ?f (length pre) = \<lparr>m_LBA = int lba, m_Size = int (length c)\<rparr>"
    using assms(3,4) by (simp add: marker_at_def encode_grain_def field_def le_int_bytes)
  have data: "field (length pre + 12) (length c) ?f = c" by (simp add: encode_grain_def field_def)
  have len: "length pre + 12 + length c \<le> length ?f" using align_sector_ge [of "12 + length c"] by (simp add: length_encode_grain)
  have pos: "align_sector (length pre + 12 + length c) = length (pre @ encode_grain lba c)"
    using align_sector_add [OF assms(1), of "12 + length c"] by (simp add: length_encode_grain add.assoc)
  have off: "wrap64 (wrap64 (int lba) * 512) = int (lba * 512)"
    using assms(4) wrap64_nat [of lba] wrap64_nat [of "lba * 512"] by simp
  have w: "write_at out (int (lba * 512)) d = Some (splice out (lba * 512) d)" using write_at_nat [OF assms(7)] .
  have nz: "int (length c) \<noteq> 0" "0 < length c" "encode_grain lba c \<noteq> []"
    using assms(2) length_encode_grain [of lba c] align_sector_ge [of "12 + length c"] by auto
  show ?thesis
    apply (subst stream_loop.simps)
    using nz len assms(5,6) by (simp add: mk data pos off w [unfolded of_nat_mult, simplified] Let_def del: stream_loop.simps)
qed

lemma stream_grains:
  assumes "512 dvd length pre"
    and "\<forall>(lba, c, d)\<in>set gs. c \<noteq> [] \<and> length c < 2 ^ 32 \<and> lba < 2 ^ 53 \<and> int lba * 512 < vs \<and> inflate c = Some d \<and>
           lba * 512 + length d \<le> length out"
  shows "stream_loop inflate (pre @ concat (map (\<lambda>(lba, c, d). encode_grain lba c) gs) @ rest) vs (length pre) out =
    stream_loop inflate (pre @ concat (map (\<lambda>(lba, c, d). encode_grain lba c) gs) @ rest) vs
      (length (pre @ concat (map (\<lambda>(lba, c, d). encode_grain lba c) gs))) (fold (\<lambda>(lba, c, d) out. splice out (lba * 512) d) gs out)"
  using assms
proof (induction gs arbitrary: pre out)
  case (Cons g gs)
  obtain lba c d where g: "g = (lba, c, d)" by (cases g)
  let ?enc = "\<lambda>gs. concat (map (\<lambda>(lba, c, d). encode_grain lba c) gs)"
  let ?out = "splice out (lba * 512) d"
  have ok: "c \<noteq> []" "length c < 2 ^ 32" "lba < 2 ^ 53" "int lba * 512 < vs" "inflate c = Some d" "lba * 512 + length d \<le> length out"
    using Cons.prems(2) g by auto
  have len: "length ?out = length out" by (rule length_splice [OF ok(6)])
  have "512 dvd length (pre @ encode_grain lba c)" using Cons.prems(1) align_sector_dvd by (simp add: length_encode_grain)
  from Cons.IH [OF this, of ?out] Cons.prems(2) len
  have "stream_loop inflate ((pre @ encode_grain lba c) @ ?enc gs @ rest) vs (length (pre @ encode_grain lba c)) ?out =
      stream_loop inflate ((pre @ encode_grain lba c) @ ?enc gs @ rest) vs (length ((pre @ encode_grain lba c) @ ?enc gs))
        (fold (\<lambda>(lba, c, d) out. splice out (lba * 512) d) gs ?out)" by simp
  moreover have "stream_loop inflate (pre @ encode_grain lba c @ (?enc gs @ rest)) vs (length pre) out =
      stream_loop inflate (pre @ encode_grain lba c @ (?enc gs @ rest)) vs (length (pre @ encode_grain lba c)) ?out"
    using Cons.prems(1) ok by (intro stream_step)
  ultimately show ?case using g by (simp only: list.map concat.simps split_conv fold_simps append_assoc)
qed simp

lemma le_int_zeros [simp]: "le_int (replicate n 0) = 0"
proof -
  have "foldl (\<lambda>a b. a * 256 + uint b) 0 (replicate n (0 :: byte)) = 0" by (induction n) simp_all
  then show ?thesis by (simp add: le_int_def be_int_def)
qed

lemma createSparse_nat: "0 < n \<Longrightarrow> createSparseOutput (int n) = Some (replicate n 0)"
  by (simp add: createSparseOutput_def)

lemma stream_end: "stream_loop inflate (pre @ end_of_stream) vs (length pre) out = Converted out"
  apply (subst stream_loop.simps)
  by (simp add: marker_at_def end_of_stream_def field_def Let_def del: stream_loop.simps)

lemma rebuild_disk:
  assumes "k \<le> n" and "length disk = n * gs"
  shows "fold (\<lambda>k out. splice out (k * gs) (field (k * gs) gs disk)) [0..<k] (replicate (n * gs) 0) =
    take (k * gs) disk @ replicate (n * gs - k * gs) 0"
  using assms(1)
proof (induction k)
  case (Suc k)
  have le: "k * gs + gs \<le> n * gs" using mult_le_mono1 [OF Suc.prems, of gs] by simp
  have l: "length (field (k * gs) gs disk) = gs" "length (take (k * gs) disk) = k * gs" using le assms(2) by (simp_all add: length_field)
  have "splice (take (k * gs) disk @ replicate (n * gs - k * gs) 0) (k * gs) (field (k * gs) gs disk) =
      take (k * gs) disk @ field (k * gs) gs disk @ replicate (n * gs - k * gs - gs) 0"
    unfolding splice_def l(1) using l(2) by simp
  also have "\<dots> = take (Suc k * gs) disk @ replicate (n * gs - Suc k * gs) 0"
    using take_add [of "k * gs" gs disk] by (simp add: field_def add.commute)
  finally show ?case using Suc by simp
qed simp



section \<open>Metadata markers\<close>

text \<open>A grain table marker as the format has it: the number of sectors that follow, size 0, type 1, padding.\<close>

definition grain_table_marker :: "nat \<Rightarrow> byte list" where
  "grain_table_marker sectors = le_bytes 8 (int sectors) @ le_bytes 4 0 @ le_bytes 4 1 @ replicate 496 0"

text \<open>
  C37. A grain table marker ends the conversion: wherever the loop meets one (the format puts one
  after every table's worth of grains), it reports success with what it has so far, and every grain
  after it is missing from the output.
\<close>

theorem stream_stops_at_grain_table:
  assumes "0 < sectors" and "sectors < 2 ^ 64"
  shows "stream_loop inflate (pre @ grain_table_marker sectors @ rest) vs (length pre) out = Converted out"
proof -
  let ?f = "pre @ grain_table_marker sectors @ rest"
  have one: "le_bytes 4 1 = [1, 0, 0, 0]" by (simp add: le_bytes_def numeral_eq_Suc)
  have len: "length ?f = length pre + 512 + length rest" by (simp add: grain_table_marker_def)
  have m0: "m_LBA (marker_at ?f (length pre)) = int sectors" "m_Size (marker_at ?f (length pre)) = 0"
    using assms by (simp_all add: marker_at_def grain_table_marker_def field_def le_int_bytes)
  have m1: "m_LBA (marker_at ?f (length pre + 12)) = 1" "m_Size (marker_at ?f (length pre + 12)) = 0"
    by (simp_all add: marker_at_def grain_table_marker_def field_def one) (simp add: le_int_def be_int_def numeral_eq_Suc)
  have m2: "m_LBA (marker_at ?f (length pre + 24)) = 0" "m_Size (marker_at ?f (length pre + 24)) = 0"
    "m_Size (marker_at ?f (length pre + 36)) = 0"
    by (simp_all add: marker_at_def grain_table_marker_def field_def)
  have s2: "stream_loop inflate ?f vs (length pre + 24) out = Converted out"
    apply (subst stream_loop.simps)
    using len m2 by (simp add: Let_def add.commute [of _ "length pre"] del: stream_loop.simps)
  have s1: "stream_loop inflate ?f vs (length pre + 12) out = Converted out"
    apply (subst stream_loop.simps)
    using len m1 s2 by (simp add: Let_def add.commute [of _ "length pre"] del: stream_loop.simps)
  show ?thesis
    apply (subst stream_loop.simps)
    using len m0 s1 assms(1) by (simp add: Let_def del: stream_loop.simps)
qed

theorem stream_stops_at_grain_table_witness:
  "stream_loop (\<lambda>_. None) (replicate 512 0 @ grain_table_marker 4 @ encode_grain 0 [1]) 1024 512 (replicate 1024 0) = Converted (replicate 1024 0)"
  using stream_stops_at_grain_table [of 4 "\<lambda>_. None" "replicate 512 0" "encode_grain 0 [1]" 1024 "replicate 1024 0"]
  by (simp del: stream_loop.simps)

end
