(* ===== verification/Iso9660.thy ===== *)
theory Iso9660
  imports DiskImg
begin

text \<open>
  \<open>pkg/provider/iso9660.go\<close>: reading and patching the ISO images from which machines are installed. A file is
  its list of bytes, as in \<open>DiskImg\<close>; reading past its end is an error and writing past it extends it, as
  \<open>ReadAt\<close> and \<open>WriteAt\<close> do. Sector numbers and lengths are 32 bits wide and wrap where the code adds to them;
  offsets are below 2 to the 44 and so never negative.

  Identifiers and paths are byte lists; \<open>strings.EqualFold\<close> and \<open>strings.ToUpper\<close> are written for ASCII.
\<close>

section \<open>Results\<close>

text \<open>A value, an error, or a run-time panic.\<close>

datatype 'a iso = Ok 'a | Fail string | Panic

definition iso_bind :: "'a iso \<Rightarrow> ('a \<Rightarrow> 'b iso) \<Rightarrow> 'b iso" where
  "iso_bind r k = (case r of Ok x \<Rightarrow> k x | Fail e \<Rightarrow> Fail e | Panic \<Rightarrow> Panic)"

lemma iso_bind_simps [simp]: "iso_bind (Ok x) k = k x" "iso_bind (Fail e) k = Fail e" "iso_bind Panic k = Panic"
  by (simp_all add: iso_bind_def)

lemma iso_bind_Ok_iff: "iso_bind r k = Ok y \<longleftrightarrow> (\<exists>x. r = Ok x \<and> k x = Ok y)"
  by (cases r) simp_all

section \<open>Bytes\<close>

definition iso9660SectorSize :: nat where "iso9660SectorSize = 2048"

definition iso9660PVDOffset :: nat where "iso9660PVDOffset = 16 * iso9660SectorSize"

definition le32 :: "byte list \<Rightarrow> nat" where
  "le32 bs = nat (le_int (take 4 bs))"

definition put_le32 :: "nat \<Rightarrow> byte list" where
  "put_le32 v = [word_of_nat v, word_of_nat (v div 256), word_of_nat (v div 65536), word_of_nat (v div 16777216)]"

definition readBothEndian32 :: "byte list \<Rightarrow> nat" where
  "readBothEndian32 buf = le32 buf"

definition writeBothEndian32 :: "nat \<Rightarrow> byte list" where
  "writeBothEndian32 v = put_le32 v @ rev (put_le32 v)"

definition uint32 :: "nat \<Rightarrow> nat" where
  "uint32 n = n mod 2 ^ 32"

definition read_at :: "byte list \<Rightarrow> nat \<Rightarrow> nat \<Rightarrow> byte list option" where
  "read_at f off n = read_full f (int off) (int n)"

text \<open>\<open>WriteAt\<close>: the bytes between the end of the file and the offset are zero.\<close>

definition put_at :: "nat \<Rightarrow> byte list \<Rightarrow> byte list \<Rightarrow> byte list" where
  "put_at off bs f = skip_or f (write_at f (int off) bs)"

section \<open>The volume descriptor\<close>

record iso9660PVD =
  VolumeSpaceSize :: nat
  RootDirLBA :: nat
  RootDirSize :: nat

definition iso9660ReadPVD :: "byte list \<Rightarrow> iso9660PVD iso" where
  "iso9660ReadPVD f =
     (case read_at f iso9660PVDOffset iso9660SectorSize of
        None \<Rightarrow> Fail ''reading PVD''
      | Some buf \<Rightarrow>
          if buf ! 0 \<noteq> 1 \<or> field 1 5 buf \<noteq> [0x43, 0x44, 0x30, 0x30, 0x31] then Fail ''not a valid ISO9660 PVD''
          else (let rootRec = field 156 34 buf
                in Ok \<lparr>VolumeSpaceSize = readBothEndian32 (field 80 8 buf),
                       RootDirLBA = readBothEndian32 (field 2 8 rootRec),
                       RootDirSize = readBothEndian32 (field 10 8 rootRec)\<rparr>))"

definition iso9660UpdateVolumeSpaceSize :: "nat \<Rightarrow> byte list \<Rightarrow> byte list" where
  "iso9660UpdateVolumeSpaceSize newSectors f = put_at (iso9660PVDOffset + 80) (writeBothEndian32 newSectors) f"

section \<open>Directory records\<close>

record iso9660DirRecord =
  RecordLen :: nat
  ExtentLBA :: nat
  DataLen :: nat
  Flags :: byte
  FileIDLen :: nat
  FileID :: "byte list"
  RRName :: "byte list"
  RecordOff :: nat
  IsDir :: bool

definition record_name :: "iso9660DirRecord \<Rightarrow> byte list" where
  "record_name r = (if RRName r \<noteq> [] then RRName r else takeWhile (\<lambda>b. b \<noteq> 0x3B) (FileID r))"

function iso9660ParseRockRidgeNM :: "byte list \<Rightarrow> byte list" where
  "iso9660ParseRockRidgeNM sua =
     (if length sua < 5 then []
      else if sua ! 0 = 0x4E \<and> sua ! 1 = 0x4D then
        (let entryLen = unat (sua ! 2)
         in if entryLen < 5 \<or> entryLen > length sua then []
            else drop 5 (take entryLen sua) @
                 (if (sua ! 4) AND 1 = 0 then [] else iso9660ParseRockRidgeNM (drop entryLen sua)))
      else
        (let entryLen = unat (sua ! 2)
         in if entryLen < 3 \<or> entryLen > length sua then []
            else iso9660ParseRockRidgeNM (drop entryLen sua)))"
  by pat_completeness auto
termination
  by (relation "measure length") auto

declare iso9660ParseRockRidgeNM.simps [simp del]

text \<open>
  \<open>33 + rec.FileIDLen\<close> is added in 8 bits; slicing with an upper bound below 33 panics.
\<close>

definition iso9660ParseDirRecord :: "byte list \<Rightarrow> nat \<Rightarrow> iso9660DirRecord option iso" where
  "iso9660ParseDirRecord raw offset =
     (if length raw < 1 \<or> raw ! 0 = 0 then Ok None
      else (let recLen = unat (raw ! 0)
            in if recLen > length raw \<or> recLen < 33 then Ok None
               else (let idLen = unat (raw ! 32);
                         idEnd = (33 + idLen) mod 256;
                         suaStart = (if even idLen then 33 + idLen + 1 else 33 + idLen)
                     in if idLen > 0 \<and> idEnd \<le> recLen \<and> idEnd < 33 then Panic
                        else Ok (Some
                          \<lparr>RecordLen = recLen, ExtentLBA = readBothEndian32 (field 2 8 raw),
                           DataLen = readBothEndian32 (field 10 8 raw), Flags = raw ! 25, FileIDLen = idLen,
                           FileID = (if idLen > 0 \<and> idEnd \<le> recLen then drop 33 (take idEnd raw) else []),
                           RRName = (if suaStart < recLen
                                     then iso9660ParseRockRidgeNM (drop suaStart (take recLen raw)) else []),
                           RecordOff = offset, IsDir = ((raw ! 25) AND 2 \<noteq> 0)\<rparr>))))"

lemma parsed_length:
  assumes "iso9660ParseDirRecord raw off = Ok (Some r)"
  shows "RecordLen r = unat (raw ! 0)" "33 \<le> RecordLen r" "RecordLen r \<le> length raw" "RecordOff r = off"
  using assms by (auto simp: iso9660ParseDirRecord_def Let_def split: if_splits)

lemma sector_step: "pos < (pos::nat) + (iso9660SectorSize - pos mod iso9660SectorSize)"
  using mod_less_divisor [of 2048 pos] by (simp add: iso9660SectorSize_def)

text \<open>The loop of \<open>iso9660ReadDirectory\<close>: a zero, or what is not a record, skips to the next sector.\<close>

function dir_loop :: "byte list \<Rightarrow> nat \<Rightarrow> nat \<Rightarrow> iso9660DirRecord list iso" where
  "dir_loop data baseOffset pos =
     (if pos < length data then
        (let sectorRemain = iso9660SectorSize - pos mod iso9660SectorSize
         in if data ! pos = 0 then dir_loop data baseOffset (pos + sectorRemain)
            else (case iso9660ParseDirRecord (drop pos data) (baseOffset + pos) of
                    Panic \<Rightarrow> Panic
                  | Fail e \<Rightarrow> Fail e
                  | Ok None \<Rightarrow> dir_loop data baseOffset (pos + sectorRemain)
                  | Ok (Some rec) \<Rightarrow>
                      iso_bind (dir_loop data baseOffset (pos + RecordLen rec)) (\<lambda>records. Ok (rec # records))))
      else Ok [])"
  by pat_completeness auto

termination
proof (relation "measure (\<lambda>(data, baseOffset, pos). length data - pos)")
  fix data :: "byte list" and pos :: nat and x
  assume "pos < length data" "x = iso9660SectorSize - pos mod iso9660SectorSize"
  with sector_step [of pos] have "length data - (pos + x) < length data - pos" by linarith
  then show "((data, b, pos + x), data, b, pos) \<in> measure (\<lambda>(data, baseOffset, pos). length data - pos)" for b
    by simp
  then show "((data, b, pos + x), data, b, pos) \<in> measure (\<lambda>(data, baseOffset, pos). length data - pos)" for b
    by simp
next
  fix data :: "byte list" and b pos :: nat and y r
  assume "pos < length data" "iso9660ParseDirRecord (drop pos data) (b + pos) = Ok y" "y = Some r"
  then show "((data, b, pos + RecordLen r), data, b, pos) \<in> measure (\<lambda>(data, baseOffset, pos). length data - pos)"
    using parsed_length(2) [of "drop pos data" "b + pos" r] by simp
qed simp

declare dir_loop.simps [simp del]
definition iso9660ReadDirectory :: "byte list \<Rightarrow> nat \<Rightarrow> nat \<Rightarrow> iso9660DirRecord list iso" where
  "iso9660ReadDirectory f lba len =
     (case read_at f (lba * iso9660SectorSize) len of
        None \<Rightarrow> Fail ''reading directory''
      | Some data \<Rightarrow> dir_loop data (lba * iso9660SectorSize) 0)"

section \<open>Paths\<close>

definition is_dot :: "iso9660DirRecord \<Rightarrow> bool" where
  "is_dot r \<longleftrightarrow> FileIDLen r = 1 \<and> (FileID r = [0] \<or> FileID r = [1])"

definition lower_byte :: "byte \<Rightarrow> byte" where
  "lower_byte b = (if 0x41 \<le> b \<and> b \<le> 0x5A then b + 32 else b)"

definition upper_byte :: "byte \<Rightarrow> byte" where
  "upper_byte b = (if 0x61 \<le> b \<and> b \<le> 0x7A then b - 32 else b)"

definition equal_fold :: "byte list \<Rightarrow> byte list \<Rightarrow> bool" where
  "equal_fold a b \<longleftrightarrow> map lower_byte a = map lower_byte b"

definition trim_slash :: "byte list \<Rightarrow> byte list" where
  "trim_slash path = (case path of c # p \<Rightarrow> if c = 0x2F then p else path | [] \<Rightarrow> [])"

fun split_slash :: "byte list \<Rightarrow> byte list list" where
  "split_slash [] = [[]]"
| "split_slash (c # p) =
     (if c = 0x2F then [] # split_slash p
      else (case split_slash p of [] \<Rightarrow> [[c]] | q # qs \<Rightarrow> (c # q) # qs))"

text \<open>The loop over the components of a path; the first record of a directory that has the name is taken.\<close>

fun resolve :: "byte list \<Rightarrow> nat \<Rightarrow> nat \<Rightarrow> byte list list \<Rightarrow> iso9660DirRecord iso" where
  "resolve f lba len [] = Fail ''path not found''"
| "resolve f lba len (part # rest) =
     iso_bind (iso9660ReadDirectory f lba len) (\<lambda>records.
       (case List.find (\<lambda>r. \<not> is_dot r \<and> equal_fold (record_name r) part) records of
          None \<Rightarrow> Fail ''path component not found in directory''
        | Some r \<Rightarrow>
            if rest = [] then Ok r
            else if \<not> IsDir r then Fail ''path component is not a directory''
            else resolve f (ExtentLBA r) (DataLen r) rest))"

definition iso9660ResolvePath :: "byte list \<Rightarrow> iso9660PVD \<Rightarrow> byte list \<Rightarrow> iso9660DirRecord iso" where
  "iso9660ResolvePath f pvd path =
     (if trim_slash path = []
      then Ok \<lparr>RecordLen = 0, ExtentLBA = RootDirLBA pvd, DataLen = RootDirSize pvd, Flags = 0, FileIDLen = 0,
               FileID = [], RRName = [], RecordOff = 0, IsDir = True\<rparr>
      else resolve f (RootDirLBA pvd) (RootDirSize pvd) (split_slash (trim_slash path)))"

definition iso9660ListDirectory :: "byte list \<Rightarrow> iso9660PVD \<Rightarrow> byte list \<Rightarrow> iso9660DirRecord list iso" where
  "iso9660ListDirectory f pvd path =
     iso_bind (iso9660ResolvePath f pvd path) (\<lambda>r.
       if \<not> IsDir r then Fail ''not a directory''
       else iso_bind (iso9660ReadDirectory f (ExtentLBA r) (DataLen r)) (\<lambda>records.
         Ok (filter (\<lambda>r. \<not> is_dot r) records)))"

section \<open>Files\<close>

definition iso9660ReadFile :: "byte list \<Rightarrow> iso9660DirRecord \<Rightarrow> byte list iso" where
  "iso9660ReadFile f r =
     (if IsDir r then Fail ''cannot read directory as file''
      else (case read_at f (ExtentLBA r * iso9660SectorSize) (DataLen r) of
              None \<Rightarrow> Fail ''reading file data''
            | Some data \<Rightarrow> Ok data))"

definition padded_len :: "nat \<Rightarrow> nat" where
  "padded_len n = (n + iso9660SectorSize - 1) div iso9660SectorSize * iso9660SectorSize"

definition padded :: "byte list \<Rightarrow> byte list" where
  "padded content = content @ replicate (padded_len (length content) - length content) 0"

definition point_record :: "nat \<Rightarrow> nat \<Rightarrow> nat \<Rightarrow> byte list \<Rightarrow> byte list" where
  "point_record off newLBA len f =
     put_at (off + 10) (writeBothEndian32 (uint32 len)) (put_at (off + 2) (writeBothEndian32 newLBA) f)"

text \<open>An operation on the open file ends with an error or not, and leaves the file changed in either case.\<close>

definition iso9660ReplaceFile :: "iso9660DirRecord \<Rightarrow> byte list \<Rightarrow> byte list \<Rightarrow> unit iso \<times> byte list" where
  "iso9660ReplaceFile r content f =
     (case iso9660ReadPVD f of
        Fail e \<Rightarrow> (Fail e, f)
      | Panic \<Rightarrow> (Panic, f)
      | Ok pvd \<Rightarrow>
          (let newLBA = VolumeSpaceSize pvd;
               f = put_at (newLBA * iso9660SectorSize) (padded content) f;
               f = point_record (RecordOff r) newLBA (length content) f;
               newSectors = uint32 (newLBA + uint32 (padded_len (length content) div iso9660SectorSize))
           in (Ok (), iso9660UpdateVolumeSpaceSize newSectors f)))"

definition iso9660DeleteFile :: "iso9660DirRecord \<Rightarrow> byte list \<Rightarrow> unit iso \<times> byte list" where
  "iso9660DeleteFile r f = (Ok (), put_at (RecordOff r) [0] f)"

text \<open>
  The record of a new file: the identifier in capitals with its version, the Rock Ridge name behind it, both
  padded to even offsets. Its length is kept in one byte.
\<close>

definition overwrite :: "nat \<Rightarrow> byte list \<Rightarrow> byte list \<Rightarrow> byte list" where
  "overwrite off bs rec = take off rec @ bs @ drop (off + length bs) rec"

definition file_id :: "byte list \<Rightarrow> byte list" where
  "file_id fileName = map upper_byte fileName @ [0x3B, 0x31]"

definition nm_entry :: "byte list \<Rightarrow> byte list" where
  "nm_entry fileName = [0x4E, 0x4D, word_of_nat (5 + length fileName), 1, 0] @ fileName"

definition rec_len :: "byte list \<Rightarrow> nat" where
  "rec_len fileName =
     (let fileIDLen = length (file_id fileName);
          recLen = 33 + fileIDLen;
          recLen = (if recLen mod 2 \<noteq> 0 then recLen + 1 else recLen);
          recLen = (if fileName \<noteq> file_id fileName then recLen + length (nm_entry fileName) else recLen)
      in if recLen mod 2 \<noteq> 0 then recLen + 1 else recLen)"

definition dir_record :: "nat \<Rightarrow> nat \<Rightarrow> byte list \<Rightarrow> byte list" where
  "dir_record newLBA len fileName =
     (let fileID = file_id fileName;
          nmStart = (if even (length fileID) then 33 + length fileID + 1 else 33 + length fileID);
          rec = replicate (rec_len fileName) 0;
          rec = overwrite 0 [word_of_nat (rec_len fileName)] rec;
          rec = overwrite 2 (writeBothEndian32 newLBA) rec;
          rec = overwrite 10 (writeBothEndian32 (uint32 len)) rec;
          rec = overwrite 25 [0] rec;
          rec = overwrite 28 (writeBothEndian32 1) rec;
          rec = overwrite 28 [1, 0, 0, 1] rec;
          rec = overwrite 32 [word_of_nat (length fileID)] rec;
          rec = overwrite 33 fileID rec
      in if fileName \<noteq> file_id fileName then overwrite nmStart (nm_entry fileName) rec else rec)"

lemma sector_end: "(pos::nat) < (pos div iso9660SectorSize + 1) * iso9660SectorSize"
proof -
  have "pos mod 2048 < 2048" by simp
  moreover have "pos = pos div 2048 * 2048 + pos mod 2048" by (rule div_mult_mod_eq [symmetric])
  ultimately show ?thesis unfolding iso9660SectorSize_def by (simp only: distrib_right)
qed

function free_pos :: "byte list \<Rightarrow> nat \<Rightarrow> nat \<Rightarrow> nat option" where
  "free_pos dirData recLen pos =
     (if pos < length dirData then
        if dirData ! pos = 0 then
          (let sectorEnd = (pos div iso9660SectorSize + 1) * iso9660SectorSize
           in if sectorEnd - pos \<ge> recLen then Some pos else free_pos dirData recLen sectorEnd)
        else free_pos dirData recLen (pos + unat (dirData ! pos))
      else None)"
  by pat_completeness auto

termination
proof (relation "measure (\<lambda>(dirData, recLen, pos). length dirData - pos)")
  fix d :: "byte list" and n pos x :: nat
  assume "pos < length d" "x = (pos div iso9660SectorSize + 1) * iso9660SectorSize"
  with sector_end [of pos] have "length d - x < length d - pos" by linarith
  then show "((d, n, x), d, n, pos) \<in> measure (\<lambda>(dirData, recLen, pos). length dirData - pos)" by simp
next
  fix d :: "byte list" and n pos :: nat
  assume "pos < length d" "d ! pos \<noteq> 0"
  then have "0 < unat (d ! pos)" by (simp add: unat_gt_0)
  with \<open>pos < length d\<close> show "((d, n, pos + unat (d ! pos)), d, n, pos) \<in> measure (\<lambda>(dirData, recLen, pos). length dirData - pos)"
    by simp
qed simp

declare free_pos.simps [simp del]

text \<open>The content is appended before a place for the record is looked for.\<close>

definition iso9660AddFile ::
  "iso9660PVD \<Rightarrow> byte list \<Rightarrow> byte list \<Rightarrow> byte list \<Rightarrow> byte list \<Rightarrow> unit iso \<times> byte list" where
  "iso9660AddFile pvd parentPath fileName content f =
     (case iso9660ResolvePath f pvd parentPath of
        Fail e \<Rightarrow> (Fail e, f)
      | Panic \<Rightarrow> (Panic, f)
      | Ok parentRec \<Rightarrow>
          if \<not> IsDir parentRec then (Fail ''parent is not a directory'', f)
          else (case iso9660ReadPVD f of
                  Fail e \<Rightarrow> (Fail e, f)
                | Panic \<Rightarrow> (Panic, f)
                | Ok pvd \<Rightarrow>
                    (let newLBA = VolumeSpaceSize pvd;
                         f = put_at (newLBA * iso9660SectorSize) (padded content) f;
                         rec = dir_record newLBA (length content) fileName;
                         dirOffset = ExtentLBA parentRec * iso9660SectorSize
                     in case read_at f dirOffset (DataLen parentRec) of
                          None \<Rightarrow> (Fail ''reading parent directory'', f)
                        | Some dirData \<Rightarrow>
                            (case free_pos dirData (rec_len fileName) 0 of
                               None \<Rightarrow> (Fail ''no free space in parent directory for new entry'', f)
                             | Some insertPos \<Rightarrow>
                                 (let f = put_at (dirOffset + insertPos) rec f;
                                      newSectors = uint32 (newLBA + uint32 (padded_len (length content) div iso9660SectorSize))
                                  in (Ok (), iso9660UpdateVolumeSpaceSize newSectors f))))))"

section \<open>Patches\<close>

record iso9660PatchOp =
  op_Op :: string
  op_Path :: "byte list"
  op_Content :: "byte list"

definition join_slash :: "byte list list \<Rightarrow> byte list" where
  "join_slash parts = (case parts of [] \<Rightarrow> [] | p # ps \<Rightarrow> p @ concat (map (\<lambda>q. 0x2F # q) ps))"

definition apply_patch :: "iso9660PatchOp \<Rightarrow> byte list \<Rightarrow> unit iso \<times> byte list" where
  "apply_patch op f =
     (case iso9660ReadPVD f of
        Fail e \<Rightarrow> (Fail e, f)
      | Panic \<Rightarrow> (Panic, f)
      | Ok pvd \<Rightarrow>
          if op_Op op = ''replace'' then
            (case iso9660ResolvePath f pvd (op_Path op) of
               Fail e \<Rightarrow> (Fail e, f) | Panic \<Rightarrow> (Panic, f) | Ok r \<Rightarrow> iso9660ReplaceFile r (op_Content op) f)
          else if op_Op op = ''delete'' then
            (case iso9660ResolvePath f pvd (op_Path op) of
               Fail e \<Rightarrow> (Fail e, f) | Panic \<Rightarrow> (Panic, f) | Ok r \<Rightarrow> iso9660DeleteFile r f)
          else if op_Op op = ''add'' then
            (let parts = split_slash (trim_slash (op_Path op))
             in iso9660AddFile pvd (0x2F # join_slash (butlast parts)) (last parts) (op_Content op) f)
          else (Fail ''unknown operation'', f))"

fun iso9660ApplyPatches :: "iso9660PatchOp list \<Rightarrow> byte list \<Rightarrow> unit iso \<times> byte list" where
  "iso9660ApplyPatches [] f = (Ok (), f)"
| "iso9660ApplyPatches (op # ops) f =
     (case apply_patch op f of
        (Ok u, f) \<Rightarrow> iso9660ApplyPatches ops f
      | (e, f) \<Rightarrow> (e, f))"

definition iso9660ReadFileByPath :: "byte list \<Rightarrow> byte list \<Rightarrow> byte list iso" where
  "iso9660ReadFileByPath f filePath =
     iso_bind (iso9660ReadPVD f) (\<lambda>pvd.
       iso_bind (iso9660ResolvePath f pvd filePath) (\<lambda>r. iso9660ReadFile f r))"

definition iso9660ListDirectoryByPath :: "byte list \<Rightarrow> byte list \<Rightarrow> iso9660DirRecord list iso" where
  "iso9660ListDirectoryByPath f dirPath =
     iso_bind (iso9660ReadPVD f) (\<lambda>pvd. iso9660ListDirectory f pvd dirPath)"
section \<open>Lemmas on bytes\<close>

lemma length_put_le32 [simp]: "length (put_le32 v) = 4"
  by (simp add: put_le32_def)

lemma length_writeBothEndian32 [simp]: "length (writeBothEndian32 v) = 8"
  by (simp add: writeBothEndian32_def)

lemma uint_byte: "uint (word_of_nat n :: byte) = int (n mod 256)"
  by (simp add: unsigned_of_nat take_bit_eq_mod flip: unat_of_nat)

lemma unat_byte: "n < 256 \<Longrightarrow> unat (word_of_nat n :: byte) = n"
  by (simp add: unat_of_nat)

lemma digits256:
  "v < 2 ^ 32 \<Longrightarrow>
   ((v div 16777216 mod 256 * 256 + v div 65536 mod 256) * 256 + v div 256 mod 256) * 256 + v mod 256 = (v::nat)"
proof -
  assume "v < 2 ^ 32"
  then have a: "v div 16777216 mod 256 = v div 65536 div 256" by (simp add: div_mult2_eq [symmetric])
  have "v div 65536 div 256 * 256 + v div 65536 mod 256 = v div 65536" by (rule div_mult_mod_eq)
  moreover have "v div 65536 = v div 256 div 256" by (simp add: div_mult2_eq [symmetric])
  moreover have "v div 256 div 256 * 256 + v div 256 mod 256 = v div 256" by (rule div_mult_mod_eq)
  moreover have "v div 256 * 256 + v mod 256 = v" by (rule div_mult_mod_eq)
  ultimately show ?thesis using a by simp
qed

lemma read_writeBothEndian32: "v < 2 ^ 32 \<Longrightarrow> readBothEndian32 (writeBothEndian32 v) = v"
proof -
  assume v: "v < 2 ^ 32"
  have "le_int (put_le32 v) =
    int (((v div 16777216 mod 256 * 256 + v div 65536 mod 256) * 256 + v div 256 mod 256) * 256 + v mod 256)"
    by (simp add: le_int_def be_int_def put_le32_def uint_byte)
  then have "le_int (put_le32 v) = int v" unfolding digits256 [OF v] .
  then show ?thesis by (simp add: readBothEndian32_def le32_def writeBothEndian32_def)
qed

lemma length_overwrite: "off + length bs \<le> length r \<Longrightarrow> length (overwrite off bs r) = length r"
  by (simp add: overwrite_def)

lemma nth_overwrite:
  "off + length bs \<le> length r \<Longrightarrow> i < length r \<Longrightarrow>
   overwrite off bs r ! i = (if off \<le> i \<and> i < off + length bs then bs ! (i - off) else r ! i)"
  by (auto simp: overwrite_def nth_append)

lemma field_nth_eq:
  assumes "a + n \<le> length x" and "a + n \<le> length y" and "\<And>i. a \<le> i \<Longrightarrow> i < a + n \<Longrightarrow> x ! i = y ! i"
  shows "field a n x = field a n y"
  by (rule nth_equalityI) (use assms in \<open>auto simp: field_def\<close>)

lemma field_overwrite_other:
  "off + length bs \<le> length r \<Longrightarrow> a + n \<le> length r \<Longrightarrow> a + n \<le> off \<or> off + length bs \<le> a \<Longrightarrow>
   field a n (overwrite off bs r) = field a n r"
  by (rule field_nth_eq) (auto simp: length_overwrite nth_overwrite)

lemma field_overwrite_same: "off + length bs \<le> length r \<Longrightarrow> n = length bs \<Longrightarrow> field off n (overwrite off bs r) = bs"
  by (simp add: field_def overwrite_def)

lemma field_append: "a + n \<le> length x \<Longrightarrow> field a n (x @ y) = field a n x"
  by (simp add: field_def)

lemma length_field_inside: "a + n \<le> length x \<Longrightarrow> length (field a n x) = n"
  by (simp add: field_def)

lemma nth_field: "a + n \<le> length x \<Longrightarrow> i < n \<Longrightarrow> field a n x ! i = x ! (a + i)"
  by (simp add: field_def)

section \<open>Lemmas on files\<close>

lemma read_at_Some:
  "read_at f off n = Some d \<longleftrightarrow> (n = 0 \<or> off + n \<le> length f) \<and> d = field off n f"
  by (auto simp: read_at_def read_full_def Let_def field_def)

lemma put_at_Nil [simp]: "put_at off [] f = f"
  by (simp add: put_at_def write_at_def skip_or_def)

lemma put_at_eq:
  "bs \<noteq> [] \<Longrightarrow> put_at off bs f = overwrite off bs (f @ replicate (off + length bs - length f) 0)"
  by (simp add: put_at_def write_at_def skip_or_def Let_def overwrite_def)

lemma length_put_at: "bs \<noteq> [] \<Longrightarrow> length (put_at off bs f) = max (length f) (off + length bs)"
  by (simp add: put_at_eq length_overwrite)

lemma put_at_inside: "off + length bs \<le> length f \<Longrightarrow> put_at off bs f = overwrite off bs f"
  by (cases "bs = []") (simp_all add: put_at_eq overwrite_def)

lemma read_put_other:
  assumes "read_at f a n = Some d" and "a + n \<le> off \<or> off + length bs \<le> a"
  shows "read_at (put_at off bs f) a n = Some d"
proof (cases "n = 0 \<or> bs = []")
  case True
  with assms show ?thesis by (auto simp: read_at_Some field_def)
next
  case False
  with assms have len: "a + n \<le> length f" and d: "d = field a n f" by (auto simp: read_at_Some)
  have "field a n (put_at off bs f) = field a n (f @ replicate (off + length bs - length f) 0)"
    using False len assms(2) by (simp add: put_at_eq field_overwrite_other)
  with len d False show ?thesis by (simp add: read_at_Some field_append length_put_at)
qed

lemma read_put_same: "n \<le> length bs \<Longrightarrow> read_at (put_at off bs f) off n = Some (take n bs)"
  by (cases "bs = []") (auto simp: read_at_Some field_def length_put_at put_at_eq overwrite_def)

lemma read_put_inside:
  assumes "read_at f a n = Some d" and "a \<le> off" and "off + length bs \<le> a + n" and "bs \<noteq> []"
  shows "read_at (put_at off bs f) a n = Some (overwrite (off - a) bs d)"
proof -
  from assms have len: "a + n \<le> length f" and d: "d = field a n f" by (cases bs; auto simp: read_at_Some)+
  have "field a n (overwrite off bs f) = overwrite (off - a) bs (field a n f)"
    by (rule nth_equalityI) (use assms len in \<open>auto simp: length_field_inside length_overwrite nth_overwrite nth_field add.commute\<close>)
  then show ?thesis using assms len d by (simp add: read_at_Some put_at_inside length_overwrite)
qed

lemma read_at_length: "read_at f a n = Some d \<Longrightarrow> length d = n"
  by (auto simp: read_at_Some length_field_inside) (simp add: field_def)
section \<open>The record of an added file\<close>

lemma rec_len_eq: "rec_len nm = (if even (length nm) then 2 * length nm + 42 else 2 * length nm + 40)"
  by (auto simp: rec_len_def file_id_def nm_entry_def Let_def mod_2_eq_odd dest!: arg_cong [where f = length])

lemma name_not_id: "nm \<noteq> file_id nm"
  by (auto simp: file_id_def dest!: arg_cong [where f = length])

lemma length_file_id [simp]: "length (file_id nm) = length nm + 2"
  by (simp add: file_id_def)

lemma length_nm_entry [simp]: "length (nm_entry nm) = length nm + 5"
  by (simp add: nm_entry_def)

definition nm_start :: "byte list \<Rightarrow> nat" where
  "nm_start nm = (if even (length nm) then length nm + 36 else length nm + 35)"

lemma dir_record_facts:
  fixes nm :: "byte list" and lba len :: nat
  defines "d \<equiv> dir_record lba len nm"
  shows "length d = rec_len nm" "d ! 0 = word_of_nat (rec_len nm)" "field 2 8 d = writeBothEndian32 lba"
    "field 10 8 d = writeBothEndian32 (uint32 len)" "d ! 25 = 0" "d ! 32 = word_of_nat (length nm + 2)"
    "field 33 (length nm + 2) d = file_id nm" "field (nm_start nm) (length nm + 5) d = nm_entry nm"
proof -
  define r0 :: "byte list" where "r0 = replicate (rec_len nm) 0"
  define r1 where "r1 = overwrite 0 [word_of_nat (rec_len nm)] r0"
  define r2 where "r2 = overwrite 2 (writeBothEndian32 lba) r1"
  define r3 where "r3 = overwrite 10 (writeBothEndian32 (uint32 len)) r2"
  define r4 where "r4 = overwrite 25 [0] r3"
  define r5 where "r5 = overwrite 28 (writeBothEndian32 1) r4"
  define r6 where "r6 = overwrite 28 [1, 0, 0, 1] r5"
  define r7 where "r7 = overwrite 32 [word_of_nat (length nm + 2)] r6"
  define r8 where "r8 = overwrite 33 (file_id nm) r7"
  have d: "d = overwrite (nm_start nm) (nm_entry nm) r8"
    using name_not_id [of nm]
    by (simp add: d_def dir_record_def Let_def nm_start_def r0_def r1_def r2_def r3_def r4_def r5_def r6_def r7_def r8_def add.commute)
  have big: "40 \<le> rec_len nm" "nm_start nm + (length nm + 5) \<le> rec_len nm" "35 + length nm \<le> nm_start nm"
    by (simp_all add: rec_len_eq nm_start_def)
  have L0: "length r0 = rec_len nm" by (simp add: r0_def)
  have L1: "length r1 = rec_len nm" unfolding r1_def using L0 big by (simp add: length_overwrite)
  have L2: "length r2 = rec_len nm" unfolding r2_def using L1 big by (simp add: length_overwrite)
  have L3: "length r3 = rec_len nm" unfolding r3_def using L2 big by (simp add: length_overwrite)
  have L4: "length r4 = rec_len nm" unfolding r4_def using L3 big by (simp add: length_overwrite)
  have L5: "length r5 = rec_len nm" unfolding r5_def using L4 big by (simp add: length_overwrite)
  have L6: "length r6 = rec_len nm" unfolding r6_def using L5 big by (simp add: length_overwrite)
  have L7: "length r7 = rec_len nm" unfolding r7_def using L6 big by (simp add: length_overwrite)
  have L8: "length r8 = rec_len nm" unfolding r8_def using L7 big by (simp add: length_overwrite)
  note L = L0 L1 L2 L3 L4 L5 L6 L7 L8
  show "length d = rec_len nm" unfolding d using L big by (simp add: length_overwrite)
  have n: "d ! i = r7 ! i" if "i < 33" for i
    unfolding d r8_def using that L big by (simp add: nth_overwrite length_overwrite)
  show "d ! 32 = word_of_nat (length nm + 2)"
    using n [of 32] L big unfolding r7_def by (simp add: nth_overwrite)
  have m: "d ! i = r4 ! i" if "i < 28" for i
    using n [of i] that L big unfolding r7_def r6_def r5_def by (simp add: nth_overwrite length_overwrite)
  show "d ! 25 = 0" using m [of 25] L big unfolding r4_def by (simp add: nth_overwrite)
  show "d ! 0 = word_of_nat (rec_len nm)"
    using m [of 0] L big unfolding r4_def r3_def r2_def r1_def by (simp add: nth_overwrite length_overwrite)
  have "field 2 8 d = field 2 8 r2"
    using m L big unfolding r4_def r3_def by (intro field_nth_eq) (simp_all add: nth_overwrite length_overwrite \<open>length d = _\<close>)
  then show "field 2 8 d = writeBothEndian32 lba" using L big unfolding r2_def by (simp add: field_overwrite_same)
  have "field 10 8 d = field 10 8 r3"
    using m L big unfolding r4_def by (intro field_nth_eq) (simp_all add: nth_overwrite length_overwrite \<open>length d = _\<close>)
  then show "field 10 8 d = writeBothEndian32 (uint32 len)" using L big unfolding r3_def by (simp add: field_overwrite_same)
  have "field 33 (length nm + 2) d = field 33 (length nm + 2) r8"
    unfolding d using L big by (intro field_overwrite_other) simp_all
  then show "field 33 (length nm + 2) d = file_id nm" using L big unfolding r8_def by (simp add: field_overwrite_same)
  show "field (nm_start nm) (length nm + 5) d = nm_entry nm"
    unfolding d using L big by (intro field_overwrite_same) simp_all
qed

lemma parse_nm_entry:
  assumes "5 + length nm < 256"
  shows "iso9660ParseRockRidgeNM (nm_entry nm @ pad) = nm"
proof -
  have "unat (word_of_nat (5 + length nm) :: byte) = 5 + length nm"
    using assms by (rule unat_byte)
  moreover have "drop 5 (take (5 + length nm) (nm_entry nm @ pad)) = nm"
    by (simp add: drop_take) (simp add: nm_entry_def)
  moreover have "(nm_entry nm @ pad) ! 0 = 0x4E" "(nm_entry nm @ pad) ! 1 = 0x4D"
    "(nm_entry nm @ pad) ! 2 = word_of_nat (5 + length nm)" "(nm_entry nm @ pad) ! 4 = 0"
    by (simp_all add: nm_entry_def)
  ultimately show ?thesis
    by (subst iso9660ParseRockRidgeNM.simps) (simp add: Let_def del: of_nat_add)
qed

definition made_record :: "nat \<Rightarrow> nat \<Rightarrow> byte list \<Rightarrow> nat \<Rightarrow> iso9660DirRecord" where
  "made_record lba len nm off =
     \<lparr>RecordLen = rec_len nm, ExtentLBA = lba, DataLen = len, Flags = 0, FileIDLen = length nm + 2,
      FileID = file_id nm, RRName = nm, RecordOff = off, IsDir = False\<rparr>"

lemma made_record_name: "record_name (made_record lba len nm off) = nm"
  by (cases "nm = []") (simp_all add: record_name_def made_record_def file_id_def)

lemma dir_record_parses:
  assumes "length nm \<le> 107" and "lba < 2 ^ 32" and "len < 2 ^ 32"
  shows "iso9660ParseDirRecord (dir_record lba len nm @ rest) off = Ok (Some (made_record lba len nm off))"
proof -
  let ?d = "dir_record lba len nm" let ?raw = "?d @ rest"
  note F = dir_record_facts [where lba = lba and len = len and nm = nm]
  have rl: "rec_len nm < 256" "42 \<le> rec_len nm \<or> odd (length nm)" "40 \<le> rec_len nm"
    using assms(1) by (cases "length nm = 107"; auto simp: rec_len_eq)+
  have n: "?raw ! i = ?d ! i" if "i < 40" for i using F(1) rl that by (simp add: nth_append)
  have u0: "unat (?raw ! 0) = rec_len nm" using n [of 0] F(2) rl by (simp add: unat_byte)
  have u32: "unat (?raw ! 32) = length nm + 2" 
  proof -
    have "?raw ! 32 = word_of_nat (length nm + 2)" using n [of 32] F(6) by (simp del: of_nat_add)
    moreover have "unat (word_of_nat (length nm + 2) :: byte) = length nm + 2" by (rule unat_byte) (use assms(1) in simp)
    ultimately show ?thesis by (simp del: of_nat_add)
  qed
  have f: "field 2 8 ?raw = writeBothEndian32 lba" "field 10 8 ?raw = writeBothEndian32 (uint32 len)"
    using F(1,3,4) rl by (simp_all add: field_append)
  have start: "(if even (length nm + 2) then 33 + (length nm + 2) + 1 else 33 + (length nm + 2)) = nm_start nm"
    by (simp add: nm_start_def)
  have le: "nm_start nm + (length nm + 5) \<le> rec_len nm" by (simp add: rec_len_eq nm_start_def)
  have sua: "drop (nm_start nm) (take (rec_len nm) ?raw) = nm_entry nm @ drop (nm_start nm + (length nm + 5)) ?d"
  proof -
    have "drop (nm_start nm) ?d = field (nm_start nm) (length nm + 5) ?d @ drop (nm_start nm + (length nm + 5)) ?d"
      unfolding field_def by (metis append_take_drop_id drop_drop add.commute)
    then show ?thesis using F(1,8) by simp
  qed
  have nmr: "iso9660ParseRockRidgeNM (drop (nm_start nm) (take (rec_len nm) ?raw)) = nm"
    unfolding sua by (rule parse_nm_entry) (use assms(1) in simp)
  have idEnd: "(33 + (length nm + 2)) mod 256 = length nm + 35" using assms(1) by simp
  have fid: "drop 33 (take (length nm + 35) ?raw) = file_id nm"
  proof -
    have "length nm + 35 \<le> length ?d" using F(1) by (simp add: rec_len_eq)
    then have "drop 33 (take (length nm + 35) ?raw) = field 33 (length nm + 2) ?d"
      by (simp add: field_def drop_take)
    then show ?thesis using F(7) by simp
  qed
  have fl: "(?raw ! 25) AND 2 = 0" using n [of 25] F(5) by simp
  have ne: "?raw ! 0 \<noteq> 0" using u0 rl by (metis not_numeral_le_zero unat_0)
  have lens: "nm_start nm < rec_len nm" "length nm + 35 \<le> rec_len nm" "rec_len nm \<le> length ?raw" "?raw \<noteq> []"
    using le F(1) rl by (auto simp: nm_start_def rec_len_eq)
  have "?raw ! 25 = 0" using n [of 25] F(5) by simp
  then show ?thesis
    unfolding iso9660ParseDirRecord_def Let_def u0 u32 start idEnd f nmr fid fl made_record_def
    using ne lens rl assms(2,3) read_writeBothEndian32 [of lba] read_writeBothEndian32 [of len]
    by (auto simp: uint32_def)
qed



text \<open>The length of a record is one byte: a name of 108 bytes makes a record that no reader takes for one.\<close>

lemma long_name_unreadable:
  assumes "length nm = 108"
  shows "iso9660ParseDirRecord (dir_record lba len nm @ rest) off = Ok None"
proof -
  have rl: "rec_len nm = 258" using assms by (simp add: rec_len_eq)
  then have "dir_record lba len nm \<noteq> []" using dir_record_facts(1) [where lba = lba and len = len and nm = nm] by auto
  moreover have "dir_record lba len nm ! 0 = 2"
    using dir_record_facts(2) [where lba = lba and len = len and nm = nm] rl by simp
  ultimately show ?thesis by (simp add: iso9660ParseDirRecord_def nth_append Let_def)
qed

text \<open>The end of an identifier is added in 8 bits: an identifier of 223 bytes or more ends in a panic.\<close>

lemma long_identifier_panics:
  assumes "33 \<le> unat (raw ! 0)" and "unat (raw ! 0) \<le> length raw" and "223 \<le> unat (raw ! 32)"
  shows "iso9660ParseDirRecord raw off = Panic"
proof -
  have "unat (raw ! 32) < 256" using unsigned_less [of "raw ! 32", where ?'a = nat] by simp
  then have "(33 + unat (raw ! 32)) mod 256 = unat (raw ! 32) - 223"
    using assms(3) by (simp add: mod_if)
  with \<open>unat (raw ! 32) < 256\<close> assms show ?thesis by (auto simp: iso9660ParseDirRecord_def Let_def)
qed

section \<open>Reading a directory\<close>

lemma dir_loop_end: "length data \<le> pos \<Longrightarrow> dir_loop data b pos = Ok []"
  by (simp add: dir_loop.simps)

lemma dir_loop_zero:
  "pos < length data \<Longrightarrow> data ! pos = 0 \<Longrightarrow>
   dir_loop data b pos = dir_loop data b (pos + (iso9660SectorSize - pos mod iso9660SectorSize))"
  by (subst dir_loop.simps) (simp add: Let_def)

lemma dir_loop_none:
  "pos < length data \<Longrightarrow> data ! pos \<noteq> 0 \<Longrightarrow> iso9660ParseDirRecord (drop pos data) (b + pos) = Ok None \<Longrightarrow>
   dir_loop data b pos = dir_loop data b (pos + (iso9660SectorSize - pos mod iso9660SectorSize))"
  by (subst dir_loop.simps) (simp add: Let_def)

lemma dir_loop_some:
  "pos < length data \<Longrightarrow> data ! pos \<noteq> 0 \<Longrightarrow> iso9660ParseDirRecord (drop pos data) (b + pos) = Ok (Some r) \<Longrightarrow>
   dir_loop data b pos = iso_bind (dir_loop data b (pos + RecordLen r)) (\<lambda>rs. Ok (r # rs))"
  by (subst dir_loop.simps) (simp add: Let_def)

text \<open>Induction over a walk that ends well.\<close>

lemma dir_loop_Ok_induct [consumes 1, case_names stop skip found]:
  assumes "dir_loop data b pos = Ok rs"
    and "\<And>pos. length data \<le> pos \<Longrightarrow> P pos []"
    and "\<And>pos rs. pos < length data \<Longrightarrow>
           data ! pos = 0 \<or> iso9660ParseDirRecord (drop pos data) (b + pos) = Ok None \<Longrightarrow>
           dir_loop data b (pos + (iso9660SectorSize - pos mod iso9660SectorSize)) = Ok rs \<Longrightarrow>
           P (pos + (iso9660SectorSize - pos mod iso9660SectorSize)) rs \<Longrightarrow> P pos rs"
    and "\<And>pos r rs. pos < length data \<Longrightarrow> data ! pos \<noteq> 0 \<Longrightarrow>
           iso9660ParseDirRecord (drop pos data) (b + pos) = Ok (Some r) \<Longrightarrow>
           dir_loop data b (pos + RecordLen r) = Ok rs \<Longrightarrow> P (pos + RecordLen r) rs \<Longrightarrow> P pos (r # rs)"
  shows "P pos rs"
  using assms(1)
proof (induction "length data - pos" arbitrary: pos rs rule: less_induct)
  case less
  let ?next = "pos + (iso9660SectorSize - pos mod iso9660SectorSize)"
  show ?case
  proof (cases "pos < length data")
    case False
    then show ?thesis using less.prems assms(2) [of pos] by (simp add: dir_loop_end)
  next
    case True
    have smaller: "length data - ?next < length data - pos" using True sector_step [of pos] by linarith
    have skip: ?thesis
      if "data ! pos = 0 \<or> iso9660ParseDirRecord (drop pos data) (b + pos) = Ok None" "dir_loop data b ?next = Ok rs"
      using assms(3) [OF True that] less.hyps [OF smaller that(2)] by blast
    show ?thesis
    proof (cases "data ! pos = 0")
      case zero: True
      then show ?thesis using skip less.prems dir_loop_zero [OF True zero] by simp
    next
      case nz: False
      show ?thesis
      proof (cases "iso9660ParseDirRecord (drop pos data) (b + pos)")
        case (Ok y)
        show ?thesis
        proof (cases y)
          case None
          then show ?thesis using skip less.prems Ok dir_loop_none [OF True nz] by simp
        next
          case (Some r)
          with Ok less.prems dir_loop_some [OF True nz, of b r]
          obtain rs' where rs: "dir_loop data b (pos + RecordLen r) = Ok rs'" "rs = r # rs'"
            by (auto simp: iso_bind_Ok_iff)
          have "length data - (pos + RecordLen r) < length data - pos"
            using parsed_length(2) [of "drop pos data" "b + pos" r] Ok Some True by simp
          from assms(4) [OF True nz _ rs(1) less.hyps [OF this rs(1)]] Ok Some rs(2) show ?thesis by simp
        qed
      next
        case (Fail e)
        then show ?thesis using less.prems True nz by (simp add: dir_loop.simps [of data b pos] Let_def)
      next
        case Panic
        then show ?thesis using less.prems True nz by (simp add: dir_loop.simps [of data b pos] Let_def)
      qed
    qed
  qed
qed

lemma dir_loop_offsets:
  assumes "dir_loop data b pos = Ok rs"
  shows "(\<forall>r\<in>set rs. b + pos \<le> RecordOff r \<and> RecordOff r + RecordLen r \<le> b + length data \<and> 33 \<le> RecordLen r) \<and>
         sorted_wrt (\<lambda>r q. RecordOff r + RecordLen r \<le> RecordOff q) rs"
  using assms
proof (induction rule: dir_loop_Ok_induct)
  case (skip pos rs)
  then show ?case using sector_step [of pos] by force
next
  case (found pos r rs)
  from parsed_length [OF found(3)] found(1) found(5) show ?case by force
qed simp

text \<open>What a walk gives depends only on the bytes from its start.\<close>

lemma dir_loop_drop:
  assumes "length x = length y" and "drop pos x = drop pos y"
  shows "dir_loop x b pos = dir_loop y b pos"
  using assms(2)
proof (induction "length x - pos" arbitrary: pos rule: less_induct)
  case less
  let ?next = "pos + (iso9660SectorSize - pos mod iso9660SectorSize)"
  show ?case
  proof (cases "pos < length x")
    case False
    then show ?thesis using assms(1) by (simp add: dir_loop_end)
  next
    case True
    have nth: "x ! pos = y ! pos"
      using less.prems True assms(1) by (metis hd_drop_conv_nth)
    have later: "drop q x = drop q y" if "pos \<le> q" for q
      using less.prems that by (metis drop_drop le_add_diff_inverse2)
    have skip: "dir_loop x b ?next = dir_loop y b ?next"
      using less.hyps [of ?next] later [of ?next] True sector_step [of pos] by (simp add: diff_less_mono2)
    have "dir_loop x b (pos + RecordLen r) = dir_loop y b (pos + RecordLen r)"
      if "iso9660ParseDirRecord (drop pos x) (b + pos) = Ok (Some r)" for r
      using less.hyps [of "pos + RecordLen r"] later [of "pos + RecordLen r"] True parsed_length(2) [OF that] by simp
    then show ?thesis
      using skip nth less.prems assms(1)
      by (auto simp: dir_loop.simps [of x b pos] dir_loop.simps [of y b pos] Let_def split: iso.split option.split)
  qed
qed
lemma parse_None_iff:
  "iso9660ParseDirRecord raw off = Ok None \<longleftrightarrow>
   raw = [] \<or> raw ! 0 = 0 \<or> length raw < unat (raw ! 0) \<or> unat (raw ! 0) < 33"
  by (cases raw) (auto simp: iso9660ParseDirRecord_def Let_def)

text \<open>A record is parsed from its own bytes; what is behind it does not matter.\<close>

lemma parse_own_bytes:
  assumes "length x = length y" and "\<And>i. i < unat (x ! 0) \<Longrightarrow> x ! i = y ! i" and "x ! 0 = y ! 0"
  shows "iso9660ParseDirRecord x off = iso9660ParseDirRecord y off"
proof (cases "x = [] \<or> x ! 0 = 0 \<or> length x < unat (x ! 0) \<or> unat (x ! 0) < 33")
  case True
  moreover have "y = [] \<or> y ! 0 = 0 \<or> length y < unat (y ! 0) \<or> unat (y ! 0) < 33"
    using True assms(1,3) by auto
  ultimately show ?thesis using parse_None_iff by metis
next
  case False
  let ?n = "unat (x ! 0)"
  have n: "33 \<le> ?n" "?n \<le> length x" "?n \<le> length y" using False assms(1) by simp_all
  have e: "x ! 25 = y ! 25" "x ! 32 = y ! 32" using assms(2) [of 25] assms(2) [of 32] n by linarith+
  have same: "x ! i = y ! i" if "i < 33" for i using assms(2) [of i] that n by linarith
  have f: "field 2 8 x = field 2 8 y" "field 10 8 x = field 10 8 y"
    by (rule field_nth_eq; use same n in simp)+
  have t: "take k x = take k y" if "k \<le> ?n" for k
  proof (rule nth_equalityI)
    fix i assume "i < length (take k x)"
    then show "take k x ! i = take k y ! i" using that n assms(2) [of i] by simp
  qed (use that n in simp)
  show ?thesis
    unfolding iso9660ParseDirRecord_def Let_def
    using False e f n t [of ?n] t [of "(33 + unat (y ! 32)) mod 256"] assms(1,3) by auto
qed

definition repoint :: "nat \<Rightarrow> nat \<Rightarrow> nat \<Rightarrow> iso9660DirRecord \<Rightarrow> iso9660DirRecord" where
  "repoint off lba len r = (if RecordOff r = off then r\<lparr>ExtentLBA := lba, DataLen := len\<rparr> else r)"

lemma repoint_fields [simp]:
  "IsDir (repoint off lba len r) = IsDir r" "record_name (repoint off lba len r) = record_name r"
  "is_dot (repoint off lba len r) = is_dot r" "RecordOff (repoint off lba len r) = RecordOff r"
  by (simp_all add: repoint_def record_name_def is_dot_def)

lemma parse_repointed:
  assumes "iso9660ParseDirRecord x off = Ok (Some r)" and "length x = length y"
    and "\<And>i. i < 2 \<or> 18 \<le> i \<Longrightarrow> i < length x \<Longrightarrow> y ! i = x ! i"
    and "field 2 8 y = writeBothEndian32 lba" and "field 10 8 y = writeBothEndian32 len"
    and "lba < 2 ^ 32" and "len < 2 ^ 32"
  shows "iso9660ParseDirRecord y off = Ok (Some (r\<lparr>ExtentLBA := lba, DataLen := len\<rparr>))"
proof -
  let ?n = "unat (x ! 0)"
  have n: "33 \<le> ?n" "?n \<le> length x" using parsed_length [OF assms(1)] by simp_all
  have e: "y ! 0 = x ! 0" "y ! 25 = x ! 25" "y ! 32 = x ! 32" using assms(3) [of 0] assms(3) [of 25] assms(3) [of 32] n by linarith+
  have t: "drop k (take j y) = drop k (take j x)" if "33 \<le> k" for k j
  proof (rule nth_equalityI)
    fix i assume "i < length (drop k (take j y))"
    then have "k + i < length x" "k + i < j" using assms(2) by simp_all
    then show "drop k (take j y) ! i = drop k (take j x) ! i" using that assms(2) assms(3) [of "k + i"] by simp
  qed (simp add: assms(2))
  have f: "readBothEndian32 (field 2 8 y) = lba" "readBothEndian32 (field 10 8 y) = len"
    using assms(4-7) by (simp_all add: read_writeBothEndian32)
  have "x \<noteq> []" "x ! 0 \<noteq> 0" using n by auto
  then show ?thesis
    using assms(1,2) n e t
    unfolding iso9660ParseDirRecord_def Let_def f
    by (auto split: if_splits)
qed

lemma dir_loop_repoint:
  assumes "dir_loop data b pos = Ok rs" and "r0 \<in> set rs" and "RecordOff r0 = b + p"
    and "length data' = length data"
    and "\<And>i. i < length data \<Longrightarrow> i < p + 2 \<or> p + 18 \<le> i \<Longrightarrow> data' ! i = data ! i"
    and "field (p + 2) 8 data' = writeBothEndian32 lba" and "field (p + 10) 8 data' = writeBothEndian32 len"
    and "lba < 2 ^ 32" and "len < 2 ^ 32"
  shows "dir_loop data' b pos = Ok (map (repoint (b + p) lba len) rs)"
  using assms(1,2)
proof (induction rule: dir_loop_Ok_induct)
  case (skip pos rs)
  let ?next = "pos + (iso9660SectorSize - pos mod iso9660SectorSize)"
  have "b + ?next \<le> b + p" using dir_loop_offsets [OF skip(3)] skip(5) assms(3) by force
  then have "pos < p" using sector_step [of pos] by linarith
  then have same: "data' ! pos = data ! pos" using skip(1) assms(5) by simp
  have "dir_loop data' b pos = dir_loop data' b ?next"
  proof (cases "data ! pos = 0")
    case True
    then show ?thesis using dir_loop_zero [of pos data' b] skip(1) same assms(4) by simp
  next
    case False
    then have "iso9660ParseDirRecord (drop pos data') (b + pos) = Ok None"
      using skip(1,2) same assms(4) by (auto simp: parse_None_iff)
    then show ?thesis using dir_loop_none [of pos data' b] skip(1) same assms(4) False by simp
  qed
  then show ?case using skip by simp
next
  case (found pos r rs)
  have pl: "RecordLen r = unat (data ! pos)" "33 \<le> RecordLen r" "RecordLen r \<le> length data - pos" "RecordOff r = b + pos"
    using parsed_length [OF found(3)] found(1) by simp_all
  have later: "b + pos + RecordLen r \<le> RecordOff q" if "q \<in> set rs" for q
    using dir_loop_offsets [OF found(4)] that by force
  show ?case
  proof (cases "p = pos")
    case True
    have tail: "dir_loop data' b (pos + RecordLen r) = dir_loop data b (pos + RecordLen r)"
    proof (rule dir_loop_drop)
      show "drop (pos + RecordLen r) data' = drop (pos + RecordLen r) data"
        by (rule nth_equalityI) (use assms(4,5) pl True in auto)
    qed (rule assms(4))
    have "iso9660ParseDirRecord (drop pos data') (b + pos) = Ok (Some (r\<lparr>ExtentLBA := lba, DataLen := len\<rparr>))"
      by (rule parse_repointed [OF found(3)])
        (use assms(4-9) True in \<open>auto simp: field_def add.commute\<close>)
    moreover have "data' ! pos \<noteq> 0" using found(1,2) assms(5) True by simp
    ultimately have "dir_loop data' b pos = Ok (r\<lparr>ExtentLBA := lba, DataLen := len\<rparr> # rs)"
      using dir_loop_some [of pos data' b] found(1,4) assms(4) tail by simp
    moreover have "map (repoint (b + p) lba len) rs = rs"
      by (rule map_idI) (use later pl True in \<open>force simp: repoint_def\<close>)
    moreover have "repoint (b + p) lba len r = r\<lparr>ExtentLBA := lba, DataLen := len\<rparr>"
      using pl True by (simp add: repoint_def)
    ultimately show ?thesis by simp
  next
    case False
    then have "r0 \<in> set rs" using found(6) pl assms(3) by auto
    then have p: "pos + RecordLen r \<le> p" using later [of r0] assms(3) by simp
    have "iso9660ParseDirRecord (drop pos data') (b + pos) = Ok (Some r)"
      using parse_own_bytes [of "drop pos data'" "drop pos data" "b + pos"] found(1,3) assms(4,5) p pl by simp
    moreover have "data' ! pos \<noteq> 0" using found(1,2) assms(5) p pl by simp
    ultimately have "dir_loop data' b pos = iso_bind (dir_loop data' b (pos + RecordLen r)) (\<lambda>rs. Ok (r # rs))"
      using dir_loop_some [of pos data' b] found(1) assms(4) by simp
    moreover have "repoint (b + p) lba len r = r" using pl False by (simp add: repoint_def)
    ultimately show ?thesis using found(5) \<open>r0 \<in> set rs\<close> by simp
  qed
qed simp
section \<open>Replacing a file\<close>

lemma ReadDirectory_bounds:
  assumes "iso9660ReadDirectory f l n = Ok rs" and "r \<in> set rs"
  shows "l * iso9660SectorSize \<le> RecordOff r" "RecordOff r + RecordLen r \<le> l * iso9660SectorSize + n" "33 \<le> RecordLen r"
proof -
  obtain d where d: "read_at f (l * iso9660SectorSize) n = Some d" "dir_loop d (l * iso9660SectorSize) 0 = Ok rs"
    using assms(1) by (auto simp: iso9660ReadDirectory_def split: option.splits)
  from dir_loop_offsets [OF d(2)] assms(2) read_at_length [OF d(1)]
  show "l * iso9660SectorSize \<le> RecordOff r" "RecordOff r + RecordLen r \<le> l * iso9660SectorSize + n" "33 \<le> RecordLen r"
    by auto
qed

lemma ReadDirectory_unique:
  assumes "iso9660ReadDirectory f l n = Ok rs" and "q \<in> set rs" and "r \<in> set rs" and "RecordOff q = RecordOff r"
  shows "q = r"
proof -
  obtain d where "dir_loop d (l * iso9660SectorSize) 0 = Ok rs"
    using assms(1) by (auto simp: iso9660ReadDirectory_def split: option.splits)
  from dir_loop_offsets [OF this]
  have s: "sorted_wrt (\<lambda>r q. RecordOff r + RecordLen r \<le> RecordOff q) rs" and l: "\<forall>r\<in>set rs. 33 \<le> RecordLen r" by auto
  have "sorted_wrt (<) (map RecordOff rs)"
    unfolding sorted_wrt_map by (rule sorted_wrt_mono_rel [OF _ s]) (use l in force)
  then have "inj_on RecordOff (set rs)" using strict_sorted_imp_sorted strict_sorted_iff distinct_map by blast
  with assms show ?thesis by (auto dest: inj_onD)
qed

lemma ReplaceFile_Ok:
  assumes "iso9660ReadPVD f = Ok pvd"
  shows "iso9660ReplaceFile r content f =
    (Ok (), iso9660UpdateVolumeSpaceSize
       (uint32 (VolumeSpaceSize pvd + uint32 (padded_len (length content) div iso9660SectorSize)))
       (point_record (RecordOff r) (VolumeSpaceSize pvd) (length content)
         (put_at (VolumeSpaceSize pvd * iso9660SectorSize) (padded content) f)))"
  using assms by (simp add: iso9660ReplaceFile_def Let_def)

lemma replaced_frame:
  assumes "iso9660ReadPVD f = Ok pvd" and "read_at f a n = Some d"
    and "a + n \<le> VolumeSpaceSize pvd * iso9660SectorSize"
    and "a + n \<le> iso9660PVDOffset + 80 \<or> iso9660PVDOffset + 88 \<le> a"
    and "a + n \<le> RecordOff r + 2 \<or> RecordOff r + 18 \<le> a"
  shows "read_at (snd (iso9660ReplaceFile r content f)) a n = Some d"
  unfolding ReplaceFile_Ok [OF assms(1)] snd_conv iso9660UpdateVolumeSpaceSize_def point_record_def
  by (intro read_put_other assms(2)) (use assms(3-5) in auto)

lemma replaced_record:
  assumes "iso9660ReadPVD f = Ok pvd" and "read_at f a n = Some d"
    and "a + n \<le> VolumeSpaceSize pvd * iso9660SectorSize" and "iso9660PVDOffset + 88 \<le> a"
    and "RecordOff r = a + p" and "p + 18 \<le> n"
  shows "read_at (snd (iso9660ReplaceFile r content f)) a n =
    Some (overwrite (p + 10) (writeBothEndian32 (uint32 (length content)))
           (overwrite (p + 2) (writeBothEndian32 (VolumeSpaceSize pvd)) d))"
proof -
  have ne: "writeBothEndian32 v \<noteq> []" for v by (simp add: writeBothEndian32_def put_le32_def)
  let ?f1 = "put_at (VolumeSpaceSize pvd * iso9660SectorSize) (padded content) f"
  have 1: "read_at ?f1 a n = Some d" by (rule read_put_other [OF assms(2)]) (use assms(3) in simp)
  have 2: "read_at (put_at (RecordOff r + 2) (writeBothEndian32 (VolumeSpaceSize pvd)) ?f1) a n =
    Some (overwrite (p + 2) (writeBothEndian32 (VolumeSpaceSize pvd)) d)"
    using read_put_inside [OF 1 _ _ ne, of "RecordOff r + 2"] assms(5,6) by simp
  have 3: "read_at (point_record (RecordOff r) (VolumeSpaceSize pvd) (length content) ?f1) a n =
    Some (overwrite (p + 10) (writeBothEndian32 (uint32 (length content)))
           (overwrite (p + 2) (writeBothEndian32 (VolumeSpaceSize pvd)) d))"
    unfolding point_record_def using read_put_inside [OF 2 _ _ ne, of "RecordOff r + 10"] assms(5,6) by simp
  show ?thesis
    unfolding ReplaceFile_Ok [OF assms(1)] snd_conv iso9660UpdateVolumeSpaceSize_def
    by (rule read_put_other [OF 3]) (use assms(4) in simp)
qed

lemma replaced_directory:
  assumes "iso9660ReadPVD f = Ok pvd" and "iso9660ReadDirectory f l n = Ok rs" and "17 \<le> l"
    and "l * iso9660SectorSize + n \<le> VolumeSpaceSize pvd * iso9660SectorSize"
    and "length content < 2 ^ 32" and "VolumeSpaceSize pvd < 2 ^ 32"
    and "r \<in> set rs \<or> l * iso9660SectorSize + n \<le> RecordOff r \<or> RecordOff r + 18 \<le> l * iso9660SectorSize"
  shows "iso9660ReadDirectory (snd (iso9660ReplaceFile r content f)) l n =
         Ok (map (repoint (RecordOff r) (VolumeSpaceSize pvd) (length content)) rs)"
proof -
  let ?b = "l * iso9660SectorSize" and ?V = "VolumeSpaceSize pvd" and ?f' = "snd (iso9660ReplaceFile r content f)"
  obtain d where d: "read_at f ?b n = Some d" "dir_loop d ?b 0 = Ok rs"
    using assms(2) by (auto simp: iso9660ReadDirectory_def split: option.splits)
  have pvd: "iso9660PVDOffset + 88 \<le> ?b" using assms(3) by (simp add: iso9660PVDOffset_def iso9660SectorSize_def)
  show ?thesis
  proof (cases "r \<in> set rs")
    case True
    note bounds = ReadDirectory_bounds [OF assms(2) True]
    define p where "p = RecordOff r - ?b"
    have p: "RecordOff r = ?b + p" "p + 33 \<le> n" using bounds by (simp_all add: p_def)
    let ?lb = "writeBothEndian32 ?V" and ?nb = "writeBothEndian32 (length content)"
    define d' where "d' = overwrite (p + 10) ?nb (overwrite (p + 2) ?lb d)"
    have len: "length d = n" by (rule read_at_length [OF d(1)])
    then have len': "length (overwrite (p + 2) ?lb d) = n" using p by (simp add: length_overwrite)
    have "read_at ?f' ?b n = Some d'"
      using replaced_record [OF assms(1) d(1) assms(4) pvd p(1), of content] p(2) assms(5)
      by (simp add: d'_def uint32_def)
    moreover have "dir_loop d' ?b 0 = Ok (map (repoint (?b + p) ?V (length content)) rs)"
    proof (rule dir_loop_repoint [OF d(2) True p(1)])
      show "length d' = length d" using len len' p by (simp add: d'_def length_overwrite)
      show "d' ! i = d ! i" if "i < length d" "i < p + 2 \<or> p + 18 \<le> i" for i
        using that len len' p by (auto simp: d'_def nth_overwrite)
      show "field (p + 2) 8 d' = ?lb"
        using len len' p by (simp add: d'_def field_overwrite_other field_overwrite_same)
      show "field (p + 10) 8 d' = ?nb" using len' p by (simp add: d'_def field_overwrite_same)
    qed (use assms in simp_all)
    ultimately show ?thesis using p(1) by (simp add: iso9660ReadDirectory_def)
  next
    case False
    have "read_at ?f' ?b n = Some d"
      by (rule replaced_frame [OF assms(1) d(1) assms(4)]) (use pvd assms(7) False in auto)
    moreover have "map (repoint (RecordOff r) ?V (length content)) rs = rs"
    proof (rule map_idI)
      fix q assume "q \<in> set rs"
      then show "repoint (RecordOff r) ?V (length content) q = q"
        using ReadDirectory_bounds [OF assms(2), of q] assms(7) False by (auto simp: repoint_def)
    qed
    ultimately show ?thesis using d(2) by (simp add: iso9660ReadDirectory_def)
  qed
qed
lemma replaced_PVD:
  assumes "iso9660ReadPVD f = Ok pvd" and "17 \<le> VolumeSpaceSize pvd" and "17 * iso9660SectorSize \<le> RecordOff r"
    and "V' = uint32 (VolumeSpaceSize pvd + uint32 (padded_len (length content) div iso9660SectorSize))"
  shows "iso9660ReadPVD (snd (iso9660ReplaceFile r content f)) = Ok (pvd\<lparr>VolumeSpaceSize := V'\<rparr>)"
proof -
  let ?f1 = "point_record (RecordOff r) (VolumeSpaceSize pvd) (length content)
    (put_at (VolumeSpaceSize pvd * iso9660SectorSize) (padded content) f)"
  obtain buf where buf: "read_at f iso9660PVDOffset iso9660SectorSize = Some buf" "buf ! 0 = 1"
      "field 1 5 buf = [0x43, 0x44, 0x30, 0x30, 0x31]"
    and pvd: "RootDirLBA pvd = readBothEndian32 (field 2 8 (field 156 34 buf))"
      "RootDirSize pvd = readBothEndian32 (field 10 8 (field 156 34 buf))"
    using assms(1) by (auto simp: iso9660ReadPVD_def Let_def split: option.splits if_splits)
  have len: "length buf = 2048" using read_at_length [OF buf(1)] by (simp add: iso9660SectorSize_def)
  have 1: "read_at ?f1 iso9660PVDOffset iso9660SectorSize = Some buf"
    unfolding point_record_def
    by (intro read_put_other buf(1)) (use assms(2,3) in \<open>auto simp: iso9660PVDOffset_def iso9660SectorSize_def\<close>)
  have "writeBothEndian32 V' \<noteq> []" by (simp add: writeBothEndian32_def put_le32_def)
  then have 2: "read_at (snd (iso9660ReplaceFile r content f)) iso9660PVDOffset iso9660SectorSize =
    Some (overwrite 80 (writeBothEndian32 V') buf)"
    unfolding ReplaceFile_Ok [OF assms(1)] snd_conv iso9660UpdateVolumeSpaceSize_def assms(4) [symmetric]
    using read_put_inside [OF 1, of "iso9660PVDOffset + 80" "writeBothEndian32 V'"] by (simp add: iso9660SectorSize_def)
  have "V' < 2 ^ 32" by (simp add: assms(4) uint32_def)
  moreover have "field 80 8 (overwrite 80 (writeBothEndian32 V') buf) = writeBothEndian32 V'"
    using len by (simp add: field_overwrite_same)
  moreover have "field a n (overwrite 80 (writeBothEndian32 V') buf) = field a n buf"
    if "a + n \<le> 80 \<or> 88 \<le> a" "a + n \<le> 2048" for a n
    using that len by (intro field_overwrite_other) auto
  moreover have "overwrite 80 (writeBothEndian32 V') buf ! 0 = buf ! 0"
    using len by (simp add: nth_overwrite)
  ultimately show ?thesis
    unfolding iso9660ReadPVD_def 2 using buf pvd by (simp add: Let_def read_writeBothEndian32)
qed

text \<open>The directories that are read on the way to a file.\<close>

fun path_dirs :: "byte list \<Rightarrow> nat \<Rightarrow> nat \<Rightarrow> byte list list \<Rightarrow> (nat \<times> nat) list" where
  "path_dirs f l n [] = []"
| "path_dirs f l n (part # rest) =
     (l, n) #
     (case iso9660ReadDirectory f l n of
        Ok rs \<Rightarrow>
          (case List.find (\<lambda>r. \<not> is_dot r \<and> equal_fold (record_name r) part) rs of
             Some q \<Rightarrow> if rest \<noteq> [] then path_dirs f (ExtentLBA q) (DataLen q) rest else []
           | None \<Rightarrow> [])
      | _ \<Rightarrow> [])"

lemma find_map_repoint:
  "List.find (\<lambda>r. \<not> is_dot r \<and> equal_fold (record_name r) part) (map (repoint off lba len) rs) =
   map_option (repoint off lba len) (List.find (\<lambda>r. \<not> is_dot r \<and> equal_fold (record_name r) part) rs)"
  by (induction rs) simp_all

lemma resolve_from_dir:
  "resolve f l n parts = Ok r \<Longrightarrow>
   \<exists>(l', n')\<in>set (path_dirs f l n parts). \<exists>rs. iso9660ReadDirectory f l' n' = Ok rs \<and> r \<in> set rs"
proof (induction f l n parts rule: resolve.induct)
  case (2 f l n part rest)
  from "2.prems" obtain rs q where q: "iso9660ReadDirectory f l n = Ok rs"
      "List.find (\<lambda>r. \<not> is_dot r \<and> equal_fold (record_name r) part) rs = Some q"
    by (auto simp: iso_bind_Ok_iff split: option.splits)
  show ?case
  proof (cases "rest = []")
    case True
    with "2.prems" q have "r = q" by simp
    with q find_SomeD [OF q(2)] show ?thesis by auto
  next
    case False
    with "2.prems" q have "IsDir q" "resolve f (ExtentLBA q) (DataLen q) rest = Ok r" by (simp_all split: if_splits)
    with "2.IH" [OF q(2) False] q False show ?thesis by auto
  qed
qed simp

lemma resolve_repointed:
  assumes "resolve f l n parts = Ok r" and "\<not> IsDir r"
    and "\<And>l' n' rs. (l', n') \<in> set (path_dirs f l n parts) \<Longrightarrow> iso9660ReadDirectory f l' n' = Ok rs \<Longrightarrow>
           iso9660ReadDirectory f' l' n' = Ok (map (repoint (RecordOff r) lba len) rs) \<and>
           (\<forall>q\<in>set rs. RecordOff q = RecordOff r \<longrightarrow> q = r)"
  shows "resolve f' l n parts = Ok (repoint (RecordOff r) lba len r)"
  using assms
proof (induction f l n parts rule: resolve.induct)
  case (2 f l n part rest)
  let ?g = "repoint (RecordOff r) lba len"
  from "2.prems"(1) obtain rs q where q: "iso9660ReadDirectory f l n = Ok rs"
      "List.find (\<lambda>r. \<not> is_dot r \<and> equal_fold (record_name r) part) rs = Some q"
    by (auto simp: iso_bind_Ok_iff split: option.splits)
  have here: "iso9660ReadDirectory f' l n = Ok (map ?g rs)" "\<forall>q\<in>set rs. RecordOff q = RecordOff r \<longrightarrow> q = r"
    using "2.prems"(3) [of l n rs] q(1) by simp_all
  show ?case
  proof (cases "rest = []")
    case True
    with "2.prems"(1) q have "r = q" by simp
    with True here q show ?thesis by (simp add: find_map_repoint)
  next
    case False
    with "2.prems"(1) q have d: "IsDir q" "resolve f (ExtentLBA q) (DataLen q) rest = Ok r"
      by (simp_all split: if_splits)
    have "?g q = q" using d(1) "2.prems"(2) here(2) find_SomeD [OF q(2)] by (auto simp: repoint_def)
    moreover have "resolve f' (ExtentLBA q) (DataLen q) rest = Ok (?g r)"
    proof (rule "2.IH" [OF q(2) False _ d(2) "2.prems"(2)])
      fix l' n' rs'
      assume "(l', n') \<in> set (path_dirs f (ExtentLBA q) (DataLen q) rest)" "iso9660ReadDirectory f l' n' = Ok rs'"
      then show "iso9660ReadDirectory f' l' n' = Ok (map ?g rs') \<and> (\<forall>q\<in>set rs'. RecordOff q = RecordOff r \<longrightarrow> q = r)"
        using "2.prems"(3) [of l' n' rs'] q False by simp
    qed (simp add: d(1))
    ultimately show ?thesis using here q d False by (simp add: find_map_repoint)
  qed
qed simp

text \<open>
  The directories on a path lie behind the volume descriptor and inside the volume, and any two of them are
  the same or apart.
\<close>

definition sound_path :: "byte list \<Rightarrow> iso9660PVD \<Rightarrow> byte list \<Rightarrow> bool" where
  "sound_path f pvd path \<longleftrightarrow>
     (let ds = path_dirs f (RootDirLBA pvd) (RootDirSize pvd) (split_slash (trim_slash path))
      in (\<forall>(l, n)\<in>set ds. 17 \<le> l \<and> l * iso9660SectorSize + n \<le> VolumeSpaceSize pvd * iso9660SectorSize) \<and>
         (\<forall>(l, n)\<in>set ds. \<forall>(l', n')\<in>set ds.
            (l, n) = (l', n') \<or> l * iso9660SectorSize + n \<le> l' * iso9660SectorSize \<or>
            l' * iso9660SectorSize + n' \<le> l * iso9660SectorSize))"

lemma take_padded: "take (length c) (padded c) = c"
  by (simp add: padded_def)

lemma length_padded: "length c \<le> length (padded c)"
  by (simp add: padded_def)

text \<open>
  C38. Replacing a file of an image and reading it back: on a path to a regular file whose directories are
  sound, the patch succeeds, and afterwards the same path reads exactly the new content, whatever its
  length. Everything else in the volume is as before: a range that touches neither the extent and length of
  the file's record nor the size in the volume descriptor reads the same bytes.
\<close>

theorem replace_then_read:
  assumes "iso9660ReadPVD f = Ok pvd" and "iso9660ResolvePath f pvd path = Ok r" and "\<not> IsDir r"
    and "sound_path f pvd path" and "VolumeSpaceSize pvd < 2 ^ 32" and "length content < 2 ^ 32"
  shows "\<exists>f'. iso9660ApplyPatches [\<lparr>op_Op = ''replace'', op_Path = path, op_Content = content\<rparr>] f = (Ok (), f') \<and>
              iso9660ReadFileByPath f' path = Ok content \<and>
              (\<forall>a n d. read_at f a n = Some d \<and> a + n \<le> VolumeSpaceSize pvd * iso9660SectorSize \<and>
                 (a + n \<le> iso9660PVDOffset + 80 \<or> iso9660PVDOffset + 88 \<le> a) \<and>
                 (a + n \<le> RecordOff r + 2 \<or> RecordOff r + 18 \<le> a) \<longrightarrow> read_at f' a n = Some d)"
proof -
  let ?V = "VolumeSpaceSize pvd" and ?parts = "split_slash (trim_slash path)"
  let ?ds = "path_dirs f (RootDirLBA pvd) (RootDirSize pvd) ?parts"
  define f' where "f' = snd (iso9660ReplaceFile r content f)"
  have path: "trim_slash path \<noteq> []" and res: "resolve f (RootDirLBA pvd) (RootDirSize pvd) ?parts = Ok r"
    using assms(2,3) by (auto simp: iso9660ResolvePath_def split: if_splits)
  obtain l n rs where dir: "(l, n) \<in> set ?ds" "iso9660ReadDirectory f l n = Ok rs" "r \<in> set rs"
    using resolve_from_dir [OF res] by auto
  note bounds = ReadDirectory_bounds [OF dir(2,3)]
  have sound: "17 \<le> l'" "l' * iso9660SectorSize + n' \<le> ?V * iso9660SectorSize"
      "(l', n') = (l, n) \<or> l' * iso9660SectorSize + n' \<le> l * iso9660SectorSize \<or> l * iso9660SectorSize + n \<le> l' * iso9660SectorSize"
    if "(l', n') \<in> set ?ds" for l' n'
    using assms(4) that dir(1) unfolding sound_path_def Let_def by fast+
  have walk: "iso9660ReadDirectory f' l' n' = Ok (map (repoint (RecordOff r) ?V (length content)) rs') \<and>
      (\<forall>q\<in>set rs'. RecordOff q = RecordOff r \<longrightarrow> q = r)"
    if d': "(l', n') \<in> set ?ds" "iso9660ReadDirectory f l' n' = Ok rs'" for l' n' rs'
  proof (cases "(l', n') = (l, n)")
    case True
    then have "rs' = rs" using d'(2) dir(2) by simp
    then show ?thesis
      using replaced_directory [OF assms(1) d'(2) sound(1,2) [OF d'(1)] assms(6,5)] dir(3)
        ReadDirectory_unique [OF dir(2) _ dir(3)] by (auto simp: f'_def)
  next
    case False
    then have apart: "l' * iso9660SectorSize + n' \<le> RecordOff r \<or> RecordOff r + 33 \<le> l' * iso9660SectorSize"
      using sound(3) [OF d'(1)] bounds by linarith
    then have "RecordOff q \<noteq> RecordOff r" if "q \<in> set rs'" for q
      using ReadDirectory_bounds [OF d'(2) that] by linarith
    then show ?thesis
      using replaced_directory [OF assms(1) d'(2) sound(1,2) [OF d'(1)] assms(6,5), of r] apart by (auto simp: f'_def)
  qed
  have r': "resolve f' (RootDirLBA pvd) (RootDirSize pvd) ?parts = Ok (repoint (RecordOff r) ?V (length content) r)"
    using resolve_repointed [OF res assms(3)] walk by blast
  have off: "17 * iso9660SectorSize \<le> RecordOff r" "17 \<le> ?V"
  proof -
    have "17 * iso9660SectorSize \<le> l * iso9660SectorSize" using sound(1) [OF dir(1)] by (rule mult_le_mono1)
    then show "17 * iso9660SectorSize \<le> RecordOff r" using bounds(1) by linarith
    have "l * iso9660SectorSize \<le> ?V * iso9660SectorSize" using sound(2) [OF dir(1)] by linarith
    then have "l \<le> ?V" by (simp add: iso9660SectorSize_def)
    then show "17 \<le> ?V" using sound(1) [OF dir(1)] by linarith
  qed
  obtain V' where pvd': "iso9660ReadPVD f' = Ok (pvd\<lparr>VolumeSpaceSize := V'\<rparr>)"
    using replaced_PVD [OF assms(1) off(2,1)] f'_def by blast
  have content: "read_at f' (?V * iso9660SectorSize) (length content) = Some content"
  proof -
    have "read_at (put_at (?V * iso9660SectorSize) (padded content) f) (?V * iso9660SectorSize) (length content) = Some content"
      using read_put_same [OF length_padded, of "?V * iso9660SectorSize" content f] take_padded by simp
    then show ?thesis
      unfolding f'_def ReplaceFile_Ok [OF assms(1)] snd_conv iso9660UpdateVolumeSpaceSize_def point_record_def
      using off bounds sound(2) [OF dir(1)]
      by (intro read_put_other [OF read_put_other [OF read_put_other]])
        (auto simp: iso9660PVDOffset_def iso9660SectorSize_def)
  qed
  have "iso9660ReadFileByPath f' path = Ok content"
    using pvd' r' path content assms(3)
    by (simp add: iso9660ReadFileByPath_def iso9660ResolvePath_def iso9660ReadFile_def repoint_def)
  moreover have "iso9660ApplyPatches [\<lparr>op_Op = ''replace'', op_Path = path, op_Content = content\<rparr>] f = (Ok (), f')"
    using assms(1,2) ReplaceFile_Ok [OF assms(1), of r content] by (simp add: apply_patch_def f'_def)
  ultimately show ?thesis using replaced_frame [OF assms(1), of _ _ _ r content] unfolding f'_def by blast
qed
section \<open>Deleting a file\<close>

definition sector_after :: "nat \<Rightarrow> nat" where
  "sector_after pos = (pos div iso9660SectorSize + 1) * iso9660SectorSize"

lemma sector_after_eq: "pos + (iso9660SectorSize - pos mod iso9660SectorSize) = sector_after pos"
proof -
  have "pos mod 2048 < 2048" by simp
  moreover have "pos = pos div 2048 * 2048 + pos mod 2048" by (rule div_mult_mod_eq [symmetric])
  ultimately show ?thesis unfolding sector_after_def iso9660SectorSize_def by (simp only: distrib_right)
qed

lemma sector_after_gt: "pos < sector_after pos"
  using sector_end by (simp add: sector_after_def)

lemma sector_after_same:
  "pos \<le> q \<Longrightarrow> q < sector_after pos \<Longrightarrow> sector_after q = sector_after pos"
proof -
  assume "pos \<le> q" "q < sector_after pos"
  then have "pos div iso9660SectorSize \<le> q div iso9660SectorSize" "q div iso9660SectorSize < pos div iso9660SectorSize + 1"
    by (simp_all add: div_le_mono less_mult_imp_div_less sector_after_def)
  then show ?thesis by (simp add: sector_after_def)
qed

lemma in_sector: "pos mod iso9660SectorSize + n \<le> iso9660SectorSize \<longleftrightarrow> pos + n \<le> sector_after pos"
proof -
  have "pos mod iso9660SectorSize < iso9660SectorSize" by (simp add: iso9660SectorSize_def)
  then show ?thesis unfolding sector_after_eq [symmetric] by linarith
qed

text \<open>When no record crosses the end of a sector, every walk through a sector comes by the next one.\<close>

lemma dir_loop_next_sector:
  assumes "dir_loop data b pos = Ok rs" and "\<forall>q\<in>set rs. RecordOff q - b + RecordLen q \<le> sector_after (RecordOff q - b)"
  shows "dir_loop data b (sector_after pos) = Ok (filter (\<lambda>q. b + sector_after pos \<le> RecordOff q) rs)"
  using assms
proof (induction rule: dir_loop_Ok_induct)
  case (stop pos)
  then show ?case using sector_after_gt [of pos] by (simp add: dir_loop_end)
next
  case (skip pos rs)
  then have "dir_loop data b (sector_after pos) = Ok rs" by (simp add: sector_after_eq)
  moreover from dir_loop_offsets [OF this] have "filter (\<lambda>q. b + sector_after pos \<le> RecordOff q) rs = rs"
    by (auto intro!: filter_True)
  ultimately show ?case by simp
next
  case (found pos r rs)
  have off: "RecordOff r = b + pos" "33 \<le> RecordLen r" by (rule parsed_length(4) [OF found(3)], rule parsed_length(2) [OF found(3)])
  have inside: "pos + RecordLen r \<le> sector_after pos" using found(6) off by simp
  have r: "\<not> b + sector_after pos \<le> RecordOff r" using off sector_after_gt [of pos] by simp
  show ?case
  proof (cases "pos + RecordLen r = sector_after pos")
    case True
    with found(4) have "dir_loop data b (sector_after pos) = Ok rs" by simp
    moreover from dir_loop_offsets [OF this] have "filter (\<lambda>q. b + sector_after pos \<le> RecordOff q) rs = rs"
      by (auto intro!: filter_True)
    ultimately show ?thesis using r by simp
  next
    case False
    then have "sector_after (pos + RecordLen r) = sector_after pos"
      using inside by (intro sector_after_same) simp_all
    then show ?thesis using found(5,6) r by simp
  qed
qed

lemma dir_loop_deleted:
  assumes "dir_loop data b pos = Ok rs" and "r0 \<in> set rs" and "RecordOff r0 = b + p"
    and "\<forall>q\<in>set rs. RecordOff q - b + RecordLen q \<le> sector_after (RecordOff q - b)"
    and "data' = overwrite p [0] data" and "p < length data"
  shows "dir_loop data' b pos = Ok (filter (\<lambda>q. RecordOff q < b + p \<or> b + sector_after p \<le> RecordOff q) rs)"
  using assms(1,2,4)
proof (induction rule: dir_loop_Ok_induct)
  case (skip pos rs)
  let ?next = "pos + (iso9660SectorSize - pos mod iso9660SectorSize)"
  have len: "length data' = length data" using assms(5,6) by (simp add: length_overwrite)
  have "b + ?next \<le> b + p" using dir_loop_offsets [OF skip(3)] skip(5) assms(3) by force
  then have "pos < p" using sector_step [of pos] by linarith
  then have same: "data' ! pos = data ! pos" using skip(1) assms(5,6) by (simp add: nth_overwrite)
  have "dir_loop data' b pos = dir_loop data' b ?next"
  proof (cases "data ! pos = 0")
    case True
    then show ?thesis using dir_loop_zero [of pos data' b] skip(1) same len by simp
  next
    case False
    then have "iso9660ParseDirRecord (drop pos data') (b + pos) = Ok None"
      using skip(1,2) same len by (auto simp: parse_None_iff)
    then show ?thesis using dir_loop_none [of pos data' b] skip(1) same len False by simp
  qed
  then show ?case using skip by simp
next
  case (found pos r rs)
  have len: "length data' = length data" using assms(5,6) by (simp add: length_overwrite)
  have pl: "RecordLen r = unat (data ! pos)" "33 \<le> RecordLen r" "RecordOff r = b + pos"
    using parsed_length [OF found(3)] found(1) by simp_all
  have later: "b + pos + RecordLen r \<le> RecordOff q" if "q \<in> set rs" for q
    using dir_loop_offsets [OF found(4)] that by force
  show ?case
  proof (cases "p = pos")
    case True
    have "dir_loop data b pos = Ok (r # rs)" using dir_loop_some [OF found(1-3)] found(4) by simp
    from dir_loop_next_sector [OF this found(7)]
    have "dir_loop data b (sector_after p) = Ok (filter (\<lambda>q. b + sector_after p \<le> RecordOff q) (r # rs))"
      using True by simp
    moreover have "dir_loop data' b (sector_after p) = dir_loop data b (sector_after p)"
    proof (rule dir_loop_drop [OF len])
      show "drop (sector_after p) data' = drop (sector_after p) data"
        by (rule nth_equalityI) (use assms(5,6) len sector_after_gt [of p] in \<open>simp_all add: nth_overwrite\<close>)
    qed
    moreover have "dir_loop data' b pos = dir_loop data' b (sector_after p)"
      using dir_loop_zero [of pos data' b] found(1) len assms(5,6) True
      by (simp add: nth_overwrite sector_after_eq)
    moreover have "filter (\<lambda>q. RecordOff q < b + p \<or> b + sector_after p \<le> RecordOff q) (r # rs) =
      filter (\<lambda>q. b + sector_after p \<le> RecordOff q) (r # rs)"
      by (rule filter_cong [OF refl]) (use later pl True in force)
    ultimately show ?thesis by simp
  next
    case False
    then have r0: "r0 \<in> set rs" using found(6) pl assms(3) by auto
    then have p: "pos + RecordLen r \<le> p" using later [of r0] assms(3) by simp
    have own: "data' ! i = data ! i" if "i < p" for i using that assms(5,6) by (simp add: nth_overwrite)
    have "iso9660ParseDirRecord (drop pos data') (b + pos) = Ok (Some r)"
      using parse_own_bytes [of "drop pos data'" "drop pos data" "b + pos"] found(1,3) len own p pl by simp
    moreover have "data' ! pos \<noteq> 0" using found(1,2) own p pl by simp
    ultimately have "dir_loop data' b pos = iso_bind (dir_loop data' b (pos + RecordLen r)) (\<lambda>rs. Ok (r # rs))"
      using dir_loop_some [of pos data' b] found(1) len by simp
    moreover have "RecordOff r < b + p" using p pl by simp
    ultimately show ?thesis using found(5) [OF r0] found(7) by simp
  qed
qed simp

text \<open>
  C40. Deleting a file hides more than the file. The length byte of its record is set to zero, and readers
  take a zero for the end of a sector's records. In a directory whose records do not cross sector ends, what
  is listed after a deletion is exactly the records before the deleted one and those of later sectors: every
  file that follows it in the same sector disappears too.
\<close>

theorem delete_hides_followers:
  assumes "iso9660ReadDirectory f l n = Ok rs" and "r \<in> set rs"
    and "\<forall>q\<in>set rs. RecordOff q mod iso9660SectorSize + RecordLen q \<le> iso9660SectorSize"
  shows "fst (iso9660DeleteFile r f) = Ok () \<and>
         iso9660ReadDirectory (snd (iso9660DeleteFile r f)) l n =
         Ok (filter (\<lambda>q. RecordOff q < RecordOff r \<or>
                         RecordOff r div iso9660SectorSize < RecordOff q div iso9660SectorSize) rs)"
proof -
  let ?b = "l * iso9660SectorSize"
  obtain d where d: "read_at f ?b n = Some d" "dir_loop d ?b 0 = Ok rs"
    using assms(1) by (auto simp: iso9660ReadDirectory_def split: option.splits)
  note bounds = ReadDirectory_bounds [OF assms(1)]
  define p where "p = RecordOff r - ?b"
  have p: "RecordOff r = ?b + p" "p + 33 \<le> n" using bounds [OF assms(2)] by (simp_all add: p_def)
  have len: "length d = n" by (rule read_at_length [OF d(1)])
  have inside: "\<forall>q\<in>set rs. RecordOff q - ?b + RecordLen q \<le> sector_after (RecordOff q - ?b)"
  proof
    fix q assume q: "q \<in> set rs"
    then have "RecordOff q = ?b + (RecordOff q - ?b)" using bounds(1) by simp
    then have "(RecordOff q - ?b) mod iso9660SectorSize = RecordOff q mod iso9660SectorSize"
      by (metis add.commute mod_mult_self1)
    then show "RecordOff q - ?b + RecordLen q \<le> sector_after (RecordOff q - ?b)"
      using assms(3) q in_sector by metis
  qed
  have "read_at (put_at (RecordOff r) [0] f) ?b n = Some (overwrite p [0] d)"
    using read_put_inside [OF d(1), of "RecordOff r" "[0]"] p by simp
  moreover have "dir_loop (overwrite p [0] d) ?b 0 =
    Ok (filter (\<lambda>q. RecordOff q < ?b + p \<or> ?b + sector_after p \<le> RecordOff q) rs)"
    by (rule dir_loop_deleted [OF d(2) assms(2) p(1) inside refl]) (use p len in simp)
  moreover have "?b + sector_after p \<le> RecordOff q \<longleftrightarrow> RecordOff r div iso9660SectorSize < RecordOff q div iso9660SectorSize"
    for q :: iso9660DirRecord
  proof -
    have "?b + sector_after p = (RecordOff r div iso9660SectorSize + 1) * iso9660SectorSize"
      using p(1) by (simp add: sector_after_def iso9660SectorSize_def)
    then show ?thesis
      by (simp add: less_eq_div_iff_mult_less_eq iso9660SectorSize_def Suc_le_eq [symmetric] del: Suc_le_eq)
  qed
  ultimately have "dir_loop (overwrite p [0] d) ?b 0 =
    Ok (filter (\<lambda>q. RecordOff q < RecordOff r \<or> RecordOff r div iso9660SectorSize < RecordOff q div iso9660SectorSize) rs)"
    and "read_at (put_at (RecordOff r) [0] f) ?b n = Some (overwrite p [0] d)"
    unfolding p(1) by simp_all
  then show ?thesis by (simp add: iso9660DeleteFile_def iso9660ReadDirectory_def)
qed

text \<open>A place for a new record is taken at the first zero byte, also when live records follow it.\<close>

lemma free_pos_at_zero: "n \<le> iso9660SectorSize \<Longrightarrow> free_pos (0 # d) n 0 = Some 0"
  by (subst free_pos.simps) simp

section \<open>A sample image\<close>

definition sample_pvd :: "byte list" where
  "sample_pvd = [1, 0x43, 0x44, 0x30, 0x30, 0x31] @ replicate 74 0 @ writeBothEndian32 19 @ replicate 68 0 @
     (replicate 2 0 @ writeBothEndian32 17 @ writeBothEndian32 2048 @ replicate 16 0) @ replicate 1858 0"

definition sample_dir :: "byte list" where
  "sample_dir = dir_record 18 5 [0x61] @ dir_record 18 5 [0x62] @ replicate 1964 0"

definition sample_image :: "byte list" where
  "sample_image = replicate 32768 0 @ sample_pvd @ sample_dir @ replicate 2048 7"

lemma rec_len_sample: "rec_len [c] = 42"
  by (simp add: rec_len_eq)

lemma length_sample [simp]: "length sample_pvd = 2048" "length sample_dir = 2048"
  using dir_record_facts(1) [where lba = 18 and len = 5 and nm = "[0x61]"]
    dir_record_facts(1) [where lba = 18 and len = 5 and nm = "[0x62]"]
  by (simp_all add: sample_pvd_def sample_dir_def rec_len_sample)

lemma read_middle: "read_at (x @ y @ z) (length x) (length y) = Some y"
  by (simp add: read_at_Some field_def)

lemma read_sample:
  "read_at sample_image iso9660PVDOffset iso9660SectorSize = Some sample_pvd"
  "read_at sample_image (17 * iso9660SectorSize) 2048 = Some sample_dir"
proof -
  show "read_at sample_image iso9660PVDOffset iso9660SectorSize = Some sample_pvd"
    using read_middle [of "replicate 32768 0" sample_pvd "sample_dir @ replicate 2048 7"]
    by (simp add: sample_image_def iso9660PVDOffset_def iso9660SectorSize_def)
  show "read_at sample_image (17 * iso9660SectorSize) 2048 = Some sample_dir"
    using read_middle [of "replicate 32768 0 @ sample_pvd" sample_dir "replicate 2048 7"]
    by (simp add: sample_image_def iso9660SectorSize_def)
qed

lemma sample_ReadPVD:
  "iso9660ReadPVD sample_image = Ok \<lparr>VolumeSpaceSize = 19, RootDirLBA = 17, RootDirSize = 2048\<rparr>"
proof -
  have "field 80 8 sample_pvd = writeBothEndian32 19" "field 1 5 sample_pvd = [0x43, 0x44, 0x30, 0x30, 0x31]"
    "field 156 34 sample_pvd = replicate 2 0 @ writeBothEndian32 17 @ writeBothEndian32 2048 @ replicate 16 0"
    "sample_pvd ! 0 = 1"
    by (simp_all add: sample_pvd_def field_def)
  moreover have "field 2 8 (replicate 2 0 @ writeBothEndian32 17 @ writeBothEndian32 2048 @ replicate 16 0) = writeBothEndian32 17"
    "field 10 8 (replicate 2 0 @ writeBothEndian32 17 @ writeBothEndian32 2048 @ replicate 16 0) = writeBothEndian32 2048"
    by (simp_all add: field_def)
  ultimately show ?thesis
    unfolding iso9660ReadPVD_def read_sample(1) by (simp add: Let_def read_writeBothEndian32)
qed

definition sample_a :: iso9660DirRecord where "sample_a = made_record 18 5 [0x61] 34816"
definition sample_b :: iso9660DirRecord where "sample_b = made_record 18 5 [0x62] 34858"

lemma sample_ReadDirectory: "iso9660ReadDirectory sample_image 17 2048 = Ok [sample_a, sample_b]"
proof -
  let ?A = "dir_record 18 5 [0x61]" and ?B = "dir_record 18 5 [0x62]" and ?Z = "replicate 1964 (0 :: byte)"
  have len: "length ?A = 42" "length ?B = 42"
    using dir_record_facts(1) [where lba = 18 and len = 5] by (simp_all add: rec_len_sample)
  have first: "?A ! 0 = 42" "?B ! 0 = 42"
    using dir_record_facts(2) [where lba = 18 and len = 5] by (simp_all add: rec_len_sample)
  have a: "iso9660ParseDirRecord (drop 0 sample_dir) (34816 + 0) = Ok (Some sample_a)"
    using dir_record_parses [of "[0x61]" 18 5 "?B @ ?Z" 34816] by (simp add: sample_dir_def sample_a_def)
  have "drop 42 sample_dir = ?B @ ?Z" by (simp add: sample_dir_def len)
  then have b: "iso9660ParseDirRecord (drop 42 sample_dir) (34816 + 42) = Ok (Some sample_b)"
    using dir_record_parses [of "[0x62]" 18 5 ?Z 34858] by (simp add: sample_b_def)
  have rl: "RecordLen sample_a = 42" "RecordLen sample_b = 42"
    by (simp_all add: sample_a_def sample_b_def made_record_def rec_len_sample)
  have n: "sample_dir ! 0 = 42" "sample_dir ! 42 = 42" "sample_dir ! 84 = 0"
    using len first by (simp_all add: sample_dir_def nth_append)
  have "dir_loop sample_dir 34816 84 = Ok []"
    using dir_loop_zero [of 84 sample_dir 34816] n(3) dir_loop_end [of sample_dir 2048]
    by (simp add: iso9660SectorSize_def)
  then have "dir_loop sample_dir 34816 42 = Ok [sample_b]"
    using dir_loop_some [OF _ _ b] n(2) rl by simp
  then have "dir_loop sample_dir 34816 0 = Ok [sample_a, sample_b]"
    using dir_loop_some [OF _ _ a] n(1) rl by simp
  then show ?thesis
    using read_sample(2) by (simp add: iso9660ReadDirectory_def iso9660SectorSize_def)
qed

theorem replace_then_read_witness:
  "\<exists>f'. iso9660ApplyPatches [\<lparr>op_Op = ''replace'', op_Path = [0x2F, 0x41], op_Content = [1, 2, 3]\<rparr>] sample_image = (Ok (), f') \<and>
        iso9660ReadFileByPath f' [0x2F, 0x41] = Ok [1, 2, 3]"
proof -
  let ?pvd = "\<lparr>VolumeSpaceSize = 19, RootDirLBA = 17, RootDirSize = 2048\<rparr>"
  have parts: "split_slash (trim_slash [0x2F, 0x41]) = [[0x41]]" by (simp add: trim_slash_def)
  have find: "List.find (\<lambda>r. \<not> is_dot r \<and> equal_fold (record_name r) [0x41]) [sample_a, sample_b] = Some sample_a"
    by (simp add: sample_a_def made_record_name is_dot_def equal_fold_def lower_byte_def) (simp add: made_record_def)
  have res: "iso9660ResolvePath sample_image ?pvd [0x2F, 0x41] = Ok sample_a"
    unfolding iso9660ResolvePath_def parts using find by (simp add: sample_ReadDirectory trim_slash_def)
  have dirs: "path_dirs sample_image 17 2048 [[0x41]] = [(17, 2048)]"
    using find by (simp add: sample_ReadDirectory)
  have "sound_path sample_image ?pvd [0x2F, 0x41]"
    unfolding sound_path_def Let_def parts by (simp add: dirs iso9660SectorSize_def)
  from replace_then_read [OF sample_ReadPVD res _ this, of "[1, 2, 3]"]
  show ?thesis by (auto simp: sample_a_def made_record_def)
qed

theorem delete_hides_followers_witness:
  "iso9660ReadDirectory sample_image 17 2048 = Ok [sample_a, sample_b] \<and>
   iso9660ReadDirectory (snd (iso9660DeleteFile sample_a sample_image)) 17 2048 = Ok []"
  using delete_hides_followers [OF sample_ReadDirectory, of sample_a] sample_ReadDirectory
  by (simp add: sample_a_def sample_b_def made_record_def rec_len_sample iso9660SectorSize_def)

end
