(* ===== verification/Spec2Isabelle.thy ===== *)
theory Spec2Isabelle
  imports SafeMap NetSticky Cluster HostSync Deployments Vmid PodWorker Lifecycle JobLogs JobStore VmdkStream Iso9660
begin

text \<open>
  A verification library for \<^bold>\<open>mkube\<close>, a single-binary Kubernetes-like node manager written in Go (all
  paths below are under \<open>src/\<close>).

  \<^bold>\<open>The program.\<close> One process keeps tables of objects in memory (pods, deployments, networks, jobs, runners,
  host reservations, bare metal hosts), each table a locked generic map, and mirrors them to key-value
  buckets; nodes of a cluster push their buckets to each other. Request handlers and background loops read
  and change the tables: the pod worker runs pod operations as goroutines, one per pod; the deployment
  controller keeps a number of pods made from a template; the network manager hands out addresses and ports;
  the lifecycle manager watches containers, probes them, restarts them and asks for pods to be recreated; the
  job scheduler assigns jobs to bare metal hosts, whose agents fetch work, send log lines and heartbeats and
  report completion; the BMC controller switches these hosts and chooses what they boot. Back ends (RouterOS,
  Proxmox, a Linux host) are reached through clients; disk images that users upload are converted to raw
  files, and installation images are patched in place.

  \<^bold>\<open>Theories, in the order of the imports.\<close>

  \<^item> \<open>Prelude\<close>: Go maps as association lists with distinct keys (\<open>gm_wf\<close>), Go's 64-bit integers and
    durations (\<open>wrap64\<close>), lemmas shared by the components, and the locale \<open>invariant_system\<close> (initial
    states, a step relation, a predicate that the steps keep), which is the source of every
    reachability result below.

  \<^item> \<open>SafeMap\<close>: \<open>pkg/safemap/safemap.go\<close>, one atomic step per method. The locale \<open>keyed_store\<close> states what
    the clients of a table rely on; it is interpreted on the methods.

  \<^item> \<open>NetIP\<close>, \<open>GoText\<close>: what the program uses of Go's packages \<open>net\<close>, \<open>strings\<close> and \<open>strconv\<close>.

  \<^item> \<open>Ipam\<close>: \<open>pkg/network/ipam/ipam.go\<close>. Pools with a rotating cursor against an abstract address book:
    an allocation succeeds exactly when a usable address is free, no address is held twice in any
    reachable state, when a static reservation succeeds; which addresses the default range covers and what
    goes wrong on a /31 and a /32. Interpretations of \<open>address_book\<close> and \<open>invariant_system\<close>.

  \<^item> \<open>NetManager\<close>, \<open>NetSticky\<close>: \<open>pkg/network\<close>, the manager of networks, switches and interfaces with its
    state file and its recovery. The driver, the DNS client and the file are the record \<open>net_env\<close>, whose
    answers say which calls fail. In every reachable state the tables agree with the pools; an interface
    gets its address back after any operations on others; lemmas behind the findings show where an address
    is leaked or lost.

  \<^item> \<open>Lifecycle\<close>: \<open>pkg/lifecycle/manager.go\<close>. The boot order is a permutation that respects dependencies
    and priorities, the back-off curve, the budget of pod recreates, the invariant of the watchdog, and
    exec probes, which can only fail.

  \<^item> \<open>Vmid\<close>: \<open>pkg/proxmox/vmid.go\<close>. The two tables stay inverse, the lowest free identifier is handed
    out and the search ends, and a rename breaks the tables.

  \<^item> \<open>PodWorker\<close>: \<open>pkg/provider/pod_worker.go\<close> as an interleaving of goroutines: at most one per pod,
    and when the creation time is recorded.

  \<^item> \<open>JobLogs\<close>: \<open>pkg/provider/job_logs.go\<close>. The buffer is the tail of what was appended, the channels
    of the followers, and the race between a notification and a deletion.

  \<^item> \<open>JobState\<close>, \<open>JobRunner\<close>, \<open>JobScheduler\<close>, \<open>JobApi\<close>: the job subsystem of \<open>pkg/provider\<close>. The state that
    \<open>job_crd.go\<close>, \<open>jobrunner_crd.go\<close>, \<open>hostreservation_crd.go\<close> and \<open>job_scheduler.go\<close> share is one record; each
    handler and each phase of the scheduler is one function on it. Work schedules, reservations, what a
    scheduling pass may start. The locale \<open>timeout_check\<close> holds the common shape of the three timeout loops
    and has three interpretations.

  \<^item> \<open>JobTick\<close>: what a whole cycle does to one job and when it switches a host off.

  \<^item> \<open>JobLife\<close>: the subsystem as a step relation; a job's phase only moves forward in any history, work is
    handed out once, and every active job ends: the first cycle after its timeout finishes it.

  \<^item> \<open>JobStore\<close>: memory and bucket agree after any sequence of requests on a healthy store, and a restart
    restores the jobs.

  \<^item> \<open>BmcControl\<close>: \<open>pkg/bmc\<close>. The event loop, its handlers and the goroutines that wait for a DHCP lease, as an
    interleaving; the controllers of machines are the locale \<open>bmc_laws\<close>, interpreted on the test double of
    the program. The invariant of the controller, and what a superseded watcher does to its successor.

  \<^item> \<open>Hosts\<close>: the handlers of \<open>baremetalhost.go\<close>, \<open>bmc_integration.go\<close> and \<open>bootconfig_crd.go\<close>, and the requests
    of a machine that boots over iPXE.

  \<^item> \<open>HostSync\<close>: requests on hosts against a map from network and MAC address to DHCP reservation, which they
    refine; what an update leaves on the networks; the consistency of the tables in every history; an
    install image is served once.

  \<^item> \<open>Cluster\<close>: \<open>pkg/cluster\<close>, two nodes with their buckets, the channels between them and the full
    resynchronisation. The locale \<open>payload_walk\<close> holds what importing a payload does to every key and is
    interpreted for the two directions. Convergence, crossing writes, values that are not JSON.

  \<^item> \<open>Deployments\<close>: \<open>pkg/provider/deployment.go\<close> with the operations on the pod table it calls. A cycle gives a
    deployment exactly its replicas; a rolling update stops with at most one pod missing; on two nodes the
    placement is contradictory; which replicas share the name of an interface.

  \<^item> \<open>DiskImg\<close>: \<open>pkg/diskimg\<close>, the converters from QCOW2, VHD and VMDK to raw images, on byte lists.

  \<^item> \<open>DiskConv\<close>, \<open>Qcow2Conv\<close>, \<open>VmdkStream\<close>: the converters against what a guest reads according to the
    format. The locale \<open>block_copy\<close> holds the argument once (a walk over the tables that copies block by
    block into zeros gives the disk) and is interpreted for the three formats; streamOptimized files are
    decoded back to what was encoded, except that the first grain table marker ends the conversion.

  \<^item> \<open>Iso9660\<close>: \<open>pkg/provider/iso9660.go\<close>, reading and patching ISO images on byte lists: a replaced file
    reads back, the record of an added file parses back, and what else a deletion hides.

  The theorems whose comment carries a number are the properties the library is about; the theorems and
  lemmas without one support them or show a defect.

  \<^bold>\<open>Decisions of the model.\<close> A handler that holds a lock, and a request handler or scheduler cycle as a
  whole, is one atomic step; interleaving inside a call is modelled where the code releases its lock and
  it matters (\<open>PodWorker\<close>, \<open>JobLogs\<close>, \<open>BmcControl\<close>). A handler reads the clock once, as its argument \<open>now\<close> or a
  field of its environment. The iteration order of a Go map is the order of the association list; results
  that depend on it are stated for every order. Request bodies are decoded values, responses are values of a
  sum type with the status code. Pointers into tables are keys. Time stamps are the strings the code writes,
  with the conversions as a record of functions (\<open>tz_env\<close>). Writes to a bucket succeed or fail as the state
  or the environment says. The container runtime, the network, the machines and the decompressor are
  arguments about which nothing is assumed, except for the laws of \<open>bmc_laws\<close>, and that the round trip of
  streamOptimized files takes a compressor that the decompressor inverts. \<open>CreatePod\<close> is modelled from the
  point at which the containers exist; what happened before is an outcome in the environment.

  \<^bold>\<open>Loops.\<close> Most loops are recursions over the data. The depth-first search of \<open>BootSequence\<close> takes as fuel
  one more than the number of units, and the theorem on the boot order shows that every unit is returned, so
  it is enough. The search of \<open>Allocate\<close> in \<open>Vmid\<close> takes as fuel one more than the number of used
  identifiers, and its theorem shows that it ends with an answer. The loops over the markers of a
  streamOptimized file, over the records of an ISO directory and over its free space terminate because every
  turn moves the offset forward.

  \<^bold>\<open>Not modelled.\<close> Watch streams, tables for \<open>kubectl\<close>, consistency reports and logging, which only read;
  the work of \<open>provider.go\<close> on containers, mounts, images and volumes, the CRDs of storage and networks, the
  registry and the storage manager, whose substance is calls to external services or files; the clients of
  these services (\<open>pkg/routeros\<close>, \<open>pkg/proxmox/client.go\<close>, \<open>pkg/dns\<close>, \<open>pkg/stormbase\<close>, \<open>pkg/store\<close> on NATS); namespaces
  and zones, which register records with a DNS server; HTTP routing, JSON and YAML decoding; the HTML
  console; the entry points under \<open>cmd/\<close>.
\<close>

end
